(* ===== verification/Prelude.thy ===== *)
theory Prelude
  imports Main "HOL-Library.Monad_Syntax" "HOL-Library.Word"
begin

text \<open>
  Shared by every component: the names of the machine-level types, the checked array
  accesses that turn an access outside an array into \<open>None\<close>, the intrusive free chain
  (an array whose entries hold the index of the next free entry) with its contract
  \<open>id_pool\<close>, and the lemma collections the component proofs use.

  Convention. An operation that can stop the program (a call of \<open>panic()\<close> or of the
  kernel debugger, or an access through a pointer or an index that is not valid) returns
  an \<open>option\<close>, and \<open>None\<close> means that the program stopped there. Error codes that the
  code returns to its caller are ordinary values.
\<close>

type_synonym addr = nat    \<comment> \<open>an address; 0 is NULL\<close>
type_synonym u8 = "8 word"
type_synonym u32 = "32 word"

named_theorems inv_simps \<open>unfolding of component invariants\<close>
named_theorems op_defs \<open>definitions of straight-line operations\<close>

section \<open>Checked array access\<close>

definition list_get :: "'a list \<Rightarrow> nat \<Rightarrow> 'a option" where
  "list_get xs i = (if i < length xs then Some (xs ! i) else None)"

definition list_put :: "'a list \<Rightarrow> nat \<Rightarrow> 'a \<Rightarrow> 'a list option" where
  "list_put xs i x = (if i < length xs then Some (xs[i := x]) else None)"

lemma list_get_Some [simp]: "list_get xs i = Some x \<longleftrightarrow> i < length xs \<and> x = xs ! i"
  by (auto simp: list_get_def)

lemma list_put_Some [simp]: "list_put xs i x = Some ys \<longleftrightarrow> i < length xs \<and> ys = xs[i := x]"
  by (auto simp: list_put_def)

lemma list_get_None [simp]: "list_get xs i = None \<longleftrightarrow> length xs \<le> i"
  by (auto simp: list_get_def)

lemma list_put_None [simp]: "list_put xs i x = None \<longleftrightarrow> length xs \<le> i"
  by (auto simp: list_put_def)

lemma list_get_in [simp]: "i < length xs \<Longrightarrow> list_get xs i = Some (xs ! i)"
  by simp

lemma list_put_in [simp]: "i < length xs \<Longrightarrow> list_put xs i x = Some (xs[i := x])"
  by simp

lemma bind_SomeE:
  assumes "Option.bind m f = Some y"
  obtains x where "m = Some x" and "f x = Some y"
  using assms by (cases m) auto

lemmas bind_Some_conv = Option.bind_eq_Some_conv

section \<open>Signed 32-bit arithmetic\<close>

text \<open>The value a C \<open>int\<close> holds after a two's complement wrap-around.\<close>

definition s32 :: "int \<Rightarrow> int" where
  "s32 n = (n + 2147483648) mod 4294967296 - 2147483648"

lemma s32_id: "- 2147483648 \<le> n \<Longrightarrow> n < 2147483648 \<Longrightarrow> s32 n = n"
  by (simp add: s32_def)

lemma s32_range: "- 2147483648 \<le> s32 n \<and> s32 n < 2147483648"
  by (simp add: s32_def)

section \<open>Free chains through an array\<close>

text \<open>
  \<open>chain xs i is\<close>: following the entries of \<open>xs\<close> from index \<open>i\<close> visits exactly the
  indices \<open>is\<close> and ends at 0, which is the terminator and never an entry.
\<close>

primrec chain :: "nat list \<Rightarrow> nat \<Rightarrow> nat list \<Rightarrow> bool" where
  "chain xs i [] \<longleftrightarrow> i = 0"
| "chain xs i (j # js) \<longleftrightarrow> i = j \<and> j \<noteq> 0 \<and> j < length xs \<and> chain xs (xs ! j) js"

lemma chain_unique: "chain xs i js \<Longrightarrow> chain xs i ks \<Longrightarrow> js = ks"
proof (induction js arbitrary: i ks)
  case Nil
  then show ?case by (cases ks) auto
next
  case (Cons j js)
  then show ?case by (cases ks) auto
qed

lemma chain_suffix: "chain xs i (js @ k # ks) \<Longrightarrow> chain xs k (k # ks)"
  by (induction js arbitrary: i) auto

lemma chain_distinct: "chain xs i js \<Longrightarrow> distinct js"
proof (induction js arbitrary: i)
  case Nil
  then show ?case by simp
next
  case (Cons j js)
  have "j \<notin> set js"
  proof
    assume "j \<in> set js"
    then obtain as bs where js: "js = as @ j # bs" by (auto simp: in_set_conv_decomp)
    from Cons.prems have "chain xs (xs ! j) (as @ j # bs)" by (simp add: js)
    then have "chain xs j (j # bs)" by (rule chain_suffix)
    then have "bs = js"
      using Cons.prems by (auto intro: chain_unique)
    then show False by (simp add: js)
  qed
  with Cons show ?case by auto
qed

lemma chain_range: "chain xs i js \<Longrightarrow> j \<in> set js \<Longrightarrow> j \<noteq> 0 \<and> j < length xs"
  by (induction js arbitrary: i) auto

lemma chain_update [simp]: "k \<notin> set js \<Longrightarrow> chain (xs[k := v]) i js = chain xs i js"
proof (induction js arbitrary: i)
  case (Cons j js)
  then show ?case by (cases "j = k") auto
qed simp

lemma chain_push:
  "chain xs i js \<Longrightarrow> k \<notin> set js \<Longrightarrow> k \<noteq> 0 \<Longrightarrow> k < length xs \<Longrightarrow> chain (xs[k := i]) k (k # js)"
  by simp

section \<open>The contract of a free pool of small numbers\<close>

text \<open>
  Two parts of the kernel keep their free numbers on such a chain: the physical page
  frames (\<open>memory.c\<close>) and the resource ids (\<open>resource.c\<close>). What their clients rely on
  is the same: a number that is taken was free, is no longer free afterwards, and a
  number that is given back is the next one to be taken.
\<close>

locale id_pool =
  fixes take_id :: "'s \<Rightarrow> (nat \<times> 's) option"
    and give_id :: "nat \<Rightarrow> 's \<Rightarrow> 's option"
    and pool :: "'s \<Rightarrow> nat list \<Rightarrow> bool"
    and id_ok :: "'s \<Rightarrow> nat \<Rightarrow> bool"
  assumes take_Nil: "pool s [] \<Longrightarrow> take_id s = None"
    and take_Cons: "pool s (i # is) \<Longrightarrow> \<exists>s'. take_id s = Some (i, s') \<and> pool s' is"
    and take_id_ok: "take_id s = Some (i, s') \<Longrightarrow> id_ok s' j = id_ok s j"
    and give_push: "pool s is \<Longrightarrow> id_ok s i \<Longrightarrow> i \<notin> set is \<Longrightarrow>
          \<exists>s'. give_id i s = Some s' \<and> pool s' (i # is)"
    and pool_distinct: "pool s is \<Longrightarrow> distinct is"
    and pool_ok: "pool s is \<Longrightarrow> i \<in> set is \<Longrightarrow> id_ok s i"
begin

lemma take_SomeD:
  assumes "pool s is" and "take_id s = Some (i, s')"
  shows "\<exists>js. is = i # js \<and> pool s' js"
  using assms take_Nil[of s] take_Cons[of s] by (cases "is") fastforce+

lemma taken_not_free:
  assumes "pool s is" and "take_id s = Some (i, s')"
  shows "i \<in> set is \<and> (\<exists>js. pool s' js \<and> i \<notin> set js \<and> set is = insert i (set js))"
  using take_SomeD[OF assms] pool_distinct[OF assms(1)] by auto

lemma give_then_take:
  assumes "pool s is" and "id_ok s i" and "i \<notin> set is" and "give_id i s = Some s'"
  shows "\<exists>s''. take_id s' = Some (i, s'') \<and> pool s'' is"
  using give_push[OF assms(1-3)] assms(4) take_Cons by auto

lemma take_then_give:
  assumes "pool s is" and "take_id s = Some (i, s')"
  shows "\<exists>s''. give_id i s' = Some s'' \<and> pool s'' is"
proof -
  from take_SomeD[OF assms] obtain js where js: "is = i # js" "pool s' js" by auto
  have "i \<notin> set js" using pool_distinct[OF assms(1)] js(1) by simp
  moreover have "id_ok s' i" using take_id_ok[OF assms(2)] pool_ok[OF assms(1)] js(1) by simp
  ultimately show ?thesis using give_push[OF js(2)] js(1) by simp
qed

end

end
