(* ===== verification/KMemory.thy ===== *)
theory KMemory
  imports Prelude
begin

text \<open>
  The kernel allocators of \<open>openblt/kernel/memory.c\<close>: physical page frames (\<open>getpage\<close>,
  \<open>putpage\<close>, a free chain through \<open>pagelist\<close>), kernel virtual pages (\<open>kgetpage\<close>,
  \<open>kgetpages\<close>, \<open>kfreepage\<close>, \<open>kmappages\<close>) and the seven block pools behind
  \<open>kmalloc\<close> (\<open>kmallocB\<close>, \<open>kmallocP\<close>, \<open>kfreeB\<close>, \<open>kfreeP\<close>).

  The chains that the code keeps inside free memory (\<open>km_free_chain\<close>, \<open>freevpagelist\<close>)
  are lists here, their head first; the page chain is kept in the array as in the code.
  \<open>None\<close> stands for \<open>panic()\<close>, for an entry of the kernel debugger and for an access
  outside an array. Addresses are natural numbers: the kernel heap grows down from
  0x803FC000 and the check in \<open>kgetpage\<close> stops it long before zero.
\<close>

section \<open>State\<close>

record km_pool =
  km_size :: nat
  km_used_count :: int
  km_fresh_count :: int
  km_free_count :: int
  km_free_chain :: "addr list"
  km_fresh_chain :: addr

record kmem =
  km_map :: "km_pool list"
  nextmem :: addr
  freevpagelist :: "(addr \<times> addr) list"   \<comment> \<open>the \<open>node_t\<close> block and the page it carries\<close>
  pagelist :: "nat list"
  freepage :: nat
  total_pages :: int
  used_pages :: int
  flat_high :: "nat list"                  \<comment> \<open>\<open>flat->high\<close>, 1024 page table entries\<close>

abbreviation (input) "KM16 \<equiv> (0::nat)"
abbreviation (input) "KM32 \<equiv> (1::nat)"
abbreviation (input) "KM64 \<equiv> (2::nat)"
abbreviation (input) "KM96 \<equiv> (3::nat)"
abbreviation (input) "KM128 \<equiv> (4::nat)"
abbreviation (input) "KM192 \<equiv> (5::nat)"
abbreviation (input) "KM256 \<equiv> (6::nat)"
abbreviation (input) "KMMAX \<equiv> (7::nat)"

text \<open>The last 256 entries of the table have no initialiser, so C sets them to zero.\<close>

definition size_map :: "nat list" where
  "size_map = [KM16] @ replicate 16 KM16 @ replicate 16 KM32 @ replicate 32 KM64
     @ replicate 32 KM96 @ replicate 32 KM128 @ replicate 64 KM192 @ replicate 64 KM256
     @ replicate 256 KM16"

definition km_pool0 :: "nat \<Rightarrow> int \<Rightarrow> km_pool" where
  "km_pool0 sz fresh = \<lparr>km_size = sz, km_used_count = 0, km_fresh_count = fresh,
     km_free_count = 0, km_free_chain = [], km_fresh_chain = 0\<rparr>"

definition km_map0 :: "km_pool list" where
  "km_map0 = [km_pool0 16 256, km_pool0 32 128, km_pool0 64 64, km_pool0 96 42,
     km_pool0 128 32, km_pool0 192 21, km_pool0 256 16]"

section \<open>Operations\<close>

text \<open>\<open>aspace_maphi\<close> of \<open>aspace.c\<close>, on the kernel's own high page table.\<close>

fun aspace_maphi :: "nat \<Rightarrow> nat \<Rightarrow> nat \<Rightarrow> nat \<Rightarrow> kmem \<Rightarrow> kmem option" where
  "aspace_maphi phys virt 0 flags m = Some m"
| "aspace_maphi phys virt (Suc len) flags m = do {
     m \<leftarrow> aspace_maphi phys virt len flags m;
     h \<leftarrow> list_put (flat_high m) (virt mod 1024 + len) (or ((phys + len) * 4096) flags);
     Some (m\<lparr>flat_high := h\<rparr>) }"

definition putpage :: "nat \<Rightarrow> kmem \<Rightarrow> kmem option" where
  "putpage number m = do {
     pl \<leftarrow> list_put (pagelist m) number (freepage m);
     Some (m\<lparr>pagelist := pl, freepage := number, used_pages := used_pages m - 1\<rparr>) }"

definition getpage :: "kmem \<Rightarrow> (nat \<times> kmem) option" where
  "getpage m =
     (if freepage m \<noteq> 0 then do {
        nx \<leftarrow> list_get (pagelist m) (freepage m);
        Some (freepage m, m\<lparr>freepage := nx, used_pages := used_pages m + 1\<rparr>) }
      else None)"

definition kfreeP :: "nat \<Rightarrow> addr \<Rightarrow> kmem \<Rightarrow> kmem option" where
  "kfreeP pool block m = (if KMMAX < pool then None else do {
     km \<leftarrow> list_get (km_map m) pool;
     mp \<leftarrow> list_put (km_map m) pool
       (km\<lparr>km_free_count := km_free_count km + 1, km_used_count := km_used_count km - 1,
           km_free_chain := block # km_free_chain km\<rparr>);
     Some (m\<lparr>km_map := mp\<rparr>) })"

definition kfreeB :: "nat \<Rightarrow> addr \<Rightarrow> kmem \<Rightarrow> kmem option" where
  "kfreeB sz block m =
     (if sz < 256 then kfreeP (size_map ! sz) block m else None)"

definition kgetpage :: "kmem \<Rightarrow> (addr \<times> nat \<times> kmem) option" where
  "kgetpage m = do {
     (pg, m) \<leftarrow> getpage m;
     if nextmem m < 0x80050000 then None
     else (case freevpagelist m of
         (n, page) # rest \<Rightarrow> do {
           m \<leftarrow> kfreeB 12 n (m\<lparr>freevpagelist := rest\<rparr>);
           e \<leftarrow> list_get (flat_high m) (page div 0x1000 mod 1024);
           if e \<noteq> 0 then None
           else do {
             m \<leftarrow> aspace_maphi pg (page div 0x1000) 1 3 m;
             Some (page, pg * 0x1000, m) } }
       | [] \<Rightarrow> do {
           m \<leftarrow> aspace_maphi pg ((nextmem m - 4096) div 0x1000) 1 3
                  (m\<lparr>nextmem := nextmem m - 4096\<rparr>);
           Some (nextmem m, pg * 0x1000, m) }) }"

text \<open>The loop of \<open>kgetpages\<close>: one frame per page, mapped at increasing addresses.\<close>

fun kgetpages_loop :: "nat \<Rightarrow> nat \<Rightarrow> kmem \<Rightarrow> kmem option" where
  "kgetpages_loop n 0 m = Some m"
| "kgetpages_loop n (Suc count) m = do {
     (pg, m) \<leftarrow> getpage m;
     m \<leftarrow> aspace_maphi pg n 1 3 m;
     kgetpages_loop (n + 1) count m }"

definition kgetpages :: "nat \<Rightarrow> kmem \<Rightarrow> (addr \<times> kmem) option" where
  "kgetpages count m =
     (if count = 1 then do { (page, phys, m) \<leftarrow> kgetpage m; Some (page, m) }
      else do {
        m \<leftarrow> kgetpages_loop ((nextmem m - 4096 * count) div 0x1000) count
               (m\<lparr>nextmem := nextmem m - 4096 * count\<rparr>);
        Some (nextmem m, m) })"

definition kmappages :: "nat \<Rightarrow> nat \<Rightarrow> nat \<Rightarrow> kmem \<Rightarrow> (addr \<times> kmem) option" where
  "kmappages phys count flags m = do {
     m \<leftarrow> aspace_maphi phys ((nextmem m - 4096 * count) div 0x1000) count flags
            (m\<lparr>nextmem := nextmem m - 4096 * count\<rparr>);
     Some (nextmem m, m) }"

definition kmallocP :: "nat \<Rightarrow> kmem \<Rightarrow> (addr \<times> kmem) option" where
  "kmallocP pool m = (if KMMAX \<le> pool then None else do {
     km \<leftarrow> list_get (km_map m) pool;
     let km = km\<lparr>km_used_count := km_used_count km + 1\<rparr>;
     (case km_free_chain km of
        block # rest \<Rightarrow> do {
          mp \<leftarrow> list_put (km_map m) pool
            (km\<lparr>km_free_count := km_free_count km - 1, km_free_chain := rest\<rparr>);
          Some (block, m\<lparr>km_map := mp\<rparr>) }
      | [] \<Rightarrow> (let km = km\<lparr>km_fresh_count := km_fresh_count km - 1\<rparr>;
                  block = km_fresh_chain km in
          if km_fresh_count km \<noteq> 0 then do {
            mp \<leftarrow> list_put (km_map m) pool
              (km\<lparr>km_fresh_chain := km_fresh_chain km + km_size km\<rparr>);
            Some (block, m\<lparr>km_map := mp\<rparr>) }
          else do {
            mp \<leftarrow> list_put (km_map m) pool
              (km\<lparr>km_fresh_count := int (4096 div km_size km)\<rparr>);
            (page, m) \<leftarrow> kgetpages 1 (m\<lparr>km_map := mp\<rparr>);
            km \<leftarrow> list_get (km_map m) pool;
            mp \<leftarrow> list_put (km_map m) pool (km\<lparr>km_fresh_chain := page\<rparr>);
            Some (block, m\<lparr>km_map := mp\<rparr>) })) })"

definition kmallocB :: "nat \<Rightarrow> kmem \<Rightarrow> (addr \<times> kmem) option" where
  "kmallocB sz m = (if sz < 256 then kmallocP (size_map ! sz) m else None)"

definition kfreepage :: "addr \<Rightarrow> kmem \<Rightarrow> kmem option" where
  "kfreepage vaddr m = (let vpage = vaddr div 0x1000 mod 1024 in do {
     e \<leftarrow> list_get (flat_high m) vpage;
     if e = 0 then None
     else do {
       m \<leftarrow> putpage (e div 0x1000) m;
       h \<leftarrow> list_put (flat_high m) vpage 0;
       (n, m) \<leftarrow> kmallocB 12 (m\<lparr>flat_high := h\<rparr>);
       Some (m\<lparr>freevpagelist := (n, vaddr) # freevpagelist m\<rparr>) } })"

text \<open>
  The two loops of \<open>memory_init\<close>. The first counts \<open>i\<close> down from \<open>top_page\<close>; with
  \<open>bottom_page = 0\<close> its unsigned comparison never fails and it runs off the array.
\<close>

function init_pagelist :: "nat \<Rightarrow> nat \<Rightarrow> kmem \<Rightarrow> kmem option" where
  "init_pagelist i bottom_page m =
     (if i < bottom_page then Some m
      else do {
        pl \<leftarrow> list_put (pagelist m) i (freepage m);
        (if i = 0 then None
         else init_pagelist (i - 1) bottom_page
           (m\<lparr>total_pages := total_pages m + 1, pagelist := pl, freepage := i\<rparr>)) })"
  by pat_completeness auto
termination
  by (relation "measure (\<lambda>(i, b, m). i)") auto

fun init_pools :: "nat \<Rightarrow> nat \<Rightarrow> kmem \<Rightarrow> kmem option" where
  "init_pools i 0 m = Some m"
| "init_pools i (Suc n) m = do {
     (page, m) \<leftarrow> kgetpages 1 m;
     km \<leftarrow> list_get (km_map m) i;
     mp \<leftarrow> list_put (km_map m) i (km\<lparr>km_fresh_chain := page\<rparr>);
     init_pools (i + 1) n (m\<lparr>km_map := mp\<rparr>) }"

text \<open>
  \<open>memory_init\<close>; \<open>junk\<close> is what the frames that become the page list held before.
\<close>

definition memory_init :: "(nat \<Rightarrow> nat) \<Rightarrow> nat \<Rightarrow> nat \<Rightarrow> kmem \<Rightarrow> kmem option" where
  "memory_init junk bottom_page top_page m = (
     let count = (top_page - bottom_page) div 1024 + 1;
         top_page = top_page - count;
         m = m\<lparr>total_pages := 0, used_pages := 0, nextmem := nextmem m - 4096 * count\<rparr>;
         m = m\<lparr>pagelist := map junk [0..<1024 * count]\<rparr> in do {
     m \<leftarrow> aspace_maphi top_page (nextmem m div 0x1000) count 3 m;
     m \<leftarrow> init_pagelist top_page bottom_page (m\<lparr>freepage := 0\<rparr>);
     init_pools 0 KMMAX m })"

text \<open>The state the kernel image starts with, before \<open>memory_init\<close>.\<close>

definition kmem0 :: "nat list \<Rightarrow> kmem" where
  "kmem0 high = \<lparr>km_map = km_map0, nextmem = 0x80400000 - 4 * 4096, freevpagelist = [],
     pagelist = [], freepage = 0, total_pages = 0, used_pages = 0, flat_high = high\<rparr>"


section \<open>Page frames\<close>

definition page_pool :: "kmem \<Rightarrow> nat list \<Rightarrow> bool" where
  "page_pool m is \<longleftrightarrow> chain (pagelist m) (freepage m) is"

definition page_ok :: "kmem \<Rightarrow> nat \<Rightarrow> bool" where
  "page_ok m i \<longleftrightarrow> i \<noteq> 0 \<and> i < length (pagelist m)"

interpretation pages: id_pool getpage putpage page_pool page_ok
proof (unfold_locales, goal_cases)
  case (1 s)
  then show ?case by (simp add: page_pool_def getpage_def)
next
  case (2 s i "is")
  then show ?case by (auto simp: page_pool_def getpage_def)
next
  case (3 s i s' j)
  then show ?case by (auto simp: page_ok_def getpage_def bind_Some_conv split: if_splits)
next
  case (4 s "is" i)
  then show ?case by (auto simp: page_pool_def page_ok_def putpage_def)
next
  case (5 s "is")
  then show ?case by (auto simp: page_pool_def intro: chain_distinct)
next
  case (6 s "is" i)
  then show ?case by (auto simp: page_pool_def page_ok_def dest: chain_range)
qed

lemma getpage_keeps:
  "getpage m = Some (pg, m') \<Longrightarrow> km_map m' = km_map m \<and> nextmem m' = nextmem m
     \<and> freevpagelist m' = freevpagelist m \<and> flat_high m' = flat_high m
     \<and> pagelist m' = pagelist m"
  by (auto simp: getpage_def bind_Some_conv split: if_splits)

lemma putpage_keeps:
  "putpage pg m = Some m' \<Longrightarrow> km_map m' = km_map m \<and> nextmem m' = nextmem m
     \<and> freevpagelist m' = freevpagelist m \<and> flat_high m' = flat_high m"
  by (auto simp: putpage_def bind_Some_conv)

lemma aspace_maphi_keeps:
  "aspace_maphi p v len fl m = Some m' \<Longrightarrow> km_map m' = km_map m \<and> nextmem m' = nextmem m
     \<and> freevpagelist m' = freevpagelist m \<and> pagelist m' = pagelist m \<and> freepage m' = freepage m
     \<and> used_pages m' = used_pages m \<and> length (flat_high m') = length (flat_high m)"
  by (induction len arbitrary: m') (fastforce simp: bind_Some_conv)+

section \<open>Block pools\<close>

definition pool_size :: "nat \<Rightarrow> nat" where
  "pool_size k = [16, 32, 64, 96, 128, 192, 256] ! k"

text \<open>The blocks that fit into the pages \<open>ps\<close> of pool \<open>k\<close>.\<close>

definition pool_blocks :: "nat \<Rightarrow> addr set \<Rightarrow> addr set" where
  "pool_blocks k ps = {p + i * pool_size k |p i. p \<in> ps \<and> i < 4096 div pool_size k}"

definition fresh_set :: "km_pool \<Rightarrow> addr set" where
  "fresh_set km = {km_fresh_chain km + j * km_size km |j. int j < km_fresh_count km}"

text \<open>The rest of the current page of the pool has not been cut yet.\<close>

definition fresh_ok :: "nat \<Rightarrow> km_pool \<Rightarrow> addr set \<Rightarrow> bool" where
  "fresh_ok k km ps \<longleftrightarrow> (\<exists>p i. p \<in> ps \<and> i < 4096 div pool_size k \<and>
     km_fresh_chain km = p + i * pool_size k \<and>
     km_fresh_count km = int (4096 div pool_size k - i))"

text \<open>Free, live and uncut blocks of a pool are disjoint sets of blocks of its pages.\<close>

definition pool_core :: "nat \<Rightarrow> km_pool \<Rightarrow> addr set \<Rightarrow> addr set \<Rightarrow> addr set \<Rightarrow> bool" where
  "pool_core k km ps live fresh \<longleftrightarrow> km_size km = pool_size k \<and> distinct (km_free_chain km) \<and>
     set (km_free_chain km) \<subseteq> pool_blocks k ps \<and> live \<subseteq> pool_blocks k ps \<and>
     fresh \<subseteq> pool_blocks k ps \<and> set (km_free_chain km) \<inter> live = {} \<and>
     fresh \<inter> (set (km_free_chain km) \<union> live) = {}"

text \<open>
  The pages: \<open>PP k\<close> belong to pool \<open>k\<close>, \<open>G\<close> are the pages that \<open>kgetpage\<close> handed to
  other clients, and the ones on \<open>freevpagelist\<close> are unused.
\<close>

definition pages_inv :: "kmem \<Rightarrow> (nat \<Rightarrow> addr set) \<Rightarrow> addr set \<Rightarrow> bool" where
  "pages_inv m PP G \<longleftrightarrow> 4096 dvd nextmem m \<and> distinct (map snd (freevpagelist m)) \<and>
     (\<forall>j k. j \<noteq> k \<longrightarrow> PP j \<inter> PP k = {}) \<and> (\<forall>k. PP k \<inter> G = {}) \<and>
     (\<forall>k. PP k \<inter> snd ` set (freevpagelist m) = {}) \<and> G \<inter> snd ` set (freevpagelist m) = {} \<and>
     (\<forall>p \<in> (\<Union>k. PP k) \<union> G \<union> snd ` set (freevpagelist m). 4096 dvd p \<and> nextmem m \<le> p)"

text \<open>\<open>freevpagelist\<close> carries its pages in blocks of the 16-byte pool.\<close>

definition live_blocks :: "kmem \<Rightarrow> (nat \<Rightarrow> addr set) \<Rightarrow> nat \<Rightarrow> addr set" where
  "live_blocks m L k = (if k = KM16 then L k \<union> fst ` set (freevpagelist m) else L k)"

definition kcore :: "kmem \<Rightarrow> (nat \<Rightarrow> addr set) \<Rightarrow> (nat \<Rightarrow> addr set) \<Rightarrow> (nat \<Rightarrow> addr set)
    \<Rightarrow> addr set \<Rightarrow> bool" where
  "kcore m PP L F G \<longleftrightarrow> length (km_map m) = KMMAX \<and>
     (\<forall>k < KMMAX. pool_core k (km_map m ! k) (PP k) (live_blocks m L k) (F k)) \<and>
     distinct (map fst (freevpagelist m)) \<and> L KM16 \<inter> fst ` set (freevpagelist m) = {} \<and>
     pages_inv m PP G"

definition kmem_inv :: "kmem \<Rightarrow> (nat \<Rightarrow> addr set) \<Rightarrow> (nat \<Rightarrow> addr set) \<Rightarrow> addr set \<Rightarrow> bool" where
  "kmem_inv m PP L G \<longleftrightarrow> kcore m PP L (\<lambda>k. fresh_set (km_map m ! k)) G \<and>
     (\<forall>k < KMMAX. fresh_ok k (km_map m ! k) (PP k))"

lemma pool_size_pos: "k < KMMAX \<Longrightarrow> 16 \<le> pool_size k \<and> pool_size k \<le> 256"
  by (auto simp: pool_size_def less_Suc_eq numeral_eq_Suc)

lemma pool_blocks_mono: "ps \<subseteq> qs \<Longrightarrow> pool_blocks k ps \<subseteq> pool_blocks k qs"
  by (auto simp: pool_blocks_def)

lemma pool_core_mono: "pool_core k km ps live fresh \<Longrightarrow> ps \<subseteq> qs \<Longrightarrow> pool_core k km qs live fresh"
  using pool_blocks_mono[of ps qs k] unfolding pool_core_def by blast

text \<open>What \<open>kgetpage\<close> does to the allocator: the page comes off \<open>freevpagelist\<close>, whose
  carrier block goes back to its pool, or it is the next page below the heap.\<close>

lemma kgetpage_cases:
  assumes "kgetpage m = Some (page, phys, m')"
  obtains (fresh) "freevpagelist m = []" "freevpagelist m' = []" "km_map m' = km_map m"
      "page = nextmem m'" "nextmem m' = nextmem m - 4096" "0x80050000 \<le> nextmem m"
    | (reuse) n rest km where "freevpagelist m = (n, page) # rest" "freevpagelist m' = rest"
      "nextmem m' = nextmem m" "km_map m \<noteq> []" "km = km_map m ! KM16"
      "km_map m' = (km_map m)[KM16 := km\<lparr>km_free_count := km_free_count km + 1,
         km_used_count := km_used_count km - 1, km_free_chain := n # km_free_chain km\<rparr>]"
proof -
  from assms obtain pg m1 where g: "getpage m = Some (pg, m1)" and nm: "0x80050000 \<le> nextmem m1"
    by (auto simp: kgetpage_def bind_Some_conv split: if_splits)
  note keep = getpage_keeps[OF g]
  show thesis
  proof (cases "freevpagelist m1")
    case Nil
    with assms g nm keep show thesis
      by (intro fresh) (auto simp: kgetpage_def bind_Some_conv dest!: aspace_maphi_keeps)
  next
    case (Cons a rest)
    obtain n p where a: "a = (n, p)" by force
    from assms g nm Cons a obtain m2 m3 where
      k2: "kfreeB 12 n (m1\<lparr>freevpagelist := rest\<rparr>) = Some m2" and
      m3: "aspace_maphi pg (p div 0x1000) 1 3 m2 = Some m3" "m' = m3" "page = p"
      by (auto simp: kgetpage_def bind_Some_conv split: if_splits)
    have sm: "size_map ! 12 = KM16" by (simp add: size_map_def nth_append)
    show thesis
      using k2 m3 keep Cons a sm
      by (intro reuse[of n rest "km_map m ! KM16"])
         (auto simp: kfreeB_def kfreeP_def bind_Some_conv dest!: aspace_maphi_keeps)
  qed
qed

lemma pages_inv_fresh:
  assumes "pages_inv m PP G" and "freevpagelist m = []" and "freevpagelist m' = []"
    and "nextmem m' = nextmem m - 4096" and "4096 \<le> nextmem m"
  shows "pages_inv m' PP (insert (nextmem m') G) \<and> nextmem m' \<notin> G \<and> (\<forall>k. nextmem m' \<notin> PP k)"
proof -
  have lt: "nextmem m' < nextmem m" and le: "nextmem m' \<le> nextmem m" using assms(4,5) by auto
  have low: "\<And>p. p \<in> (\<Union>k. PP k) \<union> G \<Longrightarrow> 4096 dvd p \<and> nextmem m \<le> p" and nm: "4096 dvd nextmem m"
    using assms(1,2) by (auto simp: pages_inv_def)
  have nG: "nextmem m' \<notin> G" using low lt by (metis UnCI leD)
  have nP: "nextmem m' \<notin> PP k" for k using low[of "nextmem m'"] lt by auto
  have al: "4096 dvd nextmem m'" using nm assms(4,5) by (metis dvd_diff_nat dvd_refl)
  have "\<forall>p \<in> (\<Union>k. PP k) \<union> insert (nextmem m') G. 4096 dvd p \<and> nextmem m' \<le> p"
    using low al le by (auto intro: le_trans)
  with assms(1-3) nG nP al show ?thesis by (auto simp: pages_inv_def)
qed

lemma pages_inv_reuse:
  assumes "pages_inv m PP G" and "freevpagelist m = (n, page) # rest"
    and "freevpagelist m' = rest" and "nextmem m' = nextmem m"
  shows "pages_inv m' PP (insert page G) \<and> page \<notin> G \<and> (\<forall>k. page \<notin> PP k)"
  using assms by (auto simp: pages_inv_def)

lemma kcore_pool:
  "kcore m PP L F G \<Longrightarrow> k < KMMAX \<Longrightarrow>
     pool_core k (km_map m ! k) (PP k) (live_blocks m L k) (F k)"
  by (simp add: kcore_def)

lemma kgetpage_kcore:
  assumes "kcore m PP L F G" and "kgetpage m = Some (page, phys, m')"
  shows "kcore m' PP L F (insert page G) \<and> page \<notin> G \<and> (\<forall>k. page \<notin> PP k) \<and>
     (\<forall>k < KMMAX. km_fresh_chain (km_map m' ! k) = km_fresh_chain (km_map m ! k) \<and>
        km_fresh_count (km_map m' ! k) = km_fresh_count (km_map m ! k) \<and>
        km_size (km_map m' ! k) = km_size (km_map m ! k))"
  using assms(2)
proof (cases rule: kgetpage_cases)
  case fresh
  have "live_blocks m' L = live_blocks m L" using fresh by (simp add: live_blocks_def fun_eq_iff)
  with fresh show ?thesis
    using assms(1) pages_inv_fresh[of m PP G m'] by (auto simp: kcore_def)
next
  case (reuse n rest km)
  have pg: "pages_inv m' PP (insert page G) \<and> page \<notin> G \<and> (\<forall>k. page \<notin> PP k)"
    using pages_inv_reuse[of m PP G n page rest m'] assms(1) reuse by (auto simp: kcore_def)
  have core0: "pool_core 0 km (PP 0) (L 0 \<union> insert n (fst ` set rest)) (F 0)"
    and n: "n \<notin> fst ` set rest" "n \<notin> L 0" and len: "length (km_map m) = 7"
    using kcore_pool[OF assms(1), of KM16] assms(1) reuse
    by (auto simp: kcore_def live_blocks_def)
  have "pool_core k (km_map m' ! k) (PP k) (live_blocks m' L k) (F k)" if k: "k < 7" for k
  proof (cases "k = 0")
    case True
    with core0 n reuse len show ?thesis
      by (auto simp: pool_core_def live_blocks_def)
  next
    case False
    with assms(1) k reuse show ?thesis by (auto simp: kcore_def live_blocks_def)
  qed
  with pg assms(1) reuse show ?thesis
    by (auto simp: kcore_def nth_list_update)
qed

text \<open>A page that left the free pages can be given to a pool.\<close>

lemma kcore_page_to_pool:
  assumes "kcore m PP L F (insert page G)" and "page \<notin> G" and "\<forall>k. page \<notin> PP k"
  shows "kcore m (PP(k := insert page (PP k))) L F G"
proof -
  let ?Q = "PP(k := insert page (PP k))"
  have "pages_inv m ?Q G"
    using assms unfolding pages_inv_def kcore_def by (auto split: if_splits; blast)
  moreover have "pool_core j (km_map m ! j) (?Q j) (live_blocks m L j) (F j)" if "j < 7" for j
    using assms(1) that by (auto simp: kcore_def intro: pool_core_mono)
  ultimately show ?thesis using assms(1) by (simp add: kcore_def)
qed

text \<open>Geometry: a block lies inside its page.\<close>

lemma pool_block_page:
  assumes "k < KMMAX" and "i < 4096 div pool_size k"
  shows "i * pool_size k + pool_size k \<le> 4096"
proof -
  have "Suc i * pool_size k \<le> 4096 div pool_size k * pool_size k"
    using assms(2) by (intro mult_le_mono1) simp
  also have "\<dots> \<le> 4096" by (simp add: div_times_less_eq_dividend)
  finally show ?thesis by simp
qed

lemma pool_block_div:
  assumes "k < KMMAX" and "i < 4096 div pool_size k" and "4096 dvd (p::nat)"
  shows "(p + i * pool_size k) div 4096 = p div 4096"
proof -
  have "i * pool_size k < 4096"
    using pool_block_page[OF assms(1,2)] pool_size_pos[OF assms(1)] by linarith
  with assms(3) show ?thesis by (auto simp: dvd_def)
qed

lemma pool_blocks_disjoint_page:
  assumes "k < KMMAX" and "page \<notin> ps" and "\<forall>p \<in> insert page ps. 4096 dvd p"
  shows "pool_blocks k {page} \<inter> pool_blocks k ps = {}"
proof (rule ccontr)
  assume "pool_blocks k {page} \<inter> pool_blocks k ps \<noteq> {}"
  then obtain p i j where p: "p \<in> ps" "i < 4096 div pool_size k" "j < 4096 div pool_size k"
    and eq: "page + i * pool_size k = p + j * pool_size k"
    by (auto simp: pool_blocks_def)
  have "page div 4096 = p div 4096"
    using pool_block_div[OF assms(1) p(2), of page] pool_block_div[OF assms(1) p(3), of p]
      assms(3) p(1) eq by simp
  moreover have "4096 dvd page" "4096 dvd p" using assms(3) p(1) by auto
  ultimately have "page = p" by (auto simp: dvd_def)
  with p(1) assms(2) show False by simp
qed

lemma fresh_set_blocks:
  assumes "fresh_ok k km ps" and "km_size km = pool_size k"
  shows "fresh_set km \<subseteq> pool_blocks k ps"
proof
  fix x assume "x \<in> fresh_set km"
  then obtain j where j: "x = km_fresh_chain km + j * pool_size k" "int j < km_fresh_count km"
    using assms(2) by (auto simp: fresh_set_def)
  from assms(1) obtain p i where p: "p \<in> ps" "i < 4096 div pool_size k"
    "km_fresh_chain km = p + i * pool_size k" "km_fresh_count km = int (4096 div pool_size k - i)"
    by (auto simp: fresh_ok_def)
  have "x = p + (i + j) * pool_size k" "i + j < 4096 div pool_size k"
    using j p by (auto simp: algebra_simps)
  with p(1) show "x \<in> pool_blocks k ps" by (auto simp: pool_blocks_def)
qed

lemma fresh_set_split:
  assumes "0 < km_fresh_count km" and "0 < km_size km"
  shows "fresh_set km = insert (km_fresh_chain km)
     (fresh_set (km\<lparr>km_fresh_count := km_fresh_count km - 1,
        km_fresh_chain := km_fresh_chain km + km_size km\<rparr>)) \<and>
     km_fresh_chain km \<notin> fresh_set (km\<lparr>km_fresh_count := km_fresh_count km - 1,
        km_fresh_chain := km_fresh_chain km + km_size km\<rparr>)"
proof -
  have "fresh_set km = insert (km_fresh_chain km) {km_fresh_chain km + Suc j * km_size km |j.
      int j < km_fresh_count km - 1}"
  proof (intro set_eqI iffI)
    fix x assume "x \<in> fresh_set km"
    then obtain j where j: "x = km_fresh_chain km + j * km_size km" "int j < km_fresh_count km"
      by (auto simp: fresh_set_def)
    show "x \<in> insert (km_fresh_chain km) {km_fresh_chain km + Suc j * km_size km |j.
      int j < km_fresh_count km - 1}"
    proof (cases j)
      case (Suc i)
      then show ?thesis using j by auto
    qed (use j in simp)
  next
    fix x assume "x \<in> insert (km_fresh_chain km) {km_fresh_chain km + Suc j * km_size km |j.
      int j < km_fresh_count km - 1}"
    then show "x \<in> fresh_set km"
    proof
      assume "x = km_fresh_chain km"
      then show ?thesis using assms(1) by (auto simp: fresh_set_def intro!: exI[of _ 0])
    next
      assume "x \<in> {km_fresh_chain km + Suc j * km_size km |j. int j < km_fresh_count km - 1}"
      then obtain j where "x = km_fresh_chain km + Suc j * km_size km" "int j < km_fresh_count km - 1"
        by auto
      then show ?thesis by (auto simp: fresh_set_def intro!: exI[of _ "Suc j"])
    qed
  qed
  then show ?thesis using assms(2) by (auto simp: fresh_set_def algebra_simps)
qed

text \<open>The three ways \<open>kmallocP\<close> finds a block: recycle, cut, or cut the last one and refill.\<close>

lemma kmallocP_cases:
  assumes "kmallocP k m = Some (b, m')" and "length (km_map m) = KMMAX"
  obtains (recycle) rest where "k < KMMAX" "km_free_chain (km_map m ! k) = b # rest"
      "m' = m\<lparr>km_map := (km_map m)[k := (km_map m ! k)\<lparr>
         km_used_count := km_used_count (km_map m ! k) + 1,
         km_free_count := km_free_count (km_map m ! k) - 1, km_free_chain := rest\<rparr>]\<rparr>"
    | (cut) "k < KMMAX" "km_free_chain (km_map m ! k) = []" "b = km_fresh_chain (km_map m ! k)"
      "km_fresh_count (km_map m ! k) \<noteq> 1"
      "m' = m\<lparr>km_map := (km_map m)[k := (km_map m ! k)\<lparr>
         km_used_count := km_used_count (km_map m ! k) + 1,
         km_fresh_count := km_fresh_count (km_map m ! k) - 1,
         km_fresh_chain := km_fresh_chain (km_map m ! k) + km_size (km_map m ! k)\<rparr>]\<rparr>"
    | (refill) m1 page phys m2 where "k < KMMAX" "km_free_chain (km_map m ! k) = []"
      "b = km_fresh_chain (km_map m ! k)" "km_fresh_count (km_map m ! k) = 1"
      "m1 = m\<lparr>km_map := (km_map m)[k := (km_map m ! k)\<lparr>
         km_used_count := km_used_count (km_map m ! k) + 1,
         km_fresh_count := int (4096 div km_size (km_map m ! k))\<rparr>]\<rparr>"
      "kgetpage m1 = Some (page, phys, m2)" "k < length (km_map m2)"
      "m' = m2\<lparr>km_map := (km_map m2)[k := (km_map m2 ! k)\<lparr>km_fresh_chain := page\<rparr>]\<rparr>"
proof -
  have k: "k < KMMAX" using assms(1) by (auto simp: kmallocP_def split: if_splits)
  with assms(2) have kl: "k < length (km_map m)" by simp
  show thesis
  proof (cases "km_free_chain (km_map m ! k)")
    case (Cons a rest)
    with assms(1) k kl show thesis by (intro recycle[of rest]) (auto simp: kmallocP_def Let_def)
  next
    case Nil
    show thesis
    proof (cases "km_fresh_count (km_map m ! k) = 1")
      case False
      with Nil assms(1) k kl show thesis by (intro cut) (auto simp: kmallocP_def Let_def)
    next
      case True
      with Nil assms(1) k kl show thesis
        by (auto simp: kmallocP_def Let_def kgetpages_def bind_Some_conv intro!: refill)
    qed
  qed
qed

lemma live_blocks_km_map [simp]: "live_blocks (m\<lparr>km_map := x\<rparr>) L = live_blocks m L"
  by (simp add: live_blocks_def fun_eq_iff)

lemma live_blocks_insert: "live_blocks m (L(k := insert b (L k))) =
    (live_blocks m L)(k := insert b (live_blocks m L k))"
  by (auto simp: live_blocks_def fun_eq_iff)

lemma pages_inv_km_map [simp]: "pages_inv (m\<lparr>km_map := x\<rparr>) PP G = pages_inv m PP G"
  by (simp add: pages_inv_def)

text \<open>Only pool \<open>k\<close> changes, by a block that moves to the live ones.\<close>

lemma kcore_alloc:
  assumes inv: "kcore m PP L F G" and k: "k < KMMAX"
    and core: "pool_core k km (PP k) (insert b (live_blocks m L k)) F'"
    and new: "b \<notin> live_blocks m L k"
  shows "kcore (m\<lparr>km_map := (km_map m)[k := km]\<rparr>) PP (L(k := insert b (L k))) (F(k := F')) G"
proof -
  have "pool_core j ((km_map m)[k := km] ! j) (PP j)
      (live_blocks m (L(k := insert b (L k))) j) ((F(k := F')) j)" if j: "j < 7" for j
    using kcore_pool[OF inv j] core j k inv
    by (auto simp: live_blocks_insert nth_list_update kcore_def)
  moreover have "(L(k := insert b (L k))) 0 \<inter> fst ` set (freevpagelist m) = {}"
    using inv new by (auto simp: kcore_def live_blocks_def split: if_splits)
  ultimately show ?thesis using inv by (simp add: kcore_def)
qed

lemma fresh_okI:
  "p \<in> ps \<Longrightarrow> i < 4096 div pool_size k \<Longrightarrow> km_fresh_chain km = p + i * pool_size k \<Longrightarrow>
     km_fresh_count km = int (4096 div pool_size k - i) \<Longrightarrow> fresh_ok k km ps"
  unfolding fresh_ok_def by blast

lemma fresh_ok_mono: "fresh_ok k km ps \<Longrightarrow> ps \<subseteq> qs \<Longrightarrow> fresh_ok k km qs"
  unfolding fresh_ok_def by blast

lemma fresh_ok_frame [simp]:
  "fresh_ok k (km\<lparr>km_used_count := a\<rparr>) ps = fresh_ok k km ps"
  "fresh_ok k (km\<lparr>km_free_count := a\<rparr>) ps = fresh_ok k km ps"
  "fresh_ok k (km\<lparr>km_free_chain := c\<rparr>) ps = fresh_ok k km ps"
  by (simp_all add: fresh_ok_def)

lemma kmem_inv_parts:
  assumes "kmem_inv m PP L G" and "k < KMMAX"
  shows "kcore m PP L (\<lambda>j. fresh_set (km_map m ! j)) G" and "fresh_ok k (km_map m ! k) (PP k)"
    and "length (km_map m) = KMMAX" and "km_size (km_map m ! k) = pool_size k"
    and "0 < km_size (km_map m ! k)" and "0 < km_fresh_count (km_map m ! k)"
proof -
  show core: "kcore m PP L (\<lambda>j. fresh_set (km_map m ! j)) G"
    and f: "fresh_ok k (km_map m ! k) (PP k)" and "length (km_map m) = KMMAX"
    using assms by (auto simp: kmem_inv_def kcore_def)
  from kcore_pool[OF core assms(2)] show sz: "km_size (km_map m ! k) = pool_size k"
    by (simp add: pool_core_def)
  from sz show "0 < km_size (km_map m ! k)" using pool_size_pos[OF assms(2)] by simp
  from f show "0 < km_fresh_count (km_map m ! k)" by (auto simp: fresh_ok_def)
qed

lemma recycle_inv:
  assumes inv: "kmem_inv m PP L G" and k: "k < KMMAX"
    and chain: "km_free_chain (km_map m ! k) = b # rest"
    and m': "m' = m\<lparr>km_map := (km_map m)[k := (km_map m ! k)\<lparr>
         km_used_count := km_used_count (km_map m ! k) + 1,
         km_free_count := km_free_count (km_map m ! k) - 1, km_free_chain := rest\<rparr>]\<rparr>"
  shows "kmem_inv m' PP (L(k := insert b (L k))) G \<and> b \<in> pool_blocks k (PP k) \<and>
    b \<notin> live_blocks m L k"
proof -
  note parts = kmem_inv_parts[OF inv k]
  note pc = kcore_pool[OF parts(1) k]
  let ?km' = "(km_map m ! k)\<lparr>km_used_count := km_used_count (km_map m ! k) + 1,
         km_free_count := km_free_count (km_map m ! k) - 1, km_free_chain := rest\<rparr>"
  have b: "b \<in> pool_blocks k (PP k)" "b \<notin> live_blocks m L k"
    using pc chain by (auto simp: pool_core_def)
  have "pool_core k ?km' (PP k) (insert b (live_blocks m L k)) (fresh_set (km_map m ! k))"
    using pc chain by (auto simp: pool_core_def)
  from kcore_alloc[OF parts(1) k this b(2)] m' have
    "kcore m' PP (L(k := insert b (L k))) (\<lambda>j. fresh_set (km_map m' ! j)) G"
    using parts(3) k by (auto elim!: back_subst[of "\<lambda>F. kcore _ _ _ F _"] simp: fun_eq_iff
        nth_list_update fresh_set_def)
  moreover have "\<forall>j < 7. fresh_ok j (km_map m' ! j) (PP j)"
    using inv m' parts(3) k by (auto simp: nth_list_update kmem_inv_def)
  ultimately show ?thesis using b by (auto simp: kmem_inv_def)
qed

lemma cut_inv:
  assumes inv: "kmem_inv m PP L G" and k: "k < KMMAX"
    and chain: "km_free_chain (km_map m ! k) = []" and b: "b = km_fresh_chain (km_map m ! k)"
    and more: "km_fresh_count (km_map m ! k) \<noteq> 1"
    and m': "m' = m\<lparr>km_map := (km_map m)[k := (km_map m ! k)\<lparr>
         km_used_count := km_used_count (km_map m ! k) + 1,
         km_fresh_count := km_fresh_count (km_map m ! k) - 1,
         km_fresh_chain := km_fresh_chain (km_map m ! k) + km_size (km_map m ! k)\<rparr>]\<rparr>"
  shows "kmem_inv m' PP (L(k := insert b (L k))) G \<and> b \<in> pool_blocks k (PP k) \<and>
    b \<notin> live_blocks m L k"
proof -
  note parts = kmem_inv_parts[OF inv k]
  note pc = kcore_pool[OF parts(1) k]
  let ?km = "km_map m ! k"
  let ?km' = "?km\<lparr>km_used_count := km_used_count ?km + 1, km_fresh_count := km_fresh_count ?km - 1,
         km_fresh_chain := km_fresh_chain ?km + km_size ?km\<rparr>"
  have fs: "fresh_set ?km = insert b (fresh_set ?km')" "b \<notin> fresh_set ?km'"
    using fresh_set_split[OF parts(6,5)] b by (auto simp: fresh_set_def)
  have b': "b \<in> pool_blocks k (PP k)" "b \<notin> live_blocks m L k"
    using pc fs by (auto simp: pool_core_def)
  have "pool_core k ?km' (PP k) (insert b (live_blocks m L k)) (fresh_set ?km')"
    using pc fs by (auto simp: pool_core_def)
  from kcore_alloc[OF parts(1) k this b'(2)] m' have
    "kcore m' PP (L(k := insert b (L k))) (\<lambda>j. fresh_set (km_map m' ! j)) G"
    using parts(3) k
    by (auto elim!: back_subst[of "\<lambda>F. kcore _ _ _ F _"] simp: fun_eq_iff nth_list_update)
  moreover from parts(2) obtain p i where p: "p \<in> PP k" "i < 4096 div pool_size k"
    "km_fresh_chain ?km = p + i * pool_size k" "km_fresh_count ?km = int (4096 div pool_size k - i)"
    by (auto simp: fresh_ok_def)
  with more have "Suc i < 4096 div pool_size k" by auto
  with p parts(4) have "fresh_ok k ?km' (PP k)"
    by (intro fresh_okI[of p _ "Suc i"]) auto
  then have "\<forall>j < 7. fresh_ok j (km_map m' ! j) (PP j)"
    using inv m' parts(3) k by (auto simp: nth_list_update kmem_inv_def)
  ultimately show ?thesis using b' by (auto simp: kmem_inv_def)
qed

text \<open>A page that just became the current page of pool \<open>k\<close> (its whole count uncut).\<close>

lemma new_page_core:
  assumes core: "kcore m PP L F (insert page G)" and k: "k < KMMAX" and Fk: "F k = {}"
    and pgG: "page \<notin> G" and pgP: "\<forall>k. page \<notin> PP k"
    and cnt: "km_fresh_count (km_map m ! k) = int (4096 div pool_size k)"
    and km': "km' = (km_map m ! k)\<lparr>km_fresh_chain := page\<rparr>"
  shows "kcore (m\<lparr>km_map := (km_map m)[k := km']\<rparr>) (PP(k := insert page (PP k))) L
      (F(k := fresh_set km')) G \<and> fresh_ok k km' (insert page (PP k))"
proof -
  let ?PP' = "PP(k := insert page (PP k))"
  have len: "length (km_map m) = 7" using core by (simp add: kcore_def)
  have al: "\<forall>p \<in> insert page (PP k). 4096 dvd p" using core unfolding kcore_def pages_inv_def by blast
  have dis: "pool_blocks k {page} \<inter> pool_blocks k (PP k) = {}"
    using pool_blocks_disjoint_page[OF k _ al] pgP by simp
  have pk: "pool_core k (km_map m ! k) (PP k) (live_blocks m L k) {}"
    using kcore_pool[OF core k] Fk by simp
  then have sz: "km_size km' = pool_size k" by (simp add: pool_core_def km')
  have fok: "fresh_ok k km' {page}"
    using cnt pool_size_pos[OF k]
    by (intro fresh_okI[of page _ 0]) (auto simp: km' div_greater_zero_iff)
  have pk': "pool_core k km' (?PP' k) (live_blocks m L k) (fresh_set km')"
    using pk fresh_set_blocks[OF fok sz] dis pool_blocks_mono[of "{page}" "?PP' k" k]
      pool_blocks_mono[OF subset_insertI, of k "PP k" page]
    unfolding pool_core_def km' by auto
  note core' = kcore_page_to_pool[OF core pgG pgP, of k]
  have "pool_core j ((km_map m)[k := km'] ! j) (?PP' j) (live_blocks m L j)
      ((F(k := fresh_set km')) j)" if j: "j < 7" for j
    using kcore_pool[OF core' j] pk' len k by (cases "j = k") auto
  with core' fresh_ok_mono[OF fok, of "insert page (PP k)"] show ?thesis by (simp add: kcore_def)
qed

lemma refill_inv:
  assumes inv: "kmem_inv m PP L G" and k: "k < KMMAX"
    and chain: "km_free_chain (km_map m ! k) = []" and b: "b = km_fresh_chain (km_map m ! k)"
    and last: "km_fresh_count (km_map m ! k) = 1"
    and m1: "m1 = m\<lparr>km_map := (km_map m)[k := (km_map m ! k)\<lparr>
         km_used_count := km_used_count (km_map m ! k) + 1,
         km_fresh_count := int (4096 div km_size (km_map m ! k))\<rparr>]\<rparr>"
    and page: "kgetpage m1 = Some (page, phys, m2)"
    and m': "m' = m2\<lparr>km_map := (km_map m2)[k := (km_map m2 ! k)\<lparr>km_fresh_chain := page\<rparr>]\<rparr>"
  shows "kmem_inv m' (PP(k := insert page (PP k))) (L(k := insert b (L k))) G \<and>
    b \<in> pool_blocks k (PP k) \<and> b \<notin> live_blocks m L k"
proof -
  note parts = kmem_inv_parts[OF inv k]
  note pc = kcore_pool[OF parts(1) k]
  let ?L' = "L(k := insert b (L k))" and ?F = "\<lambda>j. fresh_set (km_map m ! j)"
  have "b \<in> fresh_set (km_map m ! k)"
    using parts(6) b by (auto simp: fresh_set_def intro!: exI[of _ 0])
  then have b': "b \<in> pool_blocks k (PP k)" "b \<notin> live_blocks m L k"
    and "pool_core k (km_map m1 ! k) (PP k) (insert b (live_blocks m L k)) {}"
    using pc chain m1 parts(3) k by (auto simp: pool_core_def)
  from kcore_alloc[OF parts(1) k this(3) b'(2)] have "kcore m1 PP ?L' (?F(k := {})) G"
    using m1 parts(3) k by simp
  from kgetpage_kcore[OF this page] have
    m2: "kcore m2 PP ?L' (?F(k := {})) (insert page G)" and pg: "page \<notin> G" "\<forall>k. page \<notin> PP k" and
    same: "\<And>j. j < 7 \<Longrightarrow> km_fresh_chain (km_map m2 ! j) = km_fresh_chain (km_map m1 ! j) \<and>
      km_fresh_count (km_map m2 ! j) = km_fresh_count (km_map m1 ! j) \<and>
      km_size (km_map m2 ! j) = km_size (km_map m1 ! j)" by auto
  have "km_fresh_count (km_map m2 ! k) = int (4096 div pool_size k)"
    using same[OF k] m1 parts(3,4) k by simp
  from new_page_core[OF m2 k _ pg this refl]
  have core': "kcore m' (PP(k := insert page (PP k))) ?L'
      (?F(k := fresh_set (km_map m' ! k))) G" and
    fok: "fresh_ok k (km_map m' ! k) (insert page (PP k))"
    using m2 k m' by (auto simp: kcore_def)
  have oth: "fresh_set (km_map m' ! j) = ?F j \<and> fresh_ok j (km_map m' ! j) (PP j)"
    if "j < 7" "j \<noteq> k" for j
    using that same[of j] m1 m' parts(3) inv by (auto simp: fresh_set_def fresh_ok_def kmem_inv_def)
  have "kcore m' (PP(k := insert page (PP k))) ?L' (\<lambda>j. fresh_set (km_map m' ! j)) G"
    using core' oth by (auto simp: kcore_def)
  with fok oth have "kmem_inv m' (PP(k := insert page (PP k))) ?L' G"
    by (auto simp: kmem_inv_def)
  with b' show ?thesis by simp
qed

lemma kmallocP_inv:
  assumes inv: "kmem_inv m PP L G" and run: "kmallocP k m = Some (b, m')"
  shows "\<exists>PP'. kmem_inv m' PP' (L(k := insert b (L k))) G \<and> k < KMMAX \<and>
    b \<in> pool_blocks k (PP k) \<and> b \<notin> live_blocks m L k"
proof -
  have len: "length (km_map m) = 7" using inv by (simp add: kmem_inv_def kcore_def)
  from run len show ?thesis
  proof (cases rule: kmallocP_cases)
    case (recycle rest)
    with recycle_inv[OF inv recycle] show ?thesis by blast
  next
    case cut
    with cut_inv[OF inv cut] show ?thesis by blast
  next
    case (refill m1 page phys m2)
    with refill_inv[OF inv refill(1-6) refill(8)] show ?thesis by blast
  qed
qed

lemma kfreeP_inv:
  assumes inv: "kmem_inv m PP L G" and k: "k < KMMAX" and b: "b \<in> L k"
  shows "\<exists>m'. kfreeP k b m = Some m' \<and> kmem_inv m' PP (L(k := L k - {b})) G"
proof -
  note parts = kmem_inv_parts[OF inv k]
  let ?km = "km_map m ! k" and ?L' = "L(k := L k - {b})"
  let ?km' = "?km\<lparr>km_free_count := km_free_count ?km + 1, km_used_count := km_used_count ?km - 1,
           km_free_chain := b # km_free_chain ?km\<rparr>"
  let ?m' = "m\<lparr>km_map := (km_map m)[k := ?km']\<rparr>"
  have run: "kfreeP k b m = Some ?m'" using k parts(3) by (simp add: kfreeP_def)
  have "b \<notin> fst ` set (freevpagelist m)" if "k = 0"
    using parts(1) b that by (auto simp: kcore_def)
  then have live: "live_blocks m L k = insert b (live_blocks m ?L' k)" "b \<notin> live_blocks m ?L' k"
    using b by (auto simp: live_blocks_def)
  have "pool_core k ?km' (PP k) (live_blocks m ?L' k) (fresh_set ?km)"
    using kcore_pool[OF parts(1) k] live by (auto simp: pool_core_def)
  then have "pool_core j (km_map ?m' ! j) (PP j) (live_blocks ?m' ?L' j) (fresh_set (km_map ?m' ! j))"
    if "j < 7" for j
    using kcore_pool[OF parts(1) that] parts(3) k
    by (cases "j = k") (auto simp: live_blocks_def fresh_set_def)
  moreover have "\<forall>j < 7. fresh_ok j (km_map ?m' ! j) (PP j)"
    using inv parts(3) k by (auto simp: nth_list_update kmem_inv_def)
  ultimately have "kmem_inv ?m' PP ?L' G"
    using parts(1) by (auto simp: kmem_inv_def kcore_def)
  with run show ?thesis by blast
qed

lemma pool_blocks_separate:
  assumes "pages_inv m PP G" and "j < KMMAX" and "k < KMMAX"
    and "b \<in> pool_blocks j (PP j)" and "c \<in> pool_blocks k (PP k)" and "(j, b) \<noteq> (k, c)"
  shows "b + pool_size j \<le> c \<or> c + pool_size k \<le> b"
proof -
  from assms(4,5) obtain p i q l where
    b: "b = p + i * pool_size j" "p \<in> PP j" "i < 4096 div pool_size j" and
    c: "c = q + l * pool_size k" "q \<in> PP k" "l < 4096 div pool_size k"
    by (auto simp: pool_blocks_def)
  have al: "4096 dvd p" "4096 dvd q" using assms(1) b(2) c(2) unfolding pages_inv_def by blast+
  have inb: "b + pool_size j \<le> p + 4096" and inc: "c + pool_size k \<le> q + 4096"
    using pool_block_page[OF assms(2) b(3)] pool_block_page[OF assms(3) c(3)] b(1) c(1) by auto
  show ?thesis
  proof (cases "p = q")
    case True
    then have jk: "j = k" using assms(1) b(2) c(2) by (auto simp: pages_inv_def)
    with True assms(6) b c have "i \<noteq> l" by auto
    then consider "Suc i \<le> l" | "Suc l \<le> i" by linarith
    then show ?thesis
      using True jk b(1) c(1) mult_le_mono1[of "Suc i" l "pool_size k"]
        mult_le_mono1[of "Suc l" i "pool_size k"] by cases auto
  next
    case False
    with al have "p + 4096 \<le> q \<or> q + 4096 \<le> p" by (auto simp: dvd_def)
    with inb inc b(1) c(1) show ?thesis by auto
  qed
qed

lemma size_map_fits: "n < 256 \<Longrightarrow> size_map ! n < KMMAX \<and> n \<le> pool_size (size_map ! n)"
  by (auto simp: size_map_def nth_append nth_Cons' pool_size_def)

section \<open>The contract of the block allocator\<close>

text \<open>
  What the rest of the kernel relies on when it calls \<open>kmalloc\<close> and \<open>kfree\<close>. A request
  of \<open>n\<close> bytes is served from the size class \<open>cls n\<close>; \<open>inv m L\<close> says that \<open>L k\<close> are the
  blocks of class \<open>k\<close> that clients hold.
\<close>

locale block_allocator =
  fixes alloc :: "nat \<Rightarrow> 'm \<Rightarrow> (addr \<times> 'm) option"
    and release :: "nat \<Rightarrow> addr \<Rightarrow> 'm \<Rightarrow> 'm option"
    and cls :: "nat \<Rightarrow> nat"
    and extent :: "nat \<Rightarrow> nat"
    and inv :: "'m \<Rightarrow> (nat \<Rightarrow> addr set) \<Rightarrow> bool"
  assumes alloc_new: "inv m L \<Longrightarrow> alloc n m = Some (b, m') \<Longrightarrow>
        b \<notin> L (cls n) \<and> inv m' (L(cls n := insert b (L (cls n)))) \<and> n \<le> extent (cls n)"
    and release_ok: "inv m L \<Longrightarrow> alloc n m0 \<noteq> None \<Longrightarrow> b \<in> L (cls n) \<Longrightarrow>
        \<exists>m'. release n b m = Some m' \<and> inv m' (L(cls n := L (cls n) - {b}))"
    and separate: "inv m L \<Longrightarrow> b \<in> L j \<Longrightarrow> c \<in> L k \<Longrightarrow> (j, b) \<noteq> (k, c) \<Longrightarrow>
        b + extent j \<le> c \<or> c + extent k \<le> b"
begin

text \<open>A block that is handed out overlaps no block that a client already holds.\<close>

lemma alloc_disjoint:
  assumes "inv m L" and "alloc n m = Some (b, m')" and "c \<in> L k" and "x < n" and "y < extent k"
  shows "b + x \<noteq> c + y"
proof -
  let ?L' = "L(cls n := insert b (L (cls n)))"
  from alloc_new[OF assms(1,2)] have b: "b \<notin> L (cls n)" "inv m' ?L'" "n \<le> extent (cls n)" by auto
  have "c \<in> ?L' k" "(cls n, b) \<noteq> (k, c)" using assms(3) b(1) by auto
  with separate[OF b(2), of b "cls n" c k] have "b + extent (cls n) \<le> c \<or> c + extent k \<le> b" by simp
  with b(3) assms(4,5) show ?thesis by linarith
qed

lemma alloc_then_release:
  assumes "inv m L" and "alloc n m = Some (b, m')"
  shows "\<exists>m''. release n b m' = Some m'' \<and> inv m'' L"
proof -
  let ?L' = "L(cls n := insert b (L (cls n)))"
  from alloc_new[OF assms] have b: "b \<notin> L (cls n)" "inv m' ?L'" by auto
  have "?L'(cls n := ?L' (cls n) - {b}) = L" using b(1) by auto
  with release_ok[OF b(2), of n m b] assms(2) show ?thesis by auto
qed

lemma alloc_twice:
  assumes "inv m L" and "alloc n m = Some (b, m')" and "alloc n' m' = Some (c, m'')"
    and "x < n" and "y < n'"
  shows "b + x \<noteq> c + y"
proof -
  let ?L' = "L(cls n := insert b (L (cls n)))"
  from alloc_new[OF assms(1,2)] have i: "inv m' ?L'" "n \<le> extent (cls n)" by auto
  from alloc_disjoint[OF i(1) assms(3), of b "cls n" y x] assms(4,5) i(2) show ?thesis by auto
qed

end

lemma kmallocB_inv:
  assumes "kmem_inv m PP L G" and "kmallocB n m = Some (b, m')"
  shows "\<exists>PP'. kmem_inv m' PP' (L(size_map ! n := insert b (L (size_map ! n)))) G \<and> n < 256 \<and>
    b \<notin> L (size_map ! n)"
proof -
  have n: "n < 256" and run: "kmallocP (size_map ! n) m = Some (b, m')"
    using assms(2) by (auto simp: kmallocB_def split: if_splits)
  from kmallocP_inv[OF assms(1) run] n show ?thesis by (auto simp: live_blocks_def split: if_splits)
qed

lemma kmem_inv_separate:
  assumes inv: "kmem_inv m PP L G" and L: "\<forall>k. KMMAX \<le> k \<longrightarrow> L k = {}"
    and "b \<in> L j" and "c \<in> L k" and "(j, b) \<noteq> (k, c)"
  shows "b + pool_size j \<le> c \<or> c + pool_size k \<le> b"
proof -
  have j: "j < 7" and k: "k < 7" using assms(2-4) by (metis empty_iff not_le)+
  have held: "L i \<subseteq> pool_blocks i (PP i)" if "i < 7" for i
    using kcore_pool[OF kmem_inv_parts(1)[OF inv that] that]
    by (auto simp: pool_core_def live_blocks_def split: if_splits)
  have "pages_inv m PP G" using inv by (simp add: kmem_inv_def kcore_def)
  from pool_blocks_separate[OF this j k _ _ assms(5)] held[OF j] held[OF k] assms(3,4)
  show ?thesis by auto
qed

text \<open>The client's view of the heap: pages of the pools are the allocator's business.\<close>

definition heap_inv :: "addr set \<Rightarrow> kmem \<Rightarrow> (nat \<Rightarrow> addr set) \<Rightarrow> bool" where
  "heap_inv G m L \<longleftrightarrow> (\<exists>PP. kmem_inv m PP L G) \<and> (\<forall>k. KMMAX \<le> k \<longrightarrow> L k = {})"

interpretation kmalloc: block_allocator kmallocB kfreeB "(!) size_map" pool_size "heap_inv G"
  for G :: "addr set"
proof (unfold_locales, goal_cases)
  case (1 m L n b m')
  then obtain PP where "kmem_inv m PP L G" by (auto simp: heap_inv_def)
  from kmallocB_inv[OF this 1(2)] size_map_fits[of n] 1(1) show ?case
    by (auto simp: heap_inv_def)
next
  case (2 m L n m0 b)
  then have n: "n < 256" by (auto simp: kmallocB_def split: if_splits)
  from 2 obtain PP where "kmem_inv m PP L G" by (auto simp: heap_inv_def)
  from kfreeP_inv[OF this _ 2(3)] size_map_fits[OF n] n 2(1) show ?case
    by (auto simp: heap_inv_def kfreeB_def)
next
  case (3 m L b j c k)
  then obtain PP where "kmem_inv m PP L G" "\<forall>k. 7 \<le> k \<longrightarrow> L k = {}" by (auto simp: heap_inv_def)
  from kmem_inv_separate[OF this 3(2-4)] show ?case .
qed

end
