(* ===== verification/KMemInit.thy ===== *)
theory KMemInit
  imports KMemory
begin

text \<open>
  What \<open>memory_init\<close> leaves behind: the block pools, the chain of free page frames and
  the kernel mapping of the page list itself, and when it does not get that far.
\<close>

section \<open>Initialisation\<close>

lemma fresh_cong:
  assumes "km_fresh_chain km' = km_fresh_chain km" and "km_fresh_count km' = km_fresh_count km"
    and "km_size km' = km_size km"
  shows "fresh_set km' = fresh_set km" and "fresh_ok k km' ps = fresh_ok k km ps"
  using assms by (simp_all add: fresh_set_def fresh_ok_def)

definition pool_ready :: "kmem \<Rightarrow> (nat \<Rightarrow> addr set) \<Rightarrow> (nat \<Rightarrow> addr set) \<Rightarrow> nat \<Rightarrow> bool" where
  "pool_ready m PP F j \<longleftrightarrow> F j = fresh_set (km_map m ! j) \<and> fresh_ok j (km_map m ! j) (PP j)"

definition pool_raw :: "kmem \<Rightarrow> (nat \<Rightarrow> addr set) \<Rightarrow> nat \<Rightarrow> bool" where
  "pool_raw m F j \<longleftrightarrow> F j = {} \<and> km_fresh_count (km_map m ! j) = int (4096 div pool_size j)"

lemma init_pools_inv:
  assumes "init_pools i n m = Some m'" and "i + n = KMMAX" and "kcore m PP L F G"
    and "\<And>j. j < i \<Longrightarrow> pool_ready m PP F j" and "\<And>j. i \<le> j \<Longrightarrow> j < KMMAX \<Longrightarrow> pool_raw m F j"
  shows "\<exists>PP. kmem_inv m' PP L G"
  using assms
proof (induction n arbitrary: i m PP F)
  case 0
  then have "kcore m' PP L (\<lambda>j. fresh_set (km_map m' ! j)) G \<and> (\<forall>j < 7. fresh_ok j (km_map m' ! j) (PP j))"
    by (auto simp: kcore_def pool_ready_def)
  then show ?case by (auto simp: kmem_inv_def)
next
  case (Suc n)
  from Suc.prems(1) obtain page phys m1 where g: "kgetpage m = Some (page, phys, m1)"
    and i: "i < length (km_map m1)" and rest: "init_pools (i + 1) n
      (m1\<lparr>km_map := (km_map m1)[i := (km_map m1 ! i)\<lparr>km_fresh_chain := page\<rparr>]\<rparr>) = Some m'"
    by (auto simp: kgetpages_def bind_Some_conv)
  let ?km' = "(km_map m1 ! i)\<lparr>km_fresh_chain := page\<rparr>"
  let ?m2 = "m1\<lparr>km_map := (km_map m1)[i := ?km']\<rparr>"
  let ?PP' = "PP(i := insert page (PP i))" and ?F' = "F(i := fresh_set ?km')"
  have i7: "i < 7" using Suc.prems(2) by simp
  from kgetpage_kcore[OF Suc.prems(3) g] have m1: "kcore m1 PP L F (insert page G)"
    and pg: "page \<notin> G" "\<forall>k. page \<notin> PP k"
    and same: "\<And>j. j < 7 \<Longrightarrow> km_fresh_chain (km_map m1 ! j) = km_fresh_chain (km_map m ! j) \<and>
      km_fresh_count (km_map m1 ! j) = km_fresh_count (km_map m ! j) \<and>
      km_size (km_map m1 ! j) = km_size (km_map m ! j)" by auto
  have raw: "F i = {}" "km_fresh_count (km_map m1 ! i) = int (4096 div pool_size i)"
    using Suc.prems(5)[of i] same[OF i7] i7 by (auto simp: pool_raw_def)
  note new = new_page_core[OF m1 i7 raw(1) pg raw(2) refl]
  have ready: "pool_ready ?m2 ?PP' ?F' j" if "j < i + 1" for j
  proof (cases "j = i")
    case True
    then show ?thesis using new i by (simp add: pool_ready_def)
  next
    case False
    with that have j: "j < i" "j < 7" using i7 by auto
    then show ?thesis
      using Suc.prems(4)[of j] fresh_cong[of "km_map m1 ! j" "km_map m ! j"] same[of j]
      by (simp add: pool_ready_def)
  qed
  have raw': "pool_raw ?m2 ?F' j" if "i + 1 \<le> j" "j < 7" for j
    using Suc.prems(5)[of j] same[of j] that by (simp add: pool_raw_def)
  have "i + 1 + n = 7" using Suc.prems(2) by simp
  then show ?case by (rule Suc.IH[OF rest _ conjunct1[OF new] ready raw'])
qed

declare init_pagelist.simps [simp del]

lemma init_pagelist_keeps:
  "init_pagelist i b m = Some m' \<Longrightarrow> km_map m' = km_map m \<and> nextmem m' = nextmem m \<and>
     freevpagelist m' = freevpagelist m \<and> flat_high m' = flat_high m"
proof (induction i b m rule: init_pagelist.induct)
  case (1 i b m)
  show ?case
  proof (cases "i < b")
    case True
    with "1.prems" show ?thesis by (simp add: init_pagelist.simps [of i b m])
  next
    case False
    with "1.prems" have i: "i \<noteq> 0" "i < length (pagelist m)"
      and rec: "init_pagelist (i - 1) b (m\<lparr>total_pages := total_pages m + 1,
         pagelist := (pagelist m)[i := freepage m], freepage := i\<rparr>) = Some m'"
      by (auto simp: init_pagelist.simps [of i b m] bind_Some_conv split: if_splits)
    from "1.IH"[OF False _ i(1) rec] i show ?thesis by simp
  qed
qed

lemma init_pagelist_chain:
  assumes "init_pagelist i b m = Some m'" and "page_pool m is" and "set is \<inter> {b..i} = {}"
    and "0 < b" and "b \<le> Suc i"
  shows "page_pool m' ([b..<Suc i] @ is)"
  using assms
proof (induction i b m arbitrary: "is" rule: init_pagelist.induct)
  case (1 i b m)
  show ?case
  proof (cases "i < b")
    case True
    with "1.prems" show ?thesis by (simp add: init_pagelist.simps [of i b m])
  next
    case False
    let ?m = "m\<lparr>total_pages := total_pages m + 1, pagelist := (pagelist m)[i := freepage m],
       freepage := i\<rparr>"
    from False "1.prems"(1) have i: "i \<noteq> 0" "i < length (pagelist m)"
      and rec: "init_pagelist (i - 1) b ?m = Some m'"
      by (auto simp: init_pagelist.simps [of i b m] bind_Some_conv split: if_splits)
    have "i \<notin> set is" using "1.prems"(3) False by auto
    then have "page_pool ?m (i # is)"
      using "1.prems"(2) i by (simp add: page_pool_def)
    moreover have "set (i # is) \<inter> {b..i - 1} \<subseteq> set is \<inter> {b..i}"
      using i(1) by auto
    then have "set (i # is) \<inter> {b..i - 1} = {}" using "1.prems"(3) by blast
    ultimately have "page_pool m' ([b..<Suc (i - 1)] @ i # is)"
      using "1.IH"[OF False _ i(1) rec] i "1.prems"(4) False by simp
    then show ?thesis using i(1) False by simp
  qed
qed

lemma maphi_one [simp]:
  "aspace_maphi phys virt 1 flags m = Some m' \<longleftrightarrow> virt mod 1024 < length (flat_high m) \<and>
     m' = m\<lparr>flat_high := (flat_high m)[virt mod 1024 := or (phys * 4096) flags]\<rparr>"
  by (auto simp: One_nat_def bind_Some_conv simp del: One_nat_def [symmetric])

text \<open>Before any page has been freed, \<open>kgetpage\<close> extends the heap downwards.\<close>

lemma kgetpage_down:
  assumes "kgetpage m = Some (page, phys, m')" and "freevpagelist m = []" and "page_pool m is"
  shows "is \<noteq> [] \<and> page_pool m' (tl is) \<and> freevpagelist m' = [] \<and>
    nextmem m' = nextmem m - 4096 \<and> 0x80050000 \<le> nextmem m \<and>
    flat_high m' = (flat_high m)[nextmem m' div 4096 mod 1024 := or (hd is * 4096) 3]"
proof -
  from assms(1) obtain pg m1 where g: "getpage m = Some (pg, m1)"
    by (auto simp: kgetpage_def bind_Some_conv)
  from pages.take_SomeD[OF assms(3) g] obtain js where js: "is = pg # js" "page_pool m1 js" by auto
  with g assms(1,2) getpage_keeps[OF g] show ?thesis
    by (auto simp: kgetpage_def bind_Some_conv page_pool_def simp flip: One_nat_def split: if_splits)
qed

lemma init_pools_frames:
  assumes "init_pools i n m = Some m'" and "freevpagelist m = []" and "page_pool m is"
  shows "page_pool m' (drop n is) \<and>
    (\<forall>v. (\<forall>k. 1 \<le> k \<longrightarrow> k \<le> n \<longrightarrow> v \<noteq> (nextmem m - 4096 * k) div 4096 mod 1024) \<longrightarrow>
      flat_high m' ! v = flat_high m ! v)"
  using assms
proof (induction n arbitrary: i m "is")
  case 0
  then show ?case by simp
next
  case (Suc n)
  from Suc.prems(1) obtain page phys m1 where g: "kgetpage m = Some (page, phys, m1)"
    and rest: "init_pools (i + 1) n
      (m1\<lparr>km_map := (km_map m1)[i := (km_map m1 ! i)\<lparr>km_fresh_chain := page\<rparr>]\<rparr>) = Some m'"
    by (auto simp: kgetpages_def bind_Some_conv)
  note d = kgetpage_down[OF g Suc.prems(2,3)]
  from Suc.IH[OF rest, of "tl is"] d have
    pool: "page_pool m' (drop n (tl is))" and
    high: "\<And>v. \<forall>k. 1 \<le> k \<longrightarrow> k \<le> n \<longrightarrow> v \<noteq> (nextmem m1 - 4096 * k) div 4096 mod 1024 \<Longrightarrow>
      flat_high m' ! v = flat_high m1 ! v" by (auto simp: page_pool_def)
  have "flat_high m' ! v = flat_high m ! v"
    if v: "\<forall>k. 1 \<le> k \<longrightarrow> k \<le> Suc n \<longrightarrow> v \<noteq> (nextmem m - 4096 * k) div 4096 mod 1024" for v
  proof -
    have "v \<noteq> (nextmem m1 - 4096 * k) div 4096 mod 1024" if "1 \<le> k" "k \<le> n" for k
      using v[rule_format, of "Suc k"] that d by (simp add: algebra_simps)
    with high have "flat_high m' ! v = flat_high m1 ! v" by blast
    also have "\<dots> = flat_high m ! v" using v[rule_format, of 1] d by simp
    finally show ?thesis .
  qed
  with pool show ?case by (simp add: drop_Suc)
qed

lemma memory_init_steps:
  assumes "memory_init junk bottom tp (kmem0 high) = Some m"
  defines "count \<equiv> (tp - bottom) div 1024 + 1"
  obtains m1 m2 where "aspace_maphi (tp - count) ((0x803FC000 - 4096 * count) div 0x1000) count 3
      ((kmem0 high)\<lparr>nextmem := 0x803FC000 - 4096 * count, pagelist := map junk [0..<1024 * count]\<rparr>) = Some m1"
    and "init_pagelist (tp - count) bottom (m1\<lparr>freepage := 0\<rparr>) = Some m2"
    and "init_pools 0 KMMAX m2 = Some m"
  using assms(1) by (auto simp: memory_init_def kmem0_def Let_def count_def bind_Some_conv)


lemma nextmem0_aligned: "4096 dvd (0x803FC000 - 4096 * c :: nat)"
proof -
  have "(0x803FC000 :: nat) = 4096 * 0x803FC" by simp
  then show ?thesis by (metis diff_mult_distrib2 dvd_triv_left)
qed

lemma less_7: "k < (7::nat) \<longleftrightarrow> k \<in> {0, 1, 2, 3, 4, 5, 6}"
  by auto

lemma km_map0_nth: "k < KMMAX \<Longrightarrow> km_size (km_map0 ! k) = pool_size k \<and>
    km_free_chain (km_map0 ! k) = [] \<and>
    km_fresh_count (km_map0 ! k) = int (4096 div pool_size k)"
  by (auto simp: less_7 km_map0_def km_pool0_def pool_size_def)

text \<open>After \<open>memory_init\<close> the pools are well formed and no block is held.\<close>

lemma memory_init_heap:
  assumes "memory_init junk bottom tp (kmem0 high) = Some m"
  shows "heap_inv {} m (\<lambda>_. {})"
proof (rule memory_init_steps[OF assms])
  fix m1 m2
  let ?c = "(tp - bottom) div 1024 + 1"
  let ?m0 = "(kmem0 high)\<lparr>nextmem := 0x803FC000 - 4096 * ?c, pagelist := map junk [0..<1024 * ?c]\<rparr>"
  assume hi: "aspace_maphi (tp - ?c) ((0x803FC000 - 4096 * ?c) div 0x1000) ?c 3 ?m0 = Some m1"
    and pl: "init_pagelist (tp - ?c) bottom (m1\<lparr>freepage := 0\<rparr>) = Some m2"
    and pools: "init_pools 0 KMMAX m2 = Some m"
  from aspace_maphi_keeps[OF hi] init_pagelist_keeps[OF pl]
  have m2: "km_map m2 = km_map0" "freevpagelist m2 = []" "nextmem m2 = 0x803FC000 - 4096 * ?c"
    by (auto simp: kmem0_def)
  have km: "km_size (km_map0 ! k) = pool_size k \<and> km_free_chain (km_map0 ! k) = [] \<and>
      km_fresh_count (km_map0 ! k) = int (4096 div pool_size k)" if "k < 7" for k
    using km_map0_nth[OF that] by simp
  have "kcore m2 (\<lambda>_. {}) (\<lambda>_. {}) (\<lambda>_. {}) {}"
    using m2 km nextmem0_aligned[of ?c]
    by (auto simp: kcore_def pool_core_def live_blocks_def pages_inv_def) (simp add: km_map0_def)
  from init_pools_inv[OF pools _ this] show ?thesis
    using m2 km by (auto simp: heap_inv_def pool_raw_def)
qed

lemma or_div_4096: "or (x * 4096) 3 div 4096 = (x :: nat)"
proof -
  have "drop_bit 12 (or (push_bit 12 x) 3) = or (drop_bit 12 (push_bit 12 x)) (drop_bit 12 (3 :: nat))"
    by (rule drop_bit_or)
  then show ?thesis by (simp add: drop_bit_eq_div push_bit_eq_mult)
qed

lemma maphi_first:
  "aspace_maphi phys virt (Suc n) flags m = Some m' \<Longrightarrow>
     flat_high m' ! (virt mod 1024) = or (phys * 4096) flags \<and> virt mod 1024 + n < length (flat_high m)"
proof (induction n arbitrary: m')
  case 0
  then show ?case by (auto simp: bind_Some_conv)
next
  case (Suc n)
  from Suc.prems obtain m1 where m1: "aspace_maphi phys virt (Suc n) flags m = Some m1"
    and m': "virt mod 1024 + Suc n < length (flat_high m1)"
      "flat_high m' = (flat_high m1)[virt mod 1024 + Suc n := or ((phys + Suc n) * 4096) flags]"
    by (auto simp: bind_Some_conv simp del: aspace_maphi.simps(2)
        simp add: aspace_maphi.simps(2)[of phys virt "Suc n"])
  from Suc.IH[OF m1] m' aspace_maphi_keeps[OF m1] show ?case by simp
qed

lemma mod_shift_neq:
  assumes "1 \<le> k" and "k \<le> 7" and "k \<le> (v::nat)"
  shows "v mod 1024 \<noteq> (v - k) mod 1024"
proof
  assume "v mod 1024 = (v - k) mod 1024"
  then have "1024 dvd v - (v - k)" by (subst (asm) mod_eq_dvd_iff_nat) auto
  with assms have "1024 dvd k" by simp
  with assms(1,2) show False by (auto dest: dvd_imp_le)
qed

lemma heap_index: "(0x803FC000 - 4096 * c - 4096 * k) div 4096 = 0x803FC - c - (k::nat)"
proof -
  have "(0x803FC000 - 4096 * c - 4096 * k :: nat) = 4096 * (0x803FC - c - k)"
    by (simp add: diff_mult_distrib2)
  then show ?thesis by simp
qed

lemma memory_init_result:
  assumes run: "memory_init junk bottom_page top_page (kmem0 high) = Some m"
    and "length high = 1024" and "0 < bottom_page"
    and frame: "frame = top_page - ((top_page - bottom_page) div 1024 + 1)"
    and room: "bottom_page + 7 \<le> frame"
  shows "heap_inv {} m (\<lambda>_. {}) \<and> page_pool m [bottom_page + 7..<Suc frame] \<and>
    flat_high m ! ((0x803FC000 - 4096 * ((top_page - bottom_page) div 1024 + 1)) div 4096 mod 1024)
      div 4096 = frame"
proof (rule memory_init_steps[OF run])
  fix m1 m2
  let ?n = "(top_page - bottom_page) div 1024" and ?V = "0x803FC000 div 4096 :: nat"
  let ?m0 = "(kmem0 high)\<lparr>nextmem := 0x803FC000 - 4096 * (?n + 1),
     pagelist := map junk [0..<1024 * (?n + 1)]\<rparr>"
  assume hi: "aspace_maphi (top_page - (?n + 1)) ((0x803FC000 - 4096 * (?n + 1)) div 0x1000) (?n + 1) 3 ?m0
      = Some m1"
    and pl: "init_pagelist (top_page - (?n + 1)) bottom_page (m1\<lparr>freepage := 0\<rparr>) = Some m2"
    and pools: "init_pools 0 KMMAX m2 = Some m"
  let ?v = "0x803FC - (?n + 1)"
  have v: "(0x803FC000 - 4096 * (?n + 1)) div 4096 = ?v" by simp
  have len: "length (flat_high ((kmem0 high)\<lparr>nextmem := a, pagelist := b\<rparr>)) = 1024" for a b
    using assms(2) by (simp add: kmem0_def)
  note first = maphi_first[OF hi[unfolded Suc_eq_plus1[symmetric]]]
  have m1: "flat_high m1 ! (?v mod 1024) = or (frame * 4096) 3"
    using conjunct1[OF first] unfolding Suc_eq_plus1 v frame[symmetric] .
  have n: "?n < 1024" by (rule le_less_trans[OF le_add2 conjunct2[OF first, unfolded len]])
  have m2: "flat_high m2 = flat_high m1" "freevpagelist m2 = []"
    "nextmem m2 = 0x803FC000 - 4096 * (?n + 1)"
    using aspace_maphi_keeps[OF hi] init_pagelist_keeps[OF pl] by (auto simp: kmem0_def)
  have "page_pool m2 ([bottom_page..<Suc frame] @ [])"
    using init_pagelist_chain[OF pl, of "[]"] assms(3) room frame by (simp add: page_pool_def)
  from init_pools_frames[OF pools m2(2)] this have
    pool: "page_pool m (drop 7 [bottom_page..<Suc frame])" and
    high: "\<And>v. \<forall>k. 1 \<le> k \<longrightarrow> k \<le> 7 \<longrightarrow> v \<noteq> (nextmem m2 - 4096 * k) div 4096 mod 1024 \<Longrightarrow>
      flat_high m ! v = flat_high m2 ! v" by auto
  have "(nextmem m2 - 4096 * k) div 4096 = ?v - k" for k
    unfolding m2(3) by (rule heap_index)
  with mod_shift_neq[of _ ?v] n have "flat_high m ! (?v mod 1024) = flat_high m2 ! (?v mod 1024)"
    by (intro high) auto
  then have "flat_high m ! (?v mod 1024) div 4096 = frame" using m2(1) m1 or_div_4096 by simp
  moreover have "drop 7 [bottom_page..<Suc frame] = [bottom_page + 7..<Suc frame]"
    by (simp add: drop_upt del: upt_Suc)
  ultimately show ?thesis using memory_init_heap[OF run] pool v by simp
qed

text \<open>\<open>memory_init\<close> runs to its end when the page list is long enough for every frame.\<close>

lemma maphi_progress:
  "virt mod 1024 + len \<le> length (flat_high m) \<Longrightarrow> \<exists>m'. aspace_maphi phys virt len flags m = Some m'"
proof (induction len)
  case (Suc len)
  then obtain m1 where m1: "aspace_maphi phys virt len flags m = Some m1" by auto
  with aspace_maphi_keeps[OF m1] Suc.prems show ?case by simp
qed simp

lemma init_pagelist_progress:
  "i < length (pagelist m) \<Longrightarrow> 0 < b \<Longrightarrow> \<exists>m'. init_pagelist i b m = Some m'"
proof (induction i b m rule: init_pagelist.induct)
  case (1 i b m)
  then show ?case by (cases "i < b") (auto simp: init_pagelist.simps [of i b m])
qed

lemma kgetpage_progress:
  assumes "page_pool m (i # is)" and "freevpagelist m = []" and "0x80050000 \<le> nextmem m"
    and "length (flat_high m) = 1024"
  shows "\<exists>page phys m'. kgetpage m = Some (page, phys, m')"
proof -
  from pages.take_Cons[OF assms(1)] obtain m1 where g: "getpage m = Some (i, m1)" by blast
  note k = getpage_keeps[OF g]
  have "(nextmem m - 4096) div 0x1000 mod 1024 + 1 \<le> length (flat_high m)"
    using assms(4) by (simp add: Suc_le_eq)
  with k obtain m2 where "aspace_maphi i ((nextmem m - 4096) div 0x1000) 1 3
      (m1\<lparr>nextmem := nextmem m1 - 4096\<rparr>) = Some m2"
    using maphi_progress[of "(nextmem m - 4096) div 0x1000" 1
      "m1\<lparr>nextmem := nextmem m1 - 4096\<rparr>" i 3] by (auto simp del: One_nat_def maphi_one)
  then show ?thesis using assms(2,3) k
    by (auto simp: kgetpage_def g simp del: One_nat_def maphi_one)
qed

lemma init_pools_progress:
  assumes "page_pool m is" and "n \<le> length is" and "freevpagelist m = []"
    and "0x80050000 + 4096 * n \<le> nextmem m" and "length (flat_high m) = 1024"
    and "i + n \<le> length (km_map m)"
  shows "\<exists>m'. init_pools i n m = Some m'"
  using assms
proof (induction n arbitrary: i m "is")
  case 0
  then show ?case by simp
next
  case (Suc n)
  then obtain j js where js: "is = j # js" by (cases "is") auto
  from Suc.prems kgetpage_progress[of m j js] js obtain page phys m1
    where g: "kgetpage m = Some (page, phys, m1)" by auto
  have km: "length (km_map m1) = length (km_map m)"
    using g by (cases rule: kgetpage_cases) auto
  note d = kgetpage_down[OF g Suc.prems(3,1)]
  let ?m2 = "m1\<lparr>km_map := (km_map m1)[i := (km_map m1 ! i)\<lparr>km_fresh_chain := page\<rparr>]\<rparr>"
  have "\<exists>m'. init_pools (i + 1) n ?m2 = Some m'"
    using Suc.prems d km by (intro Suc.IH[of _ "tl is"]) (auto simp: page_pool_def js)
  then show ?case using g km Suc.prems(6) by (auto simp: kgetpages_def)
qed

lemma heap_top_mod: "c \<le> 900 \<Longrightarrow> (0x803FC - c) mod 1024 = 1020 - (c::nat)"
proof -
  assume c: "c \<le> 900"
  then have "0x803FC - c = 1020 - c + 512 * 1024" by simp
  then show ?thesis using c by (simp only: mod_mult_self1) simp
qed

lemma memory_init_progress:
  assumes "length high = 1024" and "0 < bottom_page"
    and count: "count = (top_page - bottom_page) div 1024 + 1" and "count \<le> 900"
    and frame: "frame = top_page - count" "bottom_page + 7 \<le> frame" "frame < 1024 * count"
  shows "\<exists>m. memory_init junk bottom_page top_page (kmem0 high) = Some m"
proof -
  let ?m0 = "(kmem0 high)\<lparr>nextmem := 0x803FC000 - 4096 * count, pagelist := map junk [0..<1024 * count]\<rparr>"
  have v: "(0x803FC000 - 4096 * count) div 4096 = 0x803FC - count"
    using heap_index[of count 0] by simp
  obtain m1 where m1: "aspace_maphi frame ((0x803FC000 - 4096 * count) div 0x1000) count 3 ?m0 = Some m1"
    using maphi_progress[of "(0x803FC000 - 4096 * count) div 0x1000" count ?m0 frame 3]
      assms(1,4) heap_top_mod[of count] v by (auto simp: kmem0_def)
  note k1 = aspace_maphi_keeps[OF m1]
  obtain m2 where m2: "init_pagelist frame bottom_page (m1\<lparr>freepage := 0\<rparr>) = Some m2"
    using init_pagelist_progress[of frame "m1\<lparr>freepage := 0\<rparr>"] k1 frame(3) assms(2) by auto
  note k2 = init_pagelist_keeps[OF m2]
  have "page_pool m2 ([bottom_page..<Suc frame] @ [])"
    using init_pagelist_chain[OF m2, of "[]"] assms(2) frame(2) by (simp add: page_pool_def)
  moreover have "(2147840000::nat) \<le> 2151661568 - 4096 * count" "7 \<le> Suc frame - bottom_page"
    using assms(4) frame(2) by linarith+
  ultimately obtain m where "init_pools 0 KMMAX m2 = Some m"
    using init_pools_progress[of m2 "[bottom_page..<Suc frame]" 7 0] k1 k2 assms(1,4) frame(2)
    by (auto simp: kmem0_def km_map0_def simp del: upt_Suc)
  with m1 m2 show ?thesis
    unfolding memory_init_def Let_def count[symmetric] frame(1)[symmetric] by (simp add: kmem0_def)
qed

lemma kmallocB_cut:
  assumes inv: "heap_inv G m L" and "km_free_chain (km_map m ! (size_map ! n)) = []"
    and "km_fresh_count (km_map m ! (size_map ! n)) \<noteq> 1" and "n < 256"
  shows "\<exists>b m'. kmallocB n m = Some (b, m') \<and> km_free_chain (km_map m' ! (size_map ! n)) = [] \<and>
    km_fresh_count (km_map m' ! (size_map ! n)) = km_fresh_count (km_map m ! (size_map ! n)) - 1"
  using assms size_map_fits[of n]
  by (auto simp: heap_inv_def kmem_inv_def kcore_def kmallocB_def kmallocP_def Let_def)

lemma size_map_12 [simp]: "size_map ! 12 = 0"
  by (simp add: size_map_def nth_append)

lemma init_pools_keeps:
  "init_pools i n m = Some m' \<Longrightarrow> freevpagelist m = [] \<Longrightarrow> i + n \<le> length (km_map m) \<Longrightarrow>
     length (km_map m') = length (km_map m) \<and> (\<forall>k < length (km_map m).
     km_free_chain (km_map m' ! k) = km_free_chain (km_map m ! k) \<and>
     km_fresh_count (km_map m' ! k) = km_fresh_count (km_map m ! k))"
proof (induction n arbitrary: i m)
  case 0
  then show ?case by simp
next
  case (Suc n)
  from Suc.prems(1) obtain page phys m1 where g: "kgetpage m = Some (page, phys, m1)"
    and rest: "init_pools (i + 1) n
      (m1\<lparr>km_map := (km_map m1)[i := (km_map m1 ! i)\<lparr>km_fresh_chain := page\<rparr>]\<rparr>) = Some m'"
    by (auto simp: kgetpages_def bind_Some_conv)
  have k: "km_map m1 = km_map m" "freevpagelist m1 = []"
    using g Suc.prems(2) by (auto elim!: kgetpage_cases)
  from Suc.IH[OF rest] Suc.prems(3) k show ?case by (auto simp: nth_list_update)
qed

lemma memory_init_fresh:
  assumes "memory_init junk bottom tp (kmem0 high) = Some m" and "k < KMMAX"
  shows "km_free_chain (km_map m ! k) = [] \<and>
    km_fresh_count (km_map m ! k) = int (4096 div pool_size k)"
proof (rule memory_init_steps[OF assms(1)])
  fix m1 m2
  let ?c = "(tp - bottom) div 1024 + 1"
  let ?m0 = "(kmem0 high)\<lparr>nextmem := 0x803FC000 - 4096 * ?c, pagelist := map junk [0..<1024 * ?c]\<rparr>"
  assume hi: "aspace_maphi (tp - ?c) ((0x803FC000 - 4096 * ?c) div 0x1000) ?c 3 ?m0 = Some m1"
    and pl: "init_pagelist (tp - ?c) bottom (m1\<lparr>freepage := 0\<rparr>) = Some m2"
    and pools: "init_pools 0 KMMAX m2 = Some m"
  from aspace_maphi_keeps[OF hi] init_pagelist_keeps[OF pl]
  have m2: "km_map m2 = km_map0" "freevpagelist m2 = []" by (auto simp: kmem0_def)
  have "length km_map0 = 7" by (simp add: km_map0_def)
  with init_pools_keeps[OF pools m2(2)] m2(1) km_map0_nth[OF assms(2)] assms(2) show ?thesis by simp
qed

section \<open>Properties\<close>

text \<open>
  with a page list long enough for the frame numbers, \<open>memory_init\<close> runs to its end and
  leaves the block pools well formed with no block handed out. The free page frames are then
  the ones from \<open>bottom_page + 7\<close> (seven went to the pools) up to and including
  \<open>frame = top_page - count\<close>. That last frame is also the frame that is mapped as the first
  page of \<open>pagelist\<close> itself: the loop that fills the list starts one too high, so
  \<open>getpage\<close> will hand out the page list's own frame.
\<close>

theorem memory_init_free_frames:
  assumes "length high = 1024" and "0 < bottom_page"
    and "count = (top_page - bottom_page) div 1024 + 1" and "count \<le> 900"
    and "frame = top_page - count" and "bottom_page + 7 \<le> frame" and "frame < 1024 * count"
  shows "\<exists>m. memory_init junk bottom_page top_page (kmem0 high) = Some m \<and>
    heap_inv {} m (\<lambda>_. {}) \<and> page_pool m [bottom_page + 7..<Suc frame] \<and>
    flat_high m ! ((0x803FC000 - 4096 * count) div 4096 mod 1024) div 4096 = frame"
proof -
  obtain m where m: "memory_init junk bottom_page top_page (kmem0 high) = Some m"
    using memory_init_progress[OF assms] by blast
  note r = memory_init_result[OF m assms(1,2) assms(5)[unfolded assms(3)] assms(6)]
  show ?thesis unfolding assms(3) using m r by blast
qed

theorem memory_init_free_frames_witness:
  "\<exists>m. memory_init (\<lambda>_. 0) 1 10 (kmem0 (replicate 1024 0)) = Some m \<and> page_pool m [8, 9]"
proof -
  have "\<exists>m. memory_init (\<lambda>_. 0) 1 10 (kmem0 (replicate 1024 0)) = Some m \<and>
    heap_inv {} m (\<lambda>_. {}) \<and> page_pool m [1 + 7..<Suc 9] \<and>
    flat_high m ! ((0x803FC000 - 4096 * 1) div 4096 mod 1024) div 4096 = 9"
    by (rule memory_init_free_frames[OF length_replicate]) simp_all
  moreover have "[1 + 7..<Suc 9] = [8, 9 :: nat]" by (simp add: upt_conv_Cons)
  ultimately show ?thesis by metis
qed

text \<open>
  the page list has 1024 entries for every 1024 frames between \<open>bottom_page\<close> and
  \<open>top_page\<close>, but the loop indexes it with absolute frame numbers. When the frames below
  \<open>bottom_page\<close> (the boot image) are not covered by the rounding, the first write of the loop
  is outside the list.
\<close>

theorem memory_init_overrun:
  assumes "count = (top_page - bottom_page) div 1024 + 1" and "bottom_page \<le> top_page - count"
    and "1024 * count \<le> top_page - count"
  shows "memory_init junk bottom_page top_page m = None"
proof -
  have *: "init_pagelist (top_page - count) bottom_page (m1\<lparr>freepage := 0\<rparr>) = None"
    if "length (pagelist m1) = 1024 * count" for m1
  proof -
    have "\<not> top_page - count < length (pagelist m1)" using that assms(3) by simp
    then show ?thesis using assms(2)
      by (simp add: init_pagelist.simps [of "top_page - count"] list_put_def)
  qed
  show ?thesis
  proof (cases "memory_init junk bottom_page top_page m")
    case (Some m')
    then obtain m1 where "aspace_maphi (top_page - count) ((nextmem m - 4096 * count) div 0x1000) count 3
        (m\<lparr>total_pages := 0, used_pages := 0, nextmem := nextmem m - 4096 * count,
           pagelist := map junk [0..<1024 * count]\<rparr>) = Some m1"
      and "init_pagelist (top_page - count) bottom_page (m1\<lparr>freepage := 0\<rparr>) \<noteq> None"
      unfolding memory_init_def Let_def assms(1)[symmetric] by (auto simp: bind_Some_conv)
    with *[of m1] show ?thesis using aspace_maphi_keeps by fastforce
  qed
qed

theorem memory_init_overrun_witness:
  "memory_init (\<lambda>_. 0) 3068 4093 (kmem0 (replicate 1024 0)) = None"
  by (rule memory_init_overrun[of 2]) simp_all

text \<open>
  C19: a block that \<open>kmallocB\<close> returns for a request of \<open>n\<close> bytes is at least \<open>n\<close> bytes
  long and shares no byte with any block that a client holds, whatever pools the blocks are
  from, and the heap stays well formed with the new block added. Giving the block back with
  \<open>kfreeB\<close> restores a well-formed heap without it.
\<close>

theorem kmalloc_no_overlap:
  assumes "heap_inv G m L" and "kmallocB n m = Some (b, m')"
  shows "n \<le> pool_size (size_map ! n) \<and>
    heap_inv G m' (L(size_map ! n := insert b (L (size_map ! n)))) \<and>
    (\<forall>k c x y. c \<in> L k \<and> x < n \<and> y < pool_size k \<longrightarrow> b + x \<noteq> c + y) \<and>
    (\<exists>m''. kfreeB n b m' = Some m'' \<and> heap_inv G m'' L)"
  using kmalloc.alloc_new[OF assms] kmalloc.alloc_disjoint[OF assms]
    kmalloc.alloc_then_release[OF assms] by blast

theorem kmalloc_no_overlap_witness:
  "\<exists>m b m'. memory_init (\<lambda>_. 0) 1 10 (kmem0 (replicate 1024 0)) = Some m \<and>
     kmallocB 12 m = Some (b, m') \<and>
     (\<exists>m''. kfreeB 12 b m' = Some m'' \<and> heap_inv {} m'' (\<lambda>_. {}))"
proof -
  obtain m where m: "memory_init (\<lambda>_. 0) 1 10 (kmem0 (replicate 1024 0)) = Some m"
    using memory_init_progress[OF length_replicate, of 1 1 10 9] by fastforce
  note inv = memory_init_heap[OF m] and fresh = memory_init_fresh[OF m]
  have h: "km_free_chain (km_map m ! (size_map ! 12)) = []"
    "km_fresh_count (km_map m ! (size_map ! 12)) \<noteq> 1"
    using fresh[of 0] by (simp_all add: pool_size_def)
  obtain b m' where b: "kmallocB 12 m = Some (b, m')"
    using kmallocB_cut[OF inv h] by fastforce
  from kmalloc_no_overlap[OF inv b] have "\<exists>m''. kfreeB 12 b m' = Some m'' \<and> heap_inv {} m'' (\<lambda>_. {})"
    by blast
  then show ?thesis using m b by blast
qed

end
