(* ===== verification/KList.thy ===== *)
theory KList
  imports KMemInit
begin

text \<open>
  The doubly linked lists of \<open>openblt/kernel/list.c\<close>, at the level of the pointers. A
  \<open>list_t\<close> and a \<open>node_t\<close> have the same layout: two pointers and a third word, which is
  \<open>count\<close> in a list and \<open>data\<close> in a node; the code casts a list to a node, so the store
  holds one kind of cell. Nodes come from \<open>kmallocB 12\<close> and go back through \<open>kfreeB 12\<close>.
  An access to an address that holds no cell (NULL, or a node that was freed) is \<open>None\<close>.

  The lemmas show that every operation implements the operation of the same name on the
  HOL list of the data pointers. The rest of the kernel model uses HOL lists for its
  queues, which is what these lemmas allow.
\<close>

section \<open>Store\<close>

record cell =
  c_next :: addr
  c_prev :: addr
  c_third :: addr    \<comment> \<open>\<open>count\<close> of a list, \<open>data\<close> of a node\<close>

record lst =
  cells :: "addr \<rightharpoonup> cell"
  lkm :: kmem

definition rd_next :: "addr \<Rightarrow> lst \<Rightarrow> addr option" where
  "rd_next a s = map_option c_next (cells s a)"

definition rd_prev :: "addr \<Rightarrow> lst \<Rightarrow> addr option" where
  "rd_prev a s = map_option c_prev (cells s a)"

definition rd_third :: "addr \<Rightarrow> lst \<Rightarrow> addr option" where
  "rd_third a s = map_option c_third (cells s a)"

definition wr_next :: "addr \<Rightarrow> addr \<Rightarrow> lst \<Rightarrow> lst option" where
  "wr_next a v s = do { c \<leftarrow> cells s a; Some (s\<lparr>cells := (cells s)(a \<mapsto> c\<lparr>c_next := v\<rparr>)\<rparr>) }"

definition wr_prev :: "addr \<Rightarrow> addr \<Rightarrow> lst \<Rightarrow> lst option" where
  "wr_prev a v s = do { c \<leftarrow> cells s a; Some (s\<lparr>cells := (cells s)(a \<mapsto> c\<lparr>c_prev := v\<rparr>)\<rparr>) }"

definition wr_third :: "addr \<Rightarrow> addr \<Rightarrow> lst \<Rightarrow> lst option" where
  "wr_third a v s = do { c \<leftarrow> cells s a; Some (s\<lparr>cells := (cells s)(a \<mapsto> c\<lparr>c_third := v\<rparr>)\<rparr>) }"

text \<open>\<open>kmalloc(node_t)\<close>: what the block holds is not specified, and every caller writes
  all three words before it reads one. \<open>kfree\<close> makes the block invalid.\<close>

definition node_alloc :: "lst \<Rightarrow> (addr \<times> lst) option" where
  "node_alloc s = do { (b, km) \<leftarrow> kmallocB 12 (lkm s);
     Some (b, s\<lparr>cells := (cells s)(b \<mapsto> \<lparr>c_next = 0, c_prev = 0, c_third = 0\<rparr>), lkm := km\<rparr>) }"

definition node_free :: "addr \<Rightarrow> lst \<Rightarrow> lst option" where
  "node_free b s = do { km \<leftarrow> kfreeB 12 b (lkm s);
     Some (s\<lparr>cells := (cells s)(b := None), lkm := km\<rparr>) }"

section \<open>Operations\<close>

definition list_init :: "addr \<Rightarrow> lst \<Rightarrow> lst option" where
  "list_init l s = do { s \<leftarrow> wr_next l l s; s \<leftarrow> wr_prev l l s; wr_third l 0 s }"

definition list_count_add :: "addr \<Rightarrow> int \<Rightarrow> lst \<Rightarrow> lst option" where
  "list_count_add l d s = do { c \<leftarrow> rd_third l s; wr_third l (nat ((int c + d) mod 2 ^ 32)) s }"

definition list_attach_head :: "addr \<Rightarrow> addr \<Rightarrow> lst \<Rightarrow> lst option" where
  "list_attach_head l node s = do {
     x \<leftarrow> rd_next l s;
     s \<leftarrow> wr_next node x s;
     y \<leftarrow> rd_next node s;
     s \<leftarrow> wr_prev y node s;
     s \<leftarrow> wr_prev node l s;
     s \<leftarrow> wr_next l node s;
     list_count_add l 1 s }"

definition list_attach_tail :: "addr \<Rightarrow> addr \<Rightarrow> lst \<Rightarrow> lst option" where
  "list_attach_tail l node s = do {
     x \<leftarrow> rd_prev l s;
     s \<leftarrow> wr_prev node x s;
     y \<leftarrow> rd_prev node s;
     s \<leftarrow> wr_next y node s;
     s \<leftarrow> wr_next node l s;
     s \<leftarrow> wr_prev l node s;
     list_count_add l 1 s }"

definition list_add_head :: "addr \<Rightarrow> addr \<Rightarrow> lst \<Rightarrow> lst option" where
  "list_add_head l data s = do {
     (node, s) \<leftarrow> node_alloc s;
     s \<leftarrow> wr_third node data s;
     list_attach_head l node s }"

definition list_add_tail :: "addr \<Rightarrow> addr \<Rightarrow> lst \<Rightarrow> lst option" where
  "list_add_tail l data s = do {
     (node, s) \<leftarrow> node_alloc s;
     s \<leftarrow> wr_third node data s;
     list_attach_tail l node s }"

definition list_peek_head :: "addr \<Rightarrow> lst \<Rightarrow> addr option" where
  "list_peek_head l s = do {
     n \<leftarrow> rd_next l s;
     (if n = l then Some 0 else rd_third n s) }"

definition list_peek_tail :: "addr \<Rightarrow> lst \<Rightarrow> addr option" where
  "list_peek_tail l s = do {
     n \<leftarrow> rd_prev l s;
     (if n = l then Some 0 else rd_third n s) }"

text \<open>The two pointer writes that take \<open>node\<close> out of its list.\<close>

definition unlink :: "addr \<Rightarrow> lst \<Rightarrow> lst option" where
  "unlink node s = do {
     p \<leftarrow> rd_prev node s;
     n \<leftarrow> rd_next node s;
     s \<leftarrow> wr_next p n s;
     n \<leftarrow> rd_next node s;
     p \<leftarrow> rd_prev node s;
     wr_prev n p s }"

text \<open>The same two writes in the order of \<open>list_remove\<close> and \<open>list_detach\<close>.\<close>

definition unlink_rev :: "addr \<Rightarrow> lst \<Rightarrow> lst option" where
  "unlink_rev node s = do {
     n \<leftarrow> rd_next node s;
     p \<leftarrow> rd_prev node s;
     s \<leftarrow> wr_prev n p s;
     p \<leftarrow> rd_prev node s;
     n \<leftarrow> rd_next node s;
     wr_next p n s }"

definition list_remove_head :: "addr \<Rightarrow> lst \<Rightarrow> (addr \<times> lst) option" where
  "list_remove_head l s = do {
     node \<leftarrow> rd_next l s;
     (if node = l then Some (0, s)
      else do {
        data \<leftarrow> rd_third node s;
        s \<leftarrow> unlink node s;
        s \<leftarrow> node_free node s;
        s \<leftarrow> list_count_add l (- 1) s;
        Some (data, s) }) }"

definition list_remove_tail :: "addr \<Rightarrow> lst \<Rightarrow> (addr \<times> lst) option" where
  "list_remove_tail l s = do {
     node \<leftarrow> rd_prev l s;
     (if node = l then Some (0, s)
      else do {
        data \<leftarrow> rd_third node s;
        s \<leftarrow> unlink node s;
        s \<leftarrow> node_free node s;
        s \<leftarrow> list_count_add l (- 1) s;
        Some (data, s) }) }"

definition list_detach_head :: "addr \<Rightarrow> lst \<Rightarrow> (addr \<times> lst) option" where
  "list_detach_head l s = do {
     node \<leftarrow> rd_next l s;
     (if node = l then Some (0, s)
      else do {
        s \<leftarrow> unlink node s;
        s \<leftarrow> list_count_add l (- 1) s;
        data \<leftarrow> rd_third node s;
        Some (data, s) }) }"

definition list_detach_tail :: "addr \<Rightarrow> lst \<Rightarrow> (addr \<times> lst) option" where
  "list_detach_tail l s = do {
     node \<leftarrow> rd_prev l s;
     (if node = l then Some (0, s)
      else do {
        s \<leftarrow> unlink node s;
        s \<leftarrow> list_count_add l (- 1) s;
        data \<leftarrow> rd_third node s;
        Some (data, s) }) }"

text \<open>The loops of \<open>list_remove\<close> and \<open>list_detach\<close>: on a ring that does not come back to
  the list they do not end.\<close>

partial_function (option) list_remove_from :: "addr \<Rightarrow> addr \<Rightarrow> addr \<Rightarrow> lst \<Rightarrow> (int \<times> lst) option" where
  "list_remove_from l data node s =
     (if node = l then Some (- 1, s)
      else do {
        d \<leftarrow> rd_third node s;
        (if d = data then do {
           s \<leftarrow> unlink_rev node s;
           s \<leftarrow> node_free node s;
           s \<leftarrow> list_count_add l (- 1) s;
           Some (0, s) }
         else do {
           n \<leftarrow> rd_next node s;
           list_remove_from l data n s }) })"

definition list_remove :: "addr \<Rightarrow> addr \<Rightarrow> lst \<Rightarrow> (int \<times> lst) option" where
  "list_remove l data s = do { node \<leftarrow> rd_next l s; list_remove_from l data node s }"

partial_function (option) list_detach_from :: "addr \<Rightarrow> addr \<Rightarrow> addr \<Rightarrow> lst \<Rightarrow> (int \<times> lst) option" where
  "list_detach_from l data node s =
     (if node = l then Some (- 1, s)
      else do {
        d \<leftarrow> rd_third node s;
        (if d = data then do {
           s \<leftarrow> unlink_rev node s;
           s \<leftarrow> list_count_add l (- 1) s;
           Some (0, s) }
         else do {
           n \<leftarrow> rd_next node s;
           list_detach_from l data n s }) })"

definition list_detach :: "addr \<Rightarrow> addr \<Rightarrow> lst \<Rightarrow> (int \<times> lst) option" where
  "list_detach l data s = do { node \<leftarrow> rd_next l s; list_detach_from l data node s }"

section \<open>Reads after writes\<close>

definition valid :: "addr \<Rightarrow> lst \<Rightarrow> bool" where
  "valid a s \<longleftrightarrow> cells s a \<noteq> None"

definition set_next :: "addr \<Rightarrow> addr \<Rightarrow> lst \<Rightarrow> lst" where
  "set_next a v s = s\<lparr>cells := (cells s)(a := map_option (c_next_update (\<lambda>_. v)) (cells s a))\<rparr>"

definition set_prev :: "addr \<Rightarrow> addr \<Rightarrow> lst \<Rightarrow> lst" where
  "set_prev a v s = s\<lparr>cells := (cells s)(a := map_option (c_prev_update (\<lambda>_. v)) (cells s a))\<rparr>"

definition set_third :: "addr \<Rightarrow> addr \<Rightarrow> lst \<Rightarrow> lst" where
  "set_third a v s = s\<lparr>cells := (cells s)(a := map_option (c_third_update (\<lambda>_. v)) (cells s a))\<rparr>"

lemma wr_valid [simp]:
  "valid a s \<Longrightarrow> wr_next a v s = Some (set_next a v s)"
  "valid a s \<Longrightarrow> wr_prev a v s = Some (set_prev a v s)"
  "valid a s \<Longrightarrow> wr_third a v s = Some (set_third a v s)"
  by (auto simp: valid_def wr_next_def wr_prev_def wr_third_def set_next_def set_prev_def
      set_third_def)

lemma rd_valid:
  "rd_next a s = Some v \<Longrightarrow> valid a s" "rd_prev a s = Some v \<Longrightarrow> valid a s"
  "rd_third a s = Some v \<Longrightarrow> valid a s"
  by (auto simp: valid_def rd_next_def rd_prev_def rd_third_def)

lemma rd_set [simp]:
  "valid a s \<Longrightarrow> rd_next x (set_next a v s) = (if x = a then Some v else rd_next x s)"
  "valid a s \<Longrightarrow> rd_prev x (set_prev a v s) = (if x = a then Some v else rd_prev x s)"
  "valid a s \<Longrightarrow> rd_third x (set_third a v s) = (if x = a then Some v else rd_third x s)"
  "rd_next x (set_prev a v s) = rd_next x s" "rd_next x (set_third a v s) = rd_next x s"
  "rd_prev x (set_next a v s) = rd_prev x s" "rd_prev x (set_third a v s) = rd_prev x s"
  "rd_third x (set_next a v s) = rd_third x s" "rd_third x (set_prev a v s) = rd_third x s"
  by (auto simp: valid_def rd_next_def rd_prev_def rd_third_def set_next_def set_prev_def
      set_third_def map_option_case split: option.splits)

lemma valid_set [simp]:
  "valid x (set_next a v s) = valid x s" "valid x (set_prev a v s) = valid x s"
  "valid x (set_third a v s) = valid x s"
  by (auto simp: valid_def set_next_def set_prev_def set_third_def)

lemma lkm_set [simp]:
  "lkm (set_next a v s) = lkm s" "lkm (set_prev a v s) = lkm s" "lkm (set_third a v s) = lkm s"
  by (auto simp: set_next_def set_prev_def set_third_def)

section \<open>Rings\<close>

text \<open>\<open>seg s p ns e\<close>: from \<open>p\<close> the next pointers visit the nodes \<open>ns\<close> and then \<open>e\<close>, and the
  previous pointers go back the same way.\<close>

primrec seg :: "lst \<Rightarrow> addr \<Rightarrow> addr list \<Rightarrow> addr \<Rightarrow> bool" where
  "seg s p [] e \<longleftrightarrow> rd_next p s = Some e \<and> rd_prev e s = Some p"
| "seg s p (n # ns) e \<longleftrightarrow> rd_next p s = Some n \<and> rd_prev n s = Some p \<and> seg s n ns e"

lemma seg_append: "seg s p (xs @ n # ys) e \<longleftrightarrow> seg s p xs n \<and> seg s n ys e"
  by (induction xs arbitrary: p) auto

lemma seg_cong:
  assumes "\<forall>x \<in> insert p (set ns). rd_next x s' = rd_next x s"
    and "\<forall>x \<in> insert e (set ns). rd_prev x s' = rd_prev x s"
  shows "seg s' p ns e = seg s p ns e"
  using assms by (induction ns arbitrary: p) auto

lemma seg_first: "seg s p ns e \<Longrightarrow> rd_next p s = Some (hd (ns @ [e]))"
  by (cases ns) auto

lemma seg_last: "seg s p ns e \<Longrightarrow> rd_prev e s = Some (last (p # ns))"
  by (induction ns arbitrary: p) auto

lemma seg_last_next: "seg s p ns e \<Longrightarrow> rd_next (last (p # ns)) s = Some e"
  by (induction ns arbitrary: p) auto

lemma seg_valid: "seg s p ns e \<Longrightarrow> x \<in> insert p (insert e (set ns)) \<Longrightarrow> valid x s"
  by (induction ns arbitrary: p) (auto dest: rd_valid)

text \<open>The end of a segment can be moved by the two writes at its last node.\<close>

lemma seg_retarget:
  assumes "seg s p ns e" and "distinct (p # ns)" and "q \<notin> set ns"
    and "rd_next (last (p # ns)) s' = Some q" and "rd_prev q s' = Some (last (p # ns))"
    and "\<forall>x \<in> insert p (set ns). x \<noteq> last (p # ns) \<longrightarrow> rd_next x s' = rd_next x s"
    and "\<forall>x \<in> set ns. rd_prev x s' = rd_prev x s"
  shows "seg s' p ns q"
  using assms
proof (induction ns arbitrary: p)
  case (Cons n ns)
  have "p \<noteq> last (n # ns)" using Cons.prems(2) last_in_set[of "n # ns"] by auto
  with Cons show ?case by auto
qed simp

text \<open>
  A list at \<open>l\<close> with the nodes \<open>ns\<close>, which carry the data \<open>ds\<close>; the counter holds their
  number as long as it fits into 32 bits.
\<close>

definition dlist_at :: "lst \<Rightarrow> addr \<Rightarrow> addr list \<Rightarrow> addr list \<Rightarrow> bool" where
  "dlist_at s l ns ds \<longleftrightarrow> seg s l ns l \<and> distinct (l # ns) \<and>
     rd_third l s = Some (length ns mod 2 ^ 32) \<and> map (\<lambda>n. rd_third n s) ns = map Some ds"

lemma dlist_at_length: "dlist_at s l ns ds \<Longrightarrow> length ns = length ds"
  unfolding dlist_at_def by (metis length_map)

lemma count_add_up: "nat ((int (n mod 2 ^ 32) + 1) mod 2 ^ 32) = Suc n mod (2 ^ 32)"
  by (simp add: zmod_int mod_add_left_eq) (simp add: nat_mod_distrib nat_add_distrib)

lemma count_add_down: "0 < n \<Longrightarrow> nat ((int (n mod 2 ^ 32) + - 1) mod 2 ^ 32) = (n - 1) mod (2 ^ 32)"
  by (simp add: zmod_int mod_diff_left_eq) (simp add: nat_mod_distrib nat_diff_distrib)

lemma list_count_add_valid:
  "rd_third l s = Some c \<Longrightarrow> list_count_add l d s = Some (set_third l (nat ((int c + d) mod 2 ^ 32)) s)"
  using rd_valid(3)[of l s c] by (simp add: list_count_add_def)

lemma list_count_up:
  "rd_third l s = Some (n mod 2 ^ 32) \<Longrightarrow> list_count_add l 1 s = Some (set_third l (Suc n mod 2 ^ 32) s)"
  using list_count_add_valid[of l s "n mod 2 ^ 32" 1] count_add_up[of n] by simp

lemma list_count_down:
  "rd_third l s = Some (n mod 2 ^ 32) \<Longrightarrow> 0 < n \<Longrightarrow>
     list_count_add l (- 1) s = Some (set_third l ((n - 1) mod 2 ^ 32) s)"
  using list_count_add_valid[of l s "n mod 2 ^ 32" "- 1"] count_add_down[of n] by simp

text \<open>What the two pointer writes at a node of a ring leave.\<close>

definition unlinked :: "addr \<Rightarrow> addr list \<Rightarrow> addr list \<Rightarrow> lst \<Rightarrow> lst" where
  "unlinked l as bs s = set_prev (hd (bs @ [l])) (last (l # as)) (set_next (last (l # as)) (hd (bs @ [l])) s)"

lemma set_prev_next: "set_next p q (set_prev b v s) = set_prev b v (set_next p q s)"
  by (rule lst.equality)
    (auto simp: set_next_def set_prev_def fun_eq_iff map_option_case split: option.splits)

lemma unlink_set:
  assumes "rd_prev n s = Some p" and "rd_next n s = Some q" and "p \<noteq> n" and "q \<noteq> n"
    and "valid p s" and "valid q s"
  shows "unlink n s = Some (set_prev q p (set_next p q s))"
    "unlink_rev n s = Some (set_prev q p (set_next p q s))"
  using assms by (simp_all add: unlink_def unlink_rev_def set_prev_next)

lemma unlink_ring:
  assumes "seg s l (as @ n # bs) l" and "distinct (l # as @ n # bs)"
  shows "unlink n s = Some (unlinked l as bs s)" "unlink_rev n s = Some (unlinked l as bs s)"
    "seg (unlinked l as bs s) l (as @ bs) l"
proof -
  let ?p = "last (l # as)" and ?q = "hd (bs @ [l])"
  from assms(1) have as: "seg s l as n" and bs: "seg s n bs l" by (auto simp: seg_append)
  have rd: "rd_prev n s = Some ?p" "rd_next n s = Some ?q"
    using seg_last[OF as] seg_first[OF bs] by auto
  have pq: "?p \<noteq> n" "?q \<noteq> n" "?p \<in> insert l (set as)" "?q \<in> insert l (set bs)"
    using assms(2) last_in_set[of "l # as"] hd_in_set[of "bs @ [l]"] by auto
  have v: "valid ?p s" "valid ?q s" "valid n s"
    using seg_valid[OF assms(1)] pq by auto
  show "unlink n s = Some (unlinked l as bs s)" "unlink_rev n s = Some (unlinked l as bs s)"
    unfolding unlinked_def by (rule unlink_set[OF rd pq(1,2) v(1,2)])+
  let ?s = "unlinked l as bs s"
  have nx: "rd_next ?p ?s = Some ?q" and pv: "rd_prev ?q ?s = Some ?p"
    and other: "\<And>x. x \<noteq> ?p \<Longrightarrow> rd_next x ?s = rd_next x s" "\<And>x. x \<noteq> ?q \<Longrightarrow> rd_prev x ?s = rd_prev x s"
    using v by (auto simp: unlinked_def)
  have qas: "?q \<notin> set as" using pq(4) assms(2) by auto
  have "\<forall>x \<in> set as. rd_prev x ?s = rd_prev x s" using other(2) qas by metis
  moreover have "distinct (l # as)" using assms(2) by auto
  ultimately have first: "seg ?s l as ?q"
    using seg_retarget[OF as _ qas nx pv] other(1) by blast
  show "seg ?s l (as @ bs) l"
  proof (cases bs)
    case Nil
    then show ?thesis using first by simp
  next
    case (Cons q bs')
    have "?p \<notin> insert q (set bs')" "q \<noteq> l \<and> q \<notin> set bs'"
      using pq(3) assms(2) Cons by auto
    then have "\<forall>x \<in> insert q (set bs'). rd_next x ?s = rd_next x s"
      "\<forall>x \<in> insert l (set bs'). rd_prev x ?s = rd_prev x s"
      using other Cons by (metis, metis append_Cons list.sel(1) insert_iff)
    from seg_cong[OF this] Cons bs have "seg ?s q bs' l" by simp
    with first Cons show ?thesis by (simp add: seg_append)
  qed
qed

lemma unlinked_keeps [simp]:
  "rd_third x (unlinked l as bs s) = rd_third x s" "lkm (unlinked l as bs s) = lkm s"
  "valid x (unlinked l as bs s) = valid x s"
  by (auto simp: unlinked_def)

lemma list_attach_tail_ring:
  assumes "dlist_at s l ns ds" and "rd_third n s = Some d" and "n \<notin> set (l # ns)"
  shows "\<exists>s'. list_attach_tail l n s = Some s' \<and> dlist_at s' l (ns @ [n]) (ds @ [d]) \<and> lkm s' = lkm s \<and>
    (\<forall>x. x \<noteq> l \<longrightarrow> rd_third x s' = rd_third x s)"
proof -
  let ?p = "last (l # ns)"
  have seg: "seg s l ns l" and dist: "distinct (l # ns)" and c: "rd_third l s = Some (length ns mod 2 ^ 32)"
    and data: "map (\<lambda>n. rd_third n s) ns = map Some ds"
    using assms(1) by (auto simp: dlist_at_def)
  have v: "valid ?p s" "valid l s" "valid n s"
    using seg_valid[OF seg] last_in_set[of "l # ns"] rd_valid(3)[OF assms(2)] by auto
  have pn: "?p \<noteq> n" using assms(3) last_in_set[of "l # ns"] by blast
  let ?s = "set_prev l n (set_next n l (set_next ?p n (set_prev n ?p s)))"
  have "list_attach_tail l n s = list_count_add l 1 ?s"
    using seg_last[OF seg] v pn by (simp add: list_attach_tail_def)
  also have "\<dots> = Some (set_third l (Suc (length ns) mod 2 ^ 32) ?s)"
    by (rule list_count_up) (use c in simp)
  finally have run: "list_attach_tail l n s = Some (set_third l (Suc (length ns) mod 2 ^ 32) ?s)" .
  have "seg (set_third l (Suc (length ns) mod 2 ^ 32) ?s) l ns n"
    using seg dist assms(3) v pn by (intro seg_retarget[OF seg]) auto
  moreover have "map (\<lambda>n. rd_third n (set_third l (Suc (length ns) mod 2 ^ 32) ?s)) ns
      = map (\<lambda>n. rd_third n s) ns"
    using dist v by (intro map_cong) auto
  ultimately have "dlist_at (set_third l (Suc (length ns) mod 2 ^ 32) ?s) l (ns @ [n]) (ds @ [d])"
    using v dist assms(2,3) pn data by (auto simp: dlist_at_def seg_append)
  moreover have "\<forall>x. x \<noteq> l \<longrightarrow> rd_third x (set_third l (Suc (length ns) mod 2 ^ 32) ?s) = rd_third x s"
    using v by simp
  ultimately show ?thesis using run by simp
qed

lemma list_attach_head_ring:
  assumes "dlist_at s l ns ds" and "rd_third n s = Some d" and "n \<notin> set (l # ns)"
  shows "\<exists>s'. list_attach_head l n s = Some s' \<and> dlist_at s' l (n # ns) (d # ds) \<and> lkm s' = lkm s \<and>
    (\<forall>x. x \<noteq> l \<longrightarrow> rd_third x s' = rd_third x s)"
proof -
  let ?q = "hd (ns @ [l])"
  have seg: "seg s l ns l" and dist: "distinct (l # ns)" and c: "rd_third l s = Some (length ns mod 2 ^ 32)"
    and data: "map (\<lambda>n. rd_third n s) ns = map Some ds"
    using assms(1) by (auto simp: dlist_at_def)
  have v: "valid ?q s" "valid l s" "valid n s"
    using seg_valid[OF seg] hd_in_set[of "ns @ [l]"] rd_valid(3)[OF assms(2)] by auto
  have qn: "?q \<noteq> n" using assms(3) hd_in_set[of "ns @ [l]"] by auto
  let ?s = "set_next l n (set_prev n l (set_prev ?q n (set_next n ?q s)))"
  let ?s' = "set_third l (Suc (length ns) mod 2 ^ 32) ?s"
  have "list_attach_head l n s = list_count_add l 1 ?s"
    using seg_first[OF seg] v qn by (simp add: list_attach_head_def)
  also have "\<dots> = Some ?s'"
    by (rule list_count_up) (use c in simp)
  finally have run: "list_attach_head l n s = Some ?s'" .
  have "seg ?s' n ns l"
  proof (cases ns)
    case Nil
    then show ?thesis using v assms(3) by simp
  next
    case (Cons q ns')
    with seg have "seg s q ns' l" by simp
    moreover have "seg ?s' q ns' l = seg s q ns' l"
      using Cons v dist assms(3) by (intro seg_cong) auto
    ultimately show ?thesis using Cons v assms(3) dist by auto
  qed
  moreover have "map (\<lambda>n. rd_third n ?s') ns = map (\<lambda>n. rd_third n s) ns"
    using dist v by (intro map_cong) auto
  ultimately have "dlist_at ?s' l (n # ns) (d # ds)"
    using v dist assms(2,3) qn data by (auto simp: dlist_at_def seg_append)
  moreover have "\<forall>x. x \<noteq> l \<longrightarrow> rd_third x (set_third l (Suc (length ns) mod 2 ^ 32) ?s) = rd_third x s"
    using v by simp
  ultimately show ?thesis using run by simp
qed

text \<open>The node of one datum is taken out.\<close>

definition drop_node :: "addr \<Rightarrow> addr list \<Rightarrow> addr list \<Rightarrow> lst \<Rightarrow> lst" where
  "drop_node l as bs s = set_third l ((length as + length bs) mod 2 ^ 32) (unlinked l as bs s)"

lemma drop_node_ring:
  assumes "dlist_at s l (as @ n # bs) (ds @ d # es)" and "length as = length ds"
  shows "unlink n s = Some (unlinked l as bs s)" "unlink_rev n s = Some (unlinked l as bs s)"
    "list_count_add l (- 1) (unlinked l as bs s) = Some (drop_node l as bs s)"
    "dlist_at (drop_node l as bs s) l (as @ bs) (ds @ es)"
    "rd_third n s = Some d" "n \<noteq> l" "valid l s"
proof -
  have seg: "seg s l (as @ n # bs) l" and dist: "distinct (l # as @ n # bs)"
    and c: "rd_third l s = Some (length (as @ n # bs) mod 2 ^ 32)"
    and data: "map (\<lambda>n. rd_third n s) (as @ n # bs) = map Some (ds @ d # es)"
    using assms(1) by (auto simp: dlist_at_def)
  note u = unlink_ring[OF seg dist]
  show "unlink n s = Some (unlinked l as bs s)" "unlink_rev n s = Some (unlinked l as bs s)"
    using u by auto
  show "list_count_add l (- 1) (unlinked l as bs s) = Some (drop_node l as bs s)"
    using list_count_down[of l "unlinked l as bs s" "length (as @ n # bs)"] c
    by (simp add: drop_node_def)
  have d: "map (\<lambda>n. rd_third n s) as = map Some ds" "map (\<lambda>n. rd_third n s) bs = map Some es"
    "rd_third n s = Some d"
    using data assms(2) by (auto simp: append_eq_append_conv)
  show "rd_third n s = Some d" "n \<noteq> l" using d dist by auto
  show v: "valid l s" by (rule rd_valid(3)[OF c])
  have "map (\<lambda>n. rd_third n (drop_node l as bs s)) (as @ bs) = map (\<lambda>n. rd_third n s) (as @ bs)"
    using dist v by (intro map_cong) (auto simp: drop_node_def)
  moreover have "seg (drop_node l as bs s) l (as @ bs) l = seg (unlinked l as bs s) l (as @ bs) l"
    by (rule seg_cong) (auto simp: drop_node_def)
  ultimately show "dlist_at (drop_node l as bs s) l (as @ bs) (ds @ es)"
    using u(3) dist d v by (auto simp: dlist_at_def drop_node_def)
qed

lemma drop_node_keeps [simp]:
  "valid l s \<Longrightarrow> x \<noteq> l \<Longrightarrow> rd_third x (drop_node l as bs s) = rd_third x s"
  "lkm (drop_node l as bs s) = lkm s" "valid x (drop_node l as bs s) = valid x s"
  by (auto simp: drop_node_def)

section \<open>The operations on the list of data\<close>

lemma dlist_split_head:
  "dlist_at s l ns (d # ds) \<Longrightarrow> \<exists>n bs. ns = [] @ n # bs \<and> dlist_at s l ([] @ n # bs) ([] @ d # ds)"
  using dlist_at_length[of s l ns "d # ds"] by (cases ns) auto

lemma dlist_split_tail:
  assumes "dlist_at s l ns (ds @ [d])"
  shows "\<exists>n as. ns = as @ [n] \<and> length as = length ds"
proof -
  have "length ns = Suc (length ds)" using dlist_at_length[OF assms] by simp
  then show ?thesis by (cases ns rule: rev_cases) auto
qed

lemma list_detach_head_ring:
  assumes "dlist_at s l ns ds"
  shows "\<exists>s' ms. list_detach_head l s = Some (case ds of [] \<Rightarrow> 0 | d # _ \<Rightarrow> d, s') \<and>
    dlist_at s' l ms (tl ds) \<and> ms = tl ns \<and> lkm s' = lkm s \<and>
    (\<forall>x. x \<noteq> l \<longrightarrow> rd_third x s' = rd_third x s)"
proof (cases ds)
  case Nil
  then have "ns = []" using dlist_at_length[OF assms] by simp
  then show ?thesis using assms Nil by (auto simp: list_detach_head_def dlist_at_def)
next
  case (Cons d es)
  with dlist_split_head assms obtain n bs where ns: "ns = [] @ n # bs" by blast
  have "dlist_at s l ([] @ n # bs) ([] @ d # es)" using assms ns Cons by simp
  note k = drop_node_ring[OF this]
  have "rd_next l s = Some n" using assms ns by (auto simp: dlist_at_def)
  with k ns Cons show ?thesis by (auto simp: list_detach_head_def)
qed

lemma list_detach_tail_ring:
  assumes "dlist_at s l ns ds"
  shows "\<exists>s'. list_detach_tail l s = Some (if ds = [] then 0 else last ds, s') \<and>
    dlist_at s' l (butlast ns) (butlast ds) \<and> lkm s' = lkm s \<and>
    (\<forall>x. x \<noteq> l \<longrightarrow> rd_third x s' = rd_third x s)"
proof (cases ds rule: rev_cases)
  case Nil
  then have "ns = []" using dlist_at_length[OF assms] by simp
  then show ?thesis using assms Nil by (auto simp: list_detach_tail_def dlist_at_def)
next
  case (snoc es d)
  with dlist_split_tail assms obtain n as where ns: "ns = as @ [n]" "length as = length es" by blast
  note k = drop_node_ring[OF assms[unfolded ns snoc] ns(2)]
  have "rd_prev l s = Some n" using assms ns by (auto simp: dlist_at_def dest: seg_last)
  with k ns snoc show ?thesis by (auto simp: list_detach_tail_def)
qed

text \<open>The search loops stop at the first node that carries the datum.\<close>

lemma search_step:
  assumes "dlist_at s l (as @ m # ns) (cs @ e # ds)" and "length as = length cs"
  shows "m \<noteq> l \<and> rd_third m s = Some e \<and> rd_next m s = Some (hd (ns @ [l]))"
  using drop_node_ring(5,6)[OF assms] assms(1) by (auto simp: dlist_at_def seg_append seg_first)

lemma list_detach_from_missing:
  assumes "dlist_at s l (as @ ns) (cs @ ds)" and "length as = length cs" and "d \<notin> set ds"
  shows "list_detach_from l d (hd (ns @ [l])) s = Some (- 1, s)"
  using assms
proof (induction ns arbitrary: as cs ds)
  case Nil
  then show ?case by (simp add: list_detach_from.simps[of l])
next
  case (Cons m ns)
  then obtain e ds' where ds: "ds = e # ds'" using dlist_at_length[OF Cons.prems(1)] by (cases ds) auto
  from search_step[of s l as m ns cs e ds'] Cons.prems ds
  have "list_detach_from l d m s = list_detach_from l d (hd (ns @ [l])) s"
    by (subst list_detach_from.simps) auto
  with Cons.IH[of "as @ [m]" "cs @ [e]" ds'] Cons.prems ds show ?case by simp
qed

lemma list_detach_from_found:
  assumes "dlist_at s l (as @ ms @ n # bs) (cs @ es @ d # fs)" and "length as = length cs"
    and "length ms = length es" and "d \<notin> set es"
  shows "list_detach_from l d (hd (ms @ [n])) s = Some (0, drop_node l (as @ ms) bs s)"
  using assms
proof (induction ms arbitrary: as cs es)
  case Nil
  then have "dlist_at s l (as @ n # bs) (cs @ d # fs)" by simp
  note k = drop_node_ring[OF this Nil(2)]
  show ?case by (simp add: list_detach_from.simps[of l] k)
next
  case (Cons m ms)
  then obtain e es' where es: "es = e # es'" by (cases es) auto
  from search_step[of s l as m "ms @ n # bs" cs e "es' @ d # fs"] Cons.prems es
  have "list_detach_from l d m s = list_detach_from l d (hd (ms @ n # bs @ [l])) s"
    by (subst list_detach_from.simps) auto
  moreover have "hd (ms @ n # bs @ [l]) = hd (ms @ [n])" by (cases ms) auto
  ultimately show ?case
    using Cons.IH[of "as @ [m]" "cs @ [e]" es'] Cons.prems es by simp
qed

lemma list_remove_from_missing:
  assumes "dlist_at s l (as @ ns) (cs @ ds)" and "length as = length cs" and "d \<notin> set ds"
  shows "list_remove_from l d (hd (ns @ [l])) s = Some (- 1, s)"
  using assms
proof (induction ns arbitrary: as cs ds)
  case Nil
  then show ?case by (simp add: list_remove_from.simps[of l])
next
  case (Cons m ns)
  then obtain e ds' where ds: "ds = e # ds'" using dlist_at_length[OF Cons.prems(1)] by (cases ds) auto
  from search_step[of s l as m ns cs e ds'] Cons.prems ds
  have "list_remove_from l d m s = list_remove_from l d (hd (ns @ [l])) s"
    by (subst list_remove_from.simps) auto
  with Cons.IH[of "as @ [m]" "cs @ [e]" ds'] Cons.prems ds show ?case by simp
qed

text \<open>What freeing the node leaves of the ring: the node is not read again.\<close>

definition free_cell :: "addr \<Rightarrow> kmem \<Rightarrow> lst \<Rightarrow> lst" where
  "free_cell n km s = s\<lparr>cells := (cells s)(n := None), lkm := km\<rparr>"

lemma rd_free_cell [simp]:
  "x \<noteq> n \<Longrightarrow> rd_next x (free_cell n km s) = rd_next x s"
  "x \<noteq> n \<Longrightarrow> rd_prev x (free_cell n km s) = rd_prev x s"
  "x \<noteq> n \<Longrightarrow> rd_third x (free_cell n km s) = rd_third x s"
  "lkm (free_cell n km s) = km"
  by (auto simp: free_cell_def rd_next_def rd_prev_def rd_third_def)

lemma dlist_at_free_cell:
  "dlist_at s l ns ds \<Longrightarrow> n \<notin> set (l # ns) \<Longrightarrow> dlist_at (free_cell n km s) l ns ds"
proof -
  assume a: "dlist_at s l ns ds" "n \<notin> set (l # ns)"
  then have ne: "\<forall>x \<in> insert l (set ns). x \<noteq> n" by auto
  then have "seg (free_cell n km s) l ns l = seg s l ns l" by (intro seg_cong) simp_all
  moreover have "map (\<lambda>x. rd_third x (free_cell n km s)) ns = map (\<lambda>x. rd_third x s) ns"
    using ne by (intro map_cong) auto
  ultimately show ?thesis using a by (auto simp: dlist_at_def simp del: map_eq_conv)
qed

lemma list_count_add_free:
  assumes "list_count_add l d s = Some s'" and "n \<noteq> l"
  shows "list_count_add l d (free_cell n km s) = Some (free_cell n km s')"
proof -
  from assms(1) obtain c where c: "cells s l = Some c"
    and s': "s' = s\<lparr>cells := (cells s)(l \<mapsto> c\<lparr>c_third := nat ((int (c_third c) + d) mod 2 ^ 32)\<rparr>)\<rparr>"
    by (auto simp: list_count_add_def rd_third_def wr_third_def bind_Some_conv)
  show ?thesis using c assms(2) unfolding s'
    by (simp add: list_count_add_def rd_third_def wr_third_def free_cell_def fun_upd_twist[of l n])
qed

text \<open>Freeing the node before the counter is written, as the code does.\<close>

lemma drop_node_free:
  assumes "dlist_at s l (as @ n # bs) (ds @ d # es)" and "length as = length ds"
    and "kfreeB 12 n (lkm s) = Some km"
  shows "\<exists>s'. do { s \<leftarrow> node_free n (unlinked l as bs s); list_count_add l (- 1) s } = Some s' \<and>
    dlist_at s' l (as @ bs) (ds @ es) \<and> lkm s' = km"
proof -
  note k = drop_node_ring[OF assms(1,2)]
  have "node_free n (unlinked l as bs s) = Some (free_cell n km (unlinked l as bs s))"
    using assms(3) by (simp add: node_free_def free_cell_def)
  moreover have "list_count_add l (- 1) (free_cell n km (unlinked l as bs s))
      = Some (free_cell n km (drop_node l as bs s))"
    using list_count_add_free[OF k(3)] k(6) by simp
  moreover have "n \<notin> set (l # as @ bs)" using assms(1) by (auto simp: dlist_at_def)
  ultimately show ?thesis using dlist_at_free_cell[OF k(4)] by auto
qed

lemma list_remove_from_found:
  assumes "dlist_at s l (as @ ms @ n # bs) (cs @ es @ d # fs)" and "length as = length cs"
    and "length ms = length es" and "d \<notin> set es" and "kfreeB 12 n (lkm s) = Some km"
  shows "\<exists>s'. list_remove_from l d (hd (ms @ [n])) s = Some (0, s') \<and>
    dlist_at s' l (as @ ms @ bs) (cs @ es @ fs) \<and> lkm s' = km"
  using assms
proof (induction ms arbitrary: as cs es)
  case Nil
  then have *: "dlist_at s l (as @ n # bs) (cs @ d # fs)" by simp
  note k = drop_node_ring[OF * Nil(2)]
  from drop_node_free[OF * Nil(2,5)] k Nil(3) show ?case
    by (auto simp: list_remove_from.simps[of l] bind_Some_conv)
next
  case (Cons m ms)
  then obtain e es' where es: "es = e # es'" by (cases es) auto
  from search_step[of s l as m "ms @ n # bs" cs e "es' @ d # fs"] Cons.prems es
  have "list_remove_from l d m s = list_remove_from l d (hd (ms @ n # bs @ [l])) s"
    by (subst list_remove_from.simps) auto
  moreover have "hd (ms @ n # bs @ [l]) = hd (ms @ [n])" by (cases ms) auto
  ultimately show ?case
    using Cons.IH[of "as @ [m]" "cs @ [e]" es'] Cons.prems es by simp
qed

text \<open>The first occurrence of a datum splits the list and its nodes.\<close>

lemma dlist_split:
  assumes "dlist_at s l ns ds" and "d \<in> set ds"
  obtains ms n bs es fs where "ns = ms @ n # bs" and "ds = es @ d # fs" and "d \<notin> set es"
    and "length ms = length es"
proof -
  from split_list_first[OF assms(2)] obtain es fs where ds: "ds = es @ d # fs" "d \<notin> set es" by blast
  from dlist_at_length[OF assms(1)] ds have "length ns = length es + Suc (length fs)" by simp
  then have "ns = take (length es) ns @ ns ! length es # drop (Suc (length es)) ns"
    "length (take (length es) ns) = length es"
    by (auto simp flip: id_take_nth_drop)
  with ds that show ?thesis by blast
qed

lemma list_detach_ring:
  assumes "dlist_at s l ns ds"
  shows "\<exists>s' ms. list_detach l d s = Some (if d \<in> set ds then 0 else - 1, s') \<and>
    dlist_at s' l ms (remove1 d ds) \<and> set ms \<subseteq> set ns \<and> lkm s' = lkm s"
proof (cases "d \<in> set ds")
  case True
  from dlist_split[OF assms this] obtain ms n bs es fs
    where sp: "ns = ms @ n # bs" "ds = es @ d # fs" "d \<notin> set es" "length ms = length es" .
  have "dlist_at s l ([] @ ms @ n # bs) ([] @ es @ d # fs)" using assms sp by simp
  note f = list_detach_from_found[OF this _ sp(4,3)]
  have "rd_next l s = Some (hd (ms @ [n]))"
    using assms sp(1) by (cases ms) (auto simp: dlist_at_def)
  with f drop_node_ring(4)[of s l ms n bs es d fs] assms sp show ?thesis
    by (auto simp: list_detach_def remove1_append)
next
  case False
  have "rd_next l s = Some (hd (ns @ [l]))" using assms by (auto simp: dlist_at_def dest: seg_first)
  with list_detach_from_missing[of s l "[]" ns "[]" ds d] assms False show ?thesis
    by (auto simp: list_detach_def remove1_idem)
qed

section \<open>Lists that own their nodes\<close>

text \<open>
  \<open>list_owned G L s l ns ds\<close>: the nodes of the list are blocks that the list holds, and the
  list itself lies in a block that is not one of them.
\<close>

definition list_home :: "(nat \<Rightarrow> addr set) \<Rightarrow> addr \<Rightarrow> addr list \<Rightarrow> bool" where
  "list_home L l ns \<longleftrightarrow>
     (\<exists>k c y. c \<in> L k \<and> y < pool_size k \<and> l = c + y \<and> (k = KM16 \<longrightarrow> c \<notin> set ns))"

definition list_owned :: "addr set \<Rightarrow> (nat \<Rightarrow> addr set) \<Rightarrow> lst \<Rightarrow> addr \<Rightarrow> addr list \<Rightarrow> addr list \<Rightarrow> bool" where
  "list_owned G L s l ns ds \<longleftrightarrow> heap_inv G (lkm s) L \<and> dlist_at s l ns ds \<and> set ns \<subseteq> L KM16 \<and>
     list_home L l ns"

lemma list_home_change:
  assumes "list_home L l ns" and "\<And>k c. c \<in> L k \<Longrightarrow> (k = KM16 \<longrightarrow> c \<notin> set ns) \<Longrightarrow>
    c \<in> L' k \<and> (k = KM16 \<longrightarrow> c \<notin> set ms)"
  shows "list_home L' l ms"
proof -
  from assms(1) obtain k c y where "c \<in> L k" "y < pool_size k" "l = c + y" "k = KM16 \<longrightarrow> c \<notin> set ns"
    by (auto simp: list_home_def)
  with assms(2)[of c k] show ?thesis unfolding list_home_def by blast
qed

lemma node_alloc_owned:
  assumes "list_owned G L s l ns ds" and "kmallocB 12 (lkm s) = Some (b, km)"
  shows "\<exists>s'. node_alloc s = Some (b, s') \<and> valid b s' \<and> lkm s' = km \<and> dlist_at s' l ns ds \<and>
    b \<notin> set (l # ns) \<and> heap_inv G km (L(KM16 := insert b (L KM16)))"
proof -
  let ?s = "s\<lparr>cells := (cells s)(b \<mapsto> \<lparr>c_next = 0, c_prev = 0, c_third = 0\<rparr>), lkm := km\<rparr>"
  have inv: "heap_inv G (lkm s) L" and at: "dlist_at s l ns ds" and ns: "set ns \<subseteq> L KM16"
    using assms(1) by (auto simp: list_owned_def)
  from assms(1) obtain k c y where l: "c \<in> L k" "y < pool_size k" "l = c + y"
    by (auto simp: list_owned_def list_home_def)
  note new = kmalloc.alloc_new[OF inv assms(2), simplified]
  have bl: "b \<noteq> l" using kmalloc.alloc_disjoint[OF inv assms(2) l(1) _ l(2), of 0] l(3) by simp
  have b: "b \<notin> set (l # ns)" using new ns bl by auto
  have "rd_next x ?s = rd_next x s \<and> rd_prev x ?s = rd_prev x s \<and> rd_third x ?s = rd_third x s"
    if "x \<noteq> b" for x using that by (simp add: rd_next_def rd_prev_def rd_third_def)
  moreover have ne: "\<forall>x \<in> insert l (set ns). x \<noteq> b" using b by auto
  ultimately have "seg ?s l ns l = seg s l ns l" "rd_third l ?s = rd_third l s"
    "map (\<lambda>x. rd_third x ?s) ns = map (\<lambda>x. rd_third x s) ns"
    using seg_cong[of l ns ?s s l] by auto
  with at have "dlist_at ?s l ns ds" by (auto simp: dlist_at_def)
  moreover have "node_alloc s = Some (b, ?s)" using assms(2) by (simp add: node_alloc_def)
  ultimately show ?thesis using b new by (auto simp: valid_def)
qed

lemma dlist_at_set_third:
  "dlist_at s l ns ds \<Longrightarrow> b \<notin> set (l # ns) \<Longrightarrow> dlist_at (set_third b d s) l ns ds"
proof -
  assume a: "dlist_at s l ns ds" "b \<notin> set (l # ns)"
  have "rd_third x (set_third b d s) = rd_third x s" if "x \<noteq> b" for x
    using that by (simp add: rd_third_def set_third_def)
  moreover have "\<forall>x \<in> insert l (set ns). x \<noteq> b" using a(2) by auto
  ultimately have "map (\<lambda>x. rd_third x (set_third b d s)) ns = map (\<lambda>x. rd_third x s) ns"
    "rd_third l (set_third b d s) = rd_third l s" by auto
  moreover have "seg (set_third b d s) l ns l = seg s l ns l" by (intro seg_cong) simp_all
  ultimately show ?thesis using a by (auto simp: dlist_at_def simp del: map_eq_conv)
qed

lemma list_owned_add:
  assumes "list_owned G L s l ns ds" and "b \<notin> L KM16" and "set ms = insert b (set ns)"
    and "heap_inv G (lkm s') (L(KM16 := insert b (L KM16)))" and "dlist_at s' l ms es"
  shows "list_owned G (L(KM16 := insert b (L KM16))) s' l ms es"
proof -
  have "list_home (L(KM16 := insert b (L KM16))) l ms"
    by (rule list_home_change[of L l ns]) (use assms(1-3) in \<open>auto simp: list_owned_def\<close>)
  with assms show ?thesis by (auto simp: list_owned_def)
qed

lemma list_add_tail_owned:
  assumes "list_owned G L s l ns ds" and "kmallocB 12 (lkm s) = Some (b, km)"
  shows "\<exists>s'. list_add_tail l d s = Some s' \<and>
    list_owned G (L(KM16 := insert b (L KM16))) s' l (ns @ [b]) (ds @ [d])"
proof -
  from node_alloc_owned[OF assms] obtain s1 where s1: "node_alloc s = Some (b, s1)" "valid b s1"
    "lkm s1 = km" "dlist_at s1 l ns ds" "b \<notin> set (l # ns)" "heap_inv G km (L(KM16 := insert b (L KM16)))"
    by auto
  from list_attach_tail_ring[OF dlist_at_set_third[OF s1(4,5)] _ s1(5), of d d] s1(2)
  obtain s' where s': "list_attach_tail l b (set_third b d s1) = Some s'"
    "dlist_at s' l (ns @ [b]) (ds @ [d])" "lkm s' = km" using s1(3) by auto
  have b: "b \<notin> L KM16" using kmalloc.alloc_new[OF _ assms(2)] assms(1) by (auto simp: list_owned_def)
  have "list_owned G (L(KM16 := insert b (L KM16))) s' l (ns @ [b]) (ds @ [d])"
    by (rule list_owned_add[OF assms(1) b]) (use s1(6) s' in auto)
  then show ?thesis using s1(1,2) s'(1) by (auto simp: list_add_tail_def)
qed

lemma list_add_head_owned:
  assumes "list_owned G L s l ns ds" and "kmallocB 12 (lkm s) = Some (b, km)"
  shows "\<exists>s'. list_add_head l d s = Some s' \<and>
    list_owned G (L(KM16 := insert b (L KM16))) s' l (b # ns) (d # ds)"
proof -
  from node_alloc_owned[OF assms] obtain s1 where s1: "node_alloc s = Some (b, s1)" "valid b s1"
    "lkm s1 = km" "dlist_at s1 l ns ds" "b \<notin> set (l # ns)" "heap_inv G km (L(KM16 := insert b (L KM16)))"
    by auto
  from list_attach_head_ring[OF dlist_at_set_third[OF s1(4,5)] _ s1(5), of d d] s1(2)
  obtain s' where s': "list_attach_head l b (set_third b d s1) = Some s'"
    "dlist_at s' l (b # ns) (d # ds)" "lkm s' = km" using s1(3) by auto
  have b: "b \<notin> L KM16" using kmalloc.alloc_new[OF _ assms(2)] assms(1) by (auto simp: list_owned_def)
  have "list_owned G (L(KM16 := insert b (L KM16))) s' l (b # ns) (d # ds)"
    by (rule list_owned_add[OF assms(1) b]) (use s1(6) s' in auto)
  then show ?thesis using s1(1,2) s'(1) by (auto simp: list_add_head_def)
qed

lemma kfreeB_12:
  assumes "heap_inv G m L" and "b \<in> L KM16"
  shows "\<exists>km. kfreeB 12 b m = Some km \<and> heap_inv G km (L(KM16 := L KM16 - {b}))"
proof -
  from assms(1) obtain PP where "kmem_inv m PP L G" by (auto simp: heap_inv_def)
  from kfreeP_inv[OF this _ assms(2)] assms(1) show ?thesis by (auto simp: heap_inv_def kfreeB_def)
qed

lemma list_owned_drop:
  assumes "list_owned G L s l ns ds" and "set ms \<subseteq> set ns - {b}" and "b \<in> set ns"
    and "heap_inv G (lkm s') (L(KM16 := L KM16 - {b}))" and "dlist_at s' l ms es"
  shows "list_owned G (L(KM16 := L KM16 - {b})) s' l ms es"
proof -
  have "list_home (L(KM16 := L KM16 - {b})) l ms"
    by (rule list_home_change[of L l ns]) (use assms(1-3) in \<open>auto simp: list_owned_def\<close>)
  with assms show ?thesis by (auto simp: list_owned_def)
qed

lemma list_remove_owned:
  assumes "list_owned G L s l ns ds"
  shows "\<exists>s' ms L'. list_remove l d s = Some (if d \<in> set ds then 0 else - 1, s') \<and>
    list_owned G L' s' l ms (remove1 d ds) \<and> (\<forall>k. L' k \<subseteq> L k)"
proof (cases "d \<in> set ds")
  case True
  have at: "dlist_at s l ns ds" and dist: "distinct ns"
    using assms by (auto simp: list_owned_def dlist_at_def)
  from dlist_split[OF at True] obtain ms n bs es fs
    where sp: "ns = ms @ n # bs" "ds = es @ d # fs" "d \<notin> set es" "length ms = length es" .
  have "n \<in> L KM16" using assms sp(1) by (auto simp: list_owned_def)
  with kfreeB_12[of G "lkm s" L n] assms obtain km where km: "kfreeB 12 n (lkm s) = Some km"
    "heap_inv G km (L(KM16 := L KM16 - {n}))" by (auto simp: list_owned_def)
  have "dlist_at s l ([] @ ms @ n # bs) ([] @ es @ d # fs)" using at sp by simp
  from list_remove_from_found[OF this _ sp(4,3) km(1)]
  obtain s' where s': "list_remove_from l d (hd (ms @ [n])) s = Some (0, s')"
    "dlist_at s' l (ms @ bs) (es @ fs)" "lkm s' = km" by auto
  have "rd_next l s = Some (hd (ms @ [n]))"
    using at sp(1) by (cases ms) (auto simp: dlist_at_def)
  moreover have "list_owned G (L(KM16 := L KM16 - {n})) s' l (ms @ bs) (es @ fs)"
    by (rule list_owned_drop[OF assms]) (use dist sp(1) s' km in auto)
  ultimately show ?thesis using s' sp(2,3)
    by (intro exI[of _ s'] exI[of _ "ms @ bs"] exI[of _ "L(KM16 := L KM16 - {n})"])
      (auto simp: list_remove_def remove1_append)
next
  case False
  have at: "dlist_at s l ns ds" using assms by (simp add: list_owned_def)
  have "rd_next l s = Some (hd (ns @ [l]))" using at by (auto simp: dlist_at_def dest: seg_first)
  with list_remove_from_missing[of s l "[]" ns "[]" ds d] at False assms show ?thesis
    by (auto simp: list_remove_def remove1_idem)
qed

lemma list_remove_head_owned:
  assumes "list_owned G L s l ns ds"
  shows "\<exists>s' ms L'. list_remove_head l s = Some (case ds of [] \<Rightarrow> 0 | d # _ \<Rightarrow> d, s') \<and>
    list_owned G L' s' l ms (tl ds) \<and> (\<forall>k. L' k \<subseteq> L k)"
proof (cases ds)
  case Nil
  have at: "dlist_at s l ns ds" using assms by (simp add: list_owned_def)
  then have "ns = []" using Nil dlist_at_length by force
  then have "list_remove_head l s = Some (0, s)"
    using at by (auto simp: list_remove_head_def dlist_at_def)
  then show ?thesis using assms Nil by auto
next
  case (Cons d es)
  have at: "dlist_at s l ns ds" and dist: "distinct ns"
    using assms by (auto simp: list_owned_def dlist_at_def)
  with dlist_split_head Cons obtain n bs where ns: "ns = n # bs" by fastforce
  have "n \<in> L KM16" using assms ns by (auto simp: list_owned_def)
  with kfreeB_12[of G "lkm s" L n] assms obtain km where km: "kfreeB 12 n (lkm s) = Some km"
    "heap_inv G km (L(KM16 := L KM16 - {n}))" by (auto simp: list_owned_def)
  have at': "dlist_at s l ([] @ n # bs) ([] @ d # es)" using at ns Cons by simp
  from drop_node_free[OF at' _ km(1)] obtain s' where s':
    "do { s \<leftarrow> node_free n (unlinked l [] bs s); list_count_add l (- 1) s } = Some s'"
    "dlist_at s' l bs es" "lkm s' = km" by auto
  note k = drop_node_ring[OF at']
  have "rd_next l s = Some n" using at ns by (auto simp: dlist_at_def)
  with k s'(1) have "list_remove_head l s = Some (d, s')"
    by (auto simp: list_remove_head_def bind_Some_conv)
  moreover have "list_owned G (L(KM16 := L KM16 - {n})) s' l bs es"
    by (rule list_owned_drop[OF assms]) (use dist ns s' km in auto)
  ultimately show ?thesis using Cons
    by (intro exI[of _ s'] exI[of _ bs] exI[of _ "L(KM16 := L KM16 - {n})"]) auto
qed

section \<open>First in, first out\<close>

text \<open>
  What the clients of a queue rely on. \<open>q s xs\<close> says that the queue of the state \<open>s\<close> holds
  \<open>xs\<close>, the oldest first; \<open>elem\<close> are the elements that may be queued.
\<close>

locale fifo =
  fixes enq :: "'x \<Rightarrow> 's \<Rightarrow> 's option"
    and deq :: "'s \<Rightarrow> ('x \<times> 's) option"
    and q :: "'s \<Rightarrow> 'x list \<Rightarrow> bool"
    and elem :: "'x \<Rightarrow> bool"
    and none :: 'x
  assumes enq_ok: "q s xs \<Longrightarrow> elem x \<Longrightarrow> x \<notin> set xs \<Longrightarrow> \<exists>s'. enq x s = Some s' \<and> q s' (xs @ [x])"
    and deq_Cons: "q s (x # xs) \<Longrightarrow> \<exists>s'. deq s = Some (x, s') \<and> q s' xs"
    and deq_Nil: "q s [] \<Longrightarrow> \<exists>s'. deq s = Some (none, s') \<and> q s' []"
begin

primrec enq_all :: "'x list \<Rightarrow> 's \<Rightarrow> 's option" where
  "enq_all [] s = Some s"
| "enq_all (x # xs) s = do { s \<leftarrow> enq x s; enq_all xs s }"

primrec deq_all :: "nat \<Rightarrow> 's \<Rightarrow> ('x list \<times> 's) option" where
  "deq_all 0 s = Some ([], s)"
| "deq_all (Suc n) s = do { (x, s) \<leftarrow> deq s; (xs, s) \<leftarrow> deq_all n s; Some (x # xs, s) }"

lemma enq_all_ok:
  "q s ys \<Longrightarrow> \<forall>x \<in> set xs. elem x \<Longrightarrow> distinct (ys @ xs) \<Longrightarrow>
     \<exists>s'. enq_all xs s = Some s' \<and> q s' (ys @ xs)"
proof (induction xs arbitrary: ys s)
  case (Cons x xs)
  then obtain s1 where "enq x s = Some s1" "q s1 (ys @ [x])" using enq_ok[of s ys x] by auto
  with Cons.IH[of s1 "ys @ [x]"] Cons.prems show ?case by auto
qed simp

lemma deq_all_ok: "q s (xs @ ys) \<Longrightarrow> \<exists>s'. deq_all (length xs) s = Some (xs, s') \<and> q s' ys"
proof (induction xs arbitrary: s)
  case (Cons x xs)
  then obtain s1 where "deq s = Some (x, s1)" "q s1 (xs @ ys)" using deq_Cons by fastforce
  with Cons.IH[of s1] show ?case by auto
qed simp

lemma enq_then_deq:
  assumes "q s (x # xs)" and "elem y" and "y \<notin> set (x # xs)"
  shows "\<exists>s' s''. enq y s = Some s' \<and> deq s' = Some (x, s'') \<and> q s'' (xs @ [y])"
  using enq_ok[OF assms] deq_Cons by fastforce

lemma fifo_order:
  assumes "q s []" and "\<forall>x \<in> set xs. elem x" and "distinct xs"
  shows "\<exists>s' s''. enq_all xs s = Some s' \<and> deq_all (length xs) s' = Some (xs, s'') \<and> q s'' []"
  using enq_all_ok[of s "[]" xs] assms deq_all_ok[of _ xs "[]"] by fastforce

end

text \<open>
  The wait queues of the kernel: the list at \<open>l\<close> links the nodes that lie inside the tasks
  \<open>U\<close>, at the offset \<open>off\<close> of the field \<open>node\<close>, and each node carries its own task.
\<close>

definition task_queue :: "addr \<Rightarrow> nat \<Rightarrow> addr set \<Rightarrow> lst \<Rightarrow> addr list \<Rightarrow> bool" where
  "task_queue l off U s ts \<longleftrightarrow> dlist_at s l (map (\<lambda>t. t + off) ts) ts \<and>
     (\<forall>t \<in> U. rd_third (t + off) s = Some t \<and> t + off \<noteq> l)"

interpretation waitq: fifo "\<lambda>t. list_attach_tail l (t + off)" "list_detach_head l"
    "task_queue l off U" "\<lambda>t. t \<in> U" 0
  for l off :: nat and U :: "addr set"
proof (unfold_locales, goal_cases)
  case (1 s xs x)
  then have "x + off \<notin> set (l # map (\<lambda>t. t + off) xs)" "rd_third (x + off) s = Some x"
    by (auto simp: task_queue_def)
  with list_attach_tail_ring[of s l "map (\<lambda>t. t + off) xs" xs "x + off" x] 1 show ?case
    by (fastforce simp: task_queue_def)
next
  case (2 s x xs)
  then show ?case using list_detach_head_ring[of s l "map (\<lambda>t. t + off) (x # xs)" "x # xs"]
    by (fastforce simp: task_queue_def)
next
  case (3 s)
  then show ?case using list_detach_head_ring[of s l "[]" "[]"]
    by (fastforce simp: task_queue_def)
qed

section \<open>Properties\<close>

text \<open>
  C22: on a list that owns its nodes, \<open>list_remove\<close> finds its way through the ring, takes out
  the first node that carries the datum (and only that one), gives the node back to the
  allocator and returns 0, or returns -1 and changes nothing; \<open>list_remove_head\<close> returns the
  oldest datum or NULL. The list that is left is again well formed and owns its nodes.
\<close>

theorem list_remove_refines:
  assumes "list_owned G L s l ns ds"
  shows "(\<exists>s' ms L'. list_remove l d s = Some (if d \<in> set ds then 0 else - 1, s') \<and>
      list_owned G L' s' l ms (remove1 d ds)) \<and>
    (\<exists>s' ms L'. list_remove_head l s = Some (case ds of [] \<Rightarrow> 0 | d # _ \<Rightarrow> d, s') \<and>
      list_owned G L' s' l ms (tl ds))"
  using list_remove_owned[OF assms] list_remove_head_owned[OF assms] by blast

text \<open>
  C34: when the allocator has a block, \<open>list_add_tail\<close> and \<open>list_add_head\<close> put the datum at
  the end and at the front of the list; the new node is a block that overlaps neither the list
  nor one of its nodes, so the ring stays intact.
\<close>

theorem list_add_refines:
  assumes "list_owned G L s l ns ds" and "kmallocB 12 (lkm s) = Some (b, km)"
  shows "(\<exists>s'. list_add_tail l d s = Some s' \<and>
      list_owned G (L(KM16 := insert b (L KM16))) s' l (ns @ [b]) (ds @ [d])) \<and>
    (\<exists>s'. list_add_head l d s = Some s' \<and>
      list_owned G (L(KM16 := insert b (L KM16))) s' l (b # ns) (d # ds))"
  using list_add_tail_owned[OF assms] list_add_head_owned[OF assms] by blast

text \<open>An empty list in a block of the heap that \<open>memory_init\<close> leaves.\<close>

lemma empty_list_owned:
  obtains m L b s b' km where
    "memory_init (\<lambda>_. 0) 1 10 (kmem0 (replicate 1024 0)) = Some m"
    and "list_owned {} L s b [] []" and "kmallocB 12 (lkm s) = Some (b', km)"
proof -
  obtain m where m: "memory_init (\<lambda>_. 0) 1 10 (kmem0 (replicate 1024 0)) = Some m"
    using memory_init_progress[OF length_replicate, of 1 1 10 9] by fastforce
  note inv = memory_init_heap[OF m]
  have "km_free_chain (km_map m ! 0) = []" "km_fresh_count (km_map m ! 0) = 256"
    using memory_init_fresh[OF m, of 0] by (simp_all add: pool_size_def)
  then obtain b m1 where b: "kmallocB 12 m = Some (b, m1)"
    and m1: "km_free_chain (km_map m1 ! 0) = []" "km_fresh_count (km_map m1 ! 0) = 255"
    using kmallocB_cut[OF inv, of 12] by auto
  have inv1: "heap_inv {} m1 ((\<lambda>_. {})(0 := {b}))"
    using kmalloc.alloc_new[OF inv b] by simp
  obtain b' m2 where b': "kmallocB 12 m1 = Some (b', m2)"
    using kmallocB_cut[OF inv1, of 12] m1 by auto
  let ?s = "\<lparr>cells = [b \<mapsto> \<lparr>c_next = b, c_prev = b, c_third = 0\<rparr>], lkm = m1\<rparr>"
  have "list_owned {} ((\<lambda>_. {})(0 := {b})) ?s b [] []"
    using inv1 by (auto simp: list_owned_def list_home_def dlist_at_def rd_next_def rd_prev_def
        rd_third_def pool_size_def intro!: exI[of _ 0])
  with that m b' show thesis by simp
qed

theorem list_remove_refines_witness:
  "\<exists>m L b s. memory_init (\<lambda>_. 0) 1 10 (kmem0 (replicate 1024 0)) = Some m \<and>
     list_owned {} L s b [] [] \<and> (\<exists>s'. list_remove b 7 s = Some (- 1, s'))"
proof -
  obtain m L b s b' km where *: "memory_init (\<lambda>_. 0) 1 10 (kmem0 (replicate 1024 0)) = Some m"
    "list_owned {} L s b [] []" by (rule empty_list_owned)
  from list_remove_refines[OF *(2), of 7] * show ?thesis by fastforce
qed

theorem list_add_refines_witness:
  "\<exists>m L b s b' km. memory_init (\<lambda>_. 0) 1 10 (kmem0 (replicate 1024 0)) = Some m \<and>
     list_owned {} L s b [] [] \<and>
     (\<exists>s' L'. list_add_tail b 7 s = Some s' \<and> list_owned {} L' s' b [b'] [7])"
proof -
  obtain m L b s b' km where *: "memory_init (\<lambda>_. 0) 1 10 (kmem0 (replicate 1024 0)) = Some m"
    "list_owned {} L s b [] []" "kmallocB 12 (lkm s) = Some (b', km)" by (rule empty_list_owned)
  from list_add_refines[OF *(2,3), of 7] * show ?thesis by fastforce
qed



end
