(* ===== verification/KState.thy ===== *)
theory KState
  imports KMemory
begin

text \<open>
  The state of the kernel (\<open>openblt/kernel\<close>) and its resource table (\<open>resource.c\<close>).

  Every kernel object starts with a \<open>resource_t\<close>, so one address names the resource and the
  object. The objects live in maps from addresses; an access to an address that holds no
  object of the kind (NULL, or memory that was freed) is \<open>None\<close>, like \<open>panic()\<close>. Objects get
  a fresh address (that the allocator gives disjoint blocks is shown in \<open>KMemInit\<close>) and a
  freed address is not used again, so that every use after free is visible. The lists of
  \<open>list.c\<close> are HOL lists, which is what \<open>KList\<close> shows of them; pages come from \<open>KMemory\<close>.
  The field \<open>rights\<close> is initialised and never used and has no counterpart.

  A task that gives up the processor inside the kernel keeps the place where it goes on as
  a value of \<open>kont\<close>, with the local variables that are read afterwards.
\<close>

section \<open>Types\<close>

datatype rsrc_type = RSRC_NONE | RSRC_TASK | RSRC_ASPACE | RSRC_PORT | RSRC_SEM | RSRC_RIGHT
  | RSRC_AREA | RSRC_QUEUE | RSRC_TEAM

record rsrc =
  r_id :: nat
  r_type :: rsrc_type
  r_owner :: addr
  r_queue :: "addr list"      \<comment> \<open>the waiting tasks, the first one to be woken first\<close>
  r_name :: "u8 list"

datatype tflag = tKERNEL | tRUNNING | tREADY | tDEAD | tWAITING | tSLEEP_IRQ | tSLEEP_TIMER
  | tSLEEP_PAGING

text \<open>
  \<open>KUser\<close>: back to the task itself. \<open>KRet v\<close>: the system call returns \<open>v\<close>. The others are
  the places after a \<open>wait_on\<close> or \<open>swtch\<close>, with the variables that are still needed:
  \<open>KSend\<close> in \<open>port_send\<close>, \<open>KRecv\<close> in \<open>port_recv\<close>, \<open>KReap\<close> in \<open>reaper\<close>, \<open>KDead\<close> after
  \<open>terminate\<close>; \<open>KReaper\<close> is the start of the loop of \<open>reaper\<close>.
\<close>

datatype kont = KUser | KRet int | KSemAcquire | KThrWait | KDead | KReaper | KReap
  | KSend (send_src: int) (send_dst: int) (send_msg: addr) (send_size: nat) (send_code: nat) (send_port: addr)
  | KRecv (recv_src: addr) (recv_msg: addr) (recv_size: nat) (recv_code: addr) (recv_port: addr)

record task =
  waiting_on :: addr
  t_status :: int
  wait_time :: int
  t_flags :: tflag
  t_irq :: nat
  scount :: nat
  t_team :: addr
  stack_area :: addr
  kstack :: addr
  ustack :: nat
  t_cr3 :: nat
  t_esp :: nat
  t_esp0 :: nat
  t_stack :: "nat list"       \<comment> \<open>the words that \<open>task_create\<close> pushed, the lowest address first\<close>
  t_eax :: int                \<comment> \<open>\<open>eax\<close> of the saved user registers\<close>
  t_kont :: kont

record message =
  m_size :: nat
  m_code :: nat
  from_port :: int
  to_port :: int
  m_data :: addr              \<comment> \<open>0 when there is no buffer\<close>

record port =
  msgcount :: int
  slaved :: nat
  p_msgs :: "message list"    \<comment> \<open>\<open>first\<close> .. \<open>last\<close>\<close>
  refcount :: int
  nowait :: nat
  restrict :: nat
  sendqueue :: addr

record team =
  tm_resources :: "addr list"
  tm_refcount :: int
  tm_aspace :: addr
  heap_id :: int
  text_area :: int

record pagegroup =
  pg_size :: nat
  pg_refcount :: int
  pg_flags :: nat
  pg_areas :: "addr list"
  pg_pages :: "nat list list" \<comment> \<open>the \<open>phys_page_t\<close> chain, six frame numbers each\<close>

record area =
  ar_pgroup :: addr
  virt_addr :: nat
  ar_length :: nat
  maxlength :: nat

record aspace =
  as_areas :: "addr list"
  as_pdir :: addr
  as_ptab :: addr
  pdir_tab :: "nat list"      \<comment> \<open>the 1024 words at \<open>pdir\<close>\<close>
  ptab_tab :: "nat list"      \<comment> \<open>the 1024 words at \<open>ptab\<close>\<close>
  pdirphys :: nat

record kstate =
  rmap_resource :: "addr list"
  rmap_next :: "nat list"
  rfree :: nat
  resource_list :: "addr list"
  rsrcs :: "addr \<rightharpoonup> rsrc"
  tasks :: "addr \<rightharpoonup> task"
  sems :: "addr \<rightharpoonup> int"
  ports :: "addr \<rightharpoonup> port"
  teams :: "addr \<rightharpoonup> team"
  aspaces :: "addr \<rightharpoonup> aspace"
  areas :: "addr \<rightharpoonup> area"
  pgroups :: "addr \<rightharpoonup> pagegroup"
  bufs :: "addr \<rightharpoonup> u8 list"
  msg_pool :: "addr list"
  next_ref :: addr
  current :: addr
  idle_task :: addr
  run_queue :: addr
  timer_queue :: addr
  reaper_queue :: addr
  kernel_team :: addr
  reaper_sem :: nat
  live_tasks :: int
  kernel_timer :: int
  irq_task_map :: "addr list"
  pic0 :: u8
  pic1 :: u8
  umem :: "addr \<Rightarrow> addr \<Rightarrow> u8"  \<comment> \<open>user memory, by address space\<close>
  km :: kmem
  base_cr3 :: nat
  halted :: bool

abbreviation (input) "ERR_NONE \<equiv> (0::int)"
abbreviation (input) "ERR_PERMISSION \<equiv> (- 1::int)"
abbreviation (input) "ERR_RESOURCE \<equiv> (- 2::int)"
abbreviation (input) "ERR_MEMORY \<equiv> (- 3::int)"
abbreviation (input) "ERR_SENDPORT \<equiv> (- 4::int)"
abbreviation (input) "ERR_RECVPORT \<equiv> (- 5::int)"
abbreviation (input) "ERR_WOULD_BLOCK \<equiv> (- 6::int)"
abbreviation (input) "ERR_SEGV \<equiv> (- 7::int)"

text \<open>The address of \<open>null_resource\<close>, which is a static object of the kernel.\<close>

abbreviation (input) "null_resource \<equiv> (1::nat)"

section \<open>Access to objects\<close>

definition upd_rsrc :: "addr \<Rightarrow> (rsrc \<Rightarrow> rsrc) \<Rightarrow> kstate \<Rightarrow> kstate option" where
  "upd_rsrc r f s = do { x \<leftarrow> rsrcs s r; Some (s\<lparr>rsrcs := (rsrcs s)(r \<mapsto> f x)\<rparr>) }"

definition upd_task :: "addr \<Rightarrow> (task \<Rightarrow> task) \<Rightarrow> kstate \<Rightarrow> kstate option" where
  "upd_task t f s = do { x \<leftarrow> tasks s t; Some (s\<lparr>tasks := (tasks s)(t \<mapsto> f x)\<rparr>) }"

definition upd_port :: "addr \<Rightarrow> (port \<Rightarrow> port) \<Rightarrow> kstate \<Rightarrow> kstate option" where
  "upd_port p f s = do { x \<leftarrow> ports s p; Some (s\<lparr>ports := (ports s)(p \<mapsto> f x)\<rparr>) }"

definition upd_team :: "addr \<Rightarrow> (team \<Rightarrow> team) \<Rightarrow> kstate \<Rightarrow> kstate option" where
  "upd_team p f s = do { x \<leftarrow> teams s p; Some (s\<lparr>teams := (teams s)(p \<mapsto> f x)\<rparr>) }"

text \<open>\<open>kmalloc\<close> of an object.\<close>

definition new_ref :: "kstate \<Rightarrow> addr \<times> kstate" where
  "new_ref s = (next_ref s, s\<lparr>next_ref := next_ref s + 1\<rparr>)"

section \<open>The resource table\<close>

text \<open>
  \<open>rsrc_init(map, size)\<close>: \<open>n = size / sizeof(rtab)\<close> entries. The last write closes the free
  chain; with an empty map it is outside the map.
\<close>

definition rsrc_init :: "nat \<Rightarrow> kstate \<Rightarrow> kstate option" where
  "rsrc_init n s = do {
     nx \<leftarrow> (if n = 0 then None else Some ((map Suc [0..<n])[n - 1 := 0]));
     Some (s\<lparr>resource_list := [], rfree := 1, rmap_resource := replicate n null_resource,
       rmap_next := nx,
       rsrcs := (rsrcs s)(null_resource \<mapsto> \<lparr>r_id = 0, r_type = RSRC_NONE, r_owner = 0,
          r_queue = [], r_name = []\<rparr>)\<rparr>) }"

text \<open>An \<open>int\<close> id is compared and used as an index after the conversion to unsigned.\<close>

definition to_index :: "int \<Rightarrow> nat" where
  "to_index i = nat (i mod 4294967296)"

definition rsrc_find :: "rsrc_type \<Rightarrow> int \<Rightarrow> kstate \<Rightarrow> addr option" where
  "rsrc_find ty i s =
     (if to_index i < length (rmap_resource s) then do {
        x \<leftarrow> rsrcs s (rmap_resource s ! to_index i);
        Some (if r_type x = ty then rmap_resource s ! to_index i else 0) }
      else Some 0)"

definition rsrc_identify :: "int \<Rightarrow> kstate \<Rightarrow> int option" where
  "rsrc_identify i s =
     (if length (rmap_resource s) \<le> to_index i then Some 0
      else do {
        x \<leftarrow> rsrcs s (rmap_resource s ! to_index i);
        (if r_type x = RSRC_NONE then Some 0
         else do {
           o_rsrc \<leftarrow> rsrcs s (r_owner x);
           Some (int (r_id o_rsrc)) }) })"

text \<open>\<open>list_remove\<close> and \<open>list_add_tail\<close> on the resources of a team.\<close>

definition rsrc_set_owner :: "addr \<Rightarrow> addr \<Rightarrow> kstate \<Rightarrow> kstate option" where
  "rsrc_set_owner r owner s = do {
     x \<leftarrow> rsrcs s r;
     s \<leftarrow> (if r_owner x \<noteq> 0
           then upd_team (r_owner x) (\<lambda>t. t\<lparr>tm_resources := remove1 r (tm_resources t)\<rparr>) s
           else Some s);
     s \<leftarrow> upd_rsrc r (\<lambda>x. x\<lparr>r_owner := owner\<rparr>) s;
     (if owner \<noteq> 0
      then upd_team owner (\<lambda>t. t\<lparr>tm_resources := tm_resources t @ [r]\<rparr>) s
      else Some s) }"

definition alloc_id :: "kstate \<Rightarrow> (nat \<times> kstate) option" where
  "alloc_id s =
     (if rfree s \<noteq> 0 then do {
        nx \<leftarrow> list_get (rmap_next s) (rfree s);
        Some (rfree s, s\<lparr>rfree := nx\<rparr>) }
      else None)"

definition rsrc_bind :: "addr \<Rightarrow> rsrc_type \<Rightarrow> addr \<Rightarrow> kstate \<Rightarrow> kstate option" where
  "rsrc_bind r ty owner s = do {
     (i, s) \<leftarrow> alloc_id s;
     rm \<leftarrow> list_put (rmap_resource s) i r;
     let s = s\<lparr>rmap_resource := rm, rsrcs := (rsrcs s)(r \<mapsto> \<lparr>r_id = i, r_type = ty,
        r_owner = owner, r_queue = [], r_name = []\<rparr>)\<rparr>;
     s \<leftarrow> (if owner \<noteq> 0
           then upd_team owner (\<lambda>t. t\<lparr>tm_resources := tm_resources t @ [r]\<rparr>) s
           else Some s);
     Some (s\<lparr>resource_list := resource_list s @ [r]\<rparr>) }"

definition free_id :: "nat \<Rightarrow> kstate \<Rightarrow> kstate option" where
  "free_id i s = do {
     nx \<leftarrow> list_put (rmap_next s) i (rfree s);
     Some (s\<lparr>rmap_next := nx, rfree := i\<rparr>) }"

text \<open>The copy loop stops at the end of the string or after 31 characters.\<close>

definition name_bytes :: "(nat \<Rightarrow> u8) option \<Rightarrow> u8 list" where
  "name_bytes name =
     (case name of None \<Rightarrow> [] | Some f \<Rightarrow> takeWhile (\<lambda>c. c \<noteq> 0) (map f [0..<31]))"

definition rsrc_set_name :: "addr \<Rightarrow> (nat \<Rightarrow> u8) option \<Rightarrow> kstate \<Rightarrow> kstate option" where
  "rsrc_set_name r name s = upd_rsrc r (\<lambda>x. x\<lparr>r_name := name_bytes name\<rparr>) s"

definition rsrc_enqueue :: "addr \<Rightarrow> addr \<Rightarrow> kstate \<Rightarrow> kstate option" where
  "rsrc_enqueue r t s = do {
     s \<leftarrow> upd_task t (\<lambda>x. x\<lparr>wait_time := 0, t_flags := tWAITING, waiting_on := r\<rparr>) s;
     upd_rsrc r (\<lambda>x. x\<lparr>r_queue := r_queue x @ [t]\<rparr>) s }"

definition rsrc_enqueue_ordered :: "addr \<Rightarrow> addr \<Rightarrow> int \<Rightarrow> kstate \<Rightarrow> kstate option" where
  "rsrc_enqueue_ordered r t wake_time s = do {
     s \<leftarrow> upd_rsrc r (\<lambda>x. x\<lparr>r_queue := r_queue x @ [t]\<rparr>) s;
     upd_task t (\<lambda>x. x\<lparr>wait_time := wake_time, t_flags := tWAITING, waiting_on := r\<rparr>) s }"

text \<open>\<open>list_detach_head\<close> on a queue; 0 when it is empty.\<close>

definition queue_detach :: "addr \<Rightarrow> kstate \<Rightarrow> (addr \<times> kstate) option" where
  "queue_detach r s = do {
     x \<leftarrow> rsrcs s r;
     (case r_queue x of
        [] \<Rightarrow> Some (0, s)
      | t # ts \<Rightarrow> Some (t, s\<lparr>rsrcs := (rsrcs s)(r \<mapsto> x\<lparr>r_queue := ts\<rparr>)\<rparr>)) }"

definition rsrc_dequeue :: "addr \<Rightarrow> kstate \<Rightarrow> (addr \<times> kstate) option" where
  "rsrc_dequeue r s = do {
     (t, s) \<leftarrow> queue_detach r s;
     (if t = 0 then Some (0, s)
      else do {
        s \<leftarrow> upd_task t (\<lambda>x. x\<lparr>waiting_on := 0, t_flags := tREADY\<rparr>) s;
        Some (t, s) }) }"

text \<open>Without an element the C function returns nothing; its caller sees NULL by accident.\<close>

definition rsrc_queue_peek :: "addr \<Rightarrow> kstate \<Rightarrow> addr option" where
  "rsrc_queue_peek r s = do {
     x \<leftarrow> rsrcs s r;
     (case r_queue x of [] \<Rightarrow> Some 0 | t # _ \<Rightarrow> Some t) }"

definition rsrc_typename :: "rsrc \<Rightarrow> string" where
  "rsrc_typename x = (case r_type x of
     RSRC_NONE \<Rightarrow> ''none'' | RSRC_TASK \<Rightarrow> ''task'' | RSRC_ASPACE \<Rightarrow> ''aspace''
   | RSRC_PORT \<Rightarrow> ''port'' | RSRC_SEM \<Rightarrow> ''sem'' | RSRC_RIGHT \<Rightarrow> ''right''
   | RSRC_AREA \<Rightarrow> ''area'' | RSRC_QUEUE \<Rightarrow> ''queue'' | RSRC_TEAM \<Rightarrow> ''team'')"

definition queue_create :: "(nat \<Rightarrow> u8) option \<Rightarrow> addr \<Rightarrow> kstate \<Rightarrow> (nat \<times> kstate) option" where
  "queue_create name tm s = (let (r, s) = new_ref s in do {
     s \<leftarrow> rsrc_bind r RSRC_QUEUE tm s;
     s \<leftarrow> rsrc_set_name r name s;
     x \<leftarrow> rsrcs s r;
     Some (r_id x, s) })"

section \<open>Waking, waiting and switching (\<open>task.c\<close>, \<open>kernel.c\<close>)\<close>

definition task_wake :: "addr \<Rightarrow> int \<Rightarrow> kstate \<Rightarrow> kstate option" where
  "task_wake t status s = do {
     s \<leftarrow> upd_task t (\<lambda>x. x\<lparr>t_status := status\<rparr>) s;
     rsrc_enqueue (run_queue s) t s }"

text \<open>
  The loop of \<open>rsrc_release\<close> and of \<open>terminate\<close>: the head is detached and woken until the
  queue is empty. A woken task goes to the run queue, which is never the queue being drained;
  the fuel is the length of the queue.
\<close>

fun wake_all :: "nat \<Rightarrow> addr \<Rightarrow> int \<Rightarrow> kstate \<Rightarrow> kstate option" where
  "wake_all fuel r status s = do {
     (t, s) \<leftarrow> queue_detach r s;
     (if t = 0 then Some s
      else (case fuel of 0 \<Rightarrow> None
        | Suc fuel \<Rightarrow> do { s \<leftarrow> task_wake t status s; wake_all fuel r status s })) }"

declare wake_all.simps [simp del]

definition wake_queue :: "addr \<Rightarrow> int \<Rightarrow> kstate \<Rightarrow> kstate option" where
  "wake_queue r status s = do { x \<leftarrow> rsrcs s r; wake_all (length (r_queue x)) r status s }"

definition rsrc_release :: "addr \<Rightarrow> kstate \<Rightarrow> kstate option" where
  "rsrc_release r s = do {
     x \<leftarrow> rsrcs s r;
     s \<leftarrow> (if r_owner x \<noteq> 0
           then upd_team (r_owner x) (\<lambda>t. t\<lparr>tm_resources := remove1 r (tm_resources t)\<rparr>) s
           else Some s);
     s \<leftarrow> Some (s\<lparr>resource_list := remove1 r (resource_list s)\<rparr>);
     s \<leftarrow> wake_queue r ERR_RESOURCE s;
     s \<leftarrow> upd_rsrc r (\<lambda>x. x\<lparr>r_type := RSRC_NONE, r_id := 0\<rparr>) s;
     rm \<leftarrow> list_put (rmap_resource s) (r_id x) null_resource;
     free_id (r_id x) (s\<lparr>rmap_resource := rm\<rparr>) }"

text \<open>
  \<open>swtch\<close>. The new task's registers come with \<open>_context_switch\<close>, which here means that
  \<open>current\<close> goes on at its \<open>t_kont\<close>; \<open>halted\<close> is the exit through \<open>destroy_kspace\<close>.
\<close>

definition swtch :: "kstate \<Rightarrow> kstate option" where
  "swtch s = do {
     c \<leftarrow> tasks s (current s);
     rq \<leftarrow> rsrcs s (run_queue s);
     (if r_queue rq = [] \<and> t_flags c = tRUNNING then Some s
      else do {
        s \<leftarrow> (if t_flags c = tRUNNING \<and> current s \<noteq> idle_task s
              then rsrc_enqueue (run_queue s) (current s) s else Some s);
        (t, s) \<leftarrow> rsrc_dequeue (run_queue s) s;
        (if t = 0 \<and> live_tasks s = 0 then Some (s\<lparr>current := 0, halted := True\<rparr>)
         else do {
           s \<leftarrow> Some (s\<lparr>current := (if t = 0 then idle_task s else t)\<rparr>);
           c \<leftarrow> tasks s (current s);
           (if t_flags c = tDEAD then None
            else upd_task (current s) (\<lambda>x. x\<lparr>t_flags := tRUNNING, scount := scount x + 1\<rparr>) s) }) }) }"

text \<open>A task that gives up the processor goes on at \<open>k\<close>.\<close>

definition set_kont :: "kont \<Rightarrow> kstate \<Rightarrow> kstate option" where
  "set_kont k s = upd_task (current s) (\<lambda>x. x\<lparr>t_kont := k\<rparr>) s"

definition wait_on :: "addr \<Rightarrow> kont \<Rightarrow> kstate \<Rightarrow> kstate option" where
  "wait_on r k s = do {
     s \<leftarrow> set_kont k s;
     s \<leftarrow> upd_task (current s) (\<lambda>x. x\<lparr>t_status := 0\<rparr>) s;
     s \<leftarrow> rsrc_enqueue r (current s) s;
     swtch s }"

definition preempt :: "addr \<Rightarrow> int \<Rightarrow> kstate \<Rightarrow> kstate option" where
  "preempt t status s = do {
     s \<leftarrow> (if current s \<noteq> idle_task s then rsrc_enqueue (run_queue s) (current s) s else Some s);
     upd_task t (\<lambda>x. x\<lparr>t_status := status, t_flags := tRUNNING, scount := scount x + 1\<rparr>)
       (s\<lparr>current := t\<rparr>) }"

end
