(* ===== verification/KIpc.thy ===== *)
theory KIpc
  imports KState
begin

text \<open>
  Semaphores (\<open>sem.c\<close>) and ports (\<open>port.c\<close>).

  An operation either returns its result to the caller (\<open>Ret\<close>) or has switched to another
  task (\<open>Switched\<close>); then the rest of it is in the \<open>t_kont\<close> of the task that waits. The part
  of an operation that runs after a wait is a definition of its own (\<open>sem_acquire_wakeup\<close>,
  \<open>port_send_wakeup\<close>, \<open>port_recv_wakeup\<close>).
\<close>

datatype outcome = Ret int | Switched

section \<open>Semaphores\<close>

definition cur_owner :: "kstate \<Rightarrow> addr option" where
  "cur_owner s = map_option r_owner (rsrcs s (current s))"

definition sem_create :: "int \<Rightarrow> (nat \<Rightarrow> u8) option \<Rightarrow> kstate \<Rightarrow> (int \<times> kstate) option" where
  "sem_create count name s = (let (r, s) = new_ref s in do {
     let s = s\<lparr>sems := (sems s)(r \<mapsto> count)\<rparr>;
     owner \<leftarrow> cur_owner s;
     s \<leftarrow> rsrc_bind r RSRC_SEM owner s;
     s \<leftarrow> rsrc_set_name r name s;
     x \<leftarrow> rsrcs s r;
     Some (int (r_id x), s) })"

definition sem_destroy :: "int \<Rightarrow> kstate \<Rightarrow> (int \<times> kstate) option" where
  "sem_destroy i s = do {
     r \<leftarrow> rsrc_find RSRC_SEM i s;
     (if r = 0 then Some (ERR_RESOURCE, s)
      else do {
        s \<leftarrow> rsrc_release r s;
        Some (ERR_NONE, s\<lparr>sems := (sems s)(r := None), rsrcs := (rsrcs s)(r := None)\<rparr>) }) }"

definition sem_acquire :: "int \<Rightarrow> kstate \<Rightarrow> (outcome \<times> kstate) option" where
  "sem_acquire i s = do {
     r \<leftarrow> rsrc_find RSRC_SEM i s;
     (if r = 0 then Some (Ret ERR_RESOURCE, s)
      else do {
        count \<leftarrow> sems s r;
        (if count > 0 then Some (Ret ERR_NONE, s\<lparr>sems := (sems s)(r \<mapsto> count - 1)\<rparr>)
         else do {
           s \<leftarrow> wait_on r KSemAcquire (s\<lparr>sems := (sems s)(r \<mapsto> count - 1)\<rparr>);
           Some (Switched, s) }) }) }"

definition sem_acquire_wakeup :: "kstate \<Rightarrow> (outcome \<times> kstate) option" where
  "sem_acquire_wakeup s = do {
     c \<leftarrow> tasks s (current s);
     Some (Ret (if t_status c \<noteq> 0 then t_status c else ERR_NONE), s) }"

definition sem_release :: "int \<Rightarrow> kstate \<Rightarrow> (outcome \<times> kstate) option" where
  "sem_release i s = do {
     r \<leftarrow> rsrc_find RSRC_SEM i s;
     (if r = 0 then Some (Ret ERR_RESOURCE, s)
      else do {
        count \<leftarrow> sems s r;
        (t, s) \<leftarrow> rsrc_dequeue r (s\<lparr>sems := (sems s)(r \<mapsto> count + 1)\<rparr>);
        (if t \<noteq> 0 then do {
           s \<leftarrow> set_kont (KRet ERR_NONE) s;
           s \<leftarrow> preempt t ERR_NONE s;
           Some (Switched, s) }
         else Some (Ret ERR_NONE, s)) }) }"

section \<open>Ports\<close>

abbreviation (input) "MAX_MSGCOUNT \<equiv> (16::int)"
abbreviation (input) "PORT_OPT_NOWAIT \<equiv> (1::nat)"
abbreviation (input) "PORT_OPT_SETRESTRICT \<equiv> (2::nat)"
abbreviation (input) "PORT_OPT_SLAVE \<equiv> (4::nat)"

text \<open>The name \<open>qname\<close> that the code prints is not used: the queue gets the port's name.\<close>

definition port_create :: "nat \<Rightarrow> (nat \<Rightarrow> u8) option \<Rightarrow> kstate \<Rightarrow> (int \<times> kstate) option" where
  "port_create restr name s = (let (p, s) = new_ref s; (sq, s) = new_ref s in do {
     let s = s\<lparr>ports := (ports s)(p \<mapsto> \<lparr>msgcount = 0, slaved = 0, p_msgs = [], refcount = 1,
        nowait = 0, restrict = restr, sendqueue = sq\<rparr>)\<rparr>;
     owner \<leftarrow> cur_owner s;
     s \<leftarrow> rsrc_bind p RSRC_PORT owner s;
     s \<leftarrow> rsrc_bind sq RSRC_QUEUE owner s;
     s \<leftarrow> rsrc_set_name p name s;
     s \<leftarrow> rsrc_set_name sq name s;
     x \<leftarrow> rsrcs s p;
     Some (int (r_id x), s) })"

definition port_destroy :: "int \<Rightarrow> kstate \<Rightarrow> (int \<times> kstate) option" where
  "port_destroy i s = do {
     p \<leftarrow> rsrc_find RSRC_PORT i s;
     (if p = 0 then Some (ERR_RESOURCE, s)
      else do {
        x \<leftarrow> ports s p;
        (if refcount x = 1 then do {
           s \<leftarrow> rsrc_release p s;
           s \<leftarrow> rsrc_release (sendqueue x) s;
           Some (ERR_NONE, s\<lparr>rsrcs := (rsrcs s)(sendqueue x := None, p := None),
              ports := (ports s)(p := None)\<rparr>) }
         else Some (ERR_RESOURCE, s)) }) }"

text \<open>The owners are compared with the owner of the current task.\<close>

definition port_option :: "int \<Rightarrow> nat \<Rightarrow> nat \<Rightarrow> kstate \<Rightarrow> (int \<times> kstate) option" where
  "port_option i opt arg s = do {
     p \<leftarrow> rsrc_find RSRC_PORT i s;
     (if p = 0 then Some (ERR_RESOURCE, s)
      else do {
        x \<leftarrow> rsrcs s p;
        owner \<leftarrow> cur_owner s;
        (if r_owner x \<noteq> owner then Some (ERR_PERMISSION, s)
         else if opt = PORT_OPT_SETRESTRICT then do {
           s \<leftarrow> upd_port p (\<lambda>p. p\<lparr>restrict := arg\<rparr>) s;
           Some (ERR_NONE, s) }
         else if opt = PORT_OPT_SLAVE then do {
           master \<leftarrow> (if arg \<noteq> 0 then rsrc_find RSRC_PORT (int arg) s else Some 0);
           (if arg \<noteq> 0 \<and> master = 0 then Some (ERR_RESOURCE, s)
            else do {
              m_owner \<leftarrow> (if arg \<noteq> 0 then map_option r_owner (rsrcs s master) else Some owner);
              (if m_owner \<noteq> owner then Some (ERR_PERMISSION, s)
               else do {
                 s \<leftarrow> (if arg \<noteq> 0 then upd_port master (\<lambda>p. p\<lparr>refcount := refcount p + 1\<rparr>) s else Some s);
                 pt \<leftarrow> ports s p;
                 s \<leftarrow> (if slaved pt \<noteq> 0 then do {
                        m \<leftarrow> rsrc_find RSRC_PORT (int (slaved pt)) s;
                        (if m = 0 then None
                         else upd_port m (\<lambda>p. p\<lparr>refcount := refcount p - 1\<rparr>) s) }
                      else Some s);
                 s \<leftarrow> upd_port p (\<lambda>p. p\<lparr>slaved := arg\<rparr>) s;
                 Some (ERR_NONE, s) }) }) }
         else if opt = PORT_OPT_NOWAIT then do {
           s \<leftarrow> upd_port p (\<lambda>p. p\<lparr>nowait := arg\<rparr>) s;
           Some (ERR_NONE, s) }
         else Some (ERR_PERMISSION, s)) }) }"

text \<open>The buffer of a message: a block, a recycled page, a new page, or nothing.\<close>

definition msg_buffer :: "nat \<Rightarrow> kstate \<Rightarrow> (addr \<times> kstate) option" where
  "msg_buffer sz s =
     (if sz < 256 then
        (if sz = 0 then Some (0, s)
         else let (b, s) = new_ref s in Some (b, s\<lparr>bufs := (bufs s)(b \<mapsto> replicate sz 0)\<rparr>))
      else (case msg_pool s of
          b # rest \<Rightarrow> Some (b, s\<lparr>msg_pool := rest\<rparr>)
        | [] \<Rightarrow> do {
            (page, m) \<leftarrow> kgetpages 1 (km s);
            let (b, s) = new_ref (s\<lparr>km := m\<rparr>) in
            Some (b, s\<lparr>bufs := (bufs s)(b \<mapsto> replicate 4096 0)\<rparr>) }))"

text \<open>The copy loop of \<open>port_send\<close>, from user memory into the buffer.\<close>

fun copy_in :: "(addr \<Rightarrow> u8) \<Rightarrow> addr \<Rightarrow> nat \<Rightarrow> u8 list \<Rightarrow> u8 list option" where
  "copy_in u msg 0 b = Some b"
| "copy_in u msg (Suc n) b = do { b \<leftarrow> copy_in u msg n b; list_put b n (u (msg + n)) }"

text \<open>\<open>port_send\<close> from the test of the user buffer on.\<close>

definition port_send_deliver :: "int \<Rightarrow> int \<Rightarrow> addr \<Rightarrow> nat \<Rightarrow> nat \<Rightarrow> addr \<Rightarrow> kstate \<Rightarrow> (outcome \<times> kstate) option" where
  "port_send_deliver src dst msg sz code p s =
     (if 0x400000 < msg \<or> 4096 < sz then Some (Ret ERR_MEMORY, s)
      else do {
        (b, s) \<leftarrow> msg_buffer sz s;
        c \<leftarrow> tasks s (current s);
        s \<leftarrow> (if sz = 0 then Some s
              else do {
                old \<leftarrow> bufs s b;
                new \<leftarrow> copy_in (umem s (t_team c)) msg sz old;
                Some (s\<lparr>bufs := (bufs s)(b \<mapsto> new)\<rparr>) });
        let m = \<lparr>m_size = sz, m_code = code, from_port = src, to_port = dst, m_data = b\<rparr>;
        s \<leftarrow> upd_port p (\<lambda>x. x\<lparr>p_msgs := p_msgs x @ [m], msgcount := msgcount x + 1\<rparr>) s;
        x \<leftarrow> ports s p;
        q \<leftarrow> (if slaved x \<noteq> 0 then rsrc_find RSRC_PORT (int (slaved x)) s else Some p);
        s \<leftarrow> (if q = 0 then Some s
              else do {
                (t, s) \<leftarrow> rsrc_dequeue q s;
                (if t \<noteq> 0 then task_wake t ERR_NONE s else Some s) });
        Some (Ret (int sz), s) })"

text \<open>One turn of the loop that waits for room; the loop goes on in \<open>port_send_wakeup\<close>.\<close>

definition port_send_try :: "int \<Rightarrow> int \<Rightarrow> addr \<Rightarrow> nat \<Rightarrow> nat \<Rightarrow> addr \<Rightarrow> kstate \<Rightarrow> (outcome \<times> kstate) option" where
  "port_send_try src dst msg sz code p s = do {
     x \<leftarrow> ports s p;
     (if MAX_MSGCOUNT \<le> msgcount x then
        (if nowait x \<noteq> 0 then Some (Ret ERR_WOULD_BLOCK, s)
         else do {
           s \<leftarrow> wait_on (sendqueue x) (KSend src dst msg sz code p) s;
           Some (Switched, s) })
      else port_send_deliver src dst msg sz code p s) }"

definition port_send_wakeup :: "int \<Rightarrow> int \<Rightarrow> addr \<Rightarrow> nat \<Rightarrow> nat \<Rightarrow> addr \<Rightarrow> kstate \<Rightarrow> (outcome \<times> kstate) option" where
  "port_send_wakeup src dst msg sz code p s = do {
     c \<leftarrow> tasks s (current s);
     (if t_status c \<noteq> 0 then Some (Ret (t_status c), s)
      else port_send_try src dst msg sz code p s) }"

definition port_send :: "int \<Rightarrow> int \<Rightarrow> addr \<Rightarrow> nat \<Rightarrow> nat \<Rightarrow> kstate \<Rightarrow> (outcome \<times> kstate) option" where
  "port_send src dst msg sz code s = do {
     f \<leftarrow> rsrc_find RSRC_PORT src s;
     (if f = 0 then Some (Ret ERR_SENDPORT, s)
      else do {
        p \<leftarrow> rsrc_find RSRC_PORT dst s;
        (if p = 0 then Some (Ret ERR_RECVPORT, s)
         else do {
           x \<leftarrow> ports s p;
           (if slaved x \<noteq> 0 then do {
              p \<leftarrow> rsrc_find RSRC_PORT (int (slaved x)) s;
              (if p = 0 then Some (Ret ERR_RESOURCE, s)
               else do {
                 x \<leftarrow> ports s p;
                 (if slaved x \<noteq> 0 then Some (Ret ERR_RESOURCE, s)
                  else port_send_try src dst msg sz code p s) }) }
            else port_send_try src dst msg sz code p s) }) }) }"

text \<open>Stores to the memory of a team.\<close>

definition put_bytes :: "addr \<Rightarrow> addr \<Rightarrow> u8 list \<Rightarrow> kstate \<Rightarrow> kstate" where
  "put_bytes tm a bs s = s\<lparr>umem := (umem s)(tm := (\<lambda>i.
     if a \<le> i \<and> i < a + length bs then bs ! (i - a) else umem s tm i))\<rparr>"

definition word_bytes :: "int \<Rightarrow> u8 list" where
  "word_bytes v = map (\<lambda>k. word_of_int (v div 256 ^ k)) [0..<4]"

definition put_int :: "addr \<Rightarrow> addr \<Rightarrow> int \<Rightarrow> kstate \<Rightarrow> kstate" where
  "put_int tm a v s = (if a = 0 then s else put_bytes tm a (word_bytes v) s)"

text \<open>The end of a received message: a block is freed, a page goes to the pool.\<close>

definition msg_release :: "message \<Rightarrow> kstate \<Rightarrow> kstate" where
  "msg_release m s =
     (if m_size m < 256 then
        (if m_size m \<noteq> 0 then s\<lparr>bufs := (bufs s)(m_data m := None)\<rparr> else s)
      else s\<lparr>msg_pool := m_data m # msg_pool s\<rparr>)"

definition port_recv_take :: "addr \<Rightarrow> addr \<Rightarrow> nat \<Rightarrow> addr \<Rightarrow> addr \<Rightarrow> kstate \<Rightarrow> (outcome \<times> kstate) option" where
  "port_recv_take src msg sz code p s = do {
     x \<leftarrow> ports s p;
     c \<leftarrow> tasks s (current s);
     (case p_msgs x of [] \<Rightarrow> None
      | m # ms \<Rightarrow> do {
          data \<leftarrow> (if m_size m = 0 then Some [] else bufs s (m_data m));
          bytes \<leftarrow> (if m_size m \<le> length data then Some (take (min sz (m_size m)) data) else None);
          let s = put_bytes (t_team c) msg bytes s;
          let s = put_int (t_team c) src (from_port m) s;
          let s = put_int (t_team c) code (int (m_code m)) s;
          s \<leftarrow> upd_port p (\<lambda>x. x\<lparr>p_msgs := ms\<rparr>) s;
          sq \<leftarrow> rsrcs s (sendqueue x);
          s \<leftarrow> (if r_queue sq \<noteq> [] \<and> msgcount x \<le> MAX_MSGCOUNT then do {
                 (t, s) \<leftarrow> rsrc_dequeue (sendqueue x) s;
                 (if t \<noteq> 0 then task_wake t ERR_NONE s else Some s) }
               else Some s);
          s \<leftarrow> upd_port p (\<lambda>x. x\<lparr>msgcount := msgcount x - 1\<rparr>) s;
          Some (Ret (int (min sz (m_size m))), msg_release m s) }) }"

definition port_recv_try :: "addr \<Rightarrow> addr \<Rightarrow> nat \<Rightarrow> addr \<Rightarrow> addr \<Rightarrow> kstate \<Rightarrow> (outcome \<times> kstate) option" where
  "port_recv_try src msg sz code p s = do {
     x \<leftarrow> ports s p;
     (if msgcount x = 0 then
        (if nowait x \<noteq> 0 then Some (Ret ERR_WOULD_BLOCK, s)
         else do {
           s \<leftarrow> wait_on p (KRecv src msg sz code p) s;
           Some (Switched, s) })
      else port_recv_take src msg sz code p s) }"

definition port_recv_wakeup :: "addr \<Rightarrow> addr \<Rightarrow> nat \<Rightarrow> addr \<Rightarrow> addr \<Rightarrow> kstate \<Rightarrow> (outcome \<times> kstate) option" where
  "port_recv_wakeup src msg sz code p s = do {
     c \<leftarrow> tasks s (current s);
     (if t_status c \<noteq> 0 then Some (Ret (t_status c), s)
      else port_recv_try src msg sz code p s) }"

definition port_recv :: "int \<Rightarrow> addr \<Rightarrow> addr \<Rightarrow> nat \<Rightarrow> addr \<Rightarrow> kstate \<Rightarrow> (outcome \<times> kstate) option" where
  "port_recv dst src msg sz code s = do {
     p \<leftarrow> rsrc_find RSRC_PORT dst s;
     (if p = 0 then Some (Ret ERR_RECVPORT, s)
      else do {
        c \<leftarrow> tasks s (current s);
        (if t_team c \<noteq> kernel_team s \<and> 0x400000 < msg then Some (Ret ERR_MEMORY, s)
         else port_recv_try src msg sz code p s) }) }"

end
