(* ===== verification/KAspace.thy ===== *)
theory KAspace
  imports KState
begin

text \<open>
  Address spaces and memory areas (\<open>aspace.c\<close>). A page table is a list of 1024 words; a write
  outside it is \<open>None\<close>. Sizes, page numbers and flags are the values of \<open>uint32\<close> variables.
  A \<open>phys_page_t\<close> is a list of six frame numbers (0 where the code has not written one).
\<close>

abbreviation (input) "AREA_PHYSMAP \<equiv> (1::nat)"

definition upd_aspace :: "addr \<Rightarrow> (aspace \<Rightarrow> aspace) \<Rightarrow> kstate \<Rightarrow> kstate option" where
  "upd_aspace a f s = do { x \<leftarrow> aspaces s a; Some (s\<lparr>aspaces := (aspaces s)(a \<mapsto> f x)\<rparr>) }"

definition upd_area :: "addr \<Rightarrow> (area \<Rightarrow> area) \<Rightarrow> kstate \<Rightarrow> kstate option" where
  "upd_area a f s = do { x \<leftarrow> areas s a; Some (s\<lparr>areas := (areas s)(a \<mapsto> f x)\<rparr>) }"

definition upd_pgroup :: "addr \<Rightarrow> (pagegroup \<Rightarrow> pagegroup) \<Rightarrow> kstate \<Rightarrow> kstate option" where
  "upd_pgroup a f s = do { x \<leftarrow> pgroups s a; Some (s\<lparr>pgroups := (pgroups s)(a \<mapsto> f x)\<rparr>) }"

section \<open>Page tables\<close>

definition pte :: "nat \<Rightarrow> nat \<Rightarrow> nat" where
  "pte phys flags = or (and (phys * 4096 mod 4294967296) 0xFFFFF000) (and flags 0xFFF)"

definition aspace_protect :: "nat \<Rightarrow> nat \<Rightarrow> nat list \<Rightarrow> nat list option" where
  "aspace_protect virt flags pt = do {
     e \<leftarrow> list_get pt virt;
     list_put pt virt (or (and e 0xFFFFF000) (and flags 0xFFF)) }"

fun map_pages :: "nat \<Rightarrow> nat \<Rightarrow> nat \<Rightarrow> nat \<Rightarrow> nat list \<Rightarrow> nat list option" where
  "map_pages phys virt 0 flags pt = Some pt"
| "map_pages phys virt (Suc len) flags pt = do {
     pt \<leftarrow> list_put pt virt (pte phys flags);
     map_pages (phys + 1) (virt + 1) len flags pt }"

definition aspace_map :: "addr \<Rightarrow> nat \<Rightarrow> nat \<Rightarrow> nat \<Rightarrow> nat \<Rightarrow> kstate \<Rightarrow> kstate option" where
  "aspace_map a phys virt len flags s = do {
     x \<leftarrow> aspaces s a;
     pt \<leftarrow> map_pages phys virt len flags (ptab_tab x);
     Some (s\<lparr>aspaces := (aspaces s)(a \<mapsto> x\<lparr>ptab_tab := pt\<rparr>)\<rparr>) }"

fun clear_pages :: "nat \<Rightarrow> nat \<Rightarrow> nat list \<Rightarrow> nat list option" where
  "clear_pages virt 0 pt = Some pt"
| "clear_pages virt (Suc len) pt = do { pt \<leftarrow> list_put pt virt 0; clear_pages (virt + 1) len pt }"

definition aspace_clr :: "addr \<Rightarrow> nat \<Rightarrow> nat \<Rightarrow> kstate \<Rightarrow> kstate option" where
  "aspace_clr a virt len s = do {
     x \<leftarrow> aspaces s a;
     pt \<leftarrow> clear_pages virt len (ptab_tab x);
     Some (s\<lparr>aspaces := (aspaces s)(a \<mapsto> x\<lparr>ptab_tab := pt\<rparr>)\<rparr>) }"

definition aspace_create :: "kstate \<Rightarrow> (addr \<times> kstate) option" where
  "aspace_create s = (let (a, s) = new_ref s in do {
     (raw0, phys0, m) \<leftarrow> kgetpage (km s);
     (raw1, phys1, m) \<leftarrow> kgetpage m;
     let pd = (replicate 1024 0)[0 := or phys1 7, 512 := or (base_cr3 s + 2 * 4096) 3];
     let s = s\<lparr>km := m, aspaces := (aspaces s)(a \<mapsto> \<lparr>as_areas = [], as_pdir = raw0, as_ptab = raw1,
        pdir_tab = pd, ptab_tab = replicate 1024 0, pdirphys = phys0\<rparr>)\<rparr>;
     s \<leftarrow> rsrc_bind a RSRC_ASPACE (kernel_team s) s;
     Some (a, s) })"

text \<open>The loop of \<open>locate_span\<close> over the page table, from \<open>start\<close> on.\<close>

function span_loop :: "nat list \<Rightarrow> nat \<Rightarrow> nat \<Rightarrow> nat \<Rightarrow> nat \<Rightarrow> nat" where
  "span_loop pt start len found foundat =
     (if found < len \<and> start < 1024 then
        (if pt ! start \<noteq> 0 then span_loop pt (start + 1) len 0 0
         else span_loop pt (start + 1) len (found + 1) (if found = 0 then start else foundat))
      else foundat)"
  by pat_completeness auto
termination
  by (relation "measure (\<lambda>(pt, start, len, found, foundat). 1024 - start)") auto

definition locate_span :: "nat list \<Rightarrow> nat \<Rightarrow> nat \<Rightarrow> nat" where
  "locate_span pt start len =
     span_loop pt (if start < 1 \<or> 1023 < start then 512 else start) len 0 0"

section \<open>Areas\<close>

definition page_count :: "nat \<Rightarrow> nat" where
  "page_count sz = (let n = (if and sz 0xFFF \<noteq> 0 then sz div 0x1000 + 1 else sz div 0x1000) in
     if n < 1 then 1 else n)"

text \<open>The chain of \<open>phys_page_t\<close>: one for every six pages, \<open>for(i = 0; i < size; i += 6)\<close>.\<close>

definition page_chain :: "nat \<Rightarrow> nat list list" where
  "page_chain n = replicate ((n + 5) div 6) (replicate 6 0)"

definition put_page :: "nat \<Rightarrow> nat \<Rightarrow> nat \<Rightarrow> nat list list \<Rightarrow> nat list list option" where
  "put_page pp ppo p ps = do {
     x \<leftarrow> list_get ps pp;
     y \<leftarrow> list_put x ppo p;
     list_put ps pp y }"

text \<open>
  The loop of \<open>area_create\<close> that gets the frames, maps them and records them; \<open>p\<close> is the
  next frame of a physical mapping. \<open>pp\<close> is the index of the current \<open>phys_page_t\<close>.
\<close>

fun area_fill :: "nat \<Rightarrow> bool \<Rightarrow> addr \<Rightarrow> addr \<Rightarrow> nat \<Rightarrow> nat \<Rightarrow> nat \<Rightarrow> nat \<Rightarrow> kstate \<Rightarrow> kstate option" where
  "area_fill 0 physmap a pg p at pp ppo s = Some s"
| "area_fill (Suc n) physmap a pg p at pp ppo s = do {
     (p, m) \<leftarrow> (if physmap then Some (p, km s) else getpage (km s));
     s \<leftarrow> aspace_map a p at 1 7 (s\<lparr>km := m\<rparr>);
     g \<leftarrow> pgroups s pg;
     ps \<leftarrow> put_page pp ppo p (pg_pages g);
     let s = s\<lparr>pgroups := (pgroups s)(pg \<mapsto> g\<lparr>pg_pages := ps\<rparr>)\<rparr>;
     area_fill n physmap a pg (if physmap then p + 1 else p) (at + 1)
       (if ppo + 1 = 6 then pp + 1 else pp) (if ppo + 1 = 6 then 0 else ppo + 1) s }"

text \<open>
  \<open>area_create\<close>; \<open>phys\<close> is the value of \<open>*addr\<close> on entry. The result has the value that
  is stored in \<open>*addr\<close>, if it is.
\<close>

definition area_create :: "addr \<Rightarrow> nat \<Rightarrow> nat \<Rightarrow> nat \<Rightarrow> nat \<Rightarrow> kstate \<Rightarrow> (int \<times> nat option \<times> kstate) option" where
  "area_create a size_arg virt phys flags s = (
     let n = page_count size_arg; physmap = (and flags AREA_PHYSMAP \<noteq> 0) in do {
     x \<leftarrow> aspaces s a;
     let at = locate_span (ptab_tab x) (virt div 0x1000) n;
     (if at = 0 then Some (ERR_MEMORY, None, s)
      else do {
        let (pg, s) = new_ref s;
        let (ar, s) = new_ref s;
        let s = s\<lparr>pgroups := (pgroups s)(pg \<mapsto> \<lparr>pg_size = n, pg_refcount = 1, pg_flags = flags,
             pg_areas = [ar], pg_pages = page_chain n\<rparr>),
           areas := (areas s)(ar \<mapsto> \<lparr>ar_pgroup = pg, virt_addr = at, ar_length = n, maxlength = n\<rparr>)\<rparr>;
        s \<leftarrow> upd_aspace a (\<lambda>x. x\<lparr>as_areas := as_areas x @ [ar]\<rparr>) s;
        s \<leftarrow> area_fill n physmap a pg (phys div 0x1000) at 0 0 s;
        owner \<leftarrow> map_option r_owner (rsrcs s (current s));
        s \<leftarrow> rsrc_bind ar RSRC_AREA owner s;
        r \<leftarrow> rsrcs s ar;
        Some (int (r_id r), Some (at * 0x1000), s) }) })"

fun uber_fill :: "nat \<Rightarrow> nat \<Rightarrow> nat \<Rightarrow> nat \<Rightarrow> nat list list \<Rightarrow> nat list list option" where
  "uber_fill 0 p pp ppo ps = Some ps"
| "uber_fill (Suc n) p pp ppo ps = do {
     ps \<leftarrow> put_page pp ppo p ps;
     uber_fill n (p + 1) (if ppo + 1 = 6 then pp + 1 else pp) (if ppo + 1 = 6 then 0 else ppo + 1) ps }"

definition area_create_uber :: "nat \<Rightarrow> nat \<Rightarrow> kstate \<Rightarrow> (int \<times> kstate) option" where
  "area_create_uber size_arg phys s = (let n = page_count size_arg; (pg, s) = new_ref s; (ar, s) = new_ref s in do {
     ps \<leftarrow> uber_fill n (phys div 0x1000) 0 0 (page_chain n);
     let s = s\<lparr>pgroups := (pgroups s)(pg \<mapsto> \<lparr>pg_size = n, pg_refcount = 1, pg_flags = AREA_PHYSMAP,
          pg_areas = [ar], pg_pages = ps\<rparr>),
        areas := (areas s)(ar \<mapsto> \<lparr>ar_pgroup = pg, virt_addr = 0, ar_length = n, maxlength = n\<rparr>)\<rparr>;
     s \<leftarrow> rsrc_bind ar RSRC_AREA (kernel_team s) s;
     r \<leftarrow> rsrcs s ar;
     Some (int (r_id r), s) })"

text \<open>The loop of \<open>area_clone\<close>: the frames of the group are mapped again.\<close>

fun clone_fill :: "nat \<Rightarrow> addr \<Rightarrow> nat list list \<Rightarrow> nat \<Rightarrow> nat \<Rightarrow> nat \<Rightarrow> kstate \<Rightarrow> kstate option" where
  "clone_fill 0 a ps at pp ppo s = Some s"
| "clone_fill (Suc n) a ps at pp ppo s = do {
     x \<leftarrow> list_get ps pp;
     p \<leftarrow> list_get x ppo;
     s \<leftarrow> aspace_map a p at 1 7 s;
     clone_fill n a ps (at + 1) (if ppo + 1 = 6 then pp + 1 else pp)
       (if ppo + 1 = 6 then 0 else ppo + 1) s }"

definition area_clone :: "addr \<Rightarrow> int \<Rightarrow> nat \<Rightarrow> kstate \<Rightarrow> (int \<times> nat option \<times> kstate) option" where
  "area_clone a area_id virt s = do {
     ar0 \<leftarrow> rsrc_find RSRC_AREA area_id s;
     (if ar0 = 0 then Some (ERR_RESOURCE, None, s)
      else do {
        y \<leftarrow> areas s ar0;
        x \<leftarrow> aspaces s a;
        let at = locate_span (ptab_tab x) (virt div 0x1000) (ar_length y);
        (if at = 0 then Some (ERR_MEMORY, None, s)
         else do {
           let (ar1, s) = new_ref s;
           s \<leftarrow> upd_pgroup (ar_pgroup y) (\<lambda>g. g\<lparr>pg_refcount := pg_refcount g + 1,
                  pg_areas := pg_areas g @ [ar1]\<rparr>) s;
           let s = s\<lparr>areas := (areas s)(ar1 \<mapsto> y\<lparr>virt_addr := at\<rparr>)\<rparr>;
           s \<leftarrow> upd_aspace a (\<lambda>x. x\<lparr>as_areas := as_areas x @ [ar1]\<rparr>) s;
           g \<leftarrow> pgroups s (ar_pgroup y);
           s \<leftarrow> clone_fill (ar_length y) a (pg_pages g) at 0 0 s;
           owner \<leftarrow> map_option r_owner (rsrcs s (current s));
           s \<leftarrow> rsrc_bind ar1 RSRC_AREA owner s;
           r \<leftarrow> rsrcs s ar1;
           Some (int (r_id r), Some (at * 0x1000), s) }) }) }"

text \<open>The loops that give the frames of a page group back.\<close>

fun put_frames :: "nat list \<Rightarrow> nat \<Rightarrow> kmem \<Rightarrow> (nat \<times> kmem) option" where
  "put_frames [] sz m = Some (sz, m)"
| "put_frames (p # ps) sz m =
     (if sz = 0 then Some (sz, m)
      else do { m \<leftarrow> putpage p m; put_frames ps (sz - 1) m })"

fun release_pages :: "bool \<Rightarrow> nat list list \<Rightarrow> nat \<Rightarrow> kmem \<Rightarrow> kmem option" where
  "release_pages release [] sz m = Some m"
| "release_pages release (pp # pps) sz m = do {
     (sz, m) \<leftarrow> (if release then put_frames pp sz m else Some (sz, m));
     release_pages release pps sz m }"

definition area_destroy :: "addr \<Rightarrow> int \<Rightarrow> kstate \<Rightarrow> (int \<times> kstate) option" where
  "area_destroy a area_id s = do {
     ar \<leftarrow> rsrc_find RSRC_AREA area_id s;
     (if ar = 0 then Some (ERR_RESOURCE, s)
      else do {
        x \<leftarrow> aspaces s a;
        (if ar \<notin> set (as_areas x) then Some (ERR_RESOURCE, s)
         else do {
           s \<leftarrow> upd_aspace a (\<lambda>x. x\<lparr>as_areas := remove1 ar (as_areas x)\<rparr>) s;
           y \<leftarrow> areas s ar;
           s \<leftarrow> aspace_clr a (virt_addr y) (ar_length y) s;
           s \<leftarrow> upd_pgroup (ar_pgroup y) (\<lambda>g. g\<lparr>pg_areas := remove1 ar (pg_areas g),
                  pg_refcount := pg_refcount g - 1\<rparr>) s;
           g \<leftarrow> pgroups s (ar_pgroup y);
           s \<leftarrow> (if pg_refcount g = 0 then do {
                  m \<leftarrow> release_pages (and (pg_flags g) AREA_PHYSMAP = 0) (pg_pages g) (pg_size g) (km s);
                  Some (s\<lparr>km := m, pgroups := (pgroups s)(ar_pgroup y := None)\<rparr>) }
                else Some s);
           s \<leftarrow> rsrc_release ar s;
           Some (ERR_NONE, s\<lparr>areas := (areas s)(ar := None), rsrcs := (rsrcs s)(ar := None)\<rparr>) }) }) }"

text \<open>The loop of \<open>aspace_destroy\<close>. It does not end when an area cannot be destroyed; the fuel
  is the number of areas, and running out of it is \<open>None\<close>.\<close>

fun destroy_areas :: "nat \<Rightarrow> addr \<Rightarrow> kstate \<Rightarrow> kstate option" where
  "destroy_areas fuel a s = do {
     x \<leftarrow> aspaces s a;
     (case as_areas x of [] \<Rightarrow> Some s
      | ar # _ \<Rightarrow> (case fuel of 0 \<Rightarrow> None | Suc fuel \<Rightarrow> do {
           r \<leftarrow> rsrcs s ar;
           (e, s) \<leftarrow> area_destroy a (int (r_id r)) s;
           destroy_areas fuel a s })) }"

declare destroy_areas.simps [simp del]

definition aspace_destroy :: "addr \<Rightarrow> kstate \<Rightarrow> kstate option" where
  "aspace_destroy a s = do {
     x \<leftarrow> aspaces s a;
     s \<leftarrow> destroy_areas (length (as_areas x)) a s;
     s \<leftarrow> rsrc_release a s;
     m \<leftarrow> kfreepage (as_pdir x) (km s);
     m \<leftarrow> kfreepage (as_ptab x) m;
     Some (s\<lparr>km := m, aspaces := (aspaces s)(a := None), rsrcs := (rsrcs s)(a := None)\<rparr>) }"

text \<open>The loop of \<open>area_resize\<close>: a new \<open>phys_page_t\<close> whenever the last one is full.\<close>

fun grow_fill :: "nat \<Rightarrow> addr \<Rightarrow> addr \<Rightarrow> nat \<Rightarrow> nat \<Rightarrow> kstate \<Rightarrow> kstate option" where
  "grow_fill 0 a pg at ppo s = Some s"
| "grow_fill (Suc n) a pg at ppo s = do {
     s \<leftarrow> (if ppo = 0 then upd_pgroup pg (\<lambda>g. g\<lparr>pg_pages := pg_pages g @ [replicate 6 0]\<rparr>) s else Some s);
     (p, m) \<leftarrow> getpage (km s);
     s \<leftarrow> aspace_map a p at 1 7 (s\<lparr>km := m\<rparr>);
     g \<leftarrow> pgroups s pg;
     ps \<leftarrow> put_page (length (pg_pages g) - 1) ppo p (pg_pages g);
     let s = s\<lparr>pgroups := (pgroups s)(pg \<mapsto> g\<lparr>pg_pages := ps\<rparr>)\<rparr>;
     grow_fill n a pg (at + 1) (if ppo + 1 = 6 then 0 else ppo + 1) s }"

definition area_resize :: "addr \<Rightarrow> int \<Rightarrow> nat \<Rightarrow> kstate \<Rightarrow> (int \<times> kstate) option" where
  "area_resize a area_id size_arg s = do {
     ar \<leftarrow> rsrc_find RSRC_AREA area_id s;
     (if ar = 0 then Some (ERR_RESOURCE, s)
      else do {
        y \<leftarrow> areas s ar;
        g \<leftarrow> pgroups s (ar_pgroup y);
        (if size_arg \<le> pg_size g * 0x1000 mod 4294967296 then Some (0, s)
         else do {
           let n = nat ((int (size_arg div 0x1000) - int (pg_size g)) mod 4294967296);
           x \<leftarrow> aspaces s a;
           let at = locate_span (ptab_tab x) (virt_addr y + pg_size g) n;
           (if at \<noteq> virt_addr y + pg_size g then Some (ERR_MEMORY, s)
            else if pg_pages g = [] then None
            else do {
              s \<leftarrow> upd_pgroup (ar_pgroup y) (\<lambda>g. g\<lparr>pg_size := pg_size g + n\<rparr>) s;
              s \<leftarrow> upd_area ar (\<lambda>y. y\<lparr>ar_length := ar_length y + n, maxlength := maxlength y + n\<rparr>) s;
              s \<leftarrow> grow_fill n a (ar_pgroup y) at (pg_size g mod 6) s;
              Some (0, s) }) }) }) }"

text \<open>\<open>brk\<close> (\<open>kernel.c\<close>): \<open>virt_addr\<close> is a page number, \<open>address\<close> is a byte address.\<close>

definition brk_size :: "nat \<Rightarrow> nat \<Rightarrow> nat" where
  "brk_size address page =
     (0x1000 + and (nat ((int address - int page) mod 4294967296)) 0xFFFFF000) mod 4294967296"

definition brk :: "nat \<Rightarrow> kstate \<Rightarrow> (int \<times> kstate) option" where
  "brk address s = do {
     c \<leftarrow> rsrcs s (current s);
     tm \<leftarrow> teams s (r_owner c);
     ar \<leftarrow> rsrc_find RSRC_AREA (heap_id tm) s;
     (if ar = 0 then Some (ERR_MEMORY, s)
      else do {
        y \<leftarrow> areas s ar;
        area_resize (tm_aspace tm) (heap_id tm) (brk_size address (virt_addr y)) s }) }"

end
