(* ===== verification/KTask.thy ===== *)
theory KTask
  imports KIpc KAspace
begin

text \<open>
  Tasks and teams (\<open>task.c\<close>, \<open>team.c\<close>, \<open>new_thread\<close> of \<open>kernel.c\<close>), the end of a task
  (\<open>terminate\<close> and \<open>wake_the_reaper\<close> of \<open>syscall.c\<close>, the loop of \<open>reaper\<close> in \<open>kernel.c\<close>).
\<close>

section \<open>Teams\<close>

definition team_create :: "kstate \<Rightarrow> (addr \<times> kstate) option" where
  "team_create s = (let (tm, s) = new_ref s in do {
     (a, s) \<leftarrow> aspace_create s;
     let s = s\<lparr>teams := (teams s)(tm \<mapsto> \<lparr>tm_resources = [], tm_refcount = 0, tm_aspace = a,
        heap_id = 0, text_area = 0\<rparr>)\<rparr>;
     s \<leftarrow> rsrc_bind tm RSRC_TEAM (kernel_team s) s;
     s \<leftarrow> rsrc_set_owner a tm s;
     Some (tm, s) })"

text \<open>One resource of a team that is destroyed.\<close>

definition team_drop :: "addr \<Rightarrow> kstate \<Rightarrow> kstate option" where
  "team_drop r s = do {
     s \<leftarrow> upd_rsrc r (\<lambda>x. x\<lparr>r_owner := 0\<rparr>) s;
     x \<leftarrow> rsrcs s r;
     (case r_type x of
        RSRC_TASK \<Rightarrow> None
      | RSRC_PORT \<Rightarrow> do { (e, s) \<leftarrow> port_destroy (int (r_id x)) s; Some s }
      | RSRC_SEM \<Rightarrow> do { (e, s) \<leftarrow> sem_destroy (int (r_id x)) s; Some s }
      | RSRC_ASPACE \<Rightarrow> aspace_destroy r s
      | _ \<Rightarrow> Some s) }"

text \<open>Every turn of the loop removes one resource, and none adds one: the fuel is their number.\<close>

fun team_drain :: "nat \<Rightarrow> addr \<Rightarrow> kstate \<Rightarrow> kstate option" where
  "team_drain fuel tm s = do {
     x \<leftarrow> teams s tm;
     (case tm_resources x of [] \<Rightarrow> Some s
      | r # rs \<Rightarrow> (case fuel of 0 \<Rightarrow> None | Suc fuel \<Rightarrow> do {
           s \<leftarrow> upd_team tm (\<lambda>x. x\<lparr>tm_resources := rs\<rparr>) s;
           s \<leftarrow> team_drop r s;
           team_drain fuel tm s })) }"

declare team_drain.simps [simp del]

definition team_destroy :: "addr \<Rightarrow> kstate \<Rightarrow> kstate option" where
  "team_destroy tm s = do {
     x \<leftarrow> teams s tm;
     s \<leftarrow> team_drain (length (tm_resources x)) tm s;
     s \<leftarrow> rsrc_release tm s;
     Some (s\<lparr>teams := (teams s)(tm := None), rsrcs := (rsrcs s)(tm := None)\<rparr>) }"

section \<open>Tasks\<close>

abbreviation (input) "SEL_KCODE \<equiv> (8::nat)"
abbreviation (input) "SEL_KDATA \<equiv> (16::nat)"
abbreviation (input) "SEL_UCODE \<equiv> (32::nat)"
abbreviation (input) "SEL_UDATA \<equiv> (40::nat)"

text \<open>
  The eleven words that \<open>task_create\<close> pushes, the last one pushed first; \<open>bootstrap\<close> is the
  address of \<open>thread_bootstrap\<close>.
\<close>

definition task_stack :: "nat \<Rightarrow> nat \<Rightarrow> nat \<Rightarrow> bool \<Rightarrow> nat list" where
  "task_stack bootstrap ip sp kspace = rev (
     [if kspace then SEL_KDATA else or SEL_UDATA 3, (sp + 4294967296 - 4 * 5) mod 4294967296, 0x3202,
      if kspace then SEL_KCODE else or SEL_UCODE 3, ip, bootstrap, 0x3002, 0, 0, 0, 0])"

definition task_create :: "nat \<Rightarrow> addr \<Rightarrow> nat \<Rightarrow> nat \<Rightarrow> bool \<Rightarrow> kstate \<Rightarrow> (addr \<times> kstate) option" where
  "task_create bootstrap tm ip sp kspace s = (let (t, s) = new_ref s in do {
     (ks, m) \<leftarrow> kgetpages 1 (km s);
     x \<leftarrow> teams s tm;
     a \<leftarrow> aspaces s (tm_aspace x);
     let st = task_stack bootstrap ip sp kspace;
     let s = s\<lparr>km := m, tasks := (tasks s)(t \<mapsto> \<lparr>waiting_on = 0, t_status = 0, wait_time = 0,
        t_flags = tREADY, t_irq = 0, scount = 0, t_team = tm, stack_area = 0, kstack = ks,
        ustack = 0, t_cr3 = pdirphys a, t_esp = ks + 4092 - 4 * length st, t_esp0 = ks + 4092,
        t_stack = st, t_eax = 0, t_kont = KUser\<rparr>)\<rparr>;
     s \<leftarrow> upd_team tm (\<lambda>x. x\<lparr>tm_refcount := tm_refcount x + 1\<rparr>) s;
     Some (t, s) })"

text \<open>The highest free page of the page table, from 1023 down; 0 when there is none.\<close>

fun stack_page :: "nat \<Rightarrow> nat list \<Rightarrow> nat" where
  "stack_page 0 pt = 0"
| "stack_page (Suc i) pt = (if pt ! Suc i = 0 then Suc i else stack_page i pt)"

definition new_thread :: "nat \<Rightarrow> addr \<Rightarrow> nat \<Rightarrow> bool \<Rightarrow> kstate \<Rightarrow> (addr \<times> kstate) option" where
  "new_thread bootstrap tm ip kernelspace s = do {
     x \<leftarrow> teams s tm;
     a \<leftarrow> aspaces s (tm_aspace x);
     let i = stack_page 1023 (ptab_tab a);
     (stack, out, s) \<leftarrow> area_create (tm_aspace x) 4096 (i * 4096) 0 0 s;
     (if stack = 0 then None
      else do {
        (t, s) \<leftarrow> task_create bootstrap tm ip (i * 4096 + 4092) kernelspace s;
        ar \<leftarrow> rsrc_find RSRC_AREA stack s;
        s \<leftarrow> upd_task t (\<lambda>x. x\<lparr>ustack := i * 4096, stack_area := ar\<rparr>) s;
        s \<leftarrow> rsrc_bind t RSRC_TASK tm s;
        s \<leftarrow> upd_task t (\<lambda>x. x\<lparr>t_flags := tREADY\<rparr>) s;
        (if kernelspace then Some (t, s)
         else do {
           s \<leftarrow> rsrc_enqueue (run_queue s) t s;
           Some (t, s\<lparr>live_tasks := live_tasks s + 1\<rparr>) }) }) }"

definition task_destroy :: "addr \<Rightarrow> kstate \<Rightarrow> kstate option" where
  "task_destroy t s = do {
     r \<leftarrow> rsrcs s t;
     let tm = r_owner r;
     (if t = current s then None
      else do {
        x \<leftarrow> tasks s t;
        s \<leftarrow> (if stack_area x \<noteq> 0 then do {
               y \<leftarrow> teams s tm;
               ar \<leftarrow> rsrcs s (stack_area x);
               (e, s) \<leftarrow> area_destroy (tm_aspace y) (int (r_id ar)) s;
               Some s }
             else Some s);
        m \<leftarrow> kfreepage (kstack x) (km s);
        s \<leftarrow> rsrc_release t (s\<lparr>km := m\<rparr>);
        let s = s\<lparr>tasks := (tasks s)(t := None), rsrcs := (rsrcs s)(t := None)\<rparr>;
        s \<leftarrow> upd_team tm (\<lambda>x. x\<lparr>tm_refcount := tm_refcount x - 1\<rparr>) s;
        y \<leftarrow> teams s tm;
        (if tm_refcount y = 0 then team_destroy tm s else Some s) }) }"

definition thr_wait :: "int \<Rightarrow> kstate \<Rightarrow> (outcome \<times> kstate) option" where
  "thr_wait i s = do {
     t \<leftarrow> rsrc_find RSRC_TASK i s;
     (if t \<noteq> 0 then do {
        s \<leftarrow> wait_on t KThrWait s;
        Some (Switched, s) }
      else Some (Ret ERR_RESOURCE, s)) }"

definition give_area :: "int \<Rightarrow> addr \<Rightarrow> kstate \<Rightarrow> kstate option" where
  "give_area i tm s = do {
     ar \<leftarrow> rsrc_find RSRC_AREA i s;
     (if ar \<noteq> 0 then rsrc_set_owner ar tm s else Some s) }"

definition thr_spawn :: "nat \<Rightarrow> nat \<Rightarrow> nat \<Rightarrow> int \<Rightarrow> nat \<Rightarrow> int \<Rightarrow> nat \<Rightarrow> (nat \<Rightarrow> u8) option \<Rightarrow> kstate \<Rightarrow> (int \<times> kstate) option" where
  "thr_spawn bootstrap ip sp area0 vaddr0 area1 vaddr1 name s = do {
     (tm, s) \<leftarrow> team_create s;
     x \<leftarrow> teams s tm;
     (t, s) \<leftarrow> task_create bootstrap tm ip sp False s;
     s \<leftarrow> upd_task t (\<lambda>x. x\<lparr>ustack := 0\<rparr>) s;
     s \<leftarrow> rsrc_bind t RSRC_TASK tm s;
     (i, out, s) \<leftarrow> area_clone (tm_aspace x) area0 vaddr0 s;
     s \<leftarrow> upd_team tm (\<lambda>x. x\<lparr>heap_id := i\<rparr>) s;
     s \<leftarrow> give_area i tm s;
     (i, out, s) \<leftarrow> area_clone (tm_aspace x) area1 vaddr1 s;
     s \<leftarrow> give_area i tm s;
     s \<leftarrow> rsrc_set_name t name s;
     s \<leftarrow> rsrc_set_name tm name s;
     s \<leftarrow> rsrc_enqueue (run_queue s) t s;
     r \<leftarrow> rsrcs s t;
     Some (int (r_id r), s\<lparr>live_tasks := live_tasks s + 1\<rparr>) }"

section \<open>The end of a task\<close>

definition wake_the_reaper :: "kstate \<Rightarrow> kstate option" where
  "wake_the_reaper s = do {
     r \<leftarrow> rsrc_find RSRC_SEM (int (reaper_sem s)) s;
     count \<leftarrow> sems s r;
     (t, s) \<leftarrow> rsrc_dequeue r (s\<lparr>sems := (sems s)(r \<mapsto> count + 1)\<rparr>);
     (if t \<noteq> 0 then task_wake t ERR_NONE s else Some s) }"

definition terminate :: "kstate \<Rightarrow> kstate option" where
  "terminate s = do {
     s \<leftarrow> set_kont KDead (s\<lparr>live_tasks := live_tasks s - 1\<rparr>);
     s \<leftarrow> rsrc_enqueue (reaper_queue s) (current s) s;
     s \<leftarrow> upd_task (current s) (\<lambda>x. x\<lparr>t_flags := tDEAD\<rparr>) s;
     s \<leftarrow> wake_queue (current s) ERR_RESOURCE s;
     s \<leftarrow> wake_the_reaper s;
     swtch s }"

text \<open>The loop of \<open>reaper\<close>: \<open>KReaper\<close> is its head and \<open>KReap\<close> is behind \<open>sem_acquire\<close>, whose
  result is not looked at.\<close>

definition reaper_turn :: "kstate \<Rightarrow> kstate option" where
  "reaper_turn s = do {
     (t, s) \<leftarrow> rsrc_dequeue (reaper_queue s) s;
     s \<leftarrow> task_destroy t s;
     set_kont KReaper s }"

definition reaper_acquire :: "kstate \<Rightarrow> kstate option" where
  "reaper_acquire s = do {
     r \<leftarrow> rsrc_find RSRC_SEM (int (reaper_sem s)) s;
     (if r = 0 then set_kont KReap s
      else do {
        count \<leftarrow> sems s r;
        let s = s\<lparr>sems := (sems s)(r \<mapsto> count - 1)\<rparr>;
        (if count > 0 then set_kont KReap s else wait_on r KReap s) }) }"

definition sleep :: "int \<Rightarrow> kstate \<Rightarrow> kstate option" where
  "sleep ticks s = (let n = (let k = s32 (ticks + 2000) in if k < 0 then - ((- k) div 3000) else k div 3000) in do {
     s \<leftarrow> set_kont KUser s;
     s \<leftarrow> (if n \<noteq> 0 then rsrc_enqueue_ordered (timer_queue s) (current s)
             ((kernel_timer s + n) mod 4294967296) s else Some s);
     swtch s })"

end
