(* ===== verification/KSyscall.thy ===== *)
theory KSyscall
  imports KTask
begin

text \<open>
  The entries of the kernel: \<open>syscall\<close> (\<open>syscall.c\<close>), the interrupt handlers \<open>timer_irq\<close> and
  \<open>irq_dispatch\<close> and the exception handlers (\<open>fault.c\<close>), the interrupt mask (\<open>i386.c\<close>), the
  rights (\<open>rights.c\<close>), and the way a task that was switched away goes on. Together they are
  the step relation \<open>kstep\<close> of the kernel; interrupts come only while a task is outside the
  kernel, because the gates of the interrupt table clear the interrupt flag.
\<close>

section \<open>Rights\<close>

definition right_create :: "nat \<Rightarrow> nat \<Rightarrow> int" where "right_create rsrc_id flags = ERR_NONE"
definition right_destroy :: "nat \<Rightarrow> int" where "right_destroy right_id = ERR_NONE"
definition right_revoke :: "nat \<Rightarrow> nat \<Rightarrow> int" where "right_revoke right_id thread_id = ERR_NONE"
definition right_grant :: "nat \<Rightarrow> nat \<Rightarrow> int" where "right_grant right_id thread_id = ERR_NONE"

section \<open>The interrupt mask\<close>

definition unmask_irq :: "nat \<Rightarrow> kstate \<Rightarrow> kstate" where
  "unmask_irq irq s =
     (if irq < 8 then s\<lparr>pic0 := and (pic0 s) (not (push_bit irq 1))\<rparr>
      else s\<lparr>pic1 := and (pic1 s) (not (push_bit (irq - 8) 1))\<rparr>)"

definition mask_irq :: "nat \<Rightarrow> kstate \<Rightarrow> kstate" where
  "mask_irq irq s =
     (if irq < 8 then s\<lparr>pic0 := or (pic0 s) (push_bit irq 1)\<rparr>
      else s\<lparr>pic1 := or (pic1 s) (push_bit (irq - 8) 1)\<rparr>)"

section \<open>System calls\<close>

text \<open>The words on the user stack are 32 bits wide; \<open>p_int\<close> reads one as signed.\<close>

definition p_int :: "nat \<Rightarrow> int" where
  "p_int n = s32 (int n)"

definition p_charptr :: "nat \<Rightarrow> kstate \<Rightarrow> (nat \<Rightarrow> u8) option option" where
  "p_charptr n s = do {
     c \<leftarrow> tasks s (current s);
     Some (if n = 0 then None else Some (\<lambda>i. umem s (t_team c) (n + i))) }"

text \<open>\<open>res = v\<close>: the value that the user finds in \<open>eax\<close>.\<close>

definition set_res :: "int \<Rightarrow> kstate \<Rightarrow> kstate option" where
  "set_res v s = upd_task (current s) (\<lambda>x. x\<lparr>t_eax := v, t_kont := KUser\<rparr>) s"

definition finish :: "(outcome \<times> kstate) option \<Rightarrow> kstate option" where
  "finish m = do { (out, s) \<leftarrow> m; (case out of Ret v \<Rightarrow> set_res v s | Switched \<Rightarrow> Some s) }"

definition finish_now :: "(int \<times> kstate) option \<Rightarrow> kstate option" where
  "finish_now m = do { (v, s) \<leftarrow> m; set_res v s }"

definition cur_aspace :: "kstate \<Rightarrow> addr option" where
  "cur_aspace s = do { o1 \<leftarrow> cur_owner s; x \<leftarrow> teams s o1; Some (tm_aspace x) }"

definition load_word :: "addr \<Rightarrow> addr \<Rightarrow> kstate \<Rightarrow> nat" where
  "load_word tm a s = (\<Sum>k<4. unat (umem s tm (a + k)) * 256 ^ k)"

text \<open>The store through \<open>addr\<close> in \<open>area_create\<close> and \<open>area_clone\<close>.\<close>

definition finish_area :: "addr \<Rightarrow> (int \<times> nat option \<times> kstate) option \<Rightarrow> kstate option" where
  "finish_area a m = do {
     (v, out, s) \<leftarrow> m;
     c \<leftarrow> tasks s (current s);
     set_res v (case out of None \<Rightarrow> s
       | Some w \<Rightarrow> put_bytes (t_team c) a (word_bytes (int w)) s) }"

definition metacall :: "nat \<Rightarrow> int" where
  "metacall n = (if n = 0 then 0 else - 1)"

definition handle_irq :: "nat \<Rightarrow> kstate \<Rightarrow> kstate option" where
  "handle_irq n s =
     (if 0 < n \<and> n < 16 then do {
        s \<leftarrow> upd_task (current s) (\<lambda>x. x\<lparr>t_irq := n\<rparr>) s;
        im \<leftarrow> list_put (irq_task_map s) n (current s);
        Some (s\<lparr>irq_task_map := im\<rparr>) }
      else Some s)"

definition sleep_irq :: "kstate \<Rightarrow> kstate option" where
  "sleep_irq s = do {
     s \<leftarrow> set_kont KUser s;
     c \<leftarrow> tasks s (current s);
     s \<leftarrow> (if t_irq c \<noteq> 0 then do {
            s \<leftarrow> upd_task (current s) (\<lambda>x. x\<lparr>t_flags := tSLEEP_IRQ\<rparr>) s;
            Some (unmask_irq (t_irq c) s) }
          else Some s);
     swtch s }"

text \<open>The name of a thread without one: the name of its creator and a plus sign.\<close>

definition plus_name :: "u8 list \<Rightarrow> u8 list" where
  "plus_name n = (let n = take 31 n in if length n < 30 then n @ [43] else n)"

definition thr_create :: "nat \<Rightarrow> nat \<Rightarrow> nat \<Rightarrow> nat \<Rightarrow> kstate \<Rightarrow> (int \<times> kstate) option" where
  "thr_create bootstrap ip arg name s = do {
     owner \<leftarrow> cur_owner s;
     (t, s) \<leftarrow> new_thread bootstrap owner ip False s;
     x \<leftarrow> tasks s t;
     c \<leftarrow> tasks s (current s);
     let s = put_bytes (t_team c) (ustack x + 0xfec) (word_bytes (int arg)) s;
     cr \<leftarrow> rsrcs s (current s);
     nm \<leftarrow> p_charptr name s;
     s \<leftarrow> (case nm of None \<Rightarrow> upd_rsrc t (\<lambda>x. x\<lparr>r_name := plus_name (r_name cr)\<rparr>) s
          | Some f \<Rightarrow> rsrc_set_name t (Some f) s);
     r \<leftarrow> rsrcs s t;
     Some (int (r_id r), s) }"

text \<open>
  \<open>syscall\<close>: \<open>n\<close> is \<open>eax\<close>, \<open>p k\<close> is the \<open>k\<close>th word of the user stack. The cases of the
  switch that are about areas and threads, the default among them, are definitions of their own.
  The system call \<open>os_debug\<close> enters the kernel debugger. \<open>bootstrap\<close> is the address of
  \<open>thread_bootstrap\<close>.
\<close>

definition syscall_area :: "nat \<Rightarrow> (nat \<Rightarrow> nat) \<Rightarrow> kstate \<Rightarrow> kstate option" where
  "syscall_area n p s = do {
     a \<leftarrow> cur_aspace s;
     (if n = 30 then do {
        c \<leftarrow> tasks s (current s);
        finish_area (p 3) (area_create a (p 1) (p 2) (load_word (t_team c) (p 3) s) (p 4) s) }
      else if n = 31 then finish_area (p 3) (area_clone a (int (p 1)) (p 2) s)
      else if n = 32 then finish_now (area_destroy a (int (p 1)) s)
      else finish_now (area_resize a (int (p 1)) (p 2) s)) }"

definition syscall_thr :: "nat \<Rightarrow> nat \<Rightarrow> (nat \<Rightarrow> nat) \<Rightarrow> kstate \<Rightarrow> kstate option" where
  "syscall_thr bootstrap n p s = (
     if n = 24 then finish_now (thr_create bootstrap (p 1) (p 2) (p 3) s)
     else if n = 26 \<or> n = 27 \<or> n = 28 then Some s
     else if n = 25 then do {
       nm \<leftarrow> p_charptr (p 7) s;
       finish_now (thr_spawn bootstrap (p 1) (p 2) (int (p 3)) (p 4) (int (p 5)) (p 6) nm s) }
     else if n = 29 then finish (thr_wait (int (p 1)) s)
     else set_res (- 1) s)"

definition syscall :: "nat \<Rightarrow> nat \<Rightarrow> (nat \<Rightarrow> nat) \<Rightarrow> kstate \<Rightarrow> kstate option" where
  "syscall bootstrap n p s = (
     if n = 1 then terminate s
     else if n = 2 then Some s
     else if n = 3 then finish_now (brk (p 1) s)
     else if n = 4 then handle_irq (p 1) s
     else if n = 5 then sleep_irq s
     else if n = 6 then None
     else if n = 7 then sleep (p_int (p 1)) s
     else if n = 17 then do { v \<leftarrow> rsrc_identify (int (p 1)) s; set_res v s }
     else if n = 0 then set_res (metacall (p 0)) s
     else if n = 8 then do { nm \<leftarrow> p_charptr (p 2) s; finish_now (sem_create (p_int (p 1)) nm s) }
     else if n = 9 then finish_now (sem_destroy (p_int (p 1)) s)
     else if n = 10 then finish (sem_acquire (p_int (p 1)) s)
     else if n = 11 then finish (sem_release (p_int (p 1)) s)
     else if n = 12 then do { nm \<leftarrow> p_charptr (p 2) s; finish_now (port_create (p 1) nm s) }
     else if n = 13 then finish_now (port_destroy (p_int (p 1)) s)
     else if n = 14 then finish_now (port_option (int (p 1)) (p 2) (p 3) s)
     else if n = 15 then finish (port_send (p_int (p 1)) (p_int (p 2)) (p 3) (p 4) (p 5) s)
     else if n = 16 then finish (port_recv (p_int (p 1)) (p 2) (p 3) (p 4) (p 5) s)
     else if n = 18 then set_res (right_create (p 1) (p 1)) s
     else if n = 19 then set_res (right_destroy (p 1)) s
     else if n = 20 then set_res (right_revoke (p 1) (p 2)) s
     else if n = 22 then set_res (right_grant (p 1) (p 2)) s
     else if n \<in> {30, 31, 32, 33} then syscall_area n p s
     else syscall_thr bootstrap n p s)"

section \<open>Interrupts and exceptions\<close>

definition irq_dispatch :: "nat \<Rightarrow> kstate \<Rightarrow> kstate option" where
  "irq_dispatch n s = (let s = mask_irq n s in do {
     t \<leftarrow> list_get (irq_task_map s) n;
     (if t \<noteq> 0 then do {
        x \<leftarrow> tasks s t;
        (if t_flags x = tSLEEP_IRQ then preempt t ERR_NONE s else Some s) }
      else Some s) })"

text \<open>
  The loop of \<open>timer_irq\<close> over the timer queue. Both sides of the comparison are unsigned. A
  turn takes one task off the queue; the fuel is the number of tasks on it.
\<close>

fun timer_wake :: "nat \<Rightarrow> kstate \<Rightarrow> kstate option" where
  "timer_wake fuel s = do {
     t \<leftarrow> rsrc_queue_peek (timer_queue s) s;
     (if t = 0 then Some s
      else do {
        x \<leftarrow> tasks s t;
        (if wait_time x \<le> kernel_timer s mod 4294967296 then
           (case fuel of 0 \<Rightarrow> None | Suc fuel \<Rightarrow> do {
              (t, s) \<leftarrow> rsrc_dequeue (timer_queue s) s;
              s \<leftarrow> rsrc_enqueue (run_queue s) t s;
              timer_wake fuel s })
         else Some s) }) }"

declare timer_wake.simps [simp del]

definition timer_irq :: "kstate \<Rightarrow> kstate option" where
  "timer_irq s = (let s = s\<lparr>kernel_timer := s32 (kernel_timer s + 1)\<rparr> in do {
     x \<leftarrow> rsrcs s (timer_queue s);
     s \<leftarrow> timer_wake (length (r_queue x)) s;
     swtch s })"

text \<open>\<open>__fault\<close> and \<open>__faultE\<close>, in the build without \<open>DEBUG_ON_FAULT\<close> and \<open>HALT_ON_FAULT\<close>;
  an exception of the table other than the NMI (2) ends the task. The messages and
  \<open>user_debug\<close>, which returns at once, change nothing.\<close>

definition fault :: "nat \<Rightarrow> kstate \<Rightarrow> kstate option" where
  "fault n s = (if n \<noteq> 2 then terminate s else Some s)"

section \<open>Steps\<close>

text \<open>A task that goes on inside the kernel.\<close>

definition resume :: "kont \<Rightarrow> kstate \<Rightarrow> kstate option" where
  "resume k s = (case k of
     KUser \<Rightarrow> Some s
   | KRet v \<Rightarrow> set_res v s
   | KSemAcquire \<Rightarrow> finish (sem_acquire_wakeup s)
   | KThrWait \<Rightarrow> set_res ERR_NONE s
   | KDead \<Rightarrow> None
   | KReaper \<Rightarrow> reaper_acquire s
   | KReap \<Rightarrow> reaper_turn s
   | KSend src dst msg sz code p \<Rightarrow> finish (port_send_wakeup src dst msg sz code p s)
   | KRecv src msg sz code p \<Rightarrow> finish (port_recv_wakeup src msg sz code p s))"

datatype event =
    Call nat "nat \<Rightarrow> nat"        \<comment> \<open>the current task makes a system call\<close>
  | Timer | Irq nat | Fault nat
  | Store addr u8                \<comment> \<open>the current task writes a byte of its memory\<close>
  | Resume                       \<comment> \<open>the current task goes on inside the kernel\<close>

definition in_user :: "kstate \<Rightarrow> bool" where
  "in_user s \<longleftrightarrow> (case tasks s (current s) of None \<Rightarrow> False | Some c \<Rightarrow> t_kont c = KUser)"

text \<open>
  What happens at an event; \<open>None\<close> also when the event cannot happen: the idle task and a task
  inside the kernel make no system call and take no exception, and the interrupts are off
  inside the kernel.
\<close>

definition kexec :: "nat \<Rightarrow> event \<Rightarrow> kstate \<Rightarrow> kstate option" where
  "kexec bootstrap e s = (
     if halted s then None
     else (case e of
       Resume \<Rightarrow> do { c \<leftarrow> tasks s (current s);
          (if t_kont c = KUser then None else resume (t_kont c) s) }
     | _ \<Rightarrow> if \<not> in_user s then None
         else (case e of
           Timer \<Rightarrow> timer_irq s
         | Irq n \<Rightarrow> irq_dispatch n s
         | Call n p \<Rightarrow> if current s = idle_task s then None else syscall bootstrap n p s
         | Fault n \<Rightarrow> if current s = idle_task s then None else fault n s
         | Store a b \<Rightarrow> do { c \<leftarrow> tasks s (current s); Some (put_bytes (t_team c) a [b] s) })))"

inductive kstep :: "nat \<Rightarrow> kstate \<Rightarrow> kstate \<Rightarrow> bool" for bootstrap :: nat where
  kstepI: "kexec bootstrap e s = Some s' \<Longrightarrow> kstep bootstrap s s'"

inductive_cases kstepE: "kstep bootstrap s s'"

inductive reachable :: "nat \<Rightarrow> kstate \<Rightarrow> kstate \<Rightarrow> bool" for bootstrap :: nat and s0 :: kstate where
  reach_init: "reachable bootstrap s0 s0"
| reach_step: "reachable bootstrap s0 s \<Longrightarrow> kstep bootstrap s s' \<Longrightarrow> reachable bootstrap s0 s'"

end
