(* ===== verification/KInv.thy ===== *)
theory KInv
  imports KSyscall
begin

text \<open>
  The invariant of the kernel: the resource table and the objects agree (\<open>table_ok\<close>), the
  queues and the tasks agree (\<open>queue_ok\<close>), addresses are handed out once (\<open>refs_ok\<close>), and the
  current task runs (\<open>cur_ok\<close>). The lemmas go from the single updates to the operations and
  then to the steps of \<open>kstep\<close>.
\<close>

section \<open>What the invariant looks at\<close>

definition queue_of :: "kstate \<Rightarrow> addr \<Rightarrow> addr list" where
  "queue_of s r = (case rsrcs s r of None \<Rightarrow> [] | Some x \<Rightarrow> r_queue x)"

definition type_of :: "kstate \<Rightarrow> addr \<Rightarrow> rsrc_type" where
  "type_of s r = (case rsrcs s r of None \<Rightarrow> RSRC_NONE | Some x \<Rightarrow> r_type x)"

definition id_of :: "kstate \<Rightarrow> addr \<Rightarrow> nat" where
  "id_of s r = (case rsrcs s r of None \<Rightarrow> 0 | Some x \<Rightarrow> r_id x)"

definition wait_of :: "kstate \<Rightarrow> addr \<Rightarrow> addr" where
  "wait_of s t = (case tasks s t of None \<Rightarrow> 0 | Some k \<Rightarrow> waiting_on k)"

definition flag_of :: "kstate \<Rightarrow> addr \<Rightarrow> tflag" where
  "flag_of s t = (case tasks s t of None \<Rightarrow> tDEAD | Some k \<Rightarrow> t_flags k)"

text \<open>
  Free ids form a chain and point to \<open>null_resource\<close>; every other id points to the resource
  that carries it, and every bound resource is in the table.
\<close>

definition table_ok :: "kstate \<Rightarrow> bool" where
  "table_ok s \<longleftrightarrow> length (rmap_resource s) = length (rmap_next s) \<and>
     length (rmap_resource s) \<le> 4294967296 \<and>
     (\<exists>is. chain (rmap_next s) (rfree s) is \<and> (\<forall>i \<in> set is. rmap_resource s ! i = null_resource)) \<and>
     type_of s null_resource = RSRC_NONE \<and>
     (\<forall>i < length (rmap_resource s). rmap_resource s ! i \<noteq> null_resource \<longrightarrow> i \<noteq> 0 \<and>
        type_of s (rmap_resource s ! i) \<noteq> RSRC_NONE \<and> id_of s (rmap_resource s ! i) = i) \<and>
     (\<forall>r. if type_of s r = RSRC_NONE then id_of s r = 0
        else id_of s r < length (rmap_resource s) \<and> rmap_resource s ! id_of s r = r)"

text \<open>A task is on the queue it waits on, and on no other one, once.\<close>

definition queue_ok :: "kstate \<Rightarrow> bool" where
  "queue_ok s \<longleftrightarrow> (\<forall>r. distinct (queue_of s r)) \<and>
     (\<forall>r t. t \<in> set (queue_of s r) \<longleftrightarrow> wait_of s t = r \<and> r \<noteq> 0) \<and>
     (\<forall>t. flag_of s t = tSLEEP_IRQ \<longrightarrow> wait_of s t = 0)"

definition refs_ok :: "kstate \<Rightarrow> bool" where
  "refs_ok s \<longleftrightarrow> rsrcs s 0 = None \<and> tasks s 0 = None \<and> rsrcs s null_resource \<noteq> None \<and>
     null_resource < next_ref s \<and>
     (\<forall>r. next_ref s \<le> r \<longrightarrow> rsrcs s r = None \<and> tasks s r = None \<and> ports s r = None) \<and>
     (\<forall>p x. ports s p = Some x \<longrightarrow> null_resource < sendqueue x)"

text \<open>The run queue is a queue of its own.\<close>

definition runq_ok :: "kstate \<Rightarrow> bool" where
  "runq_ok s \<longleftrightarrow> type_of s (run_queue s) = RSRC_QUEUE \<and>
     run_queue s \<notin> dom (tasks s) \<union> dom (teams s) \<union> dom (aspaces s) \<and>
     null_resource \<notin> dom (tasks s) \<union> dom (teams s) \<and>
     (\<forall>p x. ports s p = Some x \<longrightarrow> sendqueue x \<noteq> run_queue s) \<and>
     (\<forall>r. next_ref s \<le> r \<longrightarrow> teams s r = None \<and> aspaces s r = None)"

definition kwf :: "kstate \<Rightarrow> bool" where
  "kwf s \<longleftrightarrow> table_ok s \<and> queue_ok s \<and> refs_ok s \<and> runq_ok s"

definition idle_ok :: "kstate \<Rightarrow> bool" where
  "idle_ok s \<longleftrightarrow> (\<exists>k. tasks s (idle_task s) = Some k \<and> waiting_on k = 0 \<and> t_kont k = KUser \<and>
     t_flags k \<noteq> tDEAD \<and> t_flags k \<noteq> tSLEEP_IRQ)"

definition cur_ok :: "kstate \<Rightarrow> bool" where
  "cur_ok s \<longleftrightarrow> (\<exists>k. tasks s (current s) = Some k \<and> waiting_on k = 0 \<and> t_flags k = tRUNNING)"

definition kinv :: "kstate \<Rightarrow> bool" where
  "kinv s \<longleftrightarrow> kwf s \<and> (halted s \<or> cur_ok s \<and> idle_ok s)"

text \<open>How the views change.\<close>

lemma views_rsrc [simp]:
  "queue_of (s\<lparr>rsrcs := (rsrcs s)(r \<mapsto> y)\<rparr>) = (queue_of s)(r := r_queue y)"
  "type_of (s\<lparr>rsrcs := (rsrcs s)(r \<mapsto> y)\<rparr>) = (type_of s)(r := r_type y)"
  "id_of (s\<lparr>rsrcs := (rsrcs s)(r \<mapsto> y)\<rparr>) = (id_of s)(r := r_id y)"
  "wait_of (s\<lparr>rsrcs := f\<rparr>) = wait_of s" "flag_of (s\<lparr>rsrcs := f\<rparr>) = flag_of s"
  by (auto simp: queue_of_def type_of_def id_of_def wait_of_def flag_of_def fun_eq_iff)

lemma views_rsrc_None [simp]:
  "queue_of (s\<lparr>rsrcs := (rsrcs s)(r := None)\<rparr>) = (queue_of s)(r := [])"
  "type_of (s\<lparr>rsrcs := (rsrcs s)(r := None)\<rparr>) = (type_of s)(r := RSRC_NONE)"
  "id_of (s\<lparr>rsrcs := (rsrcs s)(r := None)\<rparr>) = (id_of s)(r := 0)"
  by (auto simp: queue_of_def type_of_def id_of_def fun_eq_iff)

lemma views_task [simp]:
  "wait_of (s\<lparr>tasks := (tasks s)(t \<mapsto> k)\<rparr>) = (wait_of s)(t := waiting_on k)"
  "flag_of (s\<lparr>tasks := (tasks s)(t \<mapsto> k)\<rparr>) = (flag_of s)(t := t_flags k)"
  "wait_of (s\<lparr>tasks := (tasks s)(t := None)\<rparr>) = (wait_of s)(t := 0)"
  "flag_of (s\<lparr>tasks := (tasks s)(t := None)\<rparr>) = (flag_of s)(t := tDEAD)"
  "queue_of (s\<lparr>tasks := f\<rparr>) = queue_of s" "type_of (s\<lparr>tasks := f\<rparr>) = type_of s"
  "id_of (s\<lparr>tasks := f\<rparr>) = id_of s"
  by (auto simp: queue_of_def type_of_def id_of_def wait_of_def flag_of_def fun_eq_iff)

lemma views_cong:
  "rsrcs s' = rsrcs s \<Longrightarrow> queue_of s' = queue_of s" "rsrcs s' = rsrcs s \<Longrightarrow> type_of s' = type_of s"
  "rsrcs s' = rsrcs s \<Longrightarrow> id_of s' = id_of s" "tasks s' = tasks s \<Longrightarrow> wait_of s' = wait_of s"
  "tasks s' = tasks s \<Longrightarrow> flag_of s' = flag_of s"
  by (auto simp: queue_of_def type_of_def id_of_def wait_of_def flag_of_def fun_eq_iff)

lemma views_Some:
  "rsrcs s r = Some x \<Longrightarrow> queue_of s r = r_queue x" "rsrcs s r = Some x \<Longrightarrow> type_of s r = r_type x"
  "rsrcs s r = Some x \<Longrightarrow> id_of s r = r_id x" "tasks s t = Some k \<Longrightarrow> wait_of s t = waiting_on k"
  "tasks s t = Some k \<Longrightarrow> flag_of s t = t_flags k"
  by (auto simp: queue_of_def type_of_def id_of_def wait_of_def flag_of_def)

section \<open>Single updates\<close>

lemma table_ok_cong:
  assumes "table_ok s" and "rmap_resource s' = rmap_resource s" and "rmap_next s' = rmap_next s"
    and "rfree s' = rfree s" and "type_of s' = type_of s" and "id_of s' = id_of s"
  shows "table_ok s'"
  using assms(1) unfolding table_ok_def assms(2-6) by blast

lemma queue_ok_cong:
  assumes "queue_ok s" and "queue_of s' = queue_of s" and "wait_of s' = wait_of s"
    and "\<And>t. flag_of s' t = tSLEEP_IRQ \<Longrightarrow> wait_of s t = 0"
  shows "queue_ok s'"
  using assms(1,4) unfolding queue_ok_def assms(2,3) by blast

lemma queue_ok_sleep: "queue_ok s \<Longrightarrow> flag_of s t = tSLEEP_IRQ \<Longrightarrow> wait_of s t = 0"
  unfolding queue_ok_def by blast

lemma refs_ok_rsrc:
  "refs_ok s \<Longrightarrow> rsrcs s r \<noteq> None \<Longrightarrow> r \<noteq> 0 \<and> r < next_ref s"
  by (metis not_le refs_ok_def)

lemma refs_ok_task:
  "refs_ok s \<Longrightarrow> tasks s r \<noteq> None \<Longrightarrow> r \<noteq> 0 \<and> r < next_ref s"
  by (metis not_le refs_ok_def)

lemma kwfD: "kwf s \<Longrightarrow> table_ok s" "kwf s \<Longrightarrow> queue_ok s" "kwf s \<Longrightarrow> refs_ok s" "kwf s \<Longrightarrow> runq_ok s"
  by (auto simp: kwf_def)

lemma runq_ok_cong:
  assumes "runq_ok s" and "run_queue s' = run_queue s" and "type_of s' (run_queue s) = type_of s (run_queue s)"
    and "dom (tasks s') \<subseteq> dom (tasks s)" and "dom (teams s') \<subseteq> dom (teams s)"
    and "dom (aspaces s') \<subseteq> dom (aspaces s)" and "ports s' = ports s" and "next_ref s \<le> next_ref s'"
  shows "runq_ok s'"
  using assms unfolding runq_ok_def domIff subset_iff by (metis (no_types, lifting) Un_iff domIff le_trans)

text \<open>
  \<open>keeps X s s'\<close>: the invariant holds in \<open>s'\<close>, the variables of the scheduler have not
  changed, and the tasks in \<open>X\<close> that were not waiting are as they were, as far as the
  scheduler looks at them.
\<close>

definition keeps :: "addr set \<Rightarrow> kstate \<Rightarrow> kstate \<Rightarrow> bool" where
  "keeps X s s' \<longleftrightarrow> kwf s' \<and> current s' = current s \<and> idle_task s' = idle_task s \<and>
     run_queue s' = run_queue s \<and> timer_queue s' = timer_queue s \<and> reaper_queue s' = reaper_queue s \<and>
     kernel_team s' = kernel_team s \<and> reaper_sem s' = reaper_sem s \<and> halted s' = halted s \<and>
     next_ref s \<le> next_ref s' \<and>
     (\<forall>t \<in> X. \<forall>k. tasks s t = Some k \<longrightarrow> waiting_on k = 0 \<longrightarrow>
        (\<exists>k'. tasks s' t = Some k' \<and> waiting_on k' = 0 \<and> t_flags k' = t_flags k \<and> t_kont k' = t_kont k))"

lemma keeps_kwf: "keeps X s s' \<Longrightarrow> kwf s'"
  by (simp add: keeps_def)

lemma keeps_refl: "kwf s \<Longrightarrow> keeps X s s"
  by (simp add: keeps_def)

lemma keeps_trans: "keeps X s s' \<Longrightarrow> keeps X s' s'' \<Longrightarrow> keeps X s s''"
  unfolding keeps_def by (elim conjE, intro conjI; ((simp; fail) | metis))

lemma keeps_calm: "keeps X s s' \<Longrightarrow> t \<in> X \<Longrightarrow> tasks s t \<noteq> None \<Longrightarrow> wait_of s t = 0 \<Longrightarrow>
    tasks s' t \<noteq> None \<and> wait_of s' t = 0 \<and> flag_of s' t = flag_of s t"
  unfolding keeps_def wait_of_def flag_of_def by (auto split: option.splits)

text \<open>Everything the invariant looks at is the same.\<close>

definition same_core :: "kstate \<Rightarrow> kstate \<Rightarrow> bool" where
  "same_core s s' \<longleftrightarrow> rmap_resource s' = rmap_resource s \<and> rmap_next s' = rmap_next s \<and>
     rfree s' = rfree s \<and> rsrcs s' = rsrcs s \<and> tasks s' = tasks s \<and> next_ref s' = next_ref s \<and>
     current s' = current s \<and> idle_task s' = idle_task s \<and> run_queue s' = run_queue s \<and>
     timer_queue s' = timer_queue s \<and> reaper_queue s' = reaper_queue s \<and>
     kernel_team s' = kernel_team s \<and> reaper_sem s' = reaper_sem s \<and> halted s' = halted s \<and>
     ports s' = ports s \<and> bufs s' = bufs s \<and> msg_pool s' = msg_pool s \<and> sems s' = sems s \<and> umem s' = umem s \<and>
     dom (teams s') = dom (teams s) \<and> dom (aspaces s') = dom (aspaces s)"

lemma same_core_refl [simp]: "same_core s s"
  by (simp add: same_core_def)

lemma same_core_trans: "same_core s s' \<Longrightarrow> same_core s' s'' \<Longrightarrow> same_core s s''"
  by (simp add: same_core_def)

lemma kwf_cong:
  assumes "kwf s" and "rmap_resource s' = rmap_resource s" and "rmap_next s' = rmap_next s"
    and "rfree s' = rfree s" and "rsrcs s' = rsrcs s" and "tasks s' = tasks s" and "next_ref s \<le> next_ref s'"
    and "\<And>p x. ports s' p = Some x \<Longrightarrow> null_resource < sendqueue x \<and> p < next_ref s' \<and> sendqueue x \<noteq> run_queue s"
    and "run_queue s' = run_queue s" and "dom (teams s') \<subseteq> dom (teams s)" and "dom (aspaces s') \<subseteq> dom (aspaces s)"
  shows "kwf s'"
proof -
  note wf = kwfD[OF assms(1)]
  have "table_ok s'"
    by (rule table_ok_cong[OF wf(1) assms(2-4)]) (use assms(5) views_cong(2,3)[OF assms(5)] in simp_all)
  moreover have "queue_ok s'"
    by (rule queue_ok_cong[OF wf(2) views_cong(1)[OF assms(5)] views_cong(4)[OF assms(6)]])
      (use queue_ok_sleep[OF wf(2)] views_cong(5)[OF assms(6)] in simp)
  moreover have "ports s' r = None" if "next_ref s' \<le> r" for r
    using assms(8)[of r] that by (cases "ports s' r") force+
  moreover have "runq_ok s'"
    using wf(4) assms(6-11) views_cong(2)[OF assms(5)] unfolding runq_ok_def domIff subset_iff
    by (metis (no_types, lifting) Un_iff domIff le_trans)
  ultimately show ?thesis using wf(3) assms(5-8) unfolding kwf_def refs_ok_def by simp
qed

lemma kwf_port:
  "kwf s \<Longrightarrow> ports s p = Some x \<Longrightarrow> null_resource < sendqueue x \<and> p < next_ref s \<and> sendqueue x \<noteq> run_queue s"
  unfolding kwf_def refs_ok_def runq_ok_def by (metis not_le option.distinct(1))

lemma kwf_same: "kwf s \<Longrightarrow> same_core s s' \<Longrightarrow> kwf s'"
  using kwf_port[of s] by (intro kwf_cong[of s s']) (auto simp: same_core_def)

lemma keeps_same: "kwf s \<Longrightarrow> same_core s s' \<Longrightarrow> keeps X s s'"
  using kwf_same[of s s'] by (simp add: keeps_def same_core_def)

text \<open>An update of a task that leaves its place in the queues.\<close>

lemma kwf_upd_task:
  assumes "kwf s" and "tasks s t = Some x" and "waiting_on y = waiting_on x"
    and "t_flags y = tSLEEP_IRQ \<longrightarrow> waiting_on x = 0"
  shows "kwf (s\<lparr>tasks := (tasks s)(t \<mapsto> y)\<rparr>)"
proof -
  let ?s = "s\<lparr>tasks := (tasks s)(t \<mapsto> y)\<rparr>"
  note wf = kwfD[OF assms(1)]
  have "table_ok ?s" by (rule table_ok_cong[OF wf(1)]) simp_all
  moreover have "queue_ok ?s"
    by (rule queue_ok_cong[OF wf(2)])
      (use assms(3,4) views_Some(4)[OF assms(2)] queue_ok_sleep[OF wf(2)] in \<open>auto split: if_splits\<close>)
  moreover have "refs_ok ?s"
    using wf(3) refs_ok_task[OF wf(3), of t] assms(2) by (simp add: refs_ok_def)
  moreover have "runq_ok ?s" by (rule runq_ok_cong[OF wf(4)]) (use assms in \<open>auto split: if_splits\<close>)
  ultimately show ?thesis by (simp add: kwf_def)
qed

lemma kwf_upd_rsrc:
  assumes "kwf s" and "rsrcs s r = Some x" and "r_id y = r_id x" "r_type y = r_type x" "r_queue y = r_queue x"
  shows "kwf (s\<lparr>rsrcs := (rsrcs s)(r \<mapsto> y)\<rparr>)"
proof -
  let ?s = "s\<lparr>rsrcs := (rsrcs s)(r \<mapsto> y)\<rparr>"
  note wf = kwfD[OF assms(1)]
  have v: "(queue_of s)(r := r_queue y) = queue_of s" "(type_of s)(r := r_type y) = type_of s"
    "(id_of s)(r := r_id y) = id_of s"
    using views_Some(1-3)[OF assms(2)] assms(3-5) by auto
  have "table_ok ?s" by (rule table_ok_cong[OF wf(1)]) (use v in simp_all)
  moreover have "queue_ok ?s"
    by (rule queue_ok_cong[OF wf(2)]) (use v queue_ok_sleep[OF wf(2)] in simp_all)
  moreover have "refs_ok ?s"
    using wf(3) refs_ok_rsrc[OF wf(3), of r] assms(2) by (simp add: refs_ok_def)
  moreover have "runq_ok ?s" by (rule runq_ok_cong[OF wf(4)]) (use v in simp_all)
  ultimately show ?thesis by (simp add: kwf_def)
qed

lemma queue_ok_enqueue:
  assumes "queue_ok s" and "wait_of s t = 0" and "r \<noteq> 0" and "fl \<noteq> tSLEEP_IRQ"
    and "queue_of s' = (queue_of s)(r := queue_of s r @ [t])" and "wait_of s' = (wait_of s)(t := r)"
    and "flag_of s' = (flag_of s)(t := fl)"
  shows "queue_ok s'"
proof -
  have "t \<notin> set (queue_of s r')" for r' using assms(1,2) by (auto simp: queue_ok_def)
  with assms show ?thesis unfolding queue_ok_def by auto
qed

lemma queue_ok_dequeue:
  assumes "queue_ok s" and "queue_of s r = t # ts"
    and "queue_of s' = (queue_of s)(r := ts)" and "wait_of s' = (wait_of s)(t := 0)"
    and "flag_of s' = (flag_of s)(t := fl)"
  shows "queue_ok s'"
proof -
  have d: "distinct (t # ts)" and tr: "wait_of s t = r" "r \<noteq> 0"
    using assms(1,2) unfolding queue_ok_def by (metis, metis list.set_intros(1), metis list.set_intros(1))
  have mem: "t' \<in> set ts \<longleftrightarrow> wait_of s t' = r \<and> t' \<noteq> t" for t'
  proof -
    have "t' \<in> set (t # ts) \<longleftrightarrow> wait_of s t' = r \<and> r \<noteq> 0"
      using assms(1) unfolding queue_ok_def assms(2)[symmetric] by blast
    then show ?thesis using d tr by auto
  qed
  show ?thesis
    using assms(1) d tr mem unfolding queue_ok_def assms(3-5) by auto
qed

section \<open>The operations of the resource table and the queues\<close>

lemma keeps_upd_rsrc:
  assumes "kwf s" and "upd_rsrc r f s = Some s'"
    and "\<And>x. r_id (f x) = r_id x \<and> r_type (f x) = r_type x \<and> r_queue (f x) = r_queue x"
  shows "keeps X s s'"
  using assms kwf_upd_rsrc[of s r _ "f _"] by (auto simp: upd_rsrc_def bind_Some_conv keeps_def)

lemma keeps_upd_team:
  assumes "kwf s" and "upd_team tm f s = Some s'"
  shows "keeps X s s'"
  by (rule keeps_same[OF assms(1)]) (use assms(2) in \<open>auto simp: upd_team_def bind_Some_conv same_core_def split: if_splits\<close>)

lemma keeps_upd_port:
  assumes "kwf s" and "upd_port p f s = Some s'" and "\<And>x. sendqueue (f x) = sendqueue x"
  shows "keeps X s s'"
proof -
  obtain x where x: "ports s p = Some x" "s' = s\<lparr>ports := (ports s)(p \<mapsto> f x)\<rparr>"
    using assms(2) by (auto simp: upd_port_def bind_Some_conv)
  have "kwf s'" unfolding x(2)
    by (rule kwf_cong[OF assms(1)]) (use kwf_port[OF assms(1)] x assms(3) in \<open>auto split: if_splits\<close>)
  then show ?thesis by (simp add: keeps_def x(2))
qed

lemma keeps_upd_task:
  assumes "kwf s" and "upd_task t f s = Some s'"
    and "\<And>x. waiting_on (f x) = waiting_on x"
    and "\<And>x. t_flags (f x) = t_flags x \<or> t_flags (f x) \<noteq> tSLEEP_IRQ \<or> waiting_on x = 0"
    and "t \<in> X \<Longrightarrow> (\<And>x. t_flags (f x) = t_flags x \<and> t_kont (f x) = t_kont x)"
  shows "keeps X s s'"
proof -
  obtain x where x: "tasks s t = Some x" "s' = s\<lparr>tasks := (tasks s)(t \<mapsto> f x)\<rparr>"
    using assms(2) by (auto simp: upd_task_def bind_Some_conv)
  have "t_flags (f x) = tSLEEP_IRQ \<longrightarrow> waiting_on x = 0"
    using assms(4)[of x] queue_ok_sleep[OF kwfD(2)[OF assms(1)], of t] views_Some(4,5)[OF x(1)] by metis
  with kwf_upd_task[OF assms(1) x(1) assms(3)[of x]] have "kwf s'" unfolding x(2) by simp
  moreover have "\<forall>u \<in> X. \<forall>k. tasks s u = Some k \<longrightarrow> waiting_on k = 0 \<longrightarrow>
      (\<exists>k'. tasks s' u = Some k' \<and> waiting_on k' = 0 \<and> t_flags k' = t_flags k \<and> t_kont k' = t_kont k)"
  proof (intro ballI allI impI)
    fix u k assume u: "u \<in> X" "tasks s u = Some k" "waiting_on k = 0"
    show "\<exists>k'. tasks s' u = Some k' \<and> waiting_on k' = 0 \<and> t_flags k' = t_flags k \<and> t_kont k' = t_kont k"
      using u x assms(3)[of x] assms(5) by (cases "u = t") auto
  qed
  ultimately show ?thesis by (simp add: keeps_def x(2))
qed

lemma keeps_enqueue:
  assumes "kwf s" and "rsrc_enqueue r t s = Some s'" and "wait_of s t = 0" and "t \<notin> X"
  shows "keeps X s s'"
proof -
  obtain k x where k: "tasks s t = Some k" and x: "rsrcs s r = Some x"
    and s': "s' = s\<lparr>tasks := (tasks s)(t \<mapsto> k\<lparr>wait_time := 0, t_flags := tWAITING, waiting_on := r\<rparr>),
       rsrcs := (rsrcs s)(r \<mapsto> x\<lparr>r_queue := r_queue x @ [t]\<rparr>)\<rparr>"
    using assms(2) by (auto simp: rsrc_enqueue_def upd_task_def upd_rsrc_def bind_Some_conv)
  note wf = kwfD[OF assms(1)]
  note v = views_Some(1-3)[OF x]
  let ?s1 = "s\<lparr>tasks := (tasks s)(t \<mapsto> k\<lparr>wait_time := 0, t_flags := tWAITING, waiting_on := r\<rparr>)\<rparr>"
  have s'1: "s' = ?s1\<lparr>rsrcs := (rsrcs ?s1)(r \<mapsto> x\<lparr>r_queue := r_queue x @ [t]\<rparr>)\<rparr>" by (simp add: s')
  have views: "type_of s' = type_of s" "id_of s' = id_of s"
    "queue_of s' = (queue_of s)(r := queue_of s r @ [t])" "wait_of s' = (wait_of s)(t := r)"
    "flag_of s' = (flag_of s)(t := tWAITING)"
    unfolding s'1 views_rsrc views_task using v by (auto simp: fun_eq_iff)
  have "table_ok s'" by (rule table_ok_cong[OF wf(1) _ _ _ views(1,2)]) (simp_all add: s')
  moreover have "queue_ok s'"
    by (rule queue_ok_enqueue[OF wf(2) assms(3) _ _ views(3-5)])
      (use refs_ok_rsrc[OF wf(3), of r] x in auto)
  moreover have "r \<noteq> 0" "t \<noteq> 0" using refs_ok_rsrc[OF wf(3), of r] refs_ok_task[OF wf(3), of t] k x by auto
  then have "refs_ok s'" using wf(3) k x unfolding refs_ok_def s' by auto
  moreover have "runq_ok s'" by (rule runq_ok_cong[OF wf(4)]) (use views(1) k in \<open>auto simp: s'\<close>)
  ultimately show ?thesis using assms(4) by (auto simp: keeps_def kwf_def s')
qed

lemma queue_detach_cases:
  assumes "queue_detach r s = Some (t, s')" and "kwf s"
  obtains (empty) "t = 0" and "s' = s" and "queue_of s r = []"
    | (head) x ts where "t \<noteq> 0" and "rsrcs s r = Some x" and "r_queue x = t # ts"
        and "s' = s\<lparr>rsrcs := (rsrcs s)(r \<mapsto> x\<lparr>r_queue := ts\<rparr>)\<rparr>" and "tasks s t \<noteq> None" and "wait_of s t = r"
        and "r \<noteq> 0"
proof -
  from assms(1) obtain x where x: "rsrcs s r = Some x" by (auto simp: queue_detach_def bind_Some_conv)
  show thesis
  proof (cases "r_queue x")
    case Nil
    then show thesis using assms(1) x empty views_Some(1)[OF x] by (auto simp: queue_detach_def)
  next
    case (Cons u ts)
    note wf = kwfD[OF assms(2)]
    have "u \<in> set (queue_of s r)" using views_Some(1)[OF x] Cons by simp
    then have w: "wait_of s u = r" "r \<noteq> 0" using wf(2) by (auto simp: queue_ok_def)
    then have "tasks s u \<noteq> None" by (auto simp: wait_of_def split: option.splits)
    with w refs_ok_task[OF wf(3), of u] show thesis
      using assms(1) x Cons head by (auto simp: queue_detach_def)
  qed
qed

lemma dequeue_kwf:
  assumes "kwf s" and "rsrcs s r = Some x" and "r_queue x = t # ts" and "tasks s t = Some k"
    and "waiting_on k' = 0"
  shows "kwf (s\<lparr>rsrcs := (rsrcs s)(r \<mapsto> x\<lparr>r_queue := ts\<rparr>), tasks := (tasks s)(t \<mapsto> k')\<rparr>)"
    (is "kwf ?s")
proof -
  note wf = kwfD[OF assms(1)]
  note v = views_Some(1-3)[OF assms(2)]
  let ?s1 = "s\<lparr>rsrcs := (rsrcs s)(r \<mapsto> x\<lparr>r_queue := ts\<rparr>)\<rparr>"
  have s1: "?s = ?s1\<lparr>tasks := (tasks ?s1)(t \<mapsto> k')\<rparr>" by simp
  have views: "type_of ?s = type_of s" "id_of ?s = id_of s" "queue_of ?s = (queue_of s)(r := ts)"
    "wait_of ?s = (wait_of s)(t := 0)" "flag_of ?s = (flag_of s)(t := t_flags k')"
    unfolding s1 views_task views_rsrc using v assms(5) by (auto simp: fun_eq_iff)
  have "table_ok ?s" by (rule table_ok_cong[OF wf(1) _ _ _ views(1,2)]) simp_all
  moreover have "queue_ok ?s"
    by (rule queue_ok_dequeue[OF wf(2) _ views(3-5)]) (use v assms(3) in simp)
  moreover have "r \<noteq> 0" "t \<noteq> 0" using refs_ok_rsrc[OF wf(3), of r] refs_ok_task[OF wf(3), of t] assms(2,4) by auto
  then have "refs_ok ?s" using wf(3) assms(2,4) unfolding refs_ok_def by auto
  moreover have "runq_ok ?s" by (rule runq_ok_cong[OF wf(4)]) (use views(1) assms(4) in auto)
  ultimately show ?thesis by (simp add: kwf_def)
qed

lemma keeps_dequeue:
  assumes "kwf s" and "rsrc_dequeue r s = Some (t, s')"
  shows "keeps X s s'" "t \<noteq> 0 \<Longrightarrow> tasks s' t \<noteq> None \<and> wait_of s' t = 0 \<and> flag_of s' t = tREADY \<and>
      wait_of s t = r \<and> r \<noteq> 0 \<and> tasks s t \<noteq> None"
    "t = 0 \<Longrightarrow> s' = s \<and> queue_of s r = []"
proof -
  from assms(2) obtain s1 where s1: "queue_detach r s = Some (t, s1)"
    and s': "t = 0 \<longrightarrow> s' = s1" "t \<noteq> 0 \<longrightarrow> upd_task t (\<lambda>x. x\<lparr>waiting_on := 0, t_flags := tREADY\<rparr>) s1 = Some s'"
    by (auto simp: rsrc_dequeue_def bind_Some_conv split: if_splits)
  have "keeps X s s' \<and> (t \<noteq> 0 \<longrightarrow> tasks s' t \<noteq> None \<and> wait_of s' t = 0 \<and> flag_of s' t = tREADY \<and>
      wait_of s t = r \<and> r \<noteq> 0 \<and> tasks s t \<noteq> None) \<and> (t = 0 \<longrightarrow> s' = s \<and> queue_of s r = [])"
    using s1 assms(1)
  proof (cases rule: queue_detach_cases)
    case empty
    then show ?thesis using s' keeps_refl[OF assms(1)] by auto
  next
    case (head x ts)
    then obtain k where k: "tasks s t = Some k" by auto
    then have s'': "s' = s\<lparr>rsrcs := (rsrcs s)(r \<mapsto> x\<lparr>r_queue := ts\<rparr>),
        tasks := (tasks s)(t \<mapsto> k\<lparr>waiting_on := 0, t_flags := tREADY\<rparr>)\<rparr>"
      using s'(2) head by (auto simp: upd_task_def)
    have "kwf s'" unfolding s'' by (rule dequeue_kwf[OF assms(1) head(2,3) k]) simp
    moreover have "waiting_on k = r" using head(6) views_Some(4)[OF k] by simp
    ultimately show ?thesis using head(1,6,7) k
      by (auto simp: keeps_def s'' wait_of_def flag_of_def)
  qed
  then show "keeps X s s'" "t \<noteq> 0 \<Longrightarrow> tasks s' t \<noteq> None \<and> wait_of s' t = 0 \<and> flag_of s' t = tREADY \<and>
      wait_of s t = r \<and> r \<noteq> 0 \<and> tasks s t \<noteq> None" "t = 0 \<Longrightarrow> s' = s \<and> queue_of s r = []"
    by auto
qed

lemma keeps_task_wake:
  assumes "kwf s" and "task_wake t status s = Some s'" and "wait_of s t = 0" and "t \<notin> X"
  shows "keeps X s s'"
proof -
  from assms(2) obtain s1 where s1: "upd_task t (\<lambda>x. x\<lparr>t_status := status\<rparr>) s = Some s1"
    and s': "rsrc_enqueue (run_queue s1) t s1 = Some s'"
    by (auto simp: task_wake_def bind_Some_conv)
  from keeps_upd_task[OF assms(1) s1, of X] assms(4) have k: "keeps X s s1" by auto
  have "wait_of s1 t = 0" using s1 assms(3) by (auto simp: upd_task_def bind_Some_conv wait_of_def)
  with keeps_trans[OF k keeps_enqueue[OF keeps_kwf[OF k] s' _ assms(4)]] show ?thesis by simp
qed

text \<open>The head of a queue is detached and woken, without the updates of \<open>rsrc_dequeue\<close>.\<close>

lemma detach_wake:
  assumes "kwf s" and "queue_detach r s = Some (t, s1)" and "t \<noteq> 0" and "task_wake t status s1 = Some s'"
    and "t \<in> X \<Longrightarrow> wait_of s t = 0"
  shows "keeps X s s'"
  using assms(2,1)
proof (cases rule: queue_detach_cases)
  case empty
  then show ?thesis using assms(3) by simp
next
  case (head x ts)
  then obtain k where k: "tasks s t = Some k" by auto
  have tX: "t \<notin> X" using assms(5) head(6,7) by auto
  let ?k = "k\<lparr>waiting_on := 0\<rparr>"
  let ?s1 = "s\<lparr>rsrcs := (rsrcs s)(r \<mapsto> x\<lparr>r_queue := ts\<rparr>), tasks := (tasks s)(t \<mapsto> ?k)\<rparr>"
  have "kwf ?s1" by (rule dequeue_kwf[OF assms(1) head(2,3) k]) simp
  moreover have "keeps X s ?s1"
    using calculation tX by (auto simp: keeps_def)
  moreover have "task_wake t status ?s1 = Some s'"
    using assms(4) head(4) k by (auto simp: task_wake_def upd_task_def rsrc_enqueue_def upd_rsrc_def bind_Some_conv)
  moreover have "wait_of ?s1 t = 0" by (simp add: wait_of_def)
  ultimately show ?thesis using keeps_task_wake[of ?s1 t status s' X] tX keeps_trans by blast
qed

text \<open>In \<open>X\<close> are only tasks that do not wait.\<close>

definition calm :: "addr set \<Rightarrow> kstate \<Rightarrow> bool" where
  "calm X s \<longleftrightarrow> (\<forall>t \<in> X. tasks s t \<noteq> None \<and> wait_of s t = 0)"

lemma calmD: "calm X s \<Longrightarrow> t \<in> X \<Longrightarrow> wait_of s t = 0"
  by (simp add: calm_def)

lemma keeps_calm_set: "keeps X s s' \<Longrightarrow> calm X s \<Longrightarrow> calm X s'"
  using keeps_calm unfolding calm_def by blast

lemma queue_detach_empty: "queue_detach r s = Some (0, s') \<Longrightarrow> kwf s \<Longrightarrow> s' = s \<and> queue_of s r = []"
  by (erule queue_detach_cases) auto

lemma keeps_wake_all:
  "wake_all fuel r status s = Some s' \<Longrightarrow> kwf s \<Longrightarrow> calm X s \<Longrightarrow> keeps X s s' \<and> queue_of s' r = []"
proof (induction fuel r status s rule: wake_all.induct)
  case (1 fuel r status s)
  from "1.prems"(1) obtain t s1 where d: "queue_detach r s = Some (t, s1)"
    by (auto simp: wake_all.simps[of fuel] bind_Some_conv)
  note unfold = "1.prems"(1)[unfolded wake_all.simps[of fuel]] d
  show ?case
  proof (cases "t = 0")
    case True
    then have "s1 = s \<and> queue_of s r = []" using queue_detach_empty d "1.prems"(2) by blast
    then show ?thesis using True unfold "1.prems"(2) keeps_refl by auto
  next
    case False
    then obtain n s2 where f: "fuel = Suc n" and w: "task_wake t status s1 = Some s2"
      and rest: "wake_all n r status s2 = Some s'"
      using unfold by (auto simp: bind_Some_conv split: nat.splits)
    have k: "keeps X s s2" by (rule detach_wake[OF "1.prems"(2) d False w calmD[OF "1.prems"(3)]])
    from "1.IH"[OF d refl False f w rest keeps_kwf[OF k] keeps_calm_set[OF k "1.prems"(3)]]
    show ?thesis using keeps_trans[OF k] by blast
  qed
qed

lemma keeps_wake_queue:
  assumes "wake_queue r status s = Some s'" and "kwf s" and "calm X s"
  shows "keeps X s s'" "queue_of s' r = []"
  using assms keeps_wake_all by (auto simp: wake_queue_def bind_Some_conv)

section \<open>The table: binding and releasing\<close>

definition id_pool_of :: "kstate \<Rightarrow> nat list \<Rightarrow> bool" where
  "id_pool_of s is \<longleftrightarrow> chain (rmap_next s) (rfree s) is"

definition id_in_range :: "kstate \<Rightarrow> nat \<Rightarrow> bool" where
  "id_in_range s i \<longleftrightarrow> i \<noteq> 0 \<and> i < length (rmap_next s)"

interpretation ids: id_pool alloc_id free_id id_pool_of id_in_range
proof (unfold_locales, goal_cases)
  case (1 s)
  then show ?case by (simp add: id_pool_of_def alloc_id_def)
next
  case (2 s i "is")
  then show ?case by (auto simp: id_pool_of_def alloc_id_def)
next
  case (3 s i s' j)
  then show ?case by (auto simp: id_in_range_def alloc_id_def bind_Some_conv split: if_splits)
next
  case (4 s "is" i)
  then show ?case by (auto simp: id_pool_of_def id_in_range_def free_id_def)
next
  case (5 s "is")
  then show ?case by (auto simp: id_pool_of_def intro: chain_distinct)
next
  case (6 s "is" i)
  then show ?case by (auto simp: id_pool_of_def id_in_range_def dest: chain_range)
qed

lemma alloc_id_keeps: "alloc_id s = Some (i, s') \<Longrightarrow> \<exists>nx. s' = s\<lparr>rfree := nx\<rparr>"
  by (auto simp: alloc_id_def bind_Some_conv split: if_splits)

text \<open>A fresh resource is entered in the table.\<close>

lemma bind_kwf:
  assumes "kwf s" and al: "alloc_id s = Some (i, s1)" and r: "rsrcs s r = None" "null_resource < r" "r < next_ref s"
    and "ty \<noteq> RSRC_NONE" and rm: "list_put (rmap_resource s) i r = Some rm"
    and y: "y = \<lparr>r_id = i, r_type = ty, r_owner = ow, r_queue = [], r_name = nm\<rparr>"
  shows "kwf (s1\<lparr>rmap_resource := rm, rsrcs := (rsrcs s)(r \<mapsto> y)\<rparr>)" (is "kwf ?s")
proof -
  note wf = kwfD[OF assms(1)]
  from wf(1) obtain "is" where "id_pool_of s is" and free: "\<forall>i \<in> set is. rmap_resource s ! i = null_resource"
    by (auto simp: table_ok_def id_pool_of_def)
  from ids.take_SomeD[OF this(1) al] obtain js where js: "is = i # js" "id_pool_of s1 js" by auto
  have i: "i \<noteq> 0" "i < length (rmap_next s)" "i \<notin> set js"
    using ids.pool_ok[OF \<open>id_pool_of s is\<close>, of i] ids.pool_distinct[OF \<open>id_pool_of s is\<close>] js(1)
    by (auto simp: id_in_range_def)
  obtain nx1 where s1: "s1 = s\<lparr>rfree := nx1\<rparr>" using alloc_id_keeps[OF al] by blast
  have nx: "rmap_next s1 = rmap_next s" by (simp add: s1)
  have eq: "?s = (s\<lparr>rsrcs := (rsrcs s)(r \<mapsto> y)\<rparr>)\<lparr>rfree := nx1, rmap_resource := rm\<rparr>"
    by (simp add: s1)
  have views: "type_of ?s = (type_of s)(r := ty)" "id_of ?s = (id_of s)(r := i)"
    "queue_of ?s = queue_of s" "wait_of ?s = wait_of s" "flag_of ?s = flag_of s"
    unfolding eq using r(1)
    by (auto simp: y fun_eq_iff queue_of_def type_of_def id_of_def wait_of_def flag_of_def)
  have tr: "type_of s r = RSRC_NONE" using r(1) by (simp add: type_of_def)
  have len: "length (rmap_resource s) = length (rmap_next s)" using wf(1) by (simp add: table_ok_def)
  have rm': "rm = (rmap_resource s)[i := r]" using rm by simp
  have freei: "rmap_resource s ! i = null_resource" using free js(1) by simp
  have "table_ok ?s"
    unfolding table_ok_def views
  proof (intro conjI)
    show "\<exists>is. chain (rmap_next ?s) (rfree ?s) is \<and> (\<forall>i \<in> set is. rmap_resource ?s ! i = null_resource)"
      using js i(3) free by (auto simp: s1 id_pool_of_def rm' intro!: exI[of _ js]) (metis nth_list_update_neq)
    show "\<forall>j < length (rmap_resource ?s). rmap_resource ?s ! j \<noteq> null_resource \<longrightarrow> j \<noteq> 0 \<and>
        ((type_of s)(r := ty)) (rmap_resource ?s ! j) \<noteq> RSRC_NONE \<and>
        ((id_of s)(r := i)) (rmap_resource ?s ! j) = j"
    proof (intro allI impI)
      fix j assume j: "j < length (rmap_resource ?s)" "rmap_resource ?s ! j \<noteq> null_resource"
      show "j \<noteq> 0 \<and> ((type_of s)(r := ty)) (rmap_resource ?s ! j) \<noteq> RSRC_NONE \<and>
        ((id_of s)(r := i)) (rmap_resource ?s ! j) = j"
      proof (cases "j = i")
        case True
        then show ?thesis using i len \<open>ty \<noteq> RSRC_NONE\<close> by (auto simp: rm')
      next
        case False
        then have "j < length (rmap_resource s)" "rmap_resource s ! j \<noteq> null_resource"
          using j by (auto simp: rm')
        with wf(1) have "j \<noteq> 0" "type_of s (rmap_resource s ! j) \<noteq> RSRC_NONE" "id_of s (rmap_resource s ! j) = j"
          unfolding table_ok_def by blast+
        with tr False show ?thesis by (auto simp: rm')
      qed
    qed
    show "\<forall>q. if ((type_of s)(r := ty)) q = RSRC_NONE then ((id_of s)(r := i)) q = 0
        else ((id_of s)(r := i)) q < length (rmap_resource ?s) \<and> rmap_resource ?s ! ((id_of s)(r := i)) q = q"
    proof
      fix q
      have old: "if type_of s q = RSRC_NONE then id_of s q = 0
        else id_of s q < length (rmap_resource s) \<and> rmap_resource s ! id_of s q = q"
        using wf(1) unfolding table_ok_def by blast
      have "type_of s null_resource = RSRC_NONE" using wf(1) by (simp add: table_ok_def)
      then have "type_of s q \<noteq> RSRC_NONE \<Longrightarrow> id_of s q \<noteq> i" using old freei by metis
      with old show "if ((type_of s)(r := ty)) q = RSRC_NONE then ((id_of s)(r := i)) q = 0
        else ((id_of s)(r := i)) q < length (rmap_resource ?s) \<and> rmap_resource ?s ! ((id_of s)(r := i)) q = q"
        using \<open>ty \<noteq> RSRC_NONE\<close> i len by (auto simp: rm')
    qed
  qed (use wf(1) r(2) nx in \<open>auto simp: table_ok_def rm' eq\<close>)
  moreover have "queue_ok ?s"
    by (rule queue_ok_cong[OF wf(2) views(3,4)]) (use views(5) queue_ok_sleep[OF wf(2)] in simp)
  moreover have "refs_ok ?s" using wf(3) r unfolding refs_ok_def eq by auto
  moreover have "runq_ok ?s" 
  proof (rule runq_ok_cong[OF wf(4)])
    have "r \<noteq> run_queue s" using wf(4) tr by (auto simp: runq_ok_def)
    then show "type_of ?s (run_queue s) = type_of s (run_queue s)" unfolding views(1) by simp
  qed (simp_all add: s1)
  ultimately show ?thesis by (simp add: kwf_def)
qed

lemma keeps_bind:
  assumes "kwf s" and "rsrc_bind r ty ow s = Some s'"
    and r: "rsrcs s r = None" "null_resource < r" "r < next_ref s" and "ty \<noteq> RSRC_NONE"
  shows "keeps X s s'" "type_of s' = (type_of s)(r := ty)" "ports s' = ports s"
proof -
  from assms(2) obtain i s1 rm s3 where al: "alloc_id s = Some (i, s1)"
    and rm: "list_put (rmap_resource s1) i r = Some rm"
    and s2: "(if ow \<noteq> 0 then upd_team ow (\<lambda>t. t\<lparr>tm_resources := tm_resources t @ [r]\<rparr>)
       (s1\<lparr>rmap_resource := rm, rsrcs := (rsrcs s1)(r \<mapsto> \<lparr>r_id = i, r_type = ty, r_owner = ow, r_queue = [], r_name = []\<rparr>)\<rparr>)
       else Some (s1\<lparr>rmap_resource := rm, rsrcs := (rsrcs s1)(r \<mapsto> \<lparr>r_id = i, r_type = ty, r_owner = ow, r_queue = [], r_name = []\<rparr>)\<rparr>)) = Some s3"
    and s': "s' = s3\<lparr>resource_list := resource_list s3 @ [r]\<rparr>"
    unfolding rsrc_bind_def by (auto simp: bind_Some_conv Let_def simp del: list_put_Some)
  obtain nx where s1: "s1 = s\<lparr>rfree := nx\<rparr>" using alloc_id_keeps[OF al] by blast
  have e: "rmap_resource s1 = rmap_resource s" "rsrcs s1 = rsrcs s" by (simp_all add: s1)
  let ?y = "\<lparr>r_id = i, r_type = ty, r_owner = ow, r_queue = [], r_name = []\<rparr>"
  let ?s2 = "s1\<lparr>rmap_resource := rm, rsrcs := (rsrcs s)(r \<mapsto> ?y)\<rparr>"
  have k2: "kwf ?s2" by (rule bind_kwf[OF assms(1) al r assms(6) rm[unfolded e(1)] refl])
  then have "keeps X s ?s2" unfolding keeps_def by (simp add: s1)
  moreover have "same_core ?s2 s3"
    using s2 unfolding e(2) by (auto simp: upd_team_def bind_Some_conv same_core_def split: if_splits)
  then have "same_core ?s2 s'" by (simp add: same_core_def s')
  ultimately show "keeps X s s'" using keeps_trans keeps_same[OF k2] by blast
  have c: "rsrcs s' = (rsrcs s)(r \<mapsto> ?y)" "ports s' = ports s1" using \<open>same_core ?s2 s'\<close> by (auto simp: same_core_def)
  show "ports s' = ports s" unfolding c(2) by (simp add: s1)
  show "type_of s' = (type_of s)(r := ty)" using c(1) by (auto simp: type_of_def fun_eq_iff)
qed

text \<open>The id of a resource goes back to the free chain.\<close>

lemma unbind_kwf:
  assumes "kwf s" and x: "rsrcs s r = Some x" and "queue_of s r = []"
    and rm: "list_put (rmap_resource s) (r_id x) null_resource = Some rm"
    and fr: "free_id (r_id x) (s\<lparr>rsrcs := (rsrcs s)(r \<mapsto> x\<lparr>r_type := RSRC_NONE, r_id := 0\<rparr>), rmap_resource := rm\<rparr>) = Some s'"
    and "r \<noteq> run_queue s"
  shows "kwf s'"
proof -
  note wf = kwfD[OF assms(1)]
  let ?i = "r_id x" and ?y = "x\<lparr>r_type := RSRC_NONE, r_id := 0\<rparr>"
  have i: "?i < length (rmap_resource s)" and rm': "rm = (rmap_resource s)[?i := null_resource]" using rm by auto
  have s': "s' = s\<lparr>rsrcs := (rsrcs s)(r \<mapsto> ?y)\<rparr>\<lparr>rmap_resource := rm, rmap_next := (rmap_next s)[?i := rfree s], rfree := ?i\<rparr>"
    using fr by (auto simp: free_id_def bind_Some_conv)
  have views: "type_of s' = (type_of s)(r := RSRC_NONE)" "id_of s' = (id_of s)(r := 0)"
    "queue_of s' = queue_of s" "wait_of s' = wait_of s" "flag_of s' = flag_of s"
    unfolding s' using assms(3) x
    by (auto simp: fun_eq_iff queue_of_def type_of_def id_of_def wait_of_def flag_of_def)
  have tb: "if type_of s q = RSRC_NONE then id_of s q = 0
        else id_of s q < length (rmap_resource s) \<and> rmap_resource s ! id_of s q = q" for q
    using wf(1) unfolding table_ok_def by blast
  have len: "length (rmap_resource s) = length (rmap_next s)" using wf(1) by (simp add: table_ok_def)
  have entry: "i \<noteq> 0" "type_of s (rmap_resource s ! i) \<noteq> RSRC_NONE" "id_of s (rmap_resource s ! i) = i"
    if "i < length (rmap_resource s)" "rmap_resource s ! i \<noteq> null_resource" for i
    using wf(1) that unfolding table_ok_def by blast+
  from wf(1) obtain js where js: "chain (rmap_next s) (rfree s) js" "\<forall>i \<in> set js. rmap_resource s ! i = null_resource"
    unfolding table_ok_def by blast
  have chain': "\<exists>ks. chain ((rmap_next s)[?i := rfree s]) ?i ks \<and> (\<forall>i \<in> set ks. rm ! i = null_resource)"
  proof (cases "type_of s r = RSRC_NONE")
    case True
    then have "?i = 0" using tb[of r] views_Some(3)[OF x] by simp
    then show ?thesis by (intro exI[of _ "[]"]) simp
  next
    case False
    then have r: "rmap_resource s ! ?i = r" using tb[of r] views_Some(3)[OF x] by simp
    have rn: "r \<noteq> null_resource" using False wf(1) by (auto simp: table_ok_def)
    have "?i \<notin> set js" using js(2) r rn by auto
    then show ?thesis using js i len r rn entry(1)[OF i]
      by (intro exI[of _ "?i # js"]) (auto simp: rm' nth_list_update)
  qed
  have "table_ok s'"
    unfolding table_ok_def views
  proof (intro conjI)
    show "\<exists>is. chain (rmap_next s') (rfree s') is \<and> (\<forall>i \<in> set is. rmap_resource s' ! i = null_resource)"
      using chain' by (simp add: s')
    show "\<forall>j < length (rmap_resource s'). rmap_resource s' ! j \<noteq> null_resource \<longrightarrow> j \<noteq> 0 \<and>
        ((type_of s)(r := RSRC_NONE)) (rmap_resource s' ! j) \<noteq> RSRC_NONE \<and>
        ((id_of s)(r := 0)) (rmap_resource s' ! j) = j"
    proof (intro allI impI)
      fix j assume "j < length (rmap_resource s')" "rmap_resource s' ! j \<noteq> null_resource"
      then have j: "j \<noteq> ?i" "j < length (rmap_resource s)" "rmap_resource s ! j \<noteq> null_resource"
        using i by (auto simp: s' rm' nth_list_update split: if_splits)
      then have "rmap_resource s ! j \<noteq> r" using entry(3)[OF j(2,3)] views_Some(3)[OF x] by auto
      with entry[OF j(2,3)] j(1) show "j \<noteq> 0 \<and>
        ((type_of s)(r := RSRC_NONE)) (rmap_resource s' ! j) \<noteq> RSRC_NONE \<and>
        ((id_of s)(r := 0)) (rmap_resource s' ! j) = j" by (simp add: s' rm')
    qed
    show "\<forall>q. if ((type_of s)(r := RSRC_NONE)) q = RSRC_NONE then ((id_of s)(r := 0)) q = 0
        else ((id_of s)(r := 0)) q < length (rmap_resource s') \<and> rmap_resource s' ! ((id_of s)(r := 0)) q = q"
    proof
      fix q
      show "if ((type_of s)(r := RSRC_NONE)) q = RSRC_NONE then ((id_of s)(r := 0)) q = 0
        else ((id_of s)(r := 0)) q < length (rmap_resource s') \<and> rmap_resource s' ! ((id_of s)(r := 0)) q = q"
      proof (cases "q = r \<or> type_of s q = RSRC_NONE")
        case True
        then show ?thesis using tb[of q] by auto
      next
        case False
        then have q: "id_of s q < length (rmap_resource s)" "rmap_resource s ! id_of s q = q" using tb[of q] by auto
        have "id_of s q \<noteq> ?i"
        proof
          assume eq: "id_of s q = ?i"
          have "type_of s null_resource = RSRC_NONE" using wf(1) by (simp add: table_ok_def)
          then have "q \<noteq> null_resource" using False by auto
          with entry(1)[of "id_of s q"] q have "?i \<noteq> 0" using eq by simp
          then have "type_of s r \<noteq> RSRC_NONE" using tb[of r] views_Some(3)[OF x] by auto
          then show False using tb[of r] views_Some(3)[OF x] q(2) eq False by simp
        qed
        then show ?thesis using q False by (simp add: s' rm')
      qed
    qed
  qed (use wf(1) i in \<open>auto simp: table_ok_def rm' s'\<close>)
  moreover have "queue_ok s'"
    by (rule queue_ok_cong[OF wf(2) views(3,4)]) (use views(5) queue_ok_sleep[OF wf(2)] in simp)
  moreover have "r \<noteq> 0" using refs_ok_rsrc[OF wf(3), of r] x by simp
  then have "refs_ok s'" using wf(3) x unfolding refs_ok_def s' by auto
  moreover have "runq_ok s'" 
    by (rule runq_ok_cong[OF wf(4)]) (use views(1) assms(6) in \<open>auto simp: s'\<close>)
  ultimately show ?thesis by (simp add: kwf_def)
qed

text \<open>Waking moves tasks between queues and does nothing to the table.\<close>

definition same_table :: "kstate \<Rightarrow> kstate \<Rightarrow> bool" where
  "same_table s s' \<longleftrightarrow> ports s' = ports s \<and> type_of s' = type_of s \<and> id_of s' = id_of s \<and>
     rmap_resource s' = rmap_resource s \<and> rmap_next s' = rmap_next s \<and> rfree s' = rfree s \<and>
     bufs s' = bufs s \<and> msg_pool s' = msg_pool s \<and> sems s' = sems s \<and> next_ref s' = next_ref s \<and>
     dom (rsrcs s') = dom (rsrcs s) \<and> umem s' = umem s \<and> dom (tasks s') = dom (tasks s)"

lemma same_table_refl [simp]: "same_table s s"
  by (simp add: same_table_def)

lemma same_table_trans: "same_table s s' \<Longrightarrow> same_table s' s'' \<Longrightarrow> same_table s s''"
  by (simp add: same_table_def)

lemma same_core_table: "same_core s s' \<Longrightarrow> same_table s s'"
  using views_cong(2,3)[of s' s] by (simp add: same_core_def same_table_def)

lemma same_table_upd_task: "upd_task t f s = Some s' \<Longrightarrow> same_table s s'"
  by (auto simp: upd_task_def bind_Some_conv same_table_def split: if_splits)

lemma same_table_upd_rsrc:
  "upd_rsrc r f s = Some s' \<Longrightarrow> (\<And>x. r_type (f x) = r_type x \<and> r_id (f x) = r_id x) \<Longrightarrow> same_table s s'"
  using views_Some(2,3) by (auto simp: upd_rsrc_def bind_Some_conv same_table_def fun_eq_iff split: if_splits)

lemma same_table_enqueue: "rsrc_enqueue r t s = Some s' \<Longrightarrow> same_table s s'"
  unfolding rsrc_enqueue_def bind_Some_conv
  using same_table_upd_task same_table_upd_rsrc same_table_trans by (elim exE conjE) (metis (no_types, lifting) rsrc.select_convs(1,2) rsrc.surjective rsrc.update_convs(4))

lemma same_table_task_wake: "task_wake t status s = Some s' \<Longrightarrow> same_table s s'"
  unfolding task_wake_def bind_Some_conv
  using same_table_upd_task same_table_enqueue same_table_trans by metis

lemma same_table_detach: "queue_detach r s = Some (t, s') \<Longrightarrow> same_table s s'"
  unfolding queue_detach_def
  by (cases "rsrcs s r"; cases "r_queue (the (rsrcs s r))")
    (auto simp: same_table_def fun_eq_iff views_Some split: if_splits)

lemma same_table_dequeue: "rsrc_dequeue r s = Some (t, s') \<Longrightarrow> same_table s s'"
  unfolding rsrc_dequeue_def
  by (auto simp: bind_Some_conv split: if_splits
      dest!: same_table_detach same_table_upd_task intro: same_table_trans)

lemma same_table_wake_all: "wake_all fuel r status s = Some s' \<Longrightarrow> same_table s s'"
proof (induction fuel r status s rule: wake_all.induct)
  case (1 fuel r status s)
  from "1.prems" obtain t s1 where d: "queue_detach r s = Some (t, s1)"
    by (auto simp: wake_all.simps[of fuel] bind_Some_conv)
  note unfold = "1.prems"[unfolded wake_all.simps[of fuel]] d
  show ?case
  proof (cases "t = 0")
    case True
    then show ?thesis using unfold same_table_detach[OF d] by simp
  next
    case False
    then obtain n s2 where f: "fuel = Suc n" and w: "task_wake t status s1 = Some s2"
      and rest: "wake_all n r status s2 = Some s'"
      using unfold by (auto simp: bind_Some_conv split: nat.splits)
    from "1.IH"[OF d refl False f w rest] same_table_trans[OF same_table_detach[OF d] same_table_task_wake[OF w]]
    show ?thesis by (metis same_table_trans)
  qed
qed

lemma keeps_release:
  assumes "kwf s" and "rsrc_release r s = Some s'" and "calm X s" and "r \<noteq> run_queue s"
  shows "keeps X s s'" "queue_of s' r = []" "type_of s' = (type_of s)(r := RSRC_NONE)" "ports s' = ports s"
    "sems s' = sems s" "bufs s' = bufs s" "dom (rsrcs s') = dom (rsrcs s)" "rsrcs s r \<noteq> None"
proof -
  from assms(2) obtain x s1 s3 s4 rm where x: "rsrcs s r = Some x"
    and s1: "(if r_owner x \<noteq> 0
           then upd_team (r_owner x) (\<lambda>t. t\<lparr>tm_resources := remove1 r (tm_resources t)\<rparr>) s
           else Some s) = Some s1"
    and s3: "wake_queue r ERR_RESOURCE (s1\<lparr>resource_list := remove1 r (resource_list s1)\<rparr>) = Some s3"
    and s4: "upd_rsrc r (\<lambda>x. x\<lparr>r_type := RSRC_NONE, r_id := 0\<rparr>) s3 = Some s4"
    and rm: "list_put (rmap_resource s4) (r_id x) null_resource = Some rm"
    and s': "free_id (r_id x) (s4\<lparr>rmap_resource := rm\<rparr>) = Some s'"
    by (auto simp: rsrc_release_def bind_Some_conv simp del: list_put_Some)
  let ?s2 = "s1\<lparr>resource_list := remove1 r (resource_list s1)\<rparr>"
  have c: "same_core s ?s2"
    using s1 by (auto simp: upd_team_def bind_Some_conv same_core_def split: if_splits)
  have k2: "keeps X s ?s2" by (rule keeps_same[OF assms(1) c])
  note w = keeps_wake_queue[OF s3 keeps_kwf[OF k2] keeps_calm_set[OF k2 assms(3)]]
  have st: "same_table s s3"
    using s3 same_table_wake_all same_core_table[OF c]
    by (auto simp: wake_queue_def bind_Some_conv intro: same_table_trans)
  obtain y where y: "rsrcs s3 r = Some y" and s4': "s4 = s3\<lparr>rsrcs := (rsrcs s3)(r \<mapsto> y\<lparr>r_type := RSRC_NONE, r_id := 0\<rparr>)\<rparr>"
    using s4 by (auto simp: upd_rsrc_def bind_Some_conv)
  have yid: "r_id y = r_id x"
    using st views_Some(3)[OF x] views_Some(3)[OF y] by (simp add: same_table_def)
  have kw: "kwf s'"
    by (rule unbind_kwf[OF keeps_kwf[OF w(1)] y w(2)])
      (use rm s' s4' yid assms(4) w(1) k2 in \<open>simp_all add: keeps_def\<close>)
  have e: "tasks s' = tasks s3" "rsrcs s' = (rsrcs s3)(r \<mapsto> y\<lparr>r_type := RSRC_NONE, r_id := 0\<rparr>)"
    "ports s' = ports s3" "sems s' = sems s3" "bufs s' = bufs s3"
    using s' s4' by (auto simp: free_id_def bind_Some_conv)
  have "keeps X s3 s'" using kw s' s4' by (auto simp: keeps_def free_id_def bind_Some_conv)
  with keeps_trans[OF k2 w(1)] show "keeps X s s'" by (metis keeps_trans)
  show "queue_of s' r = []" using w(2) e(2) y by (simp add: queue_of_def)
  show "type_of s' = (type_of s)(r := RSRC_NONE)" using st e(2) by (auto simp: same_table_def type_of_def fun_eq_iff)
  show "ports s' = ports s" "sems s' = sems s" "bufs s' = bufs s"
    using st e(3-5) by (auto simp: same_table_def)
  show "dom (rsrcs s') = dom (rsrcs s)" using st e(2) y by (auto simp: same_table_def)
  show "rsrcs s r \<noteq> None" using x by simp
qed

text \<open>A released object is freed.\<close>

lemma free_kwf:
  assumes "kwf s" and "queue_of s r = []" and "type_of s r = RSRC_NONE" and "r \<noteq> null_resource"
  shows "kwf (s\<lparr>rsrcs := (rsrcs s)(r := None)\<rparr>)" (is "kwf ?s")
proof -
  note wf = kwfD[OF assms(1)]
  have "id_of s r = 0" using wf(1) assms(3) unfolding table_ok_def by metis
  then have views: "type_of ?s = type_of s" "id_of ?s = id_of s" "queue_of ?s = queue_of s"
    using assms(2,3) by auto
  have "table_ok ?s" by (rule table_ok_cong[OF wf(1) _ _ _ views(1,2)]) simp_all
  moreover have "queue_ok ?s" by (rule queue_ok_cong[OF wf(2) views(3)]) (use queue_ok_sleep[OF wf(2)] in simp_all)
  moreover have "refs_ok ?s" using wf(3) assms(4) unfolding refs_ok_def by auto
  moreover have "runq_ok ?s" by (rule runq_ok_cong[OF wf(4)]) (use views in simp_all)
  ultimately show ?thesis by (simp add: kwf_def)
qed

lemma keeps_free:
  assumes "kwf s" and "queue_of s r = []" and "type_of s r = RSRC_NONE" and "r \<noteq> null_resource"
  shows "keeps X s (s\<lparr>rsrcs := (rsrcs s)(r := None)\<rparr>)"
  using free_kwf[OF assms] by (simp add: keeps_def)

section \<open>Semaphores and ports\<close>

text \<open>The parts of the state that the invariant does not look at.\<close>

definition same_sched :: "kstate \<Rightarrow> kstate \<Rightarrow> bool" where
  "same_sched s s' \<longleftrightarrow> rmap_resource s' = rmap_resource s \<and> rmap_next s' = rmap_next s \<and>
     rfree s' = rfree s \<and> rsrcs s' = rsrcs s \<and> tasks s' = tasks s \<and> next_ref s \<le> next_ref s' \<and>
     current s' = current s \<and> idle_task s' = idle_task s \<and> run_queue s' = run_queue s \<and>
     timer_queue s' = timer_queue s \<and> reaper_queue s' = reaper_queue s \<and>
     kernel_team s' = kernel_team s \<and> reaper_sem s' = reaper_sem s \<and> halted s' = halted s \<and>
     dom (ports s') \<subseteq> dom (ports s) \<and> (\<forall>p. p \<in> dom (ports s') \<longrightarrow> ports s' p = ports s p) \<and>
     dom (teams s') \<subseteq> dom (teams s) \<and> dom (aspaces s') \<subseteq> dom (aspaces s)"

lemma keeps_sched: "kwf s \<Longrightarrow> same_sched s s' \<Longrightarrow> keeps X s s'"
proof -
  assume a: "kwf s" "same_sched s s'"
  have p: "ports s p = Some x" if "ports s' p = Some x" for p x
    using a(2) that by (auto simp: same_sched_def)
  have "null_resource < sendqueue x \<and> p < next_ref s' \<and> sendqueue x \<noteq> run_queue s" if "ports s' p = Some x" for p x
  proof -
    have "next_ref s \<le> next_ref s'" using a(2) by (simp add: same_sched_def)
    with kwf_port[OF a(1) p[OF that]] show ?thesis by linarith
  qed
  then have "kwf s'" by (intro kwf_cong[OF a(1)]) (use a(2) in \<open>simp_all add: same_sched_def\<close>)
  with a(2) show ?thesis by (simp add: keeps_def same_sched_def)
qed

lemma new_ref_fresh: "kwf s \<Longrightarrow> rsrcs s (next_ref s) = None \<and> tasks s (next_ref s) = None \<and>
    ports s (next_ref s) = None \<and> null_resource < next_ref s \<and> run_queue s < next_ref s"
  using refs_ok_rsrc[of s "run_queue s"]
  by (auto simp: kwf_def refs_ok_def runq_ok_def type_of_def split: option.splits)

lemma rsrc_find_type: "rsrc_find ty i s = Some r \<Longrightarrow> r \<noteq> 0 \<Longrightarrow> type_of s r = ty \<and> rsrcs s r \<noteq> None"
  by (auto simp: rsrc_find_def bind_Some_conv views_Some split: if_splits)

lemma rsrc_find_not_null:
  "kwf s \<Longrightarrow> rsrc_find ty i s = Some r \<Longrightarrow> r \<noteq> 0 \<Longrightarrow> ty \<noteq> RSRC_NONE \<Longrightarrow> r \<noteq> null_resource"
  using rsrc_find_type by (fastforce simp: kwf_def table_ok_def)

lemma rsrc_find_not_runq:
  "kwf s \<Longrightarrow> rsrc_find ty i s = Some r \<Longrightarrow> r \<noteq> 0 \<Longrightarrow> ty \<noteq> RSRC_QUEUE \<Longrightarrow> r \<noteq> run_queue s"
  using rsrc_find_type by (fastforce simp: kwf_def runq_ok_def)

lemma keeps_set_name:
  "kwf s \<Longrightarrow> rsrc_set_name r nm s = Some s' \<Longrightarrow> keeps X s s'"
  unfolding rsrc_set_name_def by (erule keeps_upd_rsrc, assumption) simp

lemma keeps_sem_create:
  assumes "kwf s" and "sem_create count nm s = Some (v, s')"
  shows "keeps X s s'"
proof -
  let ?r = "next_ref s" and ?s1 = "s\<lparr>next_ref := next_ref s + 1, sems := (sems s)(next_ref s \<mapsto> count)\<rparr>"
  from assms(2) obtain ow s2 where b: "rsrc_bind ?r RSRC_SEM ow ?s1 = Some s2"
    and n: "rsrc_set_name ?r nm s2 = Some s'"
    by (auto simp: sem_create_def new_ref_def bind_Some_conv Let_def)
  have k1: "keeps X s ?s1" by (rule keeps_sched[OF assms(1)]) (simp add: same_sched_def)
  have k2: "keeps X ?s1 s2"
    by (rule keeps_bind(1)[OF keeps_kwf[OF k1] b]) (use new_ref_fresh[OF assms(1)] in auto)
  show ?thesis by (rule keeps_trans[OF k1 keeps_trans[OF k2 keeps_set_name[OF keeps_kwf[OF k2] n]]])
qed

lemma keeps_sem_destroy:
  assumes "kwf s" and "sem_destroy i s = Some (v, s')" and "calm X s"
  shows "keeps X s s'"
proof (cases "rsrc_find RSRC_SEM i s = Some 0")
  case True
  then show ?thesis using assms(1,2) keeps_refl by (auto simp: sem_destroy_def)
next
  case False
  with assms(2) obtain r s1 where r: "rsrc_find RSRC_SEM i s = Some r" "r \<noteq> 0"
    and rel: "rsrc_release r s = Some s1" and s': "s' = s1\<lparr>sems := (sems s1)(r := None), rsrcs := (rsrcs s1)(r := None)\<rparr>"
    by (auto simp: sem_destroy_def bind_Some_conv split: if_splits)
  have nq: "r \<noteq> run_queue s" by (rule rsrc_find_not_runq[OF assms(1) r]) simp
  note k = keeps_release[OF assms(1) rel assms(3) nq]
  let ?s2 = "s1\<lparr>rsrcs := (rsrcs s1)(r := None)\<rparr>"
  have k2: "keeps X s1 ?s2"
    by (rule keeps_free[OF keeps_kwf[OF k(1)] k(2)]) (use k(3) rsrc_find_not_null[OF assms(1) r] in auto)
  have "keeps X ?s2 s'" unfolding s' by (rule keeps_sched[OF keeps_kwf[OF k2]]) (simp add: same_sched_def)
  with k2 k(1) show ?thesis by (blast intro: keeps_trans)
qed

lemma keeps_port_create:
  assumes "kwf s" and "port_create re nm s = Some (v, s')"
  shows "keeps X s s'"
proof -
  let ?p = "next_ref s" and ?q = "next_ref s + 1"
  let ?s1 = "s\<lparr>next_ref := next_ref s + 2, ports := (ports s)(?p \<mapsto> \<lparr>msgcount = 0, slaved = 0, p_msgs = [],
        refcount = 1, nowait = 0, restrict = re, sendqueue = ?q\<rparr>)\<rparr>"
  from assms(2) obtain ow s2 s3 s4 where b: "rsrc_bind ?p RSRC_PORT ow ?s1 = Some s2"
    and q: "rsrc_bind ?q RSRC_QUEUE ow s2 = Some s3"
    and n: "rsrc_set_name ?p nm s3 = Some s4" "rsrc_set_name ?q nm s4 = Some s'"
    by (auto simp: port_create_def new_ref_def bind_Some_conv Let_def)
  note fresh = new_ref_fresh[OF assms(1)]
  have fr: "rsrcs s ?q = None" using kwfD(3)[OF assms(1)] by (simp add: refs_ok_def)
  have "null_resource < sendqueue x \<and> a < next_ref ?s1 \<and> sendqueue x \<noteq> run_queue s" if "ports ?s1 a = Some x" for a x
    using that kwf_port[OF assms(1), of a x] fresh by (auto split: if_splits)
  then have "kwf ?s1" by (intro kwf_cong[OF assms(1)]) simp_all
  then have k1: "keeps X s ?s1" by (simp add: keeps_def)
  have k2: "keeps X ?s1 s2"
    by (rule keeps_bind(1)[OF keeps_kwf[OF k1] b]) (use fresh in simp_all)
  have "rsrcs s2 ?q = None" using b fr
    by (auto simp: rsrc_bind_def alloc_id_def upd_team_def bind_Some_conv Let_def split: if_splits)
  moreover have "?q < next_ref s2" using k2 by (simp add: keeps_def)
  ultimately have k3: "keeps X s2 s3"
    by (intro keeps_bind(1)[OF keeps_kwf[OF k2] q]) (use fresh in auto)
  have k4: "keeps X s3 s4" by (rule keeps_set_name[OF keeps_kwf[OF k3] n(1)])
  have "keeps X s4 s'" by (rule keeps_set_name[OF keeps_kwf[OF k4] n(2)])
  with k1 k2 k3 k4 show ?thesis by (blast intro: keeps_trans)
qed

text \<open>Waking the tasks of one queue leaves every other queue but the run queue alone.\<close>

lemma task_wake_other:
  "task_wake t status s = Some s' \<Longrightarrow> q \<noteq> run_queue s \<Longrightarrow> queue_of s' q = queue_of s q \<and> run_queue s' = run_queue s"
  by (auto simp: task_wake_def rsrc_enqueue_def upd_task_def upd_rsrc_def bind_Some_conv queue_of_def)

lemma queue_detach_other:
  "queue_detach r s = Some (t, s') \<Longrightarrow> q \<noteq> r \<Longrightarrow> queue_of s' q = queue_of s q \<and> run_queue s' = run_queue s"
  by (cases "rsrcs s r"; cases "r_queue (the (rsrcs s r))") (auto simp: queue_detach_def queue_of_def)

lemma wake_all_other:
  "wake_all fuel r status s = Some s' \<Longrightarrow> q \<noteq> r \<Longrightarrow> q \<noteq> run_queue s \<Longrightarrow> queue_of s' q = queue_of s q"
proof (induction fuel r status s rule: wake_all.induct)
  case (1 fuel r status s)
  from "1.prems" obtain t s1 where d: "queue_detach r s = Some (t, s1)"
    by (auto simp: wake_all.simps[of fuel] bind_Some_conv)
  note unfold = "1.prems"(1)[unfolded wake_all.simps[of fuel]] d
  note e = queue_detach_other[OF d "1.prems"(2)]
  show ?case
  proof (cases "t = 0")
    case True
    then show ?thesis using unfold e by simp
  next
    case False
    then obtain n s2 where f: "fuel = Suc n" and w: "task_wake t status s1 = Some s2"
      and rest: "wake_all n r status s2 = Some s'"
      using unfold by (auto simp: bind_Some_conv split: nat.splits)
    have e2: "queue_of s2 q = queue_of s1 q \<and> run_queue s2 = run_queue s1"
      by (rule task_wake_other[OF w]) (use e "1.prems"(3) in simp)
    have "queue_of s' q = queue_of s2 q"
      by (rule "1.IH"[OF d refl False f w rest "1.prems"(2)]) (use e e2 "1.prems"(3) in simp)
    then show ?thesis using e e2 by simp
  qed
qed

lemma release_other:
  assumes "rsrc_release r s = Some s'" and "q \<noteq> r" and "q \<noteq> run_queue s"
  shows "queue_of s' q = queue_of s q"
proof -
  from assms(1) obtain x s1 s3 s4 where x: "rsrcs s r = Some x"
    and s1: "(if r_owner x \<noteq> 0
           then upd_team (r_owner x) (\<lambda>t. t\<lparr>tm_resources := remove1 r (tm_resources t)\<rparr>) s
           else Some s) = Some s1"
    and s3: "wake_queue r ERR_RESOURCE (s1\<lparr>resource_list := remove1 r (resource_list s1)\<rparr>) = Some s3"
    and s4: "upd_rsrc r (\<lambda>x. x\<lparr>r_type := RSRC_NONE, r_id := 0\<rparr>) s3 = Some s4"
    and s': "rsrcs s' = rsrcs s4"
    by (auto simp: rsrc_release_def free_id_def bind_Some_conv)
  let ?s2 = "s1\<lparr>resource_list := remove1 r (resource_list s1)\<rparr>"
  have e: "rsrcs ?s2 = rsrcs s" "run_queue ?s2 = run_queue s"
    using s1 by (auto simp: upd_team_def bind_Some_conv split: if_splits)
  have "queue_of s3 q = queue_of ?s2 q"
    using s3 wake_all_other[of _ r ERR_RESOURCE ?s2 s3 q] assms(2,3) e(2) by (auto simp: wake_queue_def bind_Some_conv)
  moreover have "queue_of s4 q = queue_of s3 q" using s4 assms(2) by (auto simp: upd_rsrc_def bind_Some_conv)
  ultimately show ?thesis using e(1) s' by (simp add: queue_of_def)
qed

lemma keeps_port_destroy:
  assumes "kwf s" and "port_destroy i s = Some (v, s')" and "calm X s"
  shows "keeps X s s'"
proof (cases "s' = s")
  case True
  then show ?thesis using assms(1) keeps_refl by auto
next
  case False
  with assms(2) obtain p x s1 s2 where p: "rsrc_find RSRC_PORT i s = Some p" "p \<noteq> 0" "ports s p = Some x"
    and rel: "rsrc_release p s = Some s1" and rel2: "rsrc_release (sendqueue x) s1 = Some s2"
    and s': "s' = s2\<lparr>rsrcs := (rsrcs s2)(sendqueue x := None, p := None), ports := (ports s2)(p := None)\<rparr>"
    by (auto simp: port_destroy_def bind_Some_conv split: if_splits)
  have nq: "p \<noteq> run_queue s" by (rule rsrc_find_not_runq[OF assms(1) p(1,2)]) simp
  note k = keeps_release[OF assms(1) rel assms(3) nq]
  have rq: "run_queue s1 = run_queue s" using k(1) by (simp add: keeps_def)
  note sq = kwf_port[OF assms(1) p(3)]
  note k2 = keeps_release[OF keeps_kwf[OF k(1)] rel2 keeps_calm_set[OF k(1) assms(3)], unfolded rq]
  have k2': "keeps X s1 s2" "queue_of s2 (sendqueue x) = []" using k2(1,2) sq by auto
  have pn: "p \<noteq> null_resource" using rsrc_find_not_null[OF assms(1) p(1,2)] by simp
  have ty: "type_of s2 = (type_of s)(p := RSRC_NONE, sendqueue x := RSRC_NONE)" using k2(3) k(3) sq by auto
  let ?s3 = "s2\<lparr>rsrcs := (rsrcs s2)(sendqueue x := None)\<rparr>"
  have k3: "keeps X s2 ?s3"
    by (rule keeps_free[OF keeps_kwf[OF k2'(1)] k2'(2)]) (use ty sq in auto)
  let ?s4 = "?s3\<lparr>rsrcs := (rsrcs ?s3)(p := None)\<rparr>"
  have "queue_of s2 p = []"
    using release_other[OF rel2, of p] k(2) k2'(2) nq rq by (cases "p = sendqueue x") auto
  then have k4: "keeps X ?s3 ?s4"
    by (intro keeps_free[OF keeps_kwf[OF k3]]) (use ty pn in auto)
  have "keeps X ?s4 s'" unfolding s' by (rule keeps_sched[OF keeps_kwf[OF k4]]) (auto simp: same_sched_def)
  with k(1) k2'(1) k3 k4 show ?thesis by (blast intro: keeps_trans)
qed

text \<open>Only ports change, and none its send queue.\<close>

definition port_change :: "kstate \<Rightarrow> kstate \<Rightarrow> bool" where
  "port_change s s' \<longleftrightarrow> (\<exists>f. s' = s\<lparr>ports := f\<rparr> \<and>
     (\<forall>p. map_option sendqueue (f p) = map_option sendqueue (ports s p)))"

lemma port_change_refl: "port_change s s"
  unfolding port_change_def by (rule exI[of _ "ports s"]) simp

lemma port_change_upd:
  "port_change s s1 \<Longrightarrow> upd_port p f s1 = Some s' \<Longrightarrow> (\<And>x. sendqueue (f x) = sendqueue x) \<Longrightarrow> port_change s s'"
proof -
  assume a: "port_change s s1" "upd_port p f s1 = Some s'" "\<And>x. sendqueue (f x) = sendqueue x"
  from a(1) obtain g where g: "s1 = s\<lparr>ports := g\<rparr>"
    "\<And>p. map_option sendqueue (g p) = map_option sendqueue (ports s p)" by (auto simp: port_change_def)
  from a(2) obtain x where x: "ports s1 p = Some x" "s' = s1\<lparr>ports := (ports s1)(p \<mapsto> f x)\<rparr>"
    by (auto simp: upd_port_def bind_Some_conv)
  show ?thesis unfolding port_change_def
    by (rule exI[of _ "g(p \<mapsto> f x)"]) (use g x a(3) g(2)[of p] in auto)
qed

lemma keeps_port_change: "kwf s \<Longrightarrow> port_change s s' \<Longrightarrow> keeps X s s'"
proof -
  assume a: "kwf s" "port_change s s'"
  then obtain f where f: "s' = s\<lparr>ports := f\<rparr>"
    "\<And>p. map_option sendqueue (f p) = map_option sendqueue (ports s p)" by (auto simp: port_change_def)
  have "null_resource < sendqueue x \<and> p < next_ref s' \<and> sendqueue x \<noteq> run_queue s" if "ports s' p = Some x" for p x
    using that f(2)[of p] kwf_port[OF a(1), of p] unfolding f(1) by (cases "ports s p") auto
  then have "kwf s'" by (intro kwf_cong[OF a(1)]) (simp_all add: f(1))
  then show ?thesis by (simp add: keeps_def f(1))
qed

lemma port_option_change:
  assumes "port_option i opt arg s = Some (v, s')"
  shows "port_change s s'"
  using assms
  by (auto simp: port_option_def bind_Some_conv split: if_splits
      intro: port_change_refl port_change_upd[OF port_change_refl]
        port_change_upd[OF port_change_upd[OF port_change_refl]]
        port_change_upd[OF port_change_upd[OF port_change_upd[OF port_change_refl]]])

lemma keeps_port_option:
  "kwf s \<Longrightarrow> port_option i opt arg s = Some (v, s') \<Longrightarrow> keeps X s s'"
  using keeps_port_change port_option_change by blast

section \<open>Switching tasks\<close>

abbreviation (input) "both s \<equiv> {current s, idle_task s}"

lemma kinv_calm: "kinv s \<Longrightarrow> \<not> halted s \<Longrightarrow> calm (both s) s"
  by (auto simp: kinv_def cur_ok_def idle_ok_def calm_def wait_of_def)

lemma kinv_kwf: "kinv s \<Longrightarrow> kwf s"
  by (simp add: kinv_def)

lemma keeps_idle_ok: "keeps X s s' \<Longrightarrow> idle_task s \<in> X \<Longrightarrow> idle_ok s \<Longrightarrow> idle_ok s'"
  unfolding keeps_def idle_ok_def by metis

lemma keeps_cur_ok: "keeps X s s' \<Longrightarrow> current s \<in> X \<Longrightarrow> cur_ok s \<Longrightarrow> cur_ok s'"
  unfolding keeps_def cur_ok_def by metis

lemma keeps_kinv: "kinv s \<Longrightarrow> keeps (both s) s s' \<Longrightarrow> kinv s'"
  using keeps_idle_ok[of "both s" s s'] keeps_cur_ok[of "both s" s s']
  by (auto simp: kinv_def keeps_def)

lemma set_cur_kinv:
  assumes "kinv s" and "upd_task (current s) f s = Some s'"
    and "\<And>x. waiting_on (f x) = waiting_on x \<and> t_flags (f x) = t_flags x"
    and "current s = idle_task s \<Longrightarrow> (\<And>x. t_kont (f x) = KUser)"
  shows "kinv s'" "halted s' = halted s"
proof -
  obtain x where x: "tasks s (current s) = Some x" "s' = s\<lparr>tasks := (tasks s)(current s \<mapsto> f x)\<rparr>"
    using assms(2) by (auto simp: upd_task_def bind_Some_conv)
  have "kwf s'" by (rule keeps_kwf[OF keeps_upd_task[OF kinv_kwf[OF assms(1)] assms(2), of "{}"]]) (use assms(3) in auto)
  moreover have "cur_ok s \<Longrightarrow> cur_ok s'" using x assms(3) by (auto simp: cur_ok_def)
  moreover have "idle_ok s \<Longrightarrow> idle_ok s'"
    using x assms(3,4) by (cases "current s = idle_task s") (auto simp: idle_ok_def)
  ultimately show "kinv s'" "halted s' = halted s" using assms(1) x by (auto simp: kinv_def)
qed

lemma set_res_kinv: "kinv s \<Longrightarrow> set_res v s = Some s' \<Longrightarrow> kinv s'"
  unfolding set_res_def by (erule set_cur_kinv(1), assumption) simp_all

lemma set_kont_kinv:
  "kinv s \<Longrightarrow> set_kont k s = Some s' \<Longrightarrow> current s \<noteq> idle_task s \<or> k = KUser \<Longrightarrow> kinv s' \<and> halted s' = halted s"
  unfolding set_kont_def using set_cur_kinv[of s "\<lambda>x. x\<lparr>t_kont := k\<rparr>" s'] by auto

text \<open>The task that gets the processor.\<close>

lemma run_kinv:
  assumes "kwf s" and "idle_ok s" and "wait_of s (current s) = 0"
    and "upd_task (current s) (\<lambda>x. f x\<lparr>t_flags := tRUNNING, scount := n x\<rparr>) s = Some s'"
    and "\<And>x. waiting_on (f x) = waiting_on x \<and> t_kont (f x) = t_kont x"
  shows "kinv s'"
proof -
  obtain x where x: "tasks s (current s) = Some x"
    "s' = s\<lparr>tasks := (tasks s)(current s \<mapsto> f x\<lparr>t_flags := tRUNNING, scount := n x\<rparr>)\<rparr>"
    using assms(4) by (auto simp: upd_task_def bind_Some_conv)
  have w: "waiting_on x = 0" using assms(3) views_Some(4)[OF x(1)] by simp
  have "kwf s'" unfolding x(2) by (rule kwf_upd_task[OF assms(1) x(1)]) (use assms(5) in auto)
  moreover have "cur_ok s'" using x w assms(5) by (auto simp: cur_ok_def)
  moreover have "idle_ok s'" using x assms(2,5) by (auto simp: idle_ok_def)
  ultimately show ?thesis by (simp add: kinv_def)
qed

lemma swtch_kinv:
  assumes "kwf s" and "idle_ok s" and "flag_of s (current s) = tRUNNING \<Longrightarrow> wait_of s (current s) = 0"
    and "swtch s = Some s'"
  shows "kinv s'"
proof -
  from assms(4) obtain c rq where c: "tasks s (current s) = Some c" and rq: "rsrcs s (run_queue s) = Some rq"
    by (auto simp: swtch_def bind_Some_conv)
  note sw = assms(4)[unfolded swtch_def, simplified c rq]
  have fc: "t_flags c = tRUNNING \<Longrightarrow> waiting_on c = 0" using assms(3) views_Some(4,5)[OF c] by simp
  show ?thesis
  proof (cases "r_queue rq = [] \<and> t_flags c = tRUNNING")
    case True
    then show ?thesis using sw assms(1,2) fc c by (auto simp: kinv_def cur_ok_def)
  next
    case False
    then obtain s1 t s2 where e: "(if t_flags c = tRUNNING \<and> current s \<noteq> idle_task s
              then rsrc_enqueue (run_queue s) (current s) s else Some s) = Some s1"
      and d: "rsrc_dequeue (run_queue s1) s1 = Some (t, s2)"
      and rest: "(if t = 0 \<and> live_tasks s2 = 0 then Some (s2\<lparr>current := 0, halted := True\<rparr>)
         else do {
           s \<leftarrow> Some (s2\<lparr>current := (if t = 0 then idle_task s2 else t)\<rparr>);
           c \<leftarrow> tasks s (current s);
           (if t_flags c = tDEAD then None
            else upd_task (current s) (\<lambda>x. x\<lparr>t_flags := tRUNNING, scount := scount x + 1\<rparr>) s) }) = Some s'"
      using sw by (auto simp: bind_Some_conv)
    have k1: "keeps {idle_task s} s s1"
      using e keeps_enqueue[OF assms(1), of "run_queue s" "current s" s1 "{idle_task s}"] fc views_Some(4)[OF c]
        keeps_refl[OF assms(1)] by (auto split: if_splits)
    note dq = keeps_dequeue[OF keeps_kwf[OF k1] d]
    have k2: "keeps {idle_task s} s s2" by (rule keeps_trans[OF k1 dq(1)])
    have id2: "idle_task s2 = idle_task s" using k2 by (simp add: keeps_def)
    have i2: "idle_ok s2" by (rule keeps_idle_ok[OF k2 _ assms(2)]) simp
    show ?thesis
    proof (cases "t = 0 \<and> live_tasks s2 = 0")
      case True
      let ?s3 = "s2\<lparr>current := 0, halted := True\<rparr>"
      have "kwf ?s3" by (rule kwf_cong[OF keeps_kwf[OF k2]]) (use kwf_port[OF keeps_kwf[OF k2]] in simp_all)
      then show ?thesis using True rest by (auto simp: kinv_def)
    next
      case False
      let ?s3 = "s2\<lparr>current := (if t = 0 then idle_task s2 else t)\<rparr>"
      have k3: "kwf ?s3" by (rule kwf_cong[OF keeps_kwf[OF k2]]) (use kwf_port[OF keeps_kwf[OF k2]] in simp_all)
      have up: "upd_task (current ?s3) (\<lambda>x. x\<lparr>t_flags := tRUNNING, scount := scount x + 1\<rparr>) ?s3 = Some s'"
        using rest False by (auto simp: bind_Some_conv split: if_splits)
      have "idle_ok ?s3" using i2 by (simp add: idle_ok_def)
      moreover have "wait_of ?s3 (current ?s3) = 0"
        using dq(2) i2 by (auto simp: wait_of_def idle_ok_def)
      ultimately show ?thesis by (rule run_kinv[OF k3 _ _ up]) simp
    qed
  qed
qed

lemma preempt_kinv:
  assumes "kinv s" and "\<not> halted s" and "preempt t status s = Some s'"
    and "wait_of s t = 0" and "t \<noteq> current s"
  shows "kinv s'"
proof -
  from assms(3) obtain s1 where e: "(if current s \<noteq> idle_task s then rsrc_enqueue (run_queue s) (current s) s else Some s) = Some s1"
    and up: "upd_task t (\<lambda>x. x\<lparr>t_status := status, t_flags := tRUNNING, scount := scount x + 1\<rparr>)
       (s1\<lparr>current := t\<rparr>) = Some s'"
    by (auto simp: preempt_def bind_Some_conv)
  have ok: "kwf s" "cur_ok s" "idle_ok s" using assms(1,2) by (auto simp: kinv_def)
  have cw: "wait_of s (current s) = 0" using ok(2) by (auto simp: cur_ok_def wait_of_def)
  have k1: "keeps {idle_task s, t} s s1"
    using e keeps_enqueue[OF ok(1), of "run_queue s" "current s" s1 "{idle_task s, t}"] cw assms(5)
      keeps_refl[OF ok(1)] by (auto split: if_splits)
  let ?s2 = "s1\<lparr>current := t\<rparr>"
  have k2: "kwf ?s2" by (rule kwf_cong[OF keeps_kwf[OF k1]]) (use kwf_port[OF keeps_kwf[OF k1]] in simp_all)
  have i1: "idle_ok s1" by (rule keeps_idle_ok[OF k1 _ ok(3)]) simp
  then have i2: "idle_ok ?s2" by (simp add: idle_ok_def)
  have "tasks s t \<noteq> None"
    using up e by (auto simp: upd_task_def rsrc_enqueue_def upd_rsrc_def bind_Some_conv split: if_splits)
  with keeps_calm[OF k1, of t] assms(4) have w: "wait_of ?s2 (current ?s2) = 0" by (simp add: wait_of_def)
  show ?thesis
    by (rule run_kinv[OF k2 i2 w, where f = "\<lambda>x. x\<lparr>t_status := status\<rparr>" and n = "\<lambda>x. scount x + 1"])
      (use up in \<open>simp_all add: upd_task_def\<close>)
qed

lemma wait_on_kinv:
  assumes "kinv s" and "\<not> halted s" and "wait_on r k s = Some s'" and "current s \<noteq> idle_task s"
  shows "kinv s'"
proof -
  from assms(3) obtain s1 s2 s3 where s1: "set_kont k s = Some s1"
    and s2: "upd_task (current s1) (\<lambda>x. x\<lparr>t_status := 0\<rparr>) s1 = Some s2"
    and s3: "rsrc_enqueue r (current s2) s2 = Some s3" and sw: "swtch s3 = Some s'"
    by (auto simp: wait_on_def bind_Some_conv)
  have k1: "kinv s1" "halted s1 = halted s" using set_kont_kinv[OF assms(1) s1] assms(4) by auto
  have c1: "current s1 = current s" "idle_task s1 = idle_task s"
    using s1 by (auto simp: set_kont_def upd_task_def bind_Some_conv)
  have k2: "kinv s2" "halted s2 = halted s1"
    by (rule set_cur_kinv[OF k1(1) s2]; use assms(4) c1 in simp)+
  have c2: "current s2 = current s" "idle_task s2 = idle_task s"
    using s2 c1 by (auto simp: upd_task_def bind_Some_conv)
  have ok: "kwf s2" "cur_ok s2" "idle_ok s2" using k2 k1 assms(2) by (auto simp: kinv_def)
  have k3: "keeps {idle_task s2} s2 s3"
    by (rule keeps_enqueue[OF ok(1) s3]) (use ok(2) c2 assms(4) in \<open>auto simp: cur_ok_def wait_of_def\<close>)
  have "flag_of s3 (current s3) = tWAITING"
    using s3 by (auto simp: rsrc_enqueue_def upd_task_def upd_rsrc_def bind_Some_conv flag_of_def)
  with keeps_idle_ok[OF k3 _ ok(3)] show ?thesis
    by (intro swtch_kinv[OF keeps_kwf[OF k3] _ _ sw]) auto
qed

end
