(* ===== verification/KInvOps.thy ===== *)
theory KInvOps
  imports KInv
begin

text \<open>
  Every system call, interrupt and exception keeps the invariant of \<open>KInv\<close>.
\<close>

section \<open>Operations that may switch\<close>

text \<open>The result of an operation is stored in the registers of the task that is current then.\<close>

lemma bindE:
  assumes "m \<bind> f = Some y"
  obtains x where "m = Some x" and "f x = Some y"
  using assms by (cases m) auto

lemma if_SomeE:
  assumes "(if c then m else n) = Some y"
  obtains "c" and "m = Some y" | "\<not> c" and "n = Some y"
  using assms by (cases c) auto

lemma case_prodE2:
  assumes "(case p of (a, b) \<Rightarrow> f a b) = Some y"
  obtains a b where "p = (a, b)" and "f a b = Some y"
  using assms by (cases p) auto

lemmas bindEs = bindE if_SomeE case_prodE2

lemma finish_kinv:
  "finish m = Some s' \<Longrightarrow> (\<And>out s. m = Some (out, s) \<Longrightarrow> kinv s) \<Longrightarrow> kinv s'"
proof -
  assume a: "finish m = Some s'" "\<And>out s. m = Some (out, s) \<Longrightarrow> kinv s"
  then obtain out s where m: "m = Some (out, s)" by (auto simp: finish_def bind_Some_conv)
  show ?thesis using a m by (cases out) (auto simp: finish_def intro: set_res_kinv)
qed

lemma finish_now_kinv:
  "finish_now m = Some s' \<Longrightarrow> (\<And>v s. m = Some (v, s) \<Longrightarrow> kinv s) \<Longrightarrow> kinv s'"
  by (auto simp: finish_now_def bind_Some_conv set_res_kinv)

lemma kinv_sched: "kinv s \<Longrightarrow> same_sched s s' \<Longrightarrow> kinv s' \<and> halted s' = halted s \<and> current s' = current s \<and> idle_task s' = idle_task s"
  using keeps_kinv[OF _ keeps_sched] by (auto simp: kinv_kwf same_sched_def)

lemma sem_acquire_kinv:
  assumes "kinv s" and "\<not> halted s" and "current s \<noteq> idle_task s" and "sem_acquire i s = Some (out, s')"
  shows "kinv s'"
proof -
  have sems: "kinv (s\<lparr>sems := f\<rparr>)" for f
    using kinv_sched[OF assms(1), of "s\<lparr>sems := f\<rparr>"] by (simp add: same_sched_def)
  show ?thesis using assms
    by (auto simp: sem_acquire_def bind_Some_conv split: if_splits intro: sems wait_on_kinv[OF sems])
qed

lemma dequeue_preempt_kinv:
  assumes "kinv s" and "\<not> halted s" and "current s \<noteq> idle_task s"
    and "rsrc_dequeue r s = Some (t, s1)" and "t \<noteq> 0" and "set_kont k s1 = Some s2" and "preempt t v s2 = Some s'"
  shows "kinv s'"
proof -
  note dq = keeps_dequeue[OF kinv_kwf[OF assms(1)] assms(4)]
  have k1: "kinv s1" by (rule keeps_kinv[OF assms(1) dq(1)])
  have c1: "current s1 = current s" "idle_task s1 = idle_task s" "halted s1 = halted s"
    using dq(1) by (auto simp: keeps_def)
  have k2: "kinv s2" "halted s2 = halted s1" using set_kont_kinv[OF k1 assms(6)] c1 assms(3) by auto
  have c2: "current s2 = current s" "wait_of s2 t = 0"
    using assms(6) dq(2) assms(5) c1
    by (auto simp: set_kont_def upd_task_def bind_Some_conv views_Some(4)[symmetric])
  have "wait_of s (current s) = 0" using kinv_calm[OF assms(1,2)] by (auto simp: calm_def)
  with dq(2)[OF assms(5)] have "t \<noteq> current s" by auto
  with c1 c2 k2 assms(2) show ?thesis by (intro preempt_kinv[OF k2(1) _ assms(7)]) auto
qed

lemma sem_release_kinv:
  assumes "kinv s" and "\<not> halted s" and "current s \<noteq> idle_task s" and "sem_release i s = Some (out, s')"
  shows "kinv s'"
proof (cases "rsrc_find RSRC_SEM i s = Some 0")
  case True
  then show ?thesis using assms by (auto simp: sem_release_def)
next
  case False
  with assms(4) obtain r count t s1 where r: "sems s r = Some count"
    and d: "rsrc_dequeue r (s\<lparr>sems := (sems s)(r \<mapsto> count + 1)\<rparr>) = Some (t, s1)"
    and rest: "(if t \<noteq> 0 then do { s \<leftarrow> set_kont (KRet ERR_NONE) s1; s \<leftarrow> preempt t ERR_NONE s; Some (Switched, s) }
         else Some (Ret ERR_NONE, s1)) = Some (out, s')"
    by (auto simp: sem_release_def bind_Some_conv split: if_splits)
  let ?s0 = "s\<lparr>sems := (sems s)(r \<mapsto> count + 1)\<rparr>"
  have k0: "kinv ?s0" using kinv_sched[OF assms(1), of ?s0] by (simp add: same_sched_def)
  show ?thesis
  proof (cases "t = 0")
    case True
    then show ?thesis using keeps_dequeue(3)[OF kinv_kwf[OF k0] d] rest k0 by simp
  next
    case False
    with rest obtain s2 where "set_kont (KRet ERR_NONE) s1 = Some s2" "preempt t ERR_NONE s2 = Some s'"
      by (auto simp: bind_Some_conv)
    with dequeue_preempt_kinv[OF k0 _ _ d False] assms(2,3) show ?thesis by simp
  qed
qed

text \<open>A task is taken off a queue and woken.\<close>

lemma keeps_dequeue_wake:
  assumes "kwf s" and "rsrc_dequeue r s = Some (t, s1)" and "(if t \<noteq> 0 then task_wake t v s1 else Some s1) = Some s'"
    and "calm X s"
  shows "keeps X s s'"
proof -
  note dq = keeps_dequeue[OF assms(1,2)]
  show ?thesis
  proof (cases "t = 0")
    case True
    then show ?thesis using assms(1,3) dq(3) keeps_refl by auto
  next
    case False
    have "t \<notin> X" using dq(2)[OF False] calmD[OF assms(4)] by auto
    with keeps_trans[OF dq(1) keeps_task_wake[OF keeps_kwf[OF dq(1)], of t v s' X]] assms(3) dq(2) False
    show ?thesis by auto
  qed
qed

lemma msg_buffer_sched: "msg_buffer sz s = Some (b, s1) \<Longrightarrow> same_sched s s1"
  by (auto simp: msg_buffer_def new_ref_def bind_Some_conv Let_def same_sched_def split: if_splits list.splits)

lemma keeps_port_deliver:
  assumes "kwf s" and "port_send_deliver src dst msg sz code p s = Some (out, s')" and "calm X s"
  shows "keeps X s s'"
proof (cases "0x400000 < msg \<or> 4096 < sz")
  case True
  then show ?thesis using assms keeps_refl by (auto simp: port_send_deliver_def)
next
  case False
  with assms(2) obtain b s1 c s2 s3 x q where b: "msg_buffer sz s = Some (b, s1)"
    and "tasks s1 (current s1) = Some c"
    and s2: "(if sz = 0 then Some s1
              else do { old \<leftarrow> bufs s1 b; new \<leftarrow> copy_in (umem s1 (t_team c)) msg sz old;
                Some (s1\<lparr>bufs := (bufs s1)(b \<mapsto> new)\<rparr>) }) = Some s2"
    and s3: "upd_port p (\<lambda>x. x\<lparr>p_msgs := p_msgs x @ [\<lparr>m_size = sz, m_code = code, from_port = src,
      to_port = dst, m_data = b\<rparr>], msgcount := msgcount x + 1\<rparr>) s2 = Some s3"
    and "ports s3 p = Some x"
    and "(if slaved x \<noteq> 0 then rsrc_find RSRC_PORT (int (slaved x)) s3 else Some p) = Some q"
    and s4: "(if q = 0 then Some s3
              else do { (t, s) \<leftarrow> rsrc_dequeue q s3; (if t \<noteq> 0 then task_wake t ERR_NONE s else Some s) }) = Some s'"
    by (auto simp: port_send_deliver_def bind_Some_conv Let_def split del: if_split)
  have k1: "keeps X s s1" by (rule keeps_sched[OF assms(1) msg_buffer_sched[OF b]])
  have k2: "keeps X s1 s2"
    by (rule keeps_sched[OF keeps_kwf[OF k1]])
      (use s2 in \<open>auto simp: bind_Some_conv same_sched_def split: if_splits\<close>)
  have k3: "keeps X s2 s3" by (rule keeps_upd_port[OF keeps_kwf[OF k2] s3]) simp
  have ks: "keeps X s s3" by (rule keeps_trans[OF keeps_trans[OF k1 k2] k3])
  have "keeps X s3 s'"
  proof (cases "q = 0")
    case True
    then show ?thesis using s4 keeps_refl[OF keeps_kwf[OF k3]] by simp
  next
    case False
    then show ?thesis using s4 keeps_dequeue_wake[OF keeps_kwf[OF k3] _ _ keeps_calm_set[OF ks assms(3)]]
      by (auto simp: bind_Some_conv)
  qed
  with ks show ?thesis by (rule keeps_trans)
qed

lemma port_send_try_kinv:
  assumes "kinv s" and "\<not> halted s" and "current s \<noteq> idle_task s"
    and "port_send_try src dst msg sz code p s = Some (out, s')"
  shows "kinv s'"
proof -
  have "port_send_deliver src dst msg sz code p s = Some (out, s') \<Longrightarrow> kinv s'"
    by (rule keeps_kinv[OF assms(1) keeps_port_deliver[OF kinv_kwf[OF assms(1)] _ kinv_calm[OF assms(1,2)]]])
  with assms show ?thesis
    by (auto simp: port_send_try_def bind_Some_conv split: if_splits intro: wait_on_kinv)
qed

lemma port_send_kinv:
  assumes "kinv s" and "\<not> halted s" and "current s \<noteq> idle_task s"
    and "port_send src dst msg sz code s = Some (out, s')"
  shows "kinv s'"
  using assms by (auto simp: port_send_def bind_Some_conv split: if_splits intro: port_send_try_kinv)

lemma put_bytes_sched [simp]: "same_sched s (put_bytes tm a bs s)" "same_sched s (put_int tm a v s)"
  by (auto simp: put_bytes_def put_int_def same_sched_def)

lemma same_sched_trans: "same_sched s s1 \<Longrightarrow> same_sched s1 s2 \<Longrightarrow> same_sched s s2"
  unfolding same_sched_def by (elim conjE, intro conjI; (simp; fail | (metis le_trans subset_iff)))

lemma msg_release_sched: "same_sched s (msg_release m s)"
  by (auto simp: msg_release_def same_sched_def)

lemma keeps_port_take:
  assumes "kwf s" and "port_recv_take src msg sz code p s = Some (out, s')" and "calm X s"
  shows "keeps X s s'"
proof -
  from assms(2) obtain x where px: "ports s p = Some x" by (auto simp: port_recv_take_def bind_Some_conv)
  moreover from px assms(2) obtain m ms where x: "p_msgs x = m # ms"
    by (cases "p_msgs x") (auto simp: port_recv_take_def bind_Some_conv)
  ultimately obtain c bytes s2 sq s3 s4 where "tasks s (current s) = Some c"
    and s2: "upd_port p (\<lambda>x. x\<lparr>p_msgs := ms\<rparr>) (put_int (t_team c) code (int (m_code m))
        (put_int (t_team c) src (from_port m) (put_bytes (t_team c) msg bytes s))) = Some s2"
    and "rsrcs s2 (sendqueue x) = Some sq"
    and s3: "(if r_queue sq \<noteq> [] \<and> msgcount x \<le> MAX_MSGCOUNT then do {
                 (t, s) \<leftarrow> rsrc_dequeue (sendqueue x) s2;
                 (if t \<noteq> 0 then task_wake t ERR_NONE s else Some s) }
               else Some s2) = Some s3"
    and s4: "upd_port p (\<lambda>x. x\<lparr>msgcount := msgcount x - 1\<rparr>) s3 = Some s4"
    and s': "s' = msg_release m s4"
    using assms(2) by (auto simp: port_recv_take_def bind_Some_conv Let_def split del: if_split)
  let ?s1 = "put_int (t_team c) code (int (m_code m)) (put_int (t_team c) src (from_port m) (put_bytes (t_team c) msg bytes s))"
  have k1: "keeps X s ?s1"
    by (rule keeps_sched[OF assms(1) same_sched_trans[OF put_bytes_sched(1)
          same_sched_trans[OF put_bytes_sched(2) put_bytes_sched(2)]]])
  have k2: "keeps X ?s1 s2" by (rule keeps_upd_port[OF keeps_kwf[OF k1] s2]) simp
  note k12 = keeps_trans[OF k1 k2]
  have k3: "keeps X s2 s3"
  proof (cases "r_queue sq \<noteq> [] \<and> msgcount x \<le> MAX_MSGCOUNT")
    case True
    with s3 obtain q where dq: "rsrc_dequeue (sendqueue x) s2 = Some q"
      and w: "(case q of (t, s) \<Rightarrow> if t \<noteq> 0 then task_wake t ERR_NONE s else Some s) = Some s3"
      by (simp only: if_True simp_thms) (erule bindE)
    obtain t s9 where q: "q = (t, s9)" by (cases q)
    show ?thesis
      by (rule keeps_dequeue_wake[OF keeps_kwf[OF k2] dq[unfolded q] w[unfolded q prod.case] keeps_calm_set[OF k12 assms(3)]])
  next
    case False
    with s3 have "s2 = s3" by (simp only: if_False option.inject)
    with keeps_refl[OF keeps_kwf[OF k2]] show ?thesis by simp
  qed
  have k4: "keeps X s3 s4" by (rule keeps_upd_port[OF keeps_kwf[OF k3] s4]) simp
  have "keeps X s4 s'" unfolding s' by (rule keeps_sched[OF keeps_kwf[OF k4] msg_release_sched])
  with k12 k3 k4 show ?thesis by (blast intro: keeps_trans)
qed

lemma port_recv_try_kinv:
  assumes "kinv s" and "\<not> halted s" and "current s \<noteq> idle_task s"
    and "port_recv_try src msg sz code p s = Some (out, s')"
  shows "kinv s'"
proof -
  have "port_recv_take src msg sz code p s = Some (out, s') \<Longrightarrow> kinv s'"
    by (rule keeps_kinv[OF assms(1) keeps_port_take[OF kinv_kwf[OF assms(1)] _ kinv_calm[OF assms(1,2)]]])
  with assms show ?thesis
    by (auto simp: port_recv_try_def bind_Some_conv split: if_splits intro: wait_on_kinv)
qed

lemma port_recv_kinv:
  assumes "kinv s" and "\<not> halted s" and "current s \<noteq> idle_task s"
    and "port_recv dst src msg sz code s = Some (out, s')"
  shows "kinv s'"
  using assms by (auto simp: port_recv_def bind_Some_conv split: if_splits intro: port_recv_try_kinv)

section \<open>Address spaces\<close>

lemma upd_aspace_core: "upd_aspace a f s = Some s' \<Longrightarrow> same_core s s'"
  by (auto simp: upd_aspace_def bind_Some_conv same_core_def split: if_splits)

lemma upd_area_core: "upd_area a f s = Some s' \<Longrightarrow> same_core s s'"
  by (auto simp: upd_area_def bind_Some_conv same_core_def)

lemma upd_pgroup_core: "upd_pgroup a f s = Some s' \<Longrightarrow> same_core s s'"
  by (auto simp: upd_pgroup_def bind_Some_conv same_core_def)

lemma aspace_map_core: "aspace_map a p v l fl s = Some s' \<Longrightarrow> same_core s s'"
  by (auto simp: aspace_map_def bind_Some_conv same_core_def split: if_splits)

lemma aspace_clr_core: "aspace_clr a v l s = Some s' \<Longrightarrow> same_core s s'"
  by (auto simp: aspace_clr_def bind_Some_conv same_core_def split: if_splits)

lemma km_core: "same_core s (s\<lparr>km := m\<rparr>)" "same_core s (s\<lparr>pgroups := g\<rparr>)" "same_core s (s\<lparr>areas := h\<rparr>)"
  by (simp_all add: same_core_def)

lemma area_fill_core: "area_fill n ph a pg p at pp ppo s = Some s' \<Longrightarrow> same_core s s'"
proof (induction n ph a pg p at pp ppo s rule: area_fill.induct)
  case (2 n ph a pg p at pp ppo s)
  from "2.prems" obtain q m s1 g ps where
    e: "(if ph then Some (p, km s) else getpage (km s)) = Some (q, m)"
    and s1: "aspace_map a q at 1 7 (s\<lparr>km := m\<rparr>) = Some s1" and g: "pgroups s1 pg = Some g"
    and ps: "put_page pp ppo q (pg_pages g) = Some ps"
    and rest: "area_fill n ph a pg (if ph then q + 1 else q) (at + 1)
       (if ppo + 1 = 6 then pp + 1 else pp) (if ppo + 1 = 6 then 0 else ppo + 1)
       (s1\<lparr>pgroups := (pgroups s1)(pg \<mapsto> g\<lparr>pg_pages := ps\<rparr>)\<rparr>) = Some s'"
    by (auto simp: bind_Some_conv Let_def split del: if_split)
  from "2.IH"[OF e refl s1 g ps refl rest] aspace_map_core[OF s1] show ?case
    by (simp add: same_core_def)
qed auto

lemma clone_fill_core: "clone_fill n a ps at pp ppo s = Some s' \<Longrightarrow> same_core s s'"
proof (induction n a ps at pp ppo s rule: clone_fill.induct)
  case (2 n a ps at pp ppo s)
  from "2.prems" obtain x p s1 where e: "list_get ps pp = Some x" "list_get x ppo = Some p"
    and s1: "aspace_map a p at 1 7 s = Some s1"
    and rest: "clone_fill n a ps (at + 1) (if ppo + 1 = 6 then pp + 1 else pp)
       (if ppo + 1 = 6 then 0 else ppo + 1) s1 = Some s'"
    by (auto simp: bind_Some_conv split del: if_split)
  from "2.IH"[OF e s1 rest] aspace_map_core[OF s1] show ?case by (blast intro: same_core_trans)
qed auto

lemma grow_fill_core: "grow_fill n a pg at ppo s = Some s' \<Longrightarrow> same_core s s'"
proof (induction n a pg at ppo s rule: grow_fill.induct)
  case (2 n a pg at ppo s)
  from "2.prems" obtain s0 q m s1 g ps where
    s0: "(if ppo = 0 then upd_pgroup pg (\<lambda>g. g\<lparr>pg_pages := pg_pages g @ [replicate 6 0]\<rparr>) s else Some s) = Some s0"
    and e: "getpage (km s0) = Some (q, m)"
    and s1: "aspace_map a q at 1 7 (s0\<lparr>km := m\<rparr>) = Some s1" and g: "pgroups s1 pg = Some g"
    and ps: "put_page (length (pg_pages g) - 1) ppo q (pg_pages g) = Some ps"
    and rest: "grow_fill n a pg (at + 1) (if ppo + 1 = 6 then 0 else ppo + 1)
       (s1\<lparr>pgroups := (pgroups s1)(pg \<mapsto> g\<lparr>pg_pages := ps\<rparr>)\<rparr>) = Some s'"
    by (auto simp: bind_Some_conv Let_def split del: if_split)
  have "same_core s s0" using s0 upd_pgroup_core by (auto split: if_splits)
  with "2.IH"[OF s0 e refl s1 g ps refl rest] aspace_map_core[OF s1] show ?case
    by (simp add: same_core_def)
qed auto

lemma keeps_new_ref: "kwf s \<Longrightarrow> keeps X s (s\<lparr>next_ref := Suc (next_ref s)\<rparr>)"
  by (rule keeps_sched) (simp_all add: same_sched_def)

lemma keeps_core: "keeps X s s1 \<Longrightarrow> same_core s1 s2 \<Longrightarrow> keeps X s s2"
  using keeps_trans keeps_same keeps_kwf by blast

lemma keeps_aspace_create:
  assumes "kwf s" and "aspace_create s = Some (a, s')"
  shows "keeps X s s'" "a = next_ref s" "type_of s' = (type_of s)(a := RSRC_ASPACE)"
proof -
  from assms(2) obtain raw0 phys0 m0 raw1 phys1 m pd s1 where
    s1: "s1 = s\<lparr>next_ref := Suc (next_ref s), km := m, aspaces := (aspaces s)(next_ref s \<mapsto> \<lparr>as_areas = [],
        as_pdir = raw0, as_ptab = raw1, pdir_tab = pd, ptab_tab = replicate 1024 0, pdirphys = phys0\<rparr>)\<rparr>"
    and a: "a = next_ref s" and b: "rsrc_bind a RSRC_ASPACE (kernel_team s1) s1 = Some s'"
    by (auto simp: aspace_create_def new_ref_def bind_Some_conv Let_def simp del: replicate.simps)
  note fresh = new_ref_fresh[OF assms(1)]
  note wf = kwfD[OF assms(1)]
  have "table_ok s1" by (rule table_ok_cong[OF wf(1)]) (simp_all add: s1 type_of_def id_of_def fun_eq_iff)
  moreover have "queue_ok s1"
    by (rule queue_ok_cong[OF wf(2)])
      (use queue_ok_sleep[OF wf(2)] in \<open>simp_all add: s1 queue_of_def wait_of_def flag_of_def fun_eq_iff\<close>)
  moreover have "refs_ok s1" using wf(3) by (simp add: refs_ok_def s1)
  moreover have "runq_ok s1" using wf(4) fresh unfolding runq_ok_def
    by (auto simp: s1 type_of_def)
  ultimately have k1: "keeps X s s1" by (simp add: keeps_def kwf_def s1)
  have k2: "keeps X s1 s'" "type_of s' = (type_of s1)(a := RSRC_ASPACE)"
    by (rule keeps_bind(1,2)[OF keeps_kwf[OF k1] b]; use fresh in \<open>simp add: s1 a\<close>)+
  show "keeps X s s'" by (rule keeps_trans[OF k1 k2(1)])
  show "a = next_ref s" by (rule a)
  show "type_of s' = (type_of s)(a := RSRC_ASPACE)" using k2(2) by (simp add: s1 type_of_def fun_eq_iff)
qed

lemma keeps_area_create:
  assumes "kwf s" and "area_create a sz virt phys fl s = Some (v, out, s')"
  shows "keeps X s s'"
proof -
  from assms(2) obtain x where x: "aspaces s a = Some x" by (auto simp: area_create_def bind_Some_conv Let_def)
  let ?n = "page_count sz" and ?ph = "and fl AREA_PHYSMAP \<noteq> 0"
  let ?at = "locate_span (ptab_tab x) (virt div 0x1000) ?n"
  show ?thesis
  proof (cases "?at = 0")
    case True
    then show ?thesis using assms x keeps_refl by (auto simp: area_create_def Let_def)
  next
    case False
    let ?s1 = "s\<lparr>next_ref := Suc (Suc (next_ref s)),
        pgroups := (pgroups s)(next_ref s \<mapsto> \<lparr>pg_size = ?n, pg_refcount = 1, pg_flags = fl,
             pg_areas = [Suc (next_ref s)], pg_pages = page_chain ?n\<rparr>),
        areas := (areas s)(Suc (next_ref s) \<mapsto> \<lparr>ar_pgroup = next_ref s, virt_addr = ?at, ar_length = ?n, maxlength = ?n\<rparr>)\<rparr>"
    from assms(2) x False obtain s2 s3 ow where
      s2: "upd_aspace a (\<lambda>x. x\<lparr>as_areas := as_areas x @ [Suc (next_ref s)]\<rparr>) ?s1 = Some s2"
      and s3: "area_fill ?n ?ph a (next_ref s) (phys div 0x1000) ?at 0 0 s2 = Some s3"
      and b: "rsrc_bind (Suc (next_ref s)) RSRC_AREA ow s3 = Some s'"
      by (auto simp: area_create_def new_ref_def bind_Some_conv Let_def)
    have k1: "keeps X s ?s1" by (rule keeps_sched[OF assms(1)]) (simp add: same_sched_def)
    have c: "same_core ?s1 s3" by (rule same_core_trans[OF upd_aspace_core[OF s2] area_fill_core[OF s3]])
    have k3: "keeps X s s3" by (rule keeps_core[OF k1 c])
    have "keeps X s3 s'"
      by (rule keeps_bind(1)[OF keeps_kwf[OF k3] b])
        (use c new_ref_fresh[OF assms(1)] kwfD(3)[OF assms(1)] in \<open>auto simp: same_core_def refs_ok_def\<close>)
    with k3 show ?thesis by (rule keeps_trans)
  qed
qed

lemma keeps_area_clone:
  assumes "kwf s" and "area_clone a i virt s = Some (v, out, s')"
  shows "keeps X s s'"
proof (cases "s' = s")
  case True
  then show ?thesis using keeps_refl[OF assms(1)] by simp
next
  case False
  with assms(2) obtain ar0 y x g s1 s2 s3 ow where
    "rsrc_find RSRC_AREA i s = Some ar0" and "areas s ar0 = Some y" and "aspaces s a = Some x"
    and s1: "upd_pgroup (ar_pgroup y) (\<lambda>g. g\<lparr>pg_refcount := pg_refcount g + 1,
                  pg_areas := pg_areas g @ [next_ref s]\<rparr>) (s\<lparr>next_ref := Suc (next_ref s)\<rparr>) = Some s1"
    and s2: "upd_aspace a (\<lambda>x. x\<lparr>as_areas := as_areas x @ [next_ref s]\<rparr>)
        (s1\<lparr>areas := (areas s1)(next_ref s \<mapsto> y\<lparr>virt_addr := locate_span (ptab_tab x) (virt div 0x1000) (ar_length y)\<rparr>)\<rparr>) = Some s2"
    and "pgroups s2 (ar_pgroup y) = Some g"
    and s3: "clone_fill (ar_length y) a (pg_pages g) (locate_span (ptab_tab x) (virt div 0x1000) (ar_length y)) 0 0 s2 = Some s3"
    and b: "rsrc_bind (next_ref s) RSRC_AREA ow s3 = Some s'"
    by (auto simp: area_clone_def new_ref_def bind_Some_conv Let_def split: if_splits)
  let ?s0 = "s\<lparr>next_ref := Suc (next_ref s)\<rparr>"
  have k0: "keeps X s ?s0" by (rule keeps_new_ref[OF assms(1)])
  have "same_core ?s0 s3"
    using upd_pgroup_core[OF s1] upd_aspace_core[OF s2] s3 clone_fill_core
    by (fastforce simp: same_core_def)
  note c = this
  have k3: "keeps X s s3" by (rule keeps_core[OF k0 c])
  have "keeps X s3 s'"
    by (rule keeps_bind(1)[OF keeps_kwf[OF k3] b])
      (use c new_ref_fresh[OF assms(1)] in \<open>auto simp: same_core_def\<close>)
  with k3 show ?thesis by (rule keeps_trans)
qed

lemma keeps_area_destroy:
  assumes "kwf s" and "area_destroy a i s = Some (v, s')" and "calm X s"
  shows "keeps X s s'"
proof (cases "s' = s")
  case True
  then show ?thesis using keeps_refl[OF assms(1)] by simp
next
  case False
  with assms(2) obtain ar x where
    ar: "rsrc_find RSRC_AREA i s = Some ar" "ar \<noteq> 0" and x: "aspaces s a = Some x" "ar \<in> set (as_areas x)"
    by (auto simp: area_destroy_def bind_Some_conv split: if_split_asm)
  with assms(2) obtain y g s1 s2 s3 s4 s5 where
    s1: "upd_aspace a (\<lambda>x. x\<lparr>as_areas := remove1 ar (as_areas x)\<rparr>) s = Some s1"
    and "areas s1 ar = Some y"
    and s2: "aspace_clr a (virt_addr y) (ar_length y) s1 = Some s2"
    and s3: "upd_pgroup (ar_pgroup y) (\<lambda>g. g\<lparr>pg_areas := remove1 ar (pg_areas g), pg_refcount := pg_refcount g - 1\<rparr>) s2 = Some s3"
    and "pgroups s3 (ar_pgroup y) = Some g"
    and s4: "(if pg_refcount g = 0 then do {
                  m \<leftarrow> release_pages (and (pg_flags g) AREA_PHYSMAP = 0) (pg_pages g) (pg_size g) (km s3);
                  Some (s3\<lparr>km := m, pgroups := (pgroups s3)(ar_pgroup y := None)\<rparr>) }
                else Some s3) = Some s4"
    and s5: "rsrc_release ar s4 = Some s5"
    and s': "s' = s5\<lparr>areas := (areas s5)(ar := None), rsrcs := (rsrcs s5)(ar := None)\<rparr>"
    by (simp add: area_destroy_def split del: if_split) (elim bindE, simp split del: if_split)
  have "same_core s3 s4" using s4 by (auto simp: bind_Some_conv same_core_def split: if_splits)
  then have c: "same_core s s4"
    using upd_aspace_core[OF s1] aspace_clr_core[OF s2] upd_pgroup_core[OF s3] by (auto intro: same_core_trans)
  have k4: "keeps X s s4" by (rule keeps_same[OF assms(1) c])
  have nq: "ar \<noteq> run_queue s4" using rsrc_find_not_runq[OF assms(1) ar] c by (simp add: same_core_def)
  note k5 = keeps_release[OF keeps_kwf[OF k4] s5 keeps_calm_set[OF k4 assms(3)] nq]
  let ?s6 = "s5\<lparr>rsrcs := (rsrcs s5)(ar := None)\<rparr>"
  have k6: "keeps X s5 ?s6"
    by (rule keeps_free[OF keeps_kwf[OF k5(1)] k5(2)]) (use k5(3) rsrc_find_not_null[OF assms(1) ar] in auto)
  have "same_core ?s6 s'" by (simp add: same_core_def s')
  with keeps_trans[OF keeps_trans[OF k4 k5(1)] k6] show ?thesis by (rule keeps_core)
qed

lemma keeps_area_resize:
  assumes "kwf s" and "area_resize a i sz s = Some (v, s')"
  shows "keeps X s s'"
proof -
  have "same_core s s'" using assms(2)
    by (auto simp: area_resize_def bind_Some_conv Let_def split: if_splits
        dest!: upd_pgroup_core upd_area_core grow_fill_core intro: same_core_trans)
  with assms(1) show ?thesis by (rule keeps_same)
qed

lemma keeps_brk: "kwf s \<Longrightarrow> brk ad s = Some (v, s') \<Longrightarrow> keeps X s s'"
  by (auto simp: brk_def bind_Some_conv split: if_splits intro: keeps_refl keeps_area_resize)

end
