(* ===== verification/KInvTask.thy ===== *)
theory KInvTask
  imports KInvOps
begin

text \<open>
  The invariant of \<open>KInv\<close> and the operations on tasks and teams, the end of a task, the reaper,
  the interrupts and the system calls.
\<close>

section \<open>Teams\<close>

lemma bind_frame:
  assumes "rsrc_bind r ty ow s = Some s'"
  shows "tasks s' = tasks s" "next_ref s' = next_ref s" "dom (rsrcs s') = insert r (dom (rsrcs s))"
  using assms by (auto simp: rsrc_bind_def alloc_id_def upd_team_def bind_Some_conv Let_def split: if_splits)

lemma aspace_create_frame:
  assumes "aspace_create s = Some (a, s')"
  shows "tasks s' = tasks s" "next_ref s' = Suc (next_ref s)" "dom (rsrcs s') = insert a (dom (rsrcs s))"
proof -
  from assms obtain kt s1 where "rsrc_bind a RSRC_ASPACE kt s1 = Some s'"
    and "tasks s1 = tasks s" "next_ref s1 = Suc (next_ref s)" "rsrcs s1 = rsrcs s"
    unfolding aspace_create_def new_ref_def Let_def prod.case
    by (elim bindE case_prodE2) (auto simp del: replicate.simps)
  with bind_frame show "tasks s' = tasks s" "next_ref s' = Suc (next_ref s)" "dom (rsrcs s') = insert a (dom (rsrcs s))"
    by metis+
qed

lemma keeps_set_owner:
  assumes "kwf s" and "rsrc_set_owner r ow s = Some s'"
  shows "keeps X s s'"
proof -
  from assms(2) obtain x s1 s2 where "rsrcs s r = Some x"
    and s1: "(if r_owner x \<noteq> 0 then upd_team (r_owner x) (\<lambda>t. t\<lparr>tm_resources := remove1 r (tm_resources t)\<rparr>) s
           else Some s) = Some s1"
    and s2: "upd_rsrc r (\<lambda>x. x\<lparr>r_owner := ow\<rparr>) s1 = Some s2"
    and s': "(if ow \<noteq> 0 then upd_team ow (\<lambda>t. t\<lparr>tm_resources := tm_resources t @ [r]\<rparr>) s2 else Some s2) = Some s'"
    by (auto simp: rsrc_set_owner_def bind_Some_conv split del: if_split)
  have k1: "keeps X s s1"
    using s1 keeps_upd_team[OF assms(1)] keeps_refl[OF assms(1)] by (auto split: if_splits)
  have k2: "keeps X s1 s2" by (rule keeps_upd_rsrc[OF keeps_kwf[OF k1] s2]) simp
  have "keeps X s2 s'"
    using s' keeps_upd_team[OF keeps_kwf[OF k2]] keeps_refl[OF keeps_kwf[OF k2]] by (auto split: if_splits)
  with k1 k2 show ?thesis by (blast intro: keeps_trans)
qed

lemma keeps_new_team:
  assumes "kwf s" and "run_queue s \<noteq> tm" and "tm < next_ref s" and "null_resource < tm"
  shows "keeps X s (s\<lparr>teams := (teams s)(tm \<mapsto> y)\<rparr>)"
proof -
  let ?s = "s\<lparr>teams := (teams s)(tm \<mapsto> y)\<rparr>"
  note wf = kwfD[OF assms(1)]
  have "table_ok ?s" by (rule table_ok_cong[OF wf(1)]) (simp_all add: type_of_def id_of_def fun_eq_iff)
  moreover have "queue_ok ?s"
    by (rule queue_ok_cong[OF wf(2)])
      (use queue_ok_sleep[OF wf(2)] in \<open>simp_all add: queue_of_def wait_of_def flag_of_def fun_eq_iff\<close>)
  moreover have "refs_ok ?s" using wf(3) by (simp add: refs_ok_def)
  moreover have "runq_ok ?s" using wf(4) assms(2-4) unfolding runq_ok_def by (auto simp: type_of_def)
  ultimately show ?thesis by (simp add: keeps_def kwf_def)
qed

lemma keeps_team_create:
  assumes "kwf s" and "team_create s = Some (tm, s')"
  shows "keeps X s s'"
proof -
  let ?s0 = "s\<lparr>next_ref := Suc (next_ref s)\<rparr>"
  from assms(2) obtain a s1 s3 where a: "aspace_create ?s0 = Some (a, s1)"
    and tm: "tm = next_ref s"
    and b: "rsrc_bind tm RSRC_TEAM (kernel_team s1) (s1\<lparr>teams := (teams s1)(tm \<mapsto> \<lparr>tm_resources = [], tm_refcount = 0,
        tm_aspace = a, heap_id = 0, text_area = 0\<rparr>)\<rparr>) = Some s3"
    and o: "rsrc_set_owner a tm s3 = Some s'"
    by (auto simp: team_create_def new_ref_def bind_Some_conv Let_def)
  let ?s2 = "s1\<lparr>teams := (teams s1)(tm \<mapsto> \<lparr>tm_resources = [], tm_refcount = 0,
        tm_aspace = a, heap_id = 0, text_area = 0\<rparr>)\<rparr>"
  have k0: "keeps X s ?s0" by (rule keeps_new_ref[OF assms(1)])
  note k1 = keeps_aspace_create[OF keeps_kwf[OF k0] a]
  note fresh = new_ref_fresh[OF assms(1)] and fr = aspace_create_frame[OF a]
  have rq: "run_queue s1 = run_queue s" using k1(1) k0 by (simp add: keeps_def)
  have k2: "keeps X s1 ?s2"
    by (rule keeps_new_team[OF keeps_kwf[OF k1(1)]]) (use fresh fr rq tm in auto)
  have "rsrcs ?s2 tm = None"
    using fr(3) fresh k1(2) tm by (auto simp: domIff) (metis domIff insert_iff n_not_Suc_n)
  then have k3: "keeps X ?s2 s3"
    by (rule keeps_bind(1)[OF keeps_kwf[OF k2] b]) (use fresh fr tm in auto)
  have "keeps X s3 s'" by (rule keeps_set_owner[OF keeps_kwf[OF k3] o])
  with k0 k1(1) k2 k3 show ?thesis by (blast intro: keeps_trans)
qed


section \<open>A task that is created\<close>

lemma keeps_new_task:
  assumes "kwf s" and "tasks s t = None" and "null_resource < t" and "t < next_ref s" and "t \<noteq> run_queue s"
    and "waiting_on k = 0"
  shows "keeps X s (s\<lparr>tasks := (tasks s)(t \<mapsto> k)\<rparr>)"
proof -
  let ?s = "s\<lparr>tasks := (tasks s)(t \<mapsto> k)\<rparr>"
  note wf = kwfD[OF assms(1)]
  have w: "wait_of s t = 0" using assms(2) by (simp add: wait_of_def)
  have "table_ok ?s" by (rule table_ok_cong[OF wf(1)]) (simp_all add: type_of_def id_of_def fun_eq_iff)
  moreover have "queue_ok ?s"
    by (rule queue_ok_cong[OF wf(2)]) (use queue_ok_sleep[OF wf(2)] w assms(6) in \<open>auto split: if_splits\<close>)
  moreover have "refs_ok ?s" using wf(3) assms(3,4) by (auto simp: refs_ok_def)
  moreover have "runq_ok ?s" using wf(4) assms(3,5) unfolding runq_ok_def by (auto simp: type_of_def)
  ultimately show ?thesis using assms(2) by (simp add: keeps_def kwf_def)
qed

lemma task_create_steps:
  assumes "task_create bootstrap tm ip sp ks s = Some (t, s')"
  obtains m k where "upd_team tm (\<lambda>x. x\<lparr>tm_refcount := tm_refcount x + 1\<rparr>)
      (s\<lparr>next_ref := Suc (next_ref s), km := m, tasks := (tasks s)(next_ref s \<mapsto> k)\<rparr>) = Some s'"
    and "t = next_ref s" and "waiting_on k = 0" and "t_flags k = tREADY"
proof -
  let ?k = "\<lambda>ksa (a::aspace). \<lparr>waiting_on = 0, t_status = 0, wait_time = 0, t_flags = tREADY, t_irq = 0,
    scount = 0, t_team = tm, stack_area = 0, kstack = ksa, ustack = 0, t_cr3 = pdirphys a,
    t_esp = ksa + 4092 - 4 * length (task_stack bootstrap ip sp ks), t_esp0 = ksa + 4092,
    t_stack = task_stack bootstrap ip sp ks, t_eax = 0, t_kont = KUser\<rparr>"
  from assms obtain ksa m a y where "teams s tm = Some y" and "aspaces s (tm_aspace y) = Some a"
    and "kgetpages (Suc 0) (km s) = Some (ksa, m)"
    and u: "upd_team tm (\<lambda>x. x\<lparr>tm_refcount := tm_refcount x + 1\<rparr>)
      (s\<lparr>next_ref := Suc (next_ref s), km := m, tasks := (tasks s)(next_ref s \<mapsto> ?k ksa a)\<rparr>) = Some s'"
    and t: "t = next_ref s"
    unfolding task_create_def new_ref_def Let_def prod.case by (auto simp: bind_Some_conv)
  show thesis by (rule that[OF u t]) simp_all
qed

lemma keeps_task_create:
  assumes "kwf s" and "task_create bootstrap tm ip sp ks s = Some (t, s')"
  shows "keeps X s s'" "t = next_ref s" "rsrcs s' = rsrcs s" "next_ref s' = Suc (next_ref s)"
    "tasks s' t \<noteq> None \<and> wait_of s' t = 0 \<and> flag_of s' t = tREADY"
proof -
  let ?s0 = "s\<lparr>next_ref := Suc (next_ref s)\<rparr>"
  from task_create_steps[OF assms(2)] obtain m k where u: "upd_team tm (\<lambda>x. x\<lparr>tm_refcount := tm_refcount x + 1\<rparr>)
      (?s0\<lparr>km := m, tasks := (tasks s)(next_ref s \<mapsto> k)\<rparr>) = Some s'"
    and t: "t = next_ref s" and k: "waiting_on k = 0" "t_flags k = tREADY" by blast
  let ?s1 = "?s0\<lparr>km := m\<rparr>"
  have k0: "keeps X s ?s0" by (rule keeps_new_ref[OF assms(1)])
  have k1: "keeps X s ?s1" by (rule keeps_core[OF k0]) (simp add: same_core_def)
  note fresh = new_ref_fresh[OF assms(1)]
  have k2: "keeps X ?s1 (?s1\<lparr>tasks := (tasks ?s1)(t \<mapsto> k)\<rparr>)"
    by (rule keeps_new_task[OF keeps_kwf[OF k1]]) (use fresh k t in auto)
  then have k2: "keeps X ?s1 (?s0\<lparr>km := m, tasks := (tasks s)(t \<mapsto> k)\<rparr>)" by simp
  have k3: "keeps X (?s0\<lparr>km := m, tasks := (tasks s)(t \<mapsto> k)\<rparr>) s'"
    by (rule keeps_upd_team[OF keeps_kwf[OF k2]]) (use u t in simp)
  show "keeps X s s'" using k1 k2 k3 by (blast intro: keeps_trans)
  show "t = next_ref s" by (rule t)
  show "rsrcs s' = rsrcs s" "next_ref s' = Suc (next_ref s)" "tasks s' t \<noteq> None \<and> wait_of s' t = 0 \<and> flag_of s' t = tREADY"
    using u k t by (auto simp: upd_team_def bind_Some_conv wait_of_def flag_of_def)
qed

lemma upd_task_frame:
  assumes "upd_task t f s = Some s'"
  shows "rsrcs s' = rsrcs s" "next_ref s' = next_ref s" "tasks s' t = map_option f (tasks s t)"
  using assms by (auto simp: upd_task_def bind_Some_conv)

lemma keeps_bind_task:
  assumes "kwf s" and "rsrcs s t = None" and "tasks s t \<noteq> None" and "rsrc_bind t RSRC_TASK tm s = Some s'"
  shows "keeps X s s'"
proof (rule keeps_bind(1)[OF assms(1,4,2)])
  note wf = kwfD[OF assms(1)]
  have "t \<noteq> 0 \<and> t < next_ref s" using refs_ok_task[OF wf(3) assms(3)] .
  moreover have "t \<noteq> null_resource" using assms(2) wf(3) by (auto simp: refs_ok_def)
  ultimately show "null_resource < t" "t < next_ref s" by auto
qed simp

lemma area_create_frame:
  assumes "area_create a sz virt phys fl s = Some (v, out, s')"
  shows "tasks s' = tasks s"
  using assms unfolding area_create_def new_ref_def Let_def prod.case
  by (elim bindE if_SomeE case_prodE2)
    (auto dest!: bind_frame(1) upd_aspace_core area_fill_core simp: same_core_def simp del: aspace.simps)


lemma enqueue_fresh:
  assumes "kwf s" and "rsrc_enqueue r t s = Some s'" and "tasks s t = Some k" and "waiting_on k = 0" and "t \<notin> X"
  shows "keeps X s s'"
  by (rule keeps_enqueue[OF assms(1,2)]) (use assms in \<open>simp_all add: wait_of_def\<close>)

lemma keeps_live: "keeps X s s1 \<Longrightarrow> keeps X s (s1\<lparr>live_tasks := n\<rparr>)"
  by (erule keeps_core) (simp add: same_core_def)

lemma keeps_new_thread:
  assumes "kwf s" and "new_thread bootstrap tm ip ks s = Some (t, s')" and "\<forall>t \<in> X. tasks s t \<noteq> None"
  shows "keeps X s s'"
proof -
  from assms(2) obtain x a stack out s1 s2 ar s3 s4 s5 where "teams s tm = Some x" "aspaces s (tm_aspace x) = Some a"
    and ac: "area_create (tm_aspace x) 4096 (stack_page 1023 (ptab_tab a) * 4096) 0 0 s = Some (stack, out, s1)"
    and "stack \<noteq> 0"
    and tc: "task_create bootstrap tm ip (stack_page 1023 (ptab_tab a) * 4096 + 4092) ks s1 = Some (t, s2)"
    and "rsrc_find RSRC_AREA stack s2 = Some ar"
    and u3: "upd_task t (\<lambda>x. x\<lparr>ustack := stack_page 1023 (ptab_tab a) * 4096, stack_area := ar\<rparr>) s2 = Some s3"
    and b: "rsrc_bind t RSRC_TASK tm s3 = Some s4"
    and u5: "upd_task t (\<lambda>x. x\<lparr>t_flags := tREADY\<rparr>) s4 = Some s5"
    and fin: "(if ks then Some (t, s5)
         else do {
           s \<leftarrow> rsrc_enqueue (run_queue s5) t s5;
           Some (t, s\<lparr>live_tasks := live_tasks s + 1\<rparr>) }) = Some (t, s')"
    unfolding new_thread_def Let_def
    by (elim bindE if_SomeE case_prodE2) (auto split del: if_split simp del: stack_page.simps)
  have k1: "keeps X s s1" by (rule keeps_area_create[OF assms(1) ac])
  note k2 = keeps_task_create[OF keeps_kwf[OF k1] tc]
  note fr = new_ref_fresh[OF keeps_kwf[OF k1]]
  have k3: "keeps X s2 s3" by (rule keeps_upd_task[OF keeps_kwf[OF k2(1)] u3]) simp_all
  note f3 = upd_task_frame[OF u3]
  have k4: "keeps X s3 s4"
    by (rule keeps_bind_task[OF keeps_kwf[OF k3] _ _ b]) (use f3 k2(2-5) fr in auto)
  have t: "t \<notin> X" using assms(3) fr k2(2) area_create_frame[OF ac] by auto
  have k5: "keeps X s4 s5" by (rule keeps_upd_task[OF keeps_kwf[OF k4] u5]) (use t in simp_all)
  have w: "tasks s5 t \<noteq> None \<and> wait_of s5 t = 0"
    using k2(5) f3(3) bind_frame(1)[OF b] upd_task_frame(3)[OF u5] by (auto simp: wait_of_def)
  note k = keeps_trans[OF keeps_trans[OF keeps_trans[OF keeps_trans[OF k1 k2(1)] k3] k4] k5]
  show ?thesis
  proof (cases ks)
    case True
    then show ?thesis using fin k by simp
  next
    case False
    with fin obtain s6 where e: "rsrc_enqueue (run_queue s5) t s5 = Some s6"
      and s': "s' = s6\<lparr>live_tasks := live_tasks s6 + 1\<rparr>" by (auto simp: bind_Some_conv)
    have "keeps X s5 s6" by (rule keeps_enqueue[OF keeps_kwf[OF k] e]) (use w t in auto)
    then show ?thesis using keeps_trans[OF k] keeps_live s' by blast
  qed
qed


section \<open>Destruction\<close>

lemma keeps_destroy_areas:
  "destroy_areas fuel a s = Some s' \<Longrightarrow> kwf s \<Longrightarrow> calm X s \<Longrightarrow> keeps X s s'"
proof (induction fuel arbitrary: s)
  case 0
  then show ?case by (auto simp: destroy_areas.simps[of 0] bind_Some_conv keeps_refl neq_Nil_conv split: list.splits)
next
  case (Suc fuel)
  from Suc.prems(1) obtain x where x: "aspaces s a = Some x"
    by (auto simp: destroy_areas.simps[of "Suc fuel"] bind_Some_conv)
  show ?case
  proof (cases "as_areas x")
    case Nil
    then show ?thesis using Suc.prems x by (simp add: destroy_areas.simps[of "Suc fuel"] keeps_refl)
  next
    case (Cons ar ars)
    with Suc.prems(1) x obtain r e s1 where "rsrcs s ar = Some r" and d: "area_destroy a (int (r_id r)) s = Some (e, s1)"
      and rest: "destroy_areas fuel a s1 = Some s'"
      by (auto simp: destroy_areas.simps[of "Suc fuel"] bind_Some_conv)
    note k = keeps_area_destroy[OF Suc.prems(2) d Suc.prems(3)]
    show ?thesis
      by (rule keeps_trans[OF k Suc.IH[OF rest keeps_kwf[OF k] keeps_calm_set[OF k Suc.prems(3)]]])
  qed
qed

text \<open>An object that is released and then freed.\<close>

lemma keeps_release_free:
  assumes "kwf s" and "rsrc_release r s = Some s'" and "calm X s" and "r \<noteq> run_queue s" and "r \<noteq> null_resource"
  shows "keeps X s (s'\<lparr>rsrcs := (rsrcs s')(r := None)\<rparr>)"
proof -
  note k = keeps_release[OF assms(1-4)]
  show ?thesis
    by (rule keeps_trans[OF k(1) keeps_free[OF keeps_kwf[OF k(1)] k(2)]]) (use k(3) assms(5) in auto)
qed

lemma null_resource_type: "kwf s \<Longrightarrow> type_of s null_resource = RSRC_NONE"
  by (simp add: kwf_def table_ok_def)

lemma release_not_null:
  assumes "kwf s" and "rsrc_release r s = Some s'" and "type_of s r \<noteq> RSRC_NONE"
  shows "r \<noteq> null_resource"
  using assms null_resource_type by metis

lemma keeps_aspace_destroy:
  assumes "kwf s" and "aspace_destroy a s = Some s'" and "calm X s" and "a \<noteq> null_resource"
  shows "keeps X s s'"
proof -
  from assms(2) obtain x s1 s2 m m' where x: "aspaces s a = Some x"
    and d: "destroy_areas (length (as_areas x)) a s = Some s1" and r: "rsrc_release a s1 = Some s2"
    and "kfreepage (as_pdir x) (km s2) = Some m" and "kfreepage (as_ptab x) m = Some m'"
    and s': "s' = s2\<lparr>km := m', aspaces := (aspaces s2)(a := None), rsrcs := (rsrcs s2)(a := None)\<rparr>"
    by (auto simp: aspace_destroy_def bind_Some_conv)
  note k1 = keeps_destroy_areas[OF d assms(1,3)]
  have "a \<noteq> run_queue s" using x kwfD(4)[OF assms(1)] by (auto simp: runq_ok_def)
  then have "a \<noteq> run_queue s1" using k1 by (simp add: keeps_def)
  note k2 = keeps_release_free[OF keeps_kwf[OF k1] r keeps_calm_set[OF k1 assms(3)] this assms(4)]
  have "keeps X (s2\<lparr>rsrcs := (rsrcs s2)(a := None)\<rparr>) s'"
    by (rule keeps_sched[OF keeps_kwf[OF k2]]) (auto simp: s' same_sched_def)
  with k1 k2 show ?thesis by (blast intro: keeps_trans)
qed

lemma keeps_team_drop:
  assumes "kwf s" and "team_drop r s = Some s'" and "calm X s"
  shows "keeps X s s'"
proof -
  from assms(2) obtain s1 x where u: "upd_rsrc r (\<lambda>x. x\<lparr>r_owner := 0\<rparr>) s = Some s1" and x: "rsrcs s1 r = Some x"
    and c: "(case r_type x of RSRC_TASK \<Rightarrow> None
      | RSRC_PORT \<Rightarrow> do { (e, s) \<leftarrow> port_destroy (int (r_id x)) s1; Some s }
      | RSRC_SEM \<Rightarrow> do { (e, s) \<leftarrow> sem_destroy (int (r_id x)) s1; Some s }
      | RSRC_ASPACE \<Rightarrow> aspace_destroy r s1
      | _ \<Rightarrow> Some s1) = Some s'"
    by (auto simp: team_drop_def bind_Some_conv)
  have k1: "keeps X s s1" by (rule keeps_upd_rsrc[OF assms(1) u]) simp
  note wf = keeps_kwf[OF k1] and calm = keeps_calm_set[OF k1 assms(3)]
  have n: "r_type x = RSRC_ASPACE \<Longrightarrow> r \<noteq> null_resource"
    using null_resource_type[OF wf] x by (auto simp: type_of_def)
  have "keeps X s1 s'"
    using c keeps_port_destroy[OF wf _ calm] keeps_sem_destroy[OF wf _ calm]
      keeps_aspace_destroy[OF wf _ calm n] keeps_refl[OF wf]
    by (auto simp: bind_Some_conv split: rsrc_type.splits)
  with k1 show ?thesis by (rule keeps_trans)
qed

lemma keeps_team_drain:
  "team_drain fuel tm s = Some s' \<Longrightarrow> kwf s \<Longrightarrow> calm X s \<Longrightarrow> keeps X s s'"
proof (induction fuel arbitrary: s)
  case 0
  then show ?case by (auto simp: team_drain.simps[of 0] bind_Some_conv keeps_refl neq_Nil_conv split: list.splits)
next
  case (Suc fuel)
  from Suc.prems(1) obtain x where x: "teams s tm = Some x"
    by (auto simp: team_drain.simps[of "Suc fuel"] bind_Some_conv)
  show ?case
  proof (cases "tm_resources x")
    case Nil
    then show ?thesis using Suc.prems x by (simp add: team_drain.simps[of "Suc fuel"] keeps_refl)
  next
    case (Cons r rs)
    with Suc.prems(1) x obtain s1 s2 where u: "upd_team tm (\<lambda>x. x\<lparr>tm_resources := rs\<rparr>) s = Some s1"
      and d: "team_drop r s1 = Some s2" and rest: "team_drain fuel tm s2 = Some s'"
      by (auto simp: team_drain.simps[of "Suc fuel"] bind_Some_conv)
    have k1: "keeps X s s1" by (rule keeps_upd_team[OF Suc.prems(2) u])
    note k2 = keeps_team_drop[OF keeps_kwf[OF k1] d keeps_calm_set[OF k1 Suc.prems(3)]]
    note k = keeps_trans[OF k1 k2]
    show ?thesis
      by (rule keeps_trans[OF k Suc.IH[OF rest keeps_kwf[OF k] keeps_calm_set[OF k Suc.prems(3)]]])
  qed
qed

lemma keeps_team_destroy:
  assumes "kwf s" and "team_destroy tm s = Some s'" and "calm X s"
  shows "keeps X s s'"
proof -
  from assms(2) obtain x s1 s2 where x: "teams s tm = Some x"
    and d: "team_drain (length (tm_resources x)) tm s = Some s1" and r: "rsrc_release tm s1 = Some s2"
    and s': "s' = s2\<lparr>teams := (teams s2)(tm := None), rsrcs := (rsrcs s2)(tm := None)\<rparr>"
    by (auto simp: team_destroy_def bind_Some_conv)
  note k1 = keeps_team_drain[OF d assms(1,3)]
  have "tm \<noteq> run_queue s" and tm: "tm \<noteq> null_resource" using x kwfD(4)[OF assms(1)] by (auto simp: runq_ok_def)
  then have "tm \<noteq> run_queue s1" using k1 by (simp add: keeps_def)
  note k2 = keeps_release_free[OF keeps_kwf[OF k1] r keeps_calm_set[OF k1 assms(3)] this tm]
  have "keeps X (s2\<lparr>rsrcs := (rsrcs s2)(tm := None)\<rparr>) s'"
    by (rule keeps_sched[OF keeps_kwf[OF k2]]) (auto simp: s' same_sched_def)
  with k1 k2 show ?thesis by (blast intro: keeps_trans)
qed


lemma keeps_drop_task:
  assumes "kwf s" and "wait_of s t = 0" and "t \<notin> X"
  shows "keeps X s (s\<lparr>tasks := (tasks s)(t := None)\<rparr>)"
proof -
  let ?s = "s\<lparr>tasks := (tasks s)(t := None)\<rparr>"
  note wf = kwfD[OF assms(1)]
  have "table_ok ?s" by (rule table_ok_cong[OF wf(1)]) (simp_all add: type_of_def id_of_def fun_eq_iff)
  moreover have "queue_ok ?s"
    by (rule queue_ok_cong[OF wf(2)]) (use queue_ok_sleep[OF wf(2)] assms(2) in \<open>auto split: if_splits\<close>)
  moreover have "refs_ok ?s" using wf(3) by (auto simp: refs_ok_def)
  moreover have "runq_ok ?s" by (rule runq_ok_cong[OF wf(4)]) (auto simp: type_of_def)
  ultimately show ?thesis using assms(3) by (auto simp: keeps_def kwf_def)
qed

lemma keeps_task_destroy:
  assumes "kwf s" and "task_destroy t s = Some s'" and "calm X s" and "t \<notin> X"
    and "tasks s t \<noteq> None" and "wait_of s t = 0"
  shows "keeps X s s'"
proof -
  from assms(2) obtain r x s1 m s2 s3 y where "rsrcs s t = Some r" "t \<noteq> current s" "tasks s t = Some x"
    and s1: "(if stack_area x \<noteq> 0 then do {
               y \<leftarrow> teams s (r_owner r);
               ar \<leftarrow> rsrcs s (stack_area x);
               (e, s) \<leftarrow> area_destroy (tm_aspace y) (int (r_id ar)) s;
               Some s }
             else Some s) = Some s1"
    and m: "kfreepage (kstack x) (km s1) = Some m"
    and r: "rsrc_release t (s1\<lparr>km := m\<rparr>) = Some s2"
    and u: "upd_team (r_owner r) (\<lambda>x. x\<lparr>tm_refcount := tm_refcount x - 1\<rparr>)
        (s2\<lparr>tasks := (tasks s2)(t := None), rsrcs := (rsrcs s2)(t := None)\<rparr>) = Some s3"
    and "teams s3 (r_owner r) = Some y"
    and fin: "(if tm_refcount y = 0 then team_destroy (r_owner r) s3 else Some s3) = Some s'"
    unfolding task_destroy_def Let_def
    by (elim bindE if_SomeE) (auto split del: if_split)
  have c: "calm (insert t X) s" using assms(3,5,6) by (auto simp: calm_def)
  have k1: "keeps (insert t X) s s1"
    using s1 keeps_area_destroy[OF assms(1) _ c] keeps_refl[OF assms(1)]
    by (auto simp: bind_Some_conv split: if_splits)
  have k2: "keeps (insert t X) s1 (s1\<lparr>km := m\<rparr>)"
    by (rule keeps_same[OF keeps_kwf[OF k1]]) (simp add: same_core_def)
  note k12 = keeps_trans[OF k1 k2]
  have t: "t \<noteq> run_queue s" "t \<noteq> null_resource"
    using assms(5) kwfD(4)[OF assms(1)] by (auto simp: runq_ok_def)
  have rq: "t \<noteq> run_queue (s1\<lparr>km := m\<rparr>)" using t k1 by (simp add: keeps_def)
  note k3 = keeps_release_free[OF keeps_kwf[OF k12] r keeps_calm_set[OF k12 c] rq t(2)]
  note k123 = keeps_trans[OF k12 k3]
  have w: "wait_of (s2\<lparr>rsrcs := (rsrcs s2)(t := None)\<rparr>) t = 0"
    using keeps_calm[OF k123 insertI1 assms(5,6)] by simp
  have drop: "keeps X (s2\<lparr>rsrcs := (rsrcs s2)(t := None)\<rparr>) (s2\<lparr>tasks := (tasks s2)(t := None), rsrcs := (rsrcs s2)(t := None)\<rparr>)"
  proof -
    have eq: "s2\<lparr>tasks := (tasks s2)(t := None), rsrcs := (rsrcs s2)(t := None)\<rparr> =
        s2\<lparr>rsrcs := (rsrcs s2)(t := None), tasks := (tasks s2)(t := None)\<rparr>"
      by (rule kstate.equality) simp_all
    show ?thesis unfolding eq using keeps_drop_task[OF keeps_kwf[OF k3] w assms(4)] by simp
  qed
  have sub: "keeps X s (s2\<lparr>rsrcs := (rsrcs s2)(t := None)\<rparr>)" using k123 by (auto simp: keeps_def)
  note k4 = keeps_trans[OF sub drop]
  have k5: "keeps X (s2\<lparr>tasks := (tasks s2)(t := None), rsrcs := (rsrcs s2)(t := None)\<rparr>) s3"
    by (rule keeps_upd_team[OF keeps_kwf[OF k4] u])
  note k = keeps_trans[OF k4 k5]
  have "keeps X s3 s'"
    using fin keeps_team_destroy[OF keeps_kwf[OF k] _ keeps_calm_set[OF k assms(3)]] keeps_refl[OF keeps_kwf[OF k]]
    by (auto split: if_splits)
  with k show ?thesis by (rule keeps_trans)
qed

section \<open>Threads\<close>

lemma keeps_give_area: "kwf s \<Longrightarrow> give_area i tm s = Some s' \<Longrightarrow> keeps X s s'"
  by (auto simp: give_area_def bind_Some_conv keeps_refl split: if_splits intro: keeps_set_owner)

text \<open>The new task of \<open>thr_spawn\<close> stays off every queue until it is queued to run.\<close>

lemma keeps_thr_spawn:
  assumes "kwf s" and "thr_spawn bootstrap ip sp a0 v0 a1 v1 nm s = Some (v, s')" and "\<forall>t \<in> X. tasks s t \<noteq> None"
  shows "keeps X s s'"
proof -
  from assms(2) obtain tm s1 x t s2 s3 s4 i out s5 s6 s7 j out' s8 s9 s10 s11 s12 r
    where tc: "team_create s = Some (tm, s1)" and "teams s1 tm = Some x"
    and t2: "task_create bootstrap tm ip sp False s1 = Some (t, s2)"
    and u3: "upd_task t (\<lambda>x. x\<lparr>ustack := 0\<rparr>) s2 = Some s3"
    and b: "rsrc_bind t RSRC_TASK tm s3 = Some s4"
    and c5: "area_clone (tm_aspace x) a0 v0 s4 = Some (i, out, s5)"
    and u6: "upd_team tm (\<lambda>x. x\<lparr>heap_id := i\<rparr>) s5 = Some s6"
    and g7: "give_area i tm s6 = Some s7"
    and c8: "area_clone (tm_aspace x) a1 v1 s7 = Some (j, out', s8)"
    and g9: "give_area j tm s8 = Some s9"
    and n10: "rsrc_set_name t nm s9 = Some s10" and n11: "rsrc_set_name tm nm s10 = Some s11"
    and e: "rsrc_enqueue (run_queue s11) t s11 = Some s12" and "rsrcs s12 t = Some r"
    and s': "s' = s12\<lparr>live_tasks := live_tasks s12 + 1\<rparr>"
    by (auto simp: thr_spawn_def bind_Some_conv)
  have k1: "keeps X s s1" by (rule keeps_team_create[OF assms(1) tc])
  note k2 = keeps_task_create[OF keeps_kwf[OF k1] t2]
  note fr = new_ref_fresh[OF keeps_kwf[OF k1]]
  have t: "t \<notin> X"
    using assms(3) k2(2) k1 kwfD(3)[OF assms(1)] by (auto simp: keeps_def refs_ok_def)
  have c2: "calm {t} s2" using k2(5) by (simp add: calm_def)
  have k3: "keeps Y s2 s3" for Y by (rule keeps_upd_task[OF keeps_kwf[OF k2(1)] u3]) simp_all
  note f3 = upd_task_frame[OF u3]
  have k4: "keeps Y s3 s4" for Y
    by (rule keeps_bind_task[OF keeps_kwf[OF k3] _ _ b]) (use f3 k2(2-5) fr in auto)
  have k5: "keeps Y s4 s5" for Y by (rule keeps_area_clone[OF keeps_kwf[OF k4] c5])
  have k6: "keeps Y s5 s6" for Y by (rule keeps_upd_team[OF keeps_kwf[OF k5] u6])
  have k7: "keeps Y s6 s7" for Y by (rule keeps_give_area[OF keeps_kwf[OF k6] g7])
  have k8: "keeps Y s7 s8" for Y by (rule keeps_area_clone[OF keeps_kwf[OF k7] c8])
  have k9: "keeps Y s8 s9" for Y by (rule keeps_give_area[OF keeps_kwf[OF k8] g9])
  have k10: "keeps Y s9 s10" for Y by (rule keeps_set_name[OF keeps_kwf[OF k9] n10])
  have k11: "keeps Y s10 s11" for Y by (rule keeps_set_name[OF keeps_kwf[OF k10] n11])
  have k: "keeps Y s2 s11" for Y
    by (rule keeps_trans[OF k3 keeps_trans[OF k4 keeps_trans[OF k5 keeps_trans[OF k6 keeps_trans[OF k7
          keeps_trans[OF k8 keeps_trans[OF k9 keeps_trans[OF k10 k11]]]]]]]])
  have "keeps X s11 s12"
    by (rule keeps_enqueue[OF keeps_kwf[OF k] e]) (use keeps_calm_set[OF k c2] t in \<open>auto simp: calm_def\<close>)
  with k1 k2(1) k have "keeps X s s12" by (blast intro: keeps_trans)
  then show ?thesis unfolding s' by (rule keeps_live)
qed

lemma keeps_thr_create:
  assumes "kwf s" and "thr_create bootstrap ip arg nm s = Some (v, s')" and "\<forall>t \<in> X. tasks s t \<noteq> None"
  shows "keeps X s s'"
proof -
  from assms(2) obtain ow t s1 x c cr nmo s2 r where "cur_owner s = Some ow"
    and n: "new_thread bootstrap ow ip False s = Some (t, s1)" and "tasks s1 t = Some x"
    and "tasks s1 (current s1) = Some c"
    and "rsrcs (put_bytes (t_team c) (ustack x + 0xfec) (word_bytes (int arg)) s1)
       (current (put_bytes (t_team c) (ustack x + 0xfec) (word_bytes (int arg)) s1)) = Some cr"
    and "p_charptr nm (put_bytes (t_team c) (ustack x + 0xfec) (word_bytes (int arg)) s1) = Some nmo"
    and u: "(case nmo of None \<Rightarrow> upd_rsrc t (\<lambda>x. x\<lparr>r_name := plus_name (r_name cr)\<rparr>)
          (put_bytes (t_team c) (ustack x + 0xfec) (word_bytes (int arg)) s1)
        | Some f \<Rightarrow> rsrc_set_name t (Some f) (put_bytes (t_team c) (ustack x + 0xfec) (word_bytes (int arg)) s1)) = Some s'"
    and "rsrcs s' t = Some r"
    unfolding thr_create_def Let_def
    by (elim bindE case_prodE2) (auto simp del: put_bytes_sched)
  let ?s1 = "put_bytes (t_team c) (ustack x + 0xfec) (word_bytes (int arg)) s1"
  have k1: "keeps X s s1" by (rule keeps_new_thread[OF assms(1) n assms(3)])
  have k2: "keeps X s1 ?s1" by (rule keeps_sched[OF keeps_kwf[OF k1] put_bytes_sched(1)])
  have "keeps X ?s1 s'"
    using u keeps_upd_rsrc[OF keeps_kwf[OF k2], of t "\<lambda>x. x\<lparr>r_name := plus_name (r_name cr)\<rparr>"]
      keeps_set_name[OF keeps_kwf[OF k2]]
    by (auto split: option.splits)
  with k1 k2 show ?thesis by (blast intro: keeps_trans)
qed


section \<open>The end of a task\<close>

text \<open>Waking sets no task running.\<close>

definition no_new_run :: "kstate \<Rightarrow> kstate \<Rightarrow> bool" where
  "no_new_run s s' \<longleftrightarrow> (\<forall>t. flag_of s' t = tRUNNING \<longrightarrow> flag_of s t = tRUNNING)"

lemma no_new_run_refl [simp]: "no_new_run s s"
  by (simp add: no_new_run_def)

lemma no_new_run_trans: "no_new_run s s' \<Longrightarrow> no_new_run s' s'' \<Longrightarrow> no_new_run s s''"
  by (auto simp: no_new_run_def)

lemma no_new_run_upd:
  assumes "upd_task t f s = Some s'" and "\<And>x. t_flags (f x) = tRUNNING \<Longrightarrow> t_flags x = tRUNNING"
  shows "no_new_run s s'"
  using assms by (auto simp: upd_task_def bind_Some_conv no_new_run_def flag_of_def split: if_splits)

lemma no_new_run_upd_rsrc: "upd_rsrc r f s = Some s' \<Longrightarrow> no_new_run s s'"
  by (auto simp: upd_rsrc_def bind_Some_conv no_new_run_def flag_of_def)

lemma no_new_run_enqueue: "rsrc_enqueue r t s = Some s' \<Longrightarrow> no_new_run s s'"
  unfolding rsrc_enqueue_def
  by (elim bindE) (rule no_new_run_trans[OF no_new_run_upd no_new_run_upd_rsrc], assumption, simp_all)

lemma no_new_run_wake: "task_wake t v s = Some s' \<Longrightarrow> no_new_run s s'"
  unfolding task_wake_def
  by (elim bindE) (rule no_new_run_trans[OF no_new_run_upd no_new_run_enqueue], assumption, simp_all)

lemma no_new_run_detach: "queue_detach r s = Some (t, s') \<Longrightarrow> no_new_run s s'"
  by (auto simp: queue_detach_def bind_Some_conv no_new_run_def flag_of_def neq_Nil_conv split: list.splits)

lemma no_new_run_dequeue:
  assumes "rsrc_dequeue r s = Some (t, s')"
  shows "no_new_run s s'"
proof -
  from assms obtain t' s1 where d: "queue_detach r s = Some (t', s1)"
    and c: "(if t' = 0 then Some (0, s1) else do {
        s \<leftarrow> upd_task t' (\<lambda>x. x\<lparr>waiting_on := 0, t_flags := tREADY\<rparr>) s1;
        Some (t', s) }) = Some (t, s')"
    by (auto simp: rsrc_dequeue_def bind_Some_conv split del: if_split)
  have "no_new_run s1 s'" using c
    by (auto simp: bind_Some_conv split: if_splits intro: no_new_run_upd)
  with no_new_run_detach[OF d] show ?thesis by (rule no_new_run_trans)
qed

lemma no_new_run_wake_all: "wake_all fuel r v s = Some s' \<Longrightarrow> no_new_run s s'"
proof (induction fuel arbitrary: s)
  case 0
  then show ?case by (auto simp: wake_all.simps[of 0] bind_Some_conv dest!: no_new_run_detach split: if_splits)
next
  case (Suc fuel)
  from Suc.prems obtain t s1 where d: "queue_detach r s = Some (t, s1)"
    and c: "(if t = 0 then Some s1 else do { s \<leftarrow> task_wake t v s1; wake_all fuel r v s }) = Some s'"
    unfolding wake_all.simps[of "Suc fuel"] nat.case by (elim bindE case_prodE2) blast
  show ?case
  proof (cases "t = 0")
    case True
    then show ?thesis using c no_new_run_detach[OF d] by simp
  next
    case False
    with c obtain s2 where w: "task_wake t v s1 = Some s2" and rest: "wake_all fuel r v s2 = Some s'"
      by (auto simp: bind_Some_conv)
    show ?thesis
      by (rule no_new_run_trans[OF no_new_run_detach[OF d] no_new_run_trans[OF no_new_run_wake[OF w] Suc.IH[OF rest]]])
  qed
qed

lemma no_new_run_wake_queue: "wake_queue r v s = Some s' \<Longrightarrow> no_new_run s s'"
  by (auto simp: wake_queue_def bind_Some_conv dest: no_new_run_wake_all)

lemma wake_the_reaper_keeps:
  assumes "kwf s" and "wake_the_reaper s = Some s'" and "calm X s"
  shows "keeps X s s'" "no_new_run s s'"
proof -
  from assms(2) obtain r count t s1 where "rsrc_find RSRC_SEM (int (reaper_sem s)) s = Some r"
    and "sems s r = Some count"
    and d: "rsrc_dequeue r (s\<lparr>sems := (sems s)(r \<mapsto> count + 1)\<rparr>) = Some (t, s1)"
    and w: "(if t \<noteq> 0 then task_wake t ERR_NONE s1 else Some s1) = Some s'"
    by (auto simp: wake_the_reaper_def bind_Some_conv split del: if_split)
  let ?s0 = "s\<lparr>sems := (sems s)(r \<mapsto> count + 1)\<rparr>"
  have k0: "keeps X s ?s0" by (rule keeps_sched[OF assms(1)]) (simp add: same_sched_def)
  have "keeps X ?s0 s'"
    by (rule keeps_dequeue_wake[OF keeps_kwf[OF k0] d w keeps_calm_set[OF k0 assms(3)]])
  with k0 show "keeps X s s'" by (rule keeps_trans)
  have "no_new_run s ?s0" by (simp add: no_new_run_def flag_of_def)
  moreover have "no_new_run s1 s'" using w no_new_run_wake by (auto split: if_splits)
  ultimately show "no_new_run s s'" using no_new_run_dequeue[OF d] no_new_run_trans by blast
qed

lemma keeps_idle_swtch:
  assumes "keeps {idle_task s} s s1" and "idle_ok s" and "flag_of s1 (current s1) \<noteq> tRUNNING" and "swtch s1 = Some s'"
  shows "kinv s'"
  by (rule swtch_kinv[OF keeps_kwf[OF assms(1)] keeps_idle_ok[OF assms(1) _ assms(2)] _ assms(4)])
    (use assms(3) in auto)

lemma idle_calm: "idle_ok s \<Longrightarrow> calm {idle_task s} s"
  by (auto simp: idle_ok_def calm_def wait_of_def)

lemma terminate_kinv:
  assumes "kinv s" and "\<not> halted s" and "current s \<noteq> idle_task s" and "terminate s = Some s'"
  shows "kinv s'"
proof -
  from assms(4) obtain s1 s2 s3 s4 s5 where
    s1: "set_kont KDead (s\<lparr>live_tasks := live_tasks s - 1\<rparr>) = Some s1"
    and s2: "rsrc_enqueue (reaper_queue s1) (current s1) s1 = Some s2"
    and s3: "upd_task (current s2) (\<lambda>x. x\<lparr>t_flags := tDEAD\<rparr>) s2 = Some s3"
    and s4: "wake_queue (current s3) ERR_RESOURCE s3 = Some s4"
    and s5: "wake_the_reaper s4 = Some s5" and s': "swtch s5 = Some s'"
    by (auto simp: terminate_def bind_Some_conv)
  let ?s0 = "s\<lparr>live_tasks := live_tasks s - 1\<rparr>"
  have i0: "kinv ?s0" using kinv_sched[OF assms(1), of ?s0] by (simp add: same_sched_def)
  have i1: "kinv s1 \<and> halted s1 = halted ?s0" by (rule set_kont_kinv[OF i0 s1]) (use assms(3) in simp)
  have fr: "current s1 = current s" "idle_task s1 = idle_task s"
    using s1 by (auto simp: set_kont_def upd_task_def bind_Some_conv)
  have ok: "cur_ok s1" "idle_ok s1" using i1 assms(2) by (auto simp: kinv_def)
  have w: "wait_of s1 (current s1) = 0" using ok(1) by (auto simp: cur_ok_def wait_of_def)
  have k2: "keeps {idle_task s1} s1 s2"
    by (rule keeps_enqueue[OF _ s2 w]) (use i1 fr assms(3) in \<open>auto simp: kinv_kwf\<close>)
  have e2: "current s2 = current s1" "idle_task s2 = idle_task s1" using k2 by (simp_all add: keeps_def)
  have k3: "keeps {idle_task s1} s2 s3"
    by (rule keeps_upd_task[OF keeps_kwf[OF k2] s3]) (use fr assms(3) e2 in simp_all)
  note k23 = keeps_trans[OF k2 k3] and c1 = idle_calm[OF ok(2)]
  have k4: "keeps {idle_task s1} s3 s4"
    by (rule keeps_wake_queue(1)[OF s4 keeps_kwf[OF k3] keeps_calm_set[OF k23 c1]])
  note k234 = keeps_trans[OF k23 k4]
  note k5 = wake_the_reaper_keeps[OF keeps_kwf[OF k4] s5 keeps_calm_set[OF k234 c1]]
  note k = keeps_trans[OF k234 k5(1)]
  have "flag_of s3 (current s2) = tDEAD" using s3 by (auto simp: upd_task_def bind_Some_conv flag_of_def)
  moreover have "no_new_run s3 s5" by (rule no_new_run_trans[OF no_new_run_wake_queue[OF s4] k5(2)])
  moreover have "current s5 = current s2" using k k2 by (simp add: keeps_def)
  ultimately have "flag_of s5 (current s5) \<noteq> tRUNNING" by (auto simp: no_new_run_def)
  then show ?thesis by (rule keeps_idle_swtch[OF k ok(2) _ s'])
qed

end
