(* ===== verification/KReach.thy ===== *)
theory KReach
  imports KInvTask
begin

text \<open>
  Every step of the kernel keeps the invariant of \<open>KInv\<close>: the handlers that switch tasks, the
  system calls, the interrupts and exceptions and the tasks that go on inside the kernel. The
  invariant then holds in every state that is reachable from one where it holds.
\<close>

section \<open>Handlers\<close>

lemma kinv_live: "kinv s \<Longrightarrow> \<not> halted s \<Longrightarrow> cur_ok s \<and> idle_ok s"
  by (simp add: kinv_def)

lemma kinv_exist: "kinv s \<Longrightarrow> \<not> halted s \<Longrightarrow> \<forall>t \<in> both s. tasks s t \<noteq> None"
  by (auto simp: kinv_def cur_ok_def idle_ok_def)

lemma thr_wait_kinv:
  assumes "kinv s" and "\<not> halted s" and "current s \<noteq> idle_task s" and "thr_wait i s = Some (out, s')"
  shows "kinv s'"
  using assms by (auto simp: thr_wait_def bind_Some_conv split: if_splits intro: wait_on_kinv)

lemma task_upd_swap:
  "x\<lparr>t_flags := a, waiting_on := b, wait_time := c\<rparr> = x\<lparr>wait_time := c, t_flags := a, waiting_on := b\<rparr>"
  by (rule task.equality) simp_all

lemma enqueue_ordered_eq:
  assumes "rsrc_enqueue_ordered r t w s = Some s'"
  obtains s1 where "rsrc_enqueue r t s = Some s1" and "upd_task t (\<lambda>x. x\<lparr>wait_time := w\<rparr>) s1 = Some s'"
  using assms unfolding rsrc_enqueue_ordered_def rsrc_enqueue_def upd_task_def upd_rsrc_def
  by (auto simp: bind_Some_conv task_upd_swap)

text \<open>The current task leaves the processor with another flag than \<open>tRUNNING\<close>.\<close>

lemma leave_kinv:
  assumes "kinv s" and "\<not> halted s" and "current s \<noteq> idle_task s"
    and "keeps {idle_task s} s s1" and "flag_of s1 (current s) \<noteq> tRUNNING" and "swtch s1 = Some s'"
  shows "kinv s'"
  by (rule keeps_idle_swtch[OF assms(4) _ _ assms(6)])
    (use assms kinv_live[OF assms(1,2)] in \<open>auto simp: keeps_def\<close>)

lemma sleep_kinv:
  assumes "kinv s" and "\<not> halted s" and "current s \<noteq> idle_task s" and "sleep n s = Some s'"
  shows "kinv s'"
proof -
  define k where "k = (if s32 (n + 2000) < 0 then - ((- s32 (n + 2000)) div 3000) else s32 (n + 2000) div 3000)"
  from assms(4) obtain s1 s2 where s1: "set_kont KUser s = Some s1"
    and s2: "(if k \<noteq> 0 then rsrc_enqueue_ordered (timer_queue s1) (current s1)
             ((kernel_timer s1 + k) mod 4294967296) s1 else Some s1) = Some s2"
    and s': "swtch s2 = Some s'"
    unfolding sleep_def Let_def k_def[symmetric] by (elim bindE)
  have i1: "kinv s1 \<and> halted s1 = halted s" by (rule set_kont_kinv[OF assms(1) s1]) simp
  have fr: "current s1 = current s" "idle_task s1 = idle_task s"
    using s1 by (auto simp: set_kont_def upd_task_def bind_Some_conv)
  note live = kinv_live[OF conjunct1[OF i1]]
  show ?thesis
  proof (cases "k = 0")
    case True
    with s2 have "s2 = s1" by simp
    with s' swtch_kinv[OF kinv_kwf[OF conjunct1[OF i1]]] live i1 assms(2) show ?thesis
      by (auto simp: cur_ok_def wait_of_def)
  next
    case False
    with s2 obtain s3 where e: "rsrc_enqueue (timer_queue s1) (current s1) s1 = Some s3"
      and u: "upd_task (current s1) (\<lambda>x. x\<lparr>wait_time := (kernel_timer s1 + k) mod 4294967296\<rparr>) s3 = Some s2"
      by (auto elim!: enqueue_ordered_eq)
    have w: "wait_of s1 (current s1) = 0" using live i1 assms(2) by (auto simp: cur_ok_def wait_of_def)
    have k3: "keeps {idle_task s1} s1 s3"
      by (rule keeps_enqueue[OF _ e w]) (use i1 fr assms(3) in \<open>auto simp: kinv_kwf\<close>)
    have "keeps {idle_task s1} s3 s2" by (rule keeps_upd_task[OF keeps_kwf[OF k3] u]) simp_all
    note k = keeps_trans[OF k3 this]
    have "flag_of s2 (current s1) = tWAITING"
      using e u by (auto simp: rsrc_enqueue_def upd_task_def upd_rsrc_def bind_Some_conv flag_of_def)
    then show ?thesis
      by (intro leave_kinv[OF conjunct1[OF i1] _ _ k _ s']) (use i1 fr assms in auto)
  qed
qed

lemma unmask_sched: "same_sched s (unmask_irq n s)" "same_sched s (mask_irq n s)"
  by (auto simp: unmask_irq_def mask_irq_def same_sched_def)

lemma sleep_irq_kinv:
  assumes "kinv s" and "\<not> halted s" and "current s \<noteq> idle_task s" and "sleep_irq s = Some s'"
  shows "kinv s'"
proof -
  from assms(4) obtain s1 c s2 where s1: "set_kont KUser s = Some s1" and "tasks s1 (current s1) = Some c"
    and s2: "(if t_irq c \<noteq> 0 then do {
            s \<leftarrow> upd_task (current s1) (\<lambda>x. x\<lparr>t_flags := tSLEEP_IRQ\<rparr>) s1;
            Some (unmask_irq (t_irq c) s) }
          else Some s1) = Some s2" and s': "swtch s2 = Some s'"
    unfolding sleep_irq_def by (auto simp: bind_Some_conv split del: if_split)
  have i1: "kinv s1 \<and> halted s1 = halted s" by (rule set_kont_kinv[OF assms(1) s1]) simp
  have fr: "current s1 = current s" "idle_task s1 = idle_task s"
    using s1 by (auto simp: set_kont_def upd_task_def bind_Some_conv)
  note wf = kinv_kwf[OF conjunct1[OF i1]] and live = kinv_live[OF conjunct1[OF i1]]
  show ?thesis
  proof (cases "t_irq c = 0")
    case True
    with s2 have "s2 = s1" by simp
    with s' swtch_kinv[OF wf] live i1 assms(2) show ?thesis by (auto simp: cur_ok_def wait_of_def)
  next
    case False
    with s2 obtain s3 where u: "upd_task (current s1) (\<lambda>x. x\<lparr>t_flags := tSLEEP_IRQ\<rparr>) s1 = Some s3"
      and s2: "s2 = unmask_irq (t_irq c) s3" by (auto simp: bind_Some_conv)
    from u obtain x where x: "tasks s1 (current s1) = Some x"
      and s3: "s3 = s1\<lparr>tasks := (tasks s1)(current s1 \<mapsto> x\<lparr>t_flags := tSLEEP_IRQ\<rparr>)\<rparr>"
      by (auto simp: upd_task_def bind_Some_conv)
    have "waiting_on x = 0" using live i1 assms(2) x by (auto simp: cur_ok_def)
    then have "kwf s3" unfolding s3 by (intro kwf_upd_task[OF wf x]) simp_all
    then have "keeps {idle_task s1} s1 s3" using fr assms(3) by (auto simp: keeps_def s3)
    moreover from this have "keeps {idle_task s1} s3 s2"
      unfolding s2 by (intro keeps_sched[OF keeps_kwf unmask_sched(1)])
    ultimately have k: "keeps {idle_task s1} s1 s2" by (rule keeps_trans)
    have "flag_of s2 (current s1) = tSLEEP_IRQ"
      by (simp add: s2 s3 unmask_irq_def flag_of_def)
    then show ?thesis
      by (intro leave_kinv[OF conjunct1[OF i1] _ _ k _ s']) (use i1 fr assms in auto)
  qed
qed

lemma handle_irq_kinv:
  assumes "kinv s" and "handle_irq n s = Some s'" and "current s \<noteq> idle_task s"
  shows "kinv s'"
proof (cases "0 < n \<and> n < 16")
  case True
  with assms(2) obtain s1 im where u: "upd_task (current s) (\<lambda>x. x\<lparr>t_irq := n\<rparr>) s = Some s1"
    and s': "s' = s1\<lparr>irq_task_map := im\<rparr>" by (auto simp: handle_irq_def bind_Some_conv)
  have "kinv s1" by (rule set_cur_kinv(1)[OF assms(1) u]) (use assms(3) in auto)
  then show ?thesis using kinv_sched[of s1 s'] by (simp add: s' same_sched_def)
next
  case False
  then show ?thesis using assms by (auto simp: handle_irq_def)
qed


section \<open>The reaper\<close>

lemma reaper_acquire_kinv:
  assumes "kinv s" and "\<not> halted s" and "current s \<noteq> idle_task s" and "reaper_acquire s = Some s'"
  shows "kinv s'"
proof -
  from assms(4) obtain r where "rsrc_find RSRC_SEM (int (reaper_sem s)) s = Some r"
    and c: "(if r = 0 then set_kont KReap s
      else do {
        count \<leftarrow> sems s r;
        let s = s\<lparr>sems := (sems s)(r \<mapsto> count - 1)\<rparr>;
        (if count > 0 then set_kont KReap s else wait_on r KReap s) }) = Some s'"
    unfolding reaper_acquire_def by (elim bindE)
  have i: "kinv (s\<lparr>sems := f\<rparr>)" for f using kinv_sched[OF assms(1), of "s\<lparr>sems := f\<rparr>"] by (simp add: same_sched_def)
  show ?thesis
    using c assms(1-3) set_kont_kinv[OF i] set_kont_kinv[OF assms(1)] wait_on_kinv[OF i]
    by (auto simp: bind_Some_conv Let_def split: if_splits)
qed

lemma reaper_turn_kinv:
  assumes "kinv s" and "\<not> halted s" and "current s \<noteq> idle_task s" and "reaper_turn s = Some s'"
  shows "kinv s'"
proof -
  from assms(4) obtain t s1 s2 where d: "rsrc_dequeue (reaper_queue s) s = Some (t, s1)"
    and td: "task_destroy t s1 = Some s2" and s': "set_kont KReaper s2 = Some s'"
    by (auto simp: reaper_turn_def bind_Some_conv)
  note wf = kinv_kwf[OF assms(1)] and c = kinv_calm[OF assms(1,2)]
  note k1 = keeps_dequeue[OF wf d]
  have "rsrcs s1 0 = None" using kwfD(3)[OF keeps_kwf[OF k1(1)]] by (simp add: refs_ok_def)
  then have t: "t \<noteq> 0" using td by (intro notI) (auto simp: task_destroy_def bind_Some_conv)
  note tt = k1(2)[OF this]
  have "t \<notin> both s" using tt calmD[OF c] by auto
  then have k2: "keeps (both s) s1 s2"
    using keeps_task_destroy[OF keeps_kwf[OF k1(1)] td keeps_calm_set[OF k1(1) c]] tt by auto
  have k: "keeps (both s) s s2" by (rule keeps_trans[OF k1(1) k2])
  have "kinv s2" by (rule keeps_kinv[OF assms(1) k])
  then show ?thesis using set_kont_kinv[OF _ s'] k assms(3) by (auto simp: keeps_def)
qed

section \<open>Interrupts\<close>

lemma irq_dispatch_kinv:
  assumes "kinv s" and "\<not> halted s" and "irq_dispatch n s = Some s'"
  shows "kinv s'"
proof -
  let ?s = "mask_irq n s"
  have i: "kinv ?s \<and> halted ?s = halted s \<and> current ?s = current s \<and> idle_task ?s = idle_task s"
    by (rule kinv_sched[OF assms(1) unmask_sched(2)])
  from assms(3) obtain t where "list_get (irq_task_map ?s) n = Some t"
    and c: "(if t \<noteq> 0 then do {
        x \<leftarrow> tasks ?s t;
        (if t_flags x = tSLEEP_IRQ then preempt t ERR_NONE ?s else Some ?s) }
      else Some ?s) = Some s'"
    unfolding irq_dispatch_def Let_def by (elim bindE)
  show ?thesis
  proof (cases "t \<noteq> 0 \<and> flag_of ?s t = tSLEEP_IRQ")
    case True
    with c have p: "preempt t ERR_NONE ?s = Some s'"
      by (auto simp: bind_Some_conv flag_of_def split: if_splits)
    show ?thesis
    proof (rule preempt_kinv[OF _ _ p])
      show "kinv ?s" "\<not> halted ?s" using i assms(2) by auto
      show "wait_of ?s t = 0"
        using queue_ok_sleep[OF kwfD(2)[OF kinv_kwf]] i True by blast
      show "t \<noteq> current ?s" using kinv_live[of ?s] i assms(2) True by (auto simp: cur_ok_def flag_of_def)
    qed
  next
    case False
    with c i show ?thesis by (auto simp: bind_Some_conv flag_of_def split: if_splits)
  qed
qed

lemma keeps_timer_wake:
  "timer_wake fuel s = Some s' \<Longrightarrow> kwf s \<Longrightarrow> calm X s \<Longrightarrow> keeps X s s'"
proof (induction fuel arbitrary: s)
  case 0
  then show ?case by (auto simp: timer_wake.simps[of 0] bind_Some_conv keeps_refl split: if_splits)
next
  case (Suc fuel)
  from Suc.prems(1) obtain t where "rsrc_queue_peek (timer_queue s) s = Some t"
    and c: "(if t = 0 then Some s
      else do {
        x \<leftarrow> tasks s t;
        (if wait_time x \<le> kernel_timer s mod 4294967296 then do {
              (t, s) \<leftarrow> rsrc_dequeue (timer_queue s) s;
              s \<leftarrow> rsrc_enqueue (run_queue s) t s;
              timer_wake fuel s }
         else Some s) }) = Some s'"
    unfolding timer_wake.simps[of "Suc fuel"] nat.case by (elim bindE)
  show ?case
  proof (cases "s' = s")
    case True
    then show ?thesis using keeps_refl[OF Suc.prems(2)] by simp
  next
    case False
    with c obtain u s1 s2 where d: "rsrc_dequeue (timer_queue s) s = Some (u, s1)"
      and e: "rsrc_enqueue (run_queue s1) u s1 = Some s2" and rest: "timer_wake fuel s2 = Some s'"
      by (auto simp: bind_Some_conv split: if_splits)
    note k1 = keeps_dequeue[OF Suc.prems(2) d]
    have "tasks s1 0 = None" using kwfD(3)[OF keeps_kwf[OF k1(1)]] by (simp add: refs_ok_def)
    then have u: "u \<noteq> 0" using e by (intro notI) (auto simp: rsrc_enqueue_def upd_task_def bind_Some_conv)
    have "u \<notin> X" using k1(2)[OF u] calmD[OF Suc.prems(3)] by auto
    then have "keeps X s1 s2"
      by (intro keeps_enqueue[OF keeps_kwf[OF k1(1)] e]) (use k1(2)[OF u] in auto)
    note k = keeps_trans[OF k1(1) this]
    show ?thesis
      by (rule keeps_trans[OF k Suc.IH[OF rest keeps_kwf[OF k] keeps_calm_set[OF k Suc.prems(3)]]])
  qed
qed

lemma timer_irq_kinv:
  assumes "kinv s" and "\<not> halted s" and "timer_irq s = Some s'"
  shows "kinv s'"
proof -
  let ?s = "s\<lparr>kernel_timer := s32 (kernel_timer s + 1)\<rparr>"
  have i: "kinv ?s" using kinv_sched[OF assms(1), of ?s] by (simp add: same_sched_def)
  from assms(3) obtain x s1 where "rsrcs ?s (timer_queue ?s) = Some x"
    and w: "timer_wake (length (r_queue x)) ?s = Some s1" and s': "swtch s1 = Some s'"
    unfolding timer_irq_def Let_def by (elim bindE)
  have h: "\<not> halted ?s" using assms(2) by simp
  have k: "keeps (both ?s) ?s s1" by (rule keeps_timer_wake[OF w kinv_kwf[OF i] kinv_calm[OF i h]])
  note i1 = keeps_kinv[OF i k]
  have "\<not> halted s1" using k h by (simp add: keeps_def)
  from kinv_live[OF i1 this] show ?thesis
    by (intro swtch_kinv[OF keeps_kwf[OF k] _ _ s']) (auto simp: cur_ok_def wait_of_def)
qed


section \<open>System calls\<close>

lemma finish_area_kinv:
  assumes "finish_area a m = Some s'" and "\<And>v out s. m = Some (v, out, s) \<Longrightarrow> kinv s"
  shows "kinv s'"
proof -
  from assms(1) obtain v out s1 c where m: "m = Some (v, out, s1)" and "tasks s1 (current s1) = Some c"
    and r: "set_res v (case out of None \<Rightarrow> s1
       | Some w \<Rightarrow> put_bytes (t_team c) a (word_bytes (int w)) s1) = Some s'"
    unfolding finish_area_def by (elim bindE case_prodE2) blast
  have "kinv (case out of None \<Rightarrow> s1 | Some w \<Rightarrow> put_bytes (t_team c) a (word_bytes (int w)) s1)"
    using assms(2)[OF m] kinv_sched[OF _ put_bytes_sched(1)] by (auto split: option.split)
  then show ?thesis by (rule set_res_kinv[OF _ r])
qed

lemmas finish_kinvs = finish_kinv finish_now_kinv finish_area_kinv

lemma syscall_area_kinv:
  assumes "kinv s" and "\<not> halted s" and "syscall_area n p s = Some s'"
  shows "kinv s'"
proof -
  note K = keeps_kinv[OF assms(1)] and wf = kinv_kwf[OF assms(1)] and c = kinv_calm[OF assms(1,2)]
  have R: "\<And>a z v h fl r out t. area_create a z v h fl s = Some (r, out, t) \<Longrightarrow> kinv t"
    "\<And>a i v r out t. area_clone a i v s = Some (r, out, t) \<Longrightarrow> kinv t"
    "\<And>a i r t. area_destroy a i s = Some (r, t) \<Longrightarrow> kinv t"
    "\<And>a i z r t. area_resize a i z s = Some (r, t) \<Longrightarrow> kinv t"
    by (erule K[OF keeps_area_create[OF wf]] K[OF keeps_area_clone[OF wf]] K[OF keeps_area_destroy[OF wf _ c]]
      K[OF keeps_area_resize[OF wf]])+
  show ?thesis
    using assms(3) unfolding syscall_area_def
    by (elim bindE if_SomeE) (erule finish_area_kinv finish_now_kinv, erule R)+
qed

lemma syscall_thr_kinv:
  assumes "kinv s" and "\<not> halted s" and "current s \<noteq> idle_task s" and "syscall_thr bootstrap n p s = Some s'"
  shows "kinv s'"
proof -
  note K = keeps_kinv[OF assms(1)] and wf = kinv_kwf[OF assms(1)] and e = kinv_exist[OF assms(1,2)]
  have R: "\<And>ip a nm r t. thr_create bootstrap ip a nm s = Some (r, t) \<Longrightarrow> kinv t"
    "\<And>ip sp a0 v0 a1 v1 nm r t. thr_spawn bootstrap ip sp a0 v0 a1 v1 nm s = Some (r, t) \<Longrightarrow> kinv t"
    "\<And>i out t. thr_wait i s = Some (out, t) \<Longrightarrow> kinv t"
    by (erule K[OF keeps_thr_create[OF wf _ e]] K[OF keeps_thr_spawn[OF wf _ e]] thr_wait_kinv[OF assms(1-3)])+
  have stay: "Some s = Some s' \<Longrightarrow> kinv s'" using assms(1) by simp
  show ?thesis
    using assms(4) unfolding syscall_thr_def
    by (elim bindE if_SomeE)
      ((erule finish_kinvs, erule R) | erule set_res_kinv[OF assms(1)] stay)+
qed

lemma syscall_kinv:
  assumes "kinv s" and "\<not> halted s" and "current s \<noteq> idle_task s" and "syscall bootstrap n p s = Some s'"
  shows "kinv s'"
proof -
  note K = keeps_kinv[OF assms(1)] and wf = kinv_kwf[OF assms(1)] and c = kinv_calm[OF assms(1,2)]
  have keep: "\<And>a r t. brk a s = Some (r, t) \<Longrightarrow> kinv t"
    "\<And>k nm r t. sem_create k nm s = Some (r, t) \<Longrightarrow> kinv t"
    "\<And>i r t. sem_destroy i s = Some (r, t) \<Longrightarrow> kinv t"
    "\<And>k nm r t. port_create k nm s = Some (r, t) \<Longrightarrow> kinv t"
    "\<And>i r t. port_destroy i s = Some (r, t) \<Longrightarrow> kinv t"
    "\<And>i k a r t. port_option i k a s = Some (r, t) \<Longrightarrow> kinv t"
    by (erule K[OF keeps_brk[OF wf]] K[OF keeps_sem_create[OF wf]] K[OF keeps_sem_destroy[OF wf _ c]]
      K[OF keeps_port_create[OF wf]] K[OF keeps_port_destroy[OF wf _ c]] K[OF keeps_port_option[OF wf]])+
  note switch = sem_acquire_kinv[OF assms(1-3)] sem_release_kinv[OF assms(1-3)]
    port_send_kinv[OF assms(1-3)] port_recv_kinv[OF assms(1-3)]
  note direct = terminate_kinv[OF assms(1-3)] sleep_kinv[OF assms(1-3)] sleep_irq_kinv[OF assms(1-3)]
    handle_irq_kinv[OF assms(1) _ assms(3)] syscall_area_kinv[OF assms(1,2)]
    syscall_thr_kinv[OF assms(1-3)] set_res_kinv[OF assms(1)]
  have stay: "Some s = Some s' \<Longrightarrow> kinv s'" and none: "None = Some s' \<Longrightarrow> kinv s'" using assms(1) by simp_all
  show ?thesis
    using assms(4) unfolding syscall_def
    by (elim if_SomeE bindE)
      ((erule finish_kinvs, (erule keep | erule switch)) | erule direct stay none)+
qed

section \<open>Reachable states\<close>

lemma resume_kinv:
  assumes "kinv s" and "\<not> halted s" and "current s \<noteq> idle_task s" and "resume k s = Some s'"
  shows "kinv s'"
proof -
  note i = assms(1-3)
  have wake: "\<And>out t. sem_acquire_wakeup s = Some (out, t) \<Longrightarrow> kinv t"
    "\<And>a b m z w q out t. port_send_wakeup a b m z w q s = Some (out, t) \<Longrightarrow> kinv t"
    "\<And>a m z w q out t. port_recv_wakeup a m z w q s = Some (out, t) \<Longrightarrow> kinv t"
    using assms(1) port_send_try_kinv[OF i] port_recv_try_kinv[OF i]
    by (auto simp: sem_acquire_wakeup_def port_send_wakeup_def port_recv_wakeup_def bind_Some_conv split: if_splits)
  show ?thesis
    using assms(1,4) wake reaper_acquire_kinv[OF i] reaper_turn_kinv[OF i] set_res_kinv[OF assms(1)]
    unfolding resume_def by (cases k) (auto elim!: finish_kinvs)
qed

lemma kexec_kinv:
  assumes "kinv s" and "kexec bootstrap e s = Some s'"
  shows "kinv s'"
proof -
  have h: "\<not> halted s" using assms(2) by (auto simp: kexec_def split: if_splits)
  note live = kinv_live[OF assms(1) h]
  have user: "in_user s" if "e \<noteq> Resume" using assms(2) that by (cases e) (auto simp: kexec_def split: if_splits)
  show ?thesis
  proof (cases e)
    case (Call n p)
    with assms(2) h user have "current s \<noteq> idle_task s" "syscall bootstrap n p s = Some s'"
      by (auto simp: kexec_def split: if_splits)
    then show ?thesis by (rule syscall_kinv[OF assms(1) h])
  next
    case Timer
    with assms(2) h user have "timer_irq s = Some s'" by (auto simp: kexec_def)
    then show ?thesis by (rule timer_irq_kinv[OF assms(1) h])
  next
    case (Irq n)
    with assms(2) h user have "irq_dispatch n s = Some s'" by (auto simp: kexec_def)
    then show ?thesis by (rule irq_dispatch_kinv[OF assms(1) h])
  next
    case (Fault n)
    with assms(2) h user have "current s \<noteq> idle_task s" "fault n s = Some s'"
      by (auto simp: kexec_def split: if_splits)
    then show ?thesis using terminate_kinv[OF assms(1) h] assms(1) by (auto simp: fault_def split: if_splits)
  next
    case (Store a b)
    with assms(2) h user show ?thesis
      using kinv_sched[OF assms(1) put_bytes_sched(1)] by (auto simp: kexec_def bind_Some_conv)
  next
    case Resume
    with assms(2) h obtain c where c: "tasks s (current s) = Some c" "t_kont c \<noteq> KUser"
      and r: "resume (t_kont c) s = Some s'"
      by (auto simp: kexec_def bind_Some_conv split: if_splits)
    have "current s \<noteq> idle_task s" using live c by (auto simp: idle_ok_def)
    then show ?thesis by (rule resume_kinv[OF assms(1) h _ r])
  qed
qed

lemma reachable_kinv_lemma: "reachable bootstrap s0 s \<Longrightarrow> kinv s0 \<Longrightarrow> kinv s"
  by (induction rule: reachable.induct) (auto elim: kstepE intro: kexec_kinv)

end
