(* ===== verification/KProps.thy ===== *)
theory KProps
  imports KReach
begin

text \<open>
  The properties of the scheduler and of the resource table that follow from the invariant of
  \<open>KInv\<close>, in the states that the kernel reaches.
\<close>

section \<open>A small kernel\<close>

text \<open>
  A state with the null resource (1), a kernel team (2), the run queue (3), the timer queue
  (4), the reaper queue (5), the idle task (6), a task (7) that runs and its address space (8).
\<close>

definition demo_rsrc :: "nat \<Rightarrow> rsrc_type \<Rightarrow> rsrc" where
  "demo_rsrc i ty = \<lparr>r_id = i, r_type = ty, r_owner = 0, r_queue = [], r_name = []\<rparr>"

definition demo_task :: "addr \<Rightarrow> tflag \<Rightarrow> task" where
  "demo_task w fl = \<lparr>waiting_on = w, t_status = 0, wait_time = 0, t_flags = fl, t_irq = 0, scount = 0,
     t_team = 2, stack_area = 0, kstack = 0, ustack = 0, t_cr3 = 0, t_esp = 0, t_esp0 = 0,
     t_stack = [], t_eax = 0, t_kont = KUser\<rparr>"

definition demo :: kstate where
  "demo = \<lparr>rmap_resource = [1, 2, 3, 4, 5, 6, 7, 8, 9, 1, 1], rmap_next = [1, 2, 3, 4, 5, 6, 7, 8, 9, 10, 0], rfree = 9,
     resource_list = [2, 3, 4, 5, 6, 7, 8, 9],
     rsrcs = [1 \<mapsto> demo_rsrc 0 RSRC_NONE, 2 \<mapsto> demo_rsrc 1 RSRC_TEAM, 3 \<mapsto> (demo_rsrc 2 RSRC_QUEUE)\<lparr>r_queue := [9]\<rparr>,
       4 \<mapsto> demo_rsrc 3 RSRC_QUEUE, 5 \<mapsto> demo_rsrc 4 RSRC_QUEUE, 6 \<mapsto> demo_rsrc 5 RSRC_TASK,
       7 \<mapsto> demo_rsrc 6 RSRC_TASK, 8 \<mapsto> demo_rsrc 7 RSRC_ASPACE,
       9 \<mapsto> demo_rsrc 8 RSRC_TASK],
     tasks = [6 \<mapsto> demo_task 0 tREADY, 7 \<mapsto> demo_task 0 tRUNNING, 9 \<mapsto> demo_task 3 tWAITING], sems = Map.empty, ports = Map.empty,
     teams = [2 \<mapsto> \<lparr>tm_resources = [], tm_refcount = 3, tm_aspace = 8, heap_id = 0, text_area = 0\<rparr>],
     aspaces = Map.empty, areas = Map.empty, pgroups = Map.empty, bufs = Map.empty, msg_pool = [],
     next_ref = 10, current = 7, idle_task = 6, run_queue = 3, timer_queue = 4, reaper_queue = 5,
     kernel_team = 2, reaper_sem = 0, live_tasks = 2, kernel_timer = 0, irq_task_map = replicate 16 0,
     pic0 = 0, pic1 = 0, umem = (\<lambda>_ _. 0), km = kmem0 [], base_cr3 = 0, halted = False\<rparr>"

lemma demo_views:
  "type_of demo = (\<lambda>_. RSRC_NONE)(2 := RSRC_TEAM, 3 := RSRC_QUEUE, 4 := RSRC_QUEUE, 5 := RSRC_QUEUE,
     6 := RSRC_TASK, 7 := RSRC_TASK, 8 := RSRC_ASPACE, 9 := RSRC_TASK)"
  "id_of demo = (\<lambda>_. 0)(2 := 1, 3 := 2, 4 := 3, 5 := 4, 6 := 5, 7 := 6, 8 := 7, 9 := 8)"
  "queue_of demo = (\<lambda>_. [])(3 := [9])" "wait_of demo = (\<lambda>_. 0)(9 := 3)"
  by (auto simp: type_of_def id_of_def queue_of_def wait_of_def demo_def demo_rsrc_def demo_task_def fun_eq_iff)

lemma demo_flag: "flag_of demo t \<noteq> tSLEEP_IRQ"
  by (simp add: flag_of_def demo_def demo_task_def)

lemma demo_rmap:
  "rmap_resource demo = [1, 2, 3, 4, 5, 6, 7, 8, 9, 1, 1]" "rmap_next demo = [1, 2, 3, 4, 5, 6, 7, 8, 9, 10, 0]"
  "rfree demo = 9"
  by (simp_all add: demo_def)

lemma all_less_11: "(\<forall>i < (11::nat). P i) \<longleftrightarrow> list_all P [0, 1, 2, 3, 4, 5, 6, 7, 8, 9, 10]"
proof -
  have "[0::nat, 1, 2, 3, 4, 5, 6, 7, 8, 9, 10] = [0..<11]" by (simp add: upt_rec)
  then show ?thesis by (simp only: list_all_iff set_upt) auto
qed

lemma demo_table: "table_ok demo"
proof -
  have "chain (rmap_next demo) (rfree demo) [9, 10]" by (simp add: demo_rmap)
  moreover have "\<forall>i \<in> set [9, 10]. rmap_resource demo ! i = null_resource" by (simp add: demo_rmap)
  moreover have "\<forall>i < length (rmap_resource demo). rmap_resource demo ! i \<noteq> null_resource \<longrightarrow> i \<noteq> 0 \<and>
        type_of demo (rmap_resource demo ! i) \<noteq> RSRC_NONE \<and> id_of demo (rmap_resource demo ! i) = i"
  proof -
    have "length (rmap_resource demo) = 11" by (simp add: demo_rmap)
    then show ?thesis by (simp only: all_less_11) (simp add: demo_views demo_rmap)
  qed
  moreover have "length (rmap_resource demo) = length (rmap_next demo) \<and> length (rmap_resource demo) \<le> 4294967296"
    by (simp add: demo_rmap)
  moreover have "\<forall>r. if type_of demo r = RSRC_NONE then id_of demo r = 0
        else id_of demo r < length (rmap_resource demo) \<and> rmap_resource demo ! id_of demo r = r"
    by (simp add: demo_views demo_rmap)
  moreover have "type_of demo null_resource = RSRC_NONE" by (simp add: demo_views)
  ultimately show ?thesis unfolding table_ok_def by blast
qed

lemma demo_kinv: "kinv demo"
proof -
  have "queue_ok demo" using demo_flag by (simp add: queue_ok_def demo_views) auto
  moreover have "refs_ok demo" by (auto simp: refs_ok_def demo_def)
  moreover have "runq_ok demo"
    unfolding runq_ok_def by (simp add: demo_views) (auto simp: demo_def)
  moreover have "cur_ok demo" "idle_ok demo" by (simp_all add: cur_ok_def idle_ok_def demo_def demo_task_def)
  ultimately show ?thesis using demo_table by (simp add: kinv_def kwf_def)
qed


lemma demo_step: "reachable 0 demo (demo\<lparr>umem := \<lambda>tm a. if tm = 2 \<and> a = 5 then 9 else 0\<rparr>)"
proof -
  have "kexec 0 (Store 5 9) demo = Some (put_bytes 2 5 [9] demo)"
    by (simp add: kexec_def in_user_def demo_def demo_task_def)
  moreover have "put_bytes 2 5 [9] demo = demo\<lparr>umem := \<lambda>tm a. if tm = 2 \<and> a = 5 then 9 else 0\<rparr>"
    by (auto simp: put_bytes_def demo_def fun_eq_iff)
  ultimately show ?thesis using reach_step[OF reach_init kstepI] by metis
qed

section \<open>The invariant\<close>



lemma queue_okD: "queue_ok s \<Longrightarrow> t \<in> set (queue_of s r) \<Longrightarrow> wait_of s t = r \<and> r \<noteq> 0"
  by (simp add: queue_ok_def)

lemma queue_ok_distinct: "queue_ok s \<Longrightarrow> distinct (queue_of s r)"
  by (simp add: queue_ok_def)

lemma queue_of_Some: "rsrcs s r = Some x \<Longrightarrow> queue_of s r = r_queue x"
  by (simp add: queue_of_def)



section \<open>Switching\<close>

lemma run_queue_rsrc:
  assumes "kinv s"
  obtains x where "rsrcs s (run_queue s) = Some x" and "queue_of s (run_queue s) = r_queue x"
  using kwfD(4)[OF kinv_kwf[OF assms]]
  by (cases "rsrcs s (run_queue s)") (auto simp: runq_ok_def type_of_def queue_of_def)

lemma enqueue_run:
  assumes "rsrcs s r = Some x" and "tasks s t = Some k"
  shows "rsrc_enqueue r t s = Some (s\<lparr>tasks := (tasks s)(t \<mapsto> k\<lparr>wait_time := 0, t_flags := tWAITING, waiting_on := r\<rparr>),
    rsrcs := (rsrcs s)(r \<mapsto> x\<lparr>r_queue := r_queue x @ [t]\<rparr>)\<rparr>)"
  using assms by (simp add: rsrc_enqueue_def upd_task_def upd_rsrc_def)

lemma dequeue_head:
  assumes "rsrcs s r = Some x" and "r_queue x = t # ts" and "tasks s t = Some k" and "t \<noteq> 0"
  shows "rsrc_dequeue r s = Some (t, s\<lparr>rsrcs := (rsrcs s)(r \<mapsto> x\<lparr>r_queue := ts\<rparr>),
    tasks := (tasks s)(t \<mapsto> k\<lparr>waiting_on := 0, t_flags := tREADY\<rparr>)\<rparr>)"
  using assms by (simp add: rsrc_dequeue_def queue_detach_def upd_task_def)




section \<open>Resource ids\<close>

lemma table_okD:
  assumes "table_ok s"
  shows "\<And>i. i < length (rmap_resource s) \<Longrightarrow> rmap_resource s ! i \<noteq> null_resource \<Longrightarrow>
      type_of s (rmap_resource s ! i) \<noteq> RSRC_NONE \<and> id_of s (rmap_resource s ! i) = i"
    and "\<And>r. type_of s r \<noteq> RSRC_NONE \<Longrightarrow> id_of s r < length (rmap_resource s) \<and> rmap_resource s ! id_of s r = r"
    and "type_of s null_resource = RSRC_NONE"
proof -
  from assms have
    a: "\<forall>i < length (rmap_resource s). rmap_resource s ! i \<noteq> null_resource \<longrightarrow> i \<noteq> 0 \<and>
        type_of s (rmap_resource s ! i) \<noteq> RSRC_NONE \<and> id_of s (rmap_resource s ! i) = i"
    and b: "\<forall>r. if type_of s r = RSRC_NONE then id_of s r = 0
        else id_of s r < length (rmap_resource s) \<and> rmap_resource s ! id_of s r = r"
    and c: "type_of s null_resource = RSRC_NONE"
    unfolding table_ok_def by - (elim conjE, assumption)+
  show "type_of s (rmap_resource s ! i) \<noteq> RSRC_NONE \<and> id_of s (rmap_resource s ! i) = i"
    if "i < length (rmap_resource s)" "rmap_resource s ! i \<noteq> null_resource" for i using a that by blast
  show "id_of s r < length (rmap_resource s) \<and> rmap_resource s ! id_of s r = r"
    if "type_of s r \<noteq> RSRC_NONE" for r using spec[OF b, of r] that by simp
  show "type_of s null_resource = RSRC_NONE" by (rule c)
qed

lemma live_rsrc: "rsrcs s q = Some x \<Longrightarrow> type_of s q = r_type x \<and> id_of s q = r_id x"
  by (simp add: type_of_def id_of_def)

lemma type_rsrc: "type_of s q \<noteq> RSRC_NONE \<Longrightarrow> \<exists>x. rsrcs s q = Some x"
  by (cases "rsrcs s q") (auto simp: type_of_def)



end
