(* ===== verification/KIpcProps.thy ===== *)
theory KIpcProps
  imports KProps
begin

text \<open>
  What semaphores and ports promise: the counter of a semaphore counts the waiters, a release
  hands the processor to the task that waited longest, and a port is a queue of messages that
  arrive with the sender, the code and the bytes they were sent with.
\<close>

section \<open>Queues that an operation leaves alone\<close>

lemma upd_task_queue: "upd_task t f s = Some s' \<Longrightarrow> queue_of s' = queue_of s \<and> run_queue s' = run_queue s \<and> sems s' = sems s"
  by (auto simp: upd_task_def bind_Some_conv)

lemma enqueue_queue:
  "rsrc_enqueue r t s = Some s' \<Longrightarrow> queue_of s' = (queue_of s)(r := queue_of s r @ [t]) \<and>
     run_queue s' = run_queue s \<and> sems s' = sems s"
  by (auto simp: rsrc_enqueue_def upd_task_def upd_rsrc_def bind_Some_conv queue_of_def fun_eq_iff)

lemma dequeue_queue:
  assumes "rsrc_dequeue r s = Some (t, s')"
  shows "queue_of s' = (queue_of s)(r := tl (queue_of s r)) \<and> run_queue s' = run_queue s \<and> sems s' = sems s"
proof -
  from assms obtain x where x: "rsrcs s r = Some x" by (auto simp: rsrc_dequeue_def queue_detach_def bind_Some_conv)
  show ?thesis
  proof (cases "r_queue x")
    case Nil
    with assms x show ?thesis
      by (auto simp: rsrc_dequeue_def queue_detach_def queue_of_def fun_eq_iff)
  next
    case (Cons u us)
    with assms x show ?thesis
      by (auto simp: rsrc_dequeue_def queue_detach_def upd_task_def bind_Some_conv queue_of_def fun_eq_iff split: if_splits)
  qed
qed

lemma queue_of_current [simp]: "queue_of (s\<lparr>current := c\<rparr>) = queue_of s" "queue_of (s\<lparr>current := c, halted := h\<rparr>) = queue_of s"
  "queue_of (s\<lparr>sems := f\<rparr>) = queue_of s"
  by (simp_all add: queue_of_def fun_eq_iff)

lemma swtch_queue:
  assumes "swtch s = Some s'" and "q \<noteq> run_queue s"
  shows "queue_of s' q = queue_of s q \<and> sems s' = sems s"
proof -
  from assms(1) obtain c rq where "tasks s (current s) = Some c" and "rsrcs s (run_queue s) = Some rq"
    and body: "(if r_queue rq = [] \<and> t_flags c = tRUNNING then Some s
      else do {
        s \<leftarrow> (if t_flags c = tRUNNING \<and> current s \<noteq> idle_task s
              then rsrc_enqueue (run_queue s) (current s) s else Some s);
        (t, s) \<leftarrow> rsrc_dequeue (run_queue s) s;
        (if t = 0 \<and> live_tasks s = 0 then Some (s\<lparr>current := 0, halted := True\<rparr>)
         else do {
           s \<leftarrow> Some (s\<lparr>current := (if t = 0 then idle_task s else t)\<rparr>);
           c \<leftarrow> tasks s (current s);
           (if t_flags c = tDEAD then None
            else upd_task (current s) (\<lambda>x. x\<lparr>t_flags := tRUNNING, scount := scount x + 1\<rparr>) s) }) }) = Some s'"
    unfolding swtch_def by (elim bindE)
  show ?thesis
  proof (cases "s' = s")
    case False
    with body obtain s1 t s2 where s1: "(if t_flags c = tRUNNING \<and> current s \<noteq> idle_task s
              then rsrc_enqueue (run_queue s) (current s) s else Some s) = Some s1"
      and d: "rsrc_dequeue (run_queue s1) s1 = Some (t, s2)"
      and fin: "(if t = 0 \<and> live_tasks s2 = 0 then Some (s2\<lparr>current := 0, halted := True\<rparr>)
         else do {
           s \<leftarrow> Some (s2\<lparr>current := (if t = 0 then idle_task s2 else t)\<rparr>);
           c \<leftarrow> tasks s (current s);
           (if t_flags c = tDEAD then None
            else upd_task (current s) (\<lambda>x. x\<lparr>t_flags := tRUNNING, scount := scount x + 1\<rparr>) s) }) = Some s'"
      by (elim if_SomeE[where c = "r_queue rq = [] \<and> t_flags c = tRUNNING"] bindE case_prodE2) simp_all
    have 1: "queue_of s1 q = queue_of s q \<and> run_queue s1 = run_queue s \<and> sems s1 = sems s"
      using s1 enqueue_queue assms(2) by (auto split: if_splits)
    have 2: "queue_of s2 q = queue_of s1 q \<and> sems s2 = sems s1" using dequeue_queue[OF d] 1 assms(2) by simp
    have "queue_of s' q = queue_of s2 q \<and> sems s' = sems s2"
      using fin by (auto simp: bind_Some_conv split: if_split_asm dest!: upd_task_queue)
    with 1 2 show ?thesis by simp
  qed simp
qed

lemma wait_on_queue:
  assumes "wait_on r k s = Some s'" and "r \<noteq> run_queue s"
  shows "queue_of s' r = queue_of s r @ [current s]" "q \<noteq> run_queue s \<Longrightarrow> q \<noteq> r \<Longrightarrow> queue_of s' q = queue_of s q"
    "sems s' = sems s"
proof -
  from assms(1) obtain s1 s2 s3 where s1: "set_kont k s = Some s1"
    and s2: "upd_task (current s1) (\<lambda>x. x\<lparr>t_status := 0\<rparr>) s1 = Some s2"
    and s3: "rsrc_enqueue r (current s2) s2 = Some s3" and s': "swtch s3 = Some s'"
    unfolding wait_on_def by (elim bindE)
  have c: "current s2 = current s" using s1 s2 by (auto simp: set_kont_def upd_task_def bind_Some_conv)
  note f = upd_task_queue[OF s1[unfolded set_kont_def]] upd_task_queue[OF s2] enqueue_queue[OF s3]
  show "queue_of s' r = queue_of s r @ [current s]" "sems s' = sems s"
    using swtch_queue[OF s', of r] f assms(2) c by auto
  show "queue_of s' q = queue_of s q" if "q \<noteq> run_queue s" "q \<noteq> r"
    using swtch_queue[OF s', of q] f that by auto
qed

lemma preempt_queue:
  assumes "preempt t v s = Some s'" and "q \<noteq> run_queue s"
  shows "queue_of s' q = queue_of s q \<and> sems s' = sems s"
proof -
  from assms(1) obtain s1 where s1: "(if current s \<noteq> idle_task s then rsrc_enqueue (run_queue s) (current s) s else Some s) = Some s1"
    and u: "upd_task t (\<lambda>x. x\<lparr>t_status := v, t_flags := tRUNNING, scount := scount x + 1\<rparr>) (s1\<lparr>current := t\<rparr>) = Some s'"
    unfolding preempt_def by (elim bindE)
  have "queue_of s1 q = queue_of s q \<and> sems s1 = sems s"
    using s1 enqueue_queue assms(2) by (auto split: if_splits)
  with upd_task_queue[OF u] show ?thesis by simp
qed

section \<open>Semaphores\<close>

text \<open>A negative count is the number of the tasks that wait.\<close>

definition sem_balanced :: "kstate \<Rightarrow> addr \<Rightarrow> bool" where
  "sem_balanced s r \<longleftrightarrow> (\<exists>c. sems s r = Some c \<and> int (length (queue_of s r)) = max 0 (- c))"



text \<open>The small kernel after \<open>sem_create(0)\<close>, and after the current task waits on it.\<close>

definition demo_sem :: kstate where
  "demo_sem = demo\<lparr>next_ref := 11, rfree := 10, rmap_resource := [1, 2, 3, 4, 5, 6, 7, 8, 9, 10, 1],
     rsrcs := (rsrcs demo)(10 \<mapsto> demo_rsrc 9 RSRC_SEM), sems := [10 \<mapsto> 0],
     resource_list := [2, 3, 4, 5, 6, 7, 8, 9, 10]\<rparr>"

lemma demo_sem_create: "sem_create 0 None demo = Some (9, demo_sem)"
  by (simp add: sem_create_def new_ref_def cur_owner_def rsrc_bind_def alloc_id_def rsrc_set_name_def upd_rsrc_def
      name_bytes_def demo_sem_def demo_def demo_rsrc_def list_get_def list_put_def fun_upd_twist)

lemma demo_sem_kinv: "kinv demo_sem"
  by (rule keeps_kinv[OF demo_kinv keeps_sem_create[OF kinv_kwf[OF demo_kinv] demo_sem_create]])

lemma demo_sem_acquire:
  "\<exists>s. sem_acquire 9 demo_sem = Some (Switched, s) \<and> queue_of s 10 = [7] \<and> queue_of s 3 = [] \<and> current s = 9 \<and> idle_task s = 6 \<and>
     run_queue s = 3 \<and> \<not> halted s \<and> sems s 10 = Some (- 1) \<and> rsrc_find RSRC_SEM 9 s = Some 10"
  by (simp add: sem_acquire_def rsrc_find_def to_index_def wait_on_def set_kont_def upd_task_def rsrc_enqueue_def upd_rsrc_def
      swtch_def rsrc_dequeue_def queue_detach_def demo_sem_def demo_def demo_rsrc_def demo_task_def queue_of_def)


text \<open>
  C30: \<open>sem_release\<close> with tasks waiting hands the processor over at once: the task that waited
  longest runs next and finds the status 0, the caller goes to the end of the run queue, the
  count goes up by one and the other waiters keep their places.
\<close>

theorem sem_release_hands_over:
  assumes "kinv s" and "\<not> halted s" and "current s \<noteq> idle_task s"
    and "rsrc_find RSRC_SEM i s = Some r" and "r \<noteq> 0" and "sems s r = Some c" and "queue_of s r = t # ts"
  shows "\<exists>s' k k'. sem_release i s = Some (Switched, s') \<and> current s' = t \<and> sems s' r = Some (c + 1) \<and>
    queue_of s' r = ts \<and> queue_of s' (run_queue s) = queue_of s (run_queue s) @ [current s] \<and>
    tasks s t = Some k \<and> tasks s' t = Some k' \<and> t_status k' = ERR_NONE \<and> t_flags k' = tRUNNING \<and> t_kont k' = t_kont k"
proof -
  let ?s0 = "s\<lparr>sems := (sems s)(r \<mapsto> c + 1)\<rparr>"
  have wf: "kwf s" by (rule kinv_kwf[OF assms(1)])
  obtain x where x: "rsrcs s r = Some x" "r_queue x = t # ts"
    using assms(7) by (cases "rsrcs s r") (auto simp: queue_of_def)
  have w: "wait_of s t = r \<and> r \<noteq> 0" by (rule queue_okD[OF kwfD(2)[OF wf]]) (simp add: assms(7))
  then obtain k where k: "tasks s t = Some k" by (cases "tasks s t") (auto simp: wait_of_def)
  obtain d where d: "tasks s (current s) = Some d" "waiting_on d = 0"
    using kinv_live[OF assms(1,2)] by (auto simp: cur_ok_def)
  have t: "t \<noteq> 0" "t \<noteq> current s"
    using k d w refs_ok_task[OF kwfD(3)[OF wf], of t] by (auto simp: wait_of_def)
  obtain y where y: "rsrcs s (run_queue s) = Some y" "queue_of s (run_queue s) = r_queue y"
    using run_queue_rsrc[OF assms(1)] .
  have rq: "r \<noteq> run_queue s" using rsrc_find_not_runq[OF wf assms(4,5)] by simp
  have "rsrc_dequeue r ?s0 = Some (t, ?s0\<lparr>rsrcs := (rsrcs s)(r \<mapsto> x\<lparr>r_queue := ts\<rparr>),
      tasks := (tasks s)(t \<mapsto> k\<lparr>waiting_on := 0, t_flags := tREADY\<rparr>)\<rparr>)"
    using dequeue_head[of ?s0 r x t ts k] x k t by simp
  then show ?thesis
    using assms(3-6) d t y rq k
    by (simp add: sem_release_def set_kont_def upd_task_def preempt_def rsrc_enqueue_def upd_rsrc_def queue_of_def)
qed

theorem sem_release_hands_over_witness:
  "\<exists>s s'. sem_acquire 9 demo_sem = Some (Switched, s) \<and> sem_release 9 s = Some (Switched, s') \<and>
     current s = 9 \<and> current s' = 7 \<and> sems s' 10 = Some 0"
proof -
  obtain s where s: "sem_acquire 9 demo_sem = Some (Switched, s)" "queue_of s 10 = [7]" "current s = 9"
    "idle_task s = 6" "\<not> halted s" "sems s 10 = Some (- 1)" "rsrc_find RSRC_SEM 9 s = Some 10"
    using demo_sem_acquire by blast
  have "kinv s" by (rule sem_acquire_kinv[OF demo_sem_kinv _ _ s(1)]) (simp_all add: demo_sem_def demo_def)
  from sem_release_hands_over[OF this s(5) _ s(7) _ s(6,2)] s show ?thesis by auto
qed


section \<open>Messages\<close>

lemma copy_in_eq:
  "copy_in u a n b = (if n \<le> length b then Some (map u [a..<a + n] @ drop n b) else None)"
proof (induction n)
  case (Suc n)
  show ?case
  proof (cases "Suc n \<le> length b")
    case True
    then have "drop n b = b ! n # drop (Suc n) b" by (simp add: Cons_nth_drop_Suc)
    with Suc True show ?thesis by (simp add: list_put_def list_update_append)
  next
    case False
    with Suc show ?thesis by (auto simp: list_put_def)
  qed
qed simp

text \<open>The messages of a port: sender, code and bytes.\<close>

definition msg_bytes :: "kstate \<Rightarrow> message \<Rightarrow> u8 list" where
  "msg_bytes s m = (if m_size m = 0 then [] else take (m_size m) (the (bufs s (m_data m))))"

definition inbox :: "kstate \<Rightarrow> addr \<Rightarrow> (int \<times> nat \<times> u8 list) list" where
  "inbox s p = (case ports s p of None \<Rightarrow> []
     | Some x \<Rightarrow> map (\<lambda>m. (from_port m, m_code m, msg_bytes s m)) (p_msgs x))"

definition msg_bufs :: "port \<Rightarrow> addr list" where
  "msg_bufs x = map m_data (filter (\<lambda>m. m_size m \<noteq> 0) (p_msgs x))"

definition buf_ok :: "kstate \<Rightarrow> message \<Rightarrow> bool" where
  "buf_ok s m \<longleftrightarrow> m_size m \<le> 4096 \<and> (m_size m \<noteq> 0 \<longrightarrow> (\<exists>b. bufs s (m_data m) = Some b \<and>
     (if m_size m < 256 then length b = m_size m else length b = 4096)))"

text \<open>
  Every message of every port has a buffer of its own that holds it, the pages of the pool
  belong to no message, and the counter of a port is the length of its queue and at most 16.
\<close>

definition port_msgs_ok :: "kstate \<Rightarrow> bool" where
  "port_msgs_ok s \<longleftrightarrow>
     (\<forall>p x. ports s p = Some x \<longrightarrow> msgcount x = int (length (p_msgs x)) \<and> length (p_msgs x) \<le> 16 \<and>
        (\<forall>m \<in> set (p_msgs x). buf_ok s m) \<and> distinct (msg_bufs x) \<and>
        set (msg_bufs x) \<inter> set (msg_pool s) = {}) \<and>
     (\<forall>p x q y. ports s p = Some x \<longrightarrow> ports s q = Some y \<longrightarrow> p \<noteq> q \<longrightarrow> set (msg_bufs x) \<inter> set (msg_bufs y) = {}) \<and>
     distinct (msg_pool s) \<and> (\<forall>b \<in> set (msg_pool s). \<exists>c. bufs s b = Some c \<and> length c = 4096) \<and>
     (\<forall>b. next_ref s \<le> b \<longrightarrow> bufs s b = None)"

text \<open>What a message in a queue keeps when buffers that are not its own change.\<close>

lemma msg_bytes_cong:
  "m_size m \<noteq> 0 \<longrightarrow> bufs s' (m_data m) = bufs s (m_data m) \<Longrightarrow> msg_bytes s' m = msg_bytes s m"
  by (auto simp: msg_bytes_def)

lemma buf_ok_cong:
  "m_size m \<noteq> 0 \<longrightarrow> bufs s' (m_data m) = bufs s (m_data m) \<Longrightarrow> buf_ok s' m = buf_ok s m"
  by (auto simp: buf_ok_def)

lemma msg_bufs_mem: "m \<in> set (p_msgs x) \<Longrightarrow> m_size m \<noteq> 0 \<Longrightarrow> m_data m \<in> set (msg_bufs x)"
  by (auto simp: msg_bufs_def)

lemma port_msgs_okD:
  assumes "port_msgs_ok s"
  shows "\<And>p x. ports s p = Some x \<Longrightarrow> msgcount x = int (length (p_msgs x)) \<and> length (p_msgs x) \<le> 16 \<and>
        (\<forall>m \<in> set (p_msgs x). buf_ok s m) \<and> distinct (msg_bufs x) \<and> set (msg_bufs x) \<inter> set (msg_pool s) = {}"
    and "\<And>p x q y. ports s p = Some x \<Longrightarrow> ports s q = Some y \<Longrightarrow> p \<noteq> q \<Longrightarrow> set (msg_bufs x) \<inter> set (msg_bufs y) = {}"
    and "distinct (msg_pool s)" and "\<And>b. b \<in> set (msg_pool s) \<Longrightarrow> \<exists>c. bufs s b = Some c \<and> length c = 4096"
    and "\<And>b. next_ref s \<le> b \<Longrightarrow> bufs s b = None"
  using assms unfolding port_msgs_ok_def by - (elim conjE, (blast | assumption))+

lemma buf_exists:
  assumes "port_msgs_ok s" and "ports s p = Some x" and "b \<in> set (msg_bufs x)"
  shows "bufs s b \<noteq> None" "b < next_ref s"
proof -
  from assms(3) obtain m where m: "m \<in> set (p_msgs x)" "m_size m \<noteq> 0" "b = m_data m" by (auto simp: msg_bufs_def)
  have "buf_ok s m" using port_msgs_okD(1)[OF assms(1,2)] m by blast
  with m show n: "bufs s b \<noteq> None" by (auto simp: buf_ok_def)
  show "b < next_ref s" using port_msgs_okD(5)[OF assms(1), of b] n by (metis not_le)
qed

text \<open>The buffer that a message gets belongs to no other message.\<close>

lemma msg_buffer_fresh:
  assumes "port_msgs_ok s" and "msg_buffer sz s = Some (b, s1)" and "sz \<noteq> 0"
  shows "\<exists>old. bufs s1 b = Some old \<and> (if sz < 256 then length old = sz else length old = 4096)"
    and "\<And>p x. ports s p = Some x \<Longrightarrow> b \<notin> set (msg_bufs x)"
    and "ports s1 = ports s" and "umem s1 = umem s" and "current s1 = current s" and "tasks s1 = tasks s"
    and "\<And>q. q \<noteq> b \<Longrightarrow> bufs s1 q = bufs s q"
    and "set (msg_pool s1) = set (msg_pool s) - {b}" and "distinct (msg_pool s1)"
    and "b < next_ref s1" and "next_ref s \<le> next_ref s1"
proof -
  note ok = port_msgs_okD[OF assms(1)]
  have "(\<exists>old. bufs s1 b = Some old \<and> (if sz < 256 then length old = sz else length old = 4096)) \<and>
    (\<forall>p x. ports s p = Some x \<longrightarrow> b \<notin> set (msg_bufs x)) \<and> ports s1 = ports s \<and> umem s1 = umem s \<and>
    current s1 = current s \<and> tasks s1 = tasks s \<and> (\<forall>q. q \<noteq> b \<longrightarrow> bufs s1 q = bufs s q) \<and>
    set (msg_pool s1) = set (msg_pool s) - {b} \<and> distinct (msg_pool s1) \<and> b < next_ref s1 \<and> next_ref s \<le> next_ref s1"
  proof (cases "\<exists>c cs. \<not> sz < 256 \<and> msg_pool s = c # cs")
    case True
    then obtain c cs where c: "\<not> sz < 256" "msg_pool s = c # cs" by blast
    with assms(2) have e: "b = c" "s1 = s\<lparr>msg_pool := cs\<rparr>" by (auto simp: msg_buffer_def)
    have "\<exists>d. bufs s c = Some d \<and> length d = 4096" using ok(4) c by simp
    moreover from this have "c < next_ref s" using ok(5)[of c] by (metis not_le option.distinct(1))
    moreover have "c \<notin> set (msg_bufs x)" if "ports s p = Some x" for p x using ok(1)[OF that] c by auto
    ultimately show ?thesis using e c ok(3) by auto
  next
    case False
    then obtain m n where e: "b = next_ref s" "s1 = s\<lparr>km := m, next_ref := Suc (next_ref s), bufs := (bufs s)(b \<mapsto> replicate n 0)\<rparr>"
      and n: "n = (if sz < 256 then sz else 4096)"
    proof (cases "sz < 256")
      case True
      with assms(2,3) have "b = next_ref s" "s1 = s\<lparr>next_ref := Suc (next_ref s), bufs := (bufs s)(b \<mapsto> replicate sz 0)\<rparr>"
        by (auto simp: msg_buffer_def new_ref_def)
      with True show ?thesis by (intro that[where m = "km s" and n = sz]) simp_all
    next
      case large: False
      with False have "msg_pool s = []" by (cases "msg_pool s") auto
      with large assms(2) obtain page m where "b = next_ref s"
        "s1 = s\<lparr>km := m, next_ref := Suc (next_ref s), bufs := (bufs s)(b \<mapsto> replicate 4096 0)\<rparr>"
        by (auto simp: msg_buffer_def new_ref_def bind_Some_conv simp del: replicate.simps)
      with large show ?thesis by (intro that[where m = m and n = 4096]) simp_all
    qed
    have "b \<notin> set (msg_bufs x)" if "ports s p = Some x" for p x
      using buf_exists(2)[OF assms(1) that, of b] e(1) by auto
    moreover have "b \<notin> set (msg_pool s)" using ok(4,5) e(1) by force
    ultimately show ?thesis using e n ok(3) by auto
  qed
  then show "\<exists>old. bufs s1 b = Some old \<and> (if sz < 256 then length old = sz else length old = 4096)"
    and "\<And>p x. ports s p = Some x \<Longrightarrow> b \<notin> set (msg_bufs x)"
    and "ports s1 = ports s" and "umem s1 = umem s" and "current s1 = current s" and "tasks s1 = tasks s"
    and "\<And>q. q \<noteq> b \<Longrightarrow> bufs s1 q = bufs s q"
    and "set (msg_pool s1) = set (msg_pool s) - {b}" and "distinct (msg_pool s1)"
    and "b < next_ref s1" and "next_ref s \<le> next_ref s1" by blast+
qed


lemma same_table_msgs:
  assumes "same_table s s'"
  shows "inbox s' = inbox s" "port_msgs_ok s' = port_msgs_ok s" "umem s' = umem s"
proof -
  have e: "ports s' = ports s" "bufs s' = bufs s" "msg_pool s' = msg_pool s" "next_ref s' = next_ref s"
    and u: "umem s' = umem s" using assms by (simp_all add: same_table_def)
  show "inbox s' = inbox s" unfolding inbox_def msg_bytes_def e ..
  show "port_msgs_ok s' = port_msgs_ok s" unfolding port_msgs_ok_def buf_ok_def e ..
  show "umem s' = umem s" by (rule u)
qed

lemma dequeue_wake_table:
  assumes "(if c then do { (t, s) \<leftarrow> rsrc_dequeue r s; (if t \<noteq> 0 then task_wake t v s else Some s) } else Some s) = Some s'"
  shows "same_table s s'"
proof (cases c)
  case True
  with assms obtain t s1 where d: "rsrc_dequeue r s = Some (t, s1)"
    and w: "(if t \<noteq> 0 then task_wake t v s1 else Some s1) = Some s'"
    by (auto simp: bind_Some_conv split del: if_split)
  have "same_table s1 s'" using w same_table_task_wake by (auto split: if_splits)
  with same_table_dequeue[OF d] show ?thesis by (rule same_table_trans)
next
  case False
  with assms show ?thesis by simp
qed

lemma msg_bufs_append: "msg_bufs (x\<lparr>p_msgs := p_msgs x @ [m], msgcount := k\<rparr>) = msg_bufs x @ (if m_size m = 0 then [] else [m_data m])"
  by (simp add: msg_bufs_def)

text \<open>A message with a buffer of its own is put at the end of a queue with room.\<close>

lemma add_message:
  assumes ok: "port_msgs_ok s" and x: "ports s p = Some x" "msgcount x < 16"
    and s1: "\<And>q. m_size m = 0 \<or> q \<noteq> m_data m \<Longrightarrow> bufs s1 q = bufs s q"
    and m: "buf_ok s1 m" "m_size m \<noteq> 0 \<Longrightarrow> (\<forall>q y. ports s q = Some y \<longrightarrow> m_data m \<notin> set (msg_bufs y))"
    and pool: "m_size m \<noteq> 0 \<Longrightarrow> set (msg_pool s1) = set (msg_pool s) - {m_data m} \<and> m_data m < next_ref s1"
      "m_size m = 0 \<Longrightarrow> msg_pool s1 = msg_pool s" "distinct (msg_pool s1)" "next_ref s \<le> next_ref s1"
    and ports: "ports s1 = (ports s)(p \<mapsto> x\<lparr>p_msgs := p_msgs x @ [m], msgcount := msgcount x + 1\<rparr>)"
  shows "port_msgs_ok s1" "inbox s1 p = inbox s p @ [(from_port m, m_code m, msg_bytes s1 m)]"
    "q \<noteq> p \<Longrightarrow> inbox s1 q = inbox s q"
proof -
  note okD = port_msgs_okD[OF ok]
  have keep: "bufs s1 (m_data n) = bufs s (m_data n)"
    if "ports s q = Some y" "n \<in> set (p_msgs y)" "m_size n \<noteq> 0" for q y n
  proof (cases "m_size m = 0")
    case True
    then show ?thesis using s1 by simp
  next
    case False
    then have "m_data n \<noteq> m_data m" using m(2) msg_bufs_mem[OF that(2,3)] that(1) by metis
    then show ?thesis using s1 by simp
  qed
  have bytes: "msg_bytes s1 n = msg_bytes s n" "buf_ok s1 n = buf_ok s n"
    if "ports s q = Some y" "n \<in> set (p_msgs y)" for q y n
    using keep[OF that] msg_bytes_cong[of n s1 s] buf_ok_cong[of n s1 s] by blast+
  let ?x = "x\<lparr>p_msgs := p_msgs x @ [m], msgcount := msgcount x + 1\<rparr>"
  have mb: "set (msg_bufs ?x) = set (msg_bufs x) \<union> (if m_size m = 0 then {} else {m_data m})"
    by (simp add: msg_bufs_append)
  show "port_msgs_ok s1"
    unfolding port_msgs_ok_def
  proof (intro conjI allI impI ballI)
    fix q y assume y: "ports s1 q = Some y"
    show "msgcount y = int (length (p_msgs y))" using y ports okD(1) x by (auto split: if_splits)
    show "length (p_msgs y) \<le> 16" using y ports okD(1) x okD(1)[OF x(1)] by (auto split: if_splits)
    show "buf_ok s1 n" if "n \<in> set (p_msgs y)" for n
      using y ports bytes(2) m(1) that x(1) okD(1) by (auto split: if_splits)
    show "distinct (msg_bufs y)"
      using y ports m(2) x(1) okD(1) by (auto split: if_splits simp: msg_bufs_append)
    show "set (msg_bufs y) \<inter> set (msg_pool s1) = {}"
    proof (cases "q = p")
      case True
      with y ports have "y = ?x" by simp
      then show ?thesis using mb okD(1)[OF x(1)] pool(1,2) by (cases "m_size m = 0") auto
    next
      case False
      with y ports have "ports s q = Some y" by simp
      then show ?thesis using okD(1) pool(1,2) by (cases "m_size m = 0") auto
    qed
  next
    fix q y r z assume yz: "ports s1 q = Some y" "ports s1 r = Some z" "q \<noteq> r"
    show "set (msg_bufs y) \<inter> set (msg_bufs z) = {}"
    proof -
      have other: "set (msg_bufs ?x) \<inter> set (msg_bufs w) = {}"
        if w: "ports s u = Some w" "u \<noteq> p" for u w
      proof -
        have "set (msg_bufs x) \<inter> set (msg_bufs w) = {}" using okD(2)[OF x(1) w(1)] w(2) by blast
        moreover have "m_size m \<noteq> 0 \<Longrightarrow> m_data m \<notin> set (msg_bufs w)" using m(2) w(1) by blast
        ultimately show ?thesis unfolding mb by (cases "m_size m = 0") simp_all
      qed
      consider "q = p" | "r = p" | "q \<noteq> p" "r \<noteq> p" by blast
      then show ?thesis
      proof cases
        case 1
        with yz ports have "y = ?x" "ports s r = Some z" "r \<noteq> p" by auto
        then show ?thesis using other by blast
      next
        case 2
        with yz ports have "z = ?x" "ports s q = Some y" "q \<noteq> p" by auto
        then show ?thesis using other by blast
      next
        case 3
        with yz ports show ?thesis using okD(2) by simp
      qed
    qed
  next
    show "distinct (msg_pool s1)" by (rule pool(3))
  next
    fix b assume b: "b \<in> set (msg_pool s1)"
    then have "b \<in> set (msg_pool s) \<and> (m_size m = 0 \<or> b \<noteq> m_data m)" using pool(1,2) by (cases "m_size m = 0") auto
    then show "\<exists>c. bufs s1 b = Some c \<and> length c = 4096" using okD(4) s1[of b] by auto
  next
    fix b assume b: "next_ref s1 \<le> b"
    have "m_size m = 0 \<or> b \<noteq> m_data m" using b pool(1) by (cases "m_size m = 0") auto
    then show "bufs s1 b = None" using s1[of b] okD(5)[of b] pool(4) b by simp
  qed
  show "inbox s1 p = inbox s p @ [(from_port m, m_code m, msg_bytes s1 m)]"
    using ports x bytes(1)[OF x(1)] by (simp add: inbox_def)
  show "inbox s1 q = inbox s q" if "q \<noteq> p"
    using ports that bytes(1)[of q] by (auto simp: inbox_def split: option.split)
qed


text \<open>
  C2: \<open>port_send\<close>, once there is room, refuses a buffer above 0x400000 and more than 4096 bytes
  and changes nothing then; otherwise it returns the size and appends one message with the
  sender's port, the code and exactly the bytes that are in the sender's memory, whatever
  buffer it gets; the messages of all other ports stay as they are, at most 16 messages wait
  and every message still has a buffer of its own.
\<close>

theorem port_send_appends:
  assumes "port_msgs_ok s" and "ports s p = Some x" and "msgcount x < 16"
    and "port_send_deliver src dst msg sz code p s = Some (out, s')"
  shows "if 0x400000 < msg \<or> 4096 < sz then out = Ret ERR_MEMORY \<and> s' = s
    else \<exists>c. tasks s (current s) = Some c \<and> out = Ret (int sz) \<and>
      inbox s' p = inbox s p @ [(src, code, map (umem s (t_team c)) [msg..<msg + sz])] \<and>
      (\<forall>q. q \<noteq> p \<longrightarrow> inbox s' q = inbox s q) \<and> port_msgs_ok s' \<and> umem s' = umem s"
proof (cases "0x400000 < msg \<or> 4096 < sz")
  case True
  then show ?thesis using assms(4) by (simp add: port_send_deliver_def)
next
  case False
  note okD = port_msgs_okD[OF assms(1)]
  from assms(4) False have "do {
        (b, s) \<leftarrow> msg_buffer sz s;
        c \<leftarrow> tasks s (current s);
        s \<leftarrow> (if sz = 0 then Some s
              else do {
                old \<leftarrow> bufs s b;
                new \<leftarrow> copy_in (umem s (t_team c)) msg sz old;
                Some (s\<lparr>bufs := (bufs s)(b \<mapsto> new)\<rparr>) });
        let m = \<lparr>m_size = sz, m_code = code, from_port = src, to_port = dst, m_data = b\<rparr>;
        s \<leftarrow> upd_port p (\<lambda>x. x\<lparr>p_msgs := p_msgs x @ [m], msgcount := msgcount x + 1\<rparr>) s;
        x \<leftarrow> ports s p;
        q \<leftarrow> (if slaved x \<noteq> 0 then rsrc_find RSRC_PORT (int (slaved x)) s else Some p);
        s \<leftarrow> (if q = 0 then Some s
              else do {
                (t, s) \<leftarrow> rsrc_dequeue q s;
                (if t \<noteq> 0 then task_wake t ERR_NONE s else Some s) });
        Some (Ret (int sz), s) } = Some (out, s')"
    unfolding port_send_deliver_def by simp
  then obtain b s1 c s2 s3 y q where b: "msg_buffer sz s = Some (b, s1)" and c: "tasks s1 (current s1) = Some c"
    and s2: "(if sz = 0 then Some s1
              else do {
                old \<leftarrow> bufs s1 b;
                new \<leftarrow> copy_in (umem s1 (t_team c)) msg sz old;
                Some (s1\<lparr>bufs := (bufs s1)(b \<mapsto> new)\<rparr>) }) = Some s2"
    and s3: "upd_port p (\<lambda>x. x\<lparr>p_msgs := p_msgs x @ [\<lparr>m_size = sz, m_code = code, from_port = src,
         to_port = dst, m_data = b\<rparr>], msgcount := msgcount x + 1\<rparr>) s2 = Some s3"
    and "ports s3 p = Some y"
    and w: "(if q = 0 then Some s3
              else do {
                (t, s) \<leftarrow> rsrc_dequeue q s3;
                (if t \<noteq> 0 then task_wake t ERR_NONE s else Some s) }) = Some s'"
    and out: "out = Ret (int sz)"
    unfolding Let_def by (elim bindE case_prodE2) simp
  let ?m = "\<lparr>m_size = sz, m_code = code, from_port = src, to_port = dst, m_data = b\<rparr>"
  define bytes where "bytes = map (umem s (t_team c)) [msg..<msg + sz]"
  have f2: "ports s2 = ports s \<and> umem s2 = umem s \<and> current s1 = current s \<and> tasks s1 = tasks s \<and>
      (\<forall>r. sz = 0 \<or> r \<noteq> b \<longrightarrow> bufs s2 r = bufs s r) \<and> buf_ok s2 ?m \<and> msg_bytes s2 ?m = bytes \<and>
      (sz \<noteq> 0 \<longrightarrow> set (msg_pool s2) = set (msg_pool s) - {b} \<and> b < next_ref s2) \<and>
      (sz = 0 \<longrightarrow> msg_pool s2 = msg_pool s) \<and> distinct (msg_pool s2) \<and> next_ref s \<le> next_ref s2 \<and>
      (sz \<noteq> 0 \<longrightarrow> (\<forall>r y. ports s r = Some y \<longrightarrow> b \<notin> set (msg_bufs y)))"
  proof (cases "sz = 0")
    case True
    with b s2 have "s1 = s" "s2 = s" by (auto simp: msg_buffer_def)
    with True okD(3) show ?thesis by (simp add: buf_ok_def msg_bytes_def bytes_def)
  next
    case nz: False
    note f = msg_buffer_fresh[OF assms(1) b nz]
    from f(1) obtain old where old: "bufs s1 b = Some old" "if sz < 256 then length old = sz else length old = 4096" by blast
    then have len: "sz \<le> length old" using False by (auto split: if_splits)
    have e: "s2 = s1\<lparr>bufs := (bufs s1)(b \<mapsto> bytes @ drop sz old)\<rparr>"
      using s2 nz old(1) len f(4) by (simp add: copy_in_eq bytes_def)
    have "length bytes = sz" by (simp add: bytes_def)
    with old(2) len nz False have "buf_ok s2 ?m" "msg_bytes s2 ?m = bytes"
      by (auto simp: e buf_ok_def msg_bytes_def split: if_splits)
    with f e nz show ?thesis by auto
  qed
  obtain y where s3': "s3 = s2\<lparr>ports := (ports s)(p \<mapsto> x\<lparr>p_msgs := p_msgs x @ [?m], msgcount := msgcount x + 1\<rparr>)\<rparr>"
    using s3 f2 assms(2) by (auto simp: upd_port_def bind_Some_conv)
  have bo: "buf_ok s3 n = buf_ok s2 n" "msg_bytes s3 n = msg_bytes s2 n" for n
    by (simp_all add: s3' buf_ok_def msg_bytes_def)
  note add = add_message[OF assms(1-3), of ?m s3]
  have k: "port_msgs_ok s3" "inbox s3 p = inbox s p @ [(src, code, bytes)]" "r \<noteq> p \<Longrightarrow> inbox s3 r = inbox s r" for r
    using add f2 bo[of ?m] by (simp_all add: s3')
  have "same_table s3 s'" using w by (intro dequeue_wake_table[of "q \<noteq> 0"]) (auto split: if_splits)
  note t = same_table_msgs[OF this]
  have "umem s3 = umem s" using f2 by (simp add: s3')
  with k t f2 c out False show ?thesis unfolding bytes_def by simp
qed


text \<open>The first message of a queue is taken out and its buffer goes back.\<close>

lemma drop_message:
  assumes ok: "port_msgs_ok s" and x: "ports s p = Some x" "p_msgs x = m # ms"
    and ports: "ports s1 = (ports s)(p \<mapsto> x\<lparr>p_msgs := ms, msgcount := msgcount x - 1\<rparr>)"
    and bufs: "bufs s1 = (if m_size m \<noteq> 0 \<and> m_size m < 256 then (bufs s)(m_data m := None) else bufs s)"
    and pool: "msg_pool s1 = (if m_size m < 256 then msg_pool s else m_data m # msg_pool s)"
    and nr: "next_ref s1 = next_ref s"
  shows "port_msgs_ok s1" "inbox s p = (from_port m, m_code m, msg_bytes s m) # inbox s1 p"
    "q \<noteq> p \<Longrightarrow> inbox s1 q = inbox s q"
proof -
  note okD = port_msgs_okD[OF ok]
  let ?x = "x\<lparr>p_msgs := ms, msgcount := msgcount x - 1\<rparr>"
  have mb: "msg_bufs x = (if m_size m = 0 then [] else [m_data m]) @ msg_bufs ?x"
    by (simp add: msg_bufs_def x(2))
  have own: "m_size m \<noteq> 0 \<Longrightarrow> m_data m \<notin> set (msg_bufs y)" if "ports s1 q = Some y" for q y
  proof (cases "q = p")
    case True
    with that ports have "y = ?x" by simp
    moreover assume "m_size m \<noteq> 0"
    moreover have "distinct (msg_bufs x)" using okD(1)[OF x(1)] by blast
    ultimately show ?thesis unfolding mb by simp
  next
    case False
    assume nz: "m_size m \<noteq> 0"
    from False that ports have "ports s q = Some y" by simp
    then have "set (msg_bufs x) \<inter> set (msg_bufs y) = {}" using okD(2)[OF x(1)] False by blast
    then show ?thesis using nz unfolding mb by simp
  qed
  have keep: "bufs s1 (m_data n) = bufs s (m_data n)"
    if "ports s1 q = Some y" "n \<in> set (p_msgs y)" "m_size n \<noteq> 0" for q y n
    using own[OF that(1)] msg_bufs_mem[OF that(2,3)] bufs by (cases "m_size m = 0") auto
  have bytes: "msg_bytes s1 n = msg_bytes s n" "buf_ok s1 n = buf_ok s n"
    if "ports s1 q = Some y" "n \<in> set (p_msgs y)" for q y n
    using keep[OF that] msg_bytes_cong[of n s1 s] buf_ok_cong[of n s1 s] by blast+
  have old: "\<exists>z. ports s q = Some z \<and> set (p_msgs y) \<subseteq> set (p_msgs z) \<and> set (msg_bufs y) \<subseteq> set (msg_bufs z) \<and>
      msgcount y = int (length (p_msgs y)) \<and> length (p_msgs y) \<le> 16 \<and> distinct (msg_bufs y)"
    if "ports s1 q = Some y" for q y
  proof (cases "q = p")
    case True
    with that ports have y: "y = ?x" by simp
    have "set (msg_bufs ?x) \<subseteq> set (msg_bufs x)" "distinct (msg_bufs ?x)"
      using okD(1)[OF x(1)] unfolding mb by auto
    then show ?thesis using y True x okD(1)[OF x(1)] by auto
  next
    case False
    with that ports have "ports s q = Some y" by simp
    then show ?thesis using okD(1) by blast
  qed
  show "port_msgs_ok s1"
    unfolding port_msgs_ok_def
  proof (intro conjI allI impI ballI)
    fix q y assume y: "ports s1 q = Some y"
    from old[OF y] obtain z where z: "ports s q = Some z" "set (p_msgs y) \<subseteq> set (p_msgs z)" "set (msg_bufs y) \<subseteq> set (msg_bufs z)"
      and c: "msgcount y = int (length (p_msgs y))" "length (p_msgs y) \<le> 16" "distinct (msg_bufs y)" by blast
    show "msgcount y = int (length (p_msgs y))" "length (p_msgs y) \<le> 16" "distinct (msg_bufs y)" by (rule c)+
    show "buf_ok s1 n" if n: "n \<in> set (p_msgs y)" for n
      using bytes(2)[OF y n] okD(1)[OF z(1)] z(2) n by blast
    have "set (msg_bufs y) \<inter> set (msg_pool s) = {}" using okD(1)[OF z(1)] z(3) by blast
    then show "set (msg_bufs y) \<inter> set (msg_pool s1) = {}" using own[OF y] pool by (cases "m_size m < 256") auto
  next
    fix q y r z assume yz: "ports s1 q = Some y" "ports s1 r = Some z" "q \<noteq> r"
    from old[OF yz(1)] old[OF yz(2)] okD(2)[OF _ _ yz(3)]
    show "set (msg_bufs y) \<inter> set (msg_bufs z) = {}" by blast
  next
    have "m_data m \<notin> set (msg_pool s)" if "m_size m \<noteq> 0"
      using okD(1)[OF x(1)] mb that by auto
    then show "distinct (msg_pool s1)" using pool okD(3) by (cases "m_size m < 256") auto
  next
    fix b assume b: "b \<in> set (msg_pool s1)"
    have m: "buf_ok s m" using okD(1)[OF x(1)] x(2) by simp
    have np: "m_size m \<noteq> 0 \<Longrightarrow> m_data m \<notin> set (msg_pool s)" using okD(1)[OF x(1)] mb by auto
    show "\<exists>c. bufs s1 b = Some c \<and> length c = 4096"
    proof (cases "b \<in> set (msg_pool s)")
      case True
      then have "m_size m = 0 \<or> b \<noteq> m_data m" using np by auto
      then show ?thesis using okD(4)[OF True] bufs by auto
    next
      case False
      with b pool have "b = m_data m" "\<not> m_size m < 256" by (auto split: if_splits)
      then show ?thesis using m bufs by (auto simp: buf_ok_def)
    qed
  next
    fix b assume "next_ref s1 \<le> b"
    then show "bufs s1 b = None" using okD(5) nr bufs by auto
  qed
  have p: "ports s1 p = Some ?x" using ports by simp
  show "inbox s p = (from_port m, m_code m, msg_bytes s m) # inbox s1 p"
    using p x bytes(1)[OF p] by (simp add: inbox_def)
  show "inbox s1 q = inbox s q" if "q \<noteq> p"
  proof -
    have "ports s1 q = ports s q" using ports that by simp
    then show ?thesis using bytes(1)[of q] by (cases "ports s q") (auto simp: inbox_def)
  qed
qed

text \<open>The small kernel with a port (10, with its send queue 11), and with a message in it.\<close>

definition demo_port :: kstate where
  "demo_port = demo\<lparr>next_ref := 12, rfree := 0, rmap_resource := [1, 2, 3, 4, 5, 6, 7, 8, 9, 10, 11],
     rsrcs := (rsrcs demo)(10 \<mapsto> demo_rsrc 9 RSRC_PORT, 11 \<mapsto> demo_rsrc 10 RSRC_QUEUE),
     ports := [10 \<mapsto> \<lparr>msgcount = 0, slaved = 0, p_msgs = [], refcount = 1, nowait = 0, restrict = 0, sendqueue = 11\<rparr>],
     resource_list := [2, 3, 4, 5, 6, 7, 8, 9, 10, 11]\<rparr>"

lemma demo_port_create: "port_create 0 None demo = Some (9, demo_port)"
  by (simp add: port_create_def new_ref_def cur_owner_def rsrc_bind_def alloc_id_def rsrc_set_name_def upd_rsrc_def
      name_bytes_def demo_port_def demo_def demo_rsrc_def list_get_def list_put_def fun_upd_twist)

lemma demo_port_kinv: "kinv demo_port"
  by (rule keeps_kinv[OF demo_kinv keeps_port_create[OF kinv_kwf[OF demo_kinv] demo_port_create]])

definition demo_msg :: kstate where
  "demo_msg = demo_port\<lparr>next_ref := 13, bufs := [12 \<mapsto> [7, 8, 9]], ports := [10 \<mapsto> \<lparr>msgcount = 1, slaved = 0,
     p_msgs = [\<lparr>m_size = 3, m_code = 42, from_port = 9, to_port = 9, m_data = 12\<rparr>],
     refcount = 1, nowait = 0, restrict = 0, sendqueue = 11\<rparr>]\<rparr>"

lemma demo_port_msgs_ok: "port_msgs_ok (demo_port\<lparr>umem := u\<rparr>)" "port_msgs_ok demo_msg"
  by (auto simp: port_msgs_ok_def demo_msg_def demo_port_def demo_def msg_bufs_def buf_ok_def)

theorem port_send_appends_witness:
  "\<exists>s'. port_send_deliver 9 9 100 3 42 10 (demo_port\<lparr>umem := \<lambda>_. of_nat\<rparr>) = Some (Ret 3, s') \<and>
     inbox s' 10 = [(9, 42, [100, 101, 102])]"
proof -
  let ?s = "demo_port\<lparr>umem := \<lambda>_. of_nat\<rparr>"
  let ?p = "\<lparr>msgcount = 0, slaved = 0, p_msgs = [], refcount = 1, nowait = 0, restrict = 0, sendqueue = 11\<rparr>"
  have "\<exists>s'. port_send_deliver 9 9 100 3 42 10 ?s = Some (Ret 3, s')"
    by (simp add: port_send_deliver_def msg_buffer_def new_ref_def copy_in_eq upd_port_def rsrc_dequeue_def queue_detach_def
        demo_port_def demo_def demo_task_def demo_rsrc_def)
  then obtain s' where e: "port_send_deliver 9 9 100 3 42 10 ?s = Some (Ret 3, s')" ..
  have p: "ports ?s 10 = Some ?p" "inbox ?s 10 = []" "current ?s = 7" "tasks ?s 7 = Some (demo_task 0 tRUNNING)"
    by (simp_all add: inbox_def demo_port_def demo_def)
  have "[100..<100 + 3] = [100, 101, 102::nat]" by (simp add: upt_rec)
  with port_send_appends[OF demo_port_msgs_ok(1) p(1) _ e] p e show ?thesis by auto
qed

text \<open>
  C9: \<open>port_recv\<close>, once there is a message, takes the oldest one: the caller gets as many of its
  bytes as fit, the sender's port and the code (in that order, so that they win where the
  buffers overlap), the number of bytes is the result, the rest of the queue and all other
  ports keep their messages, and the buffer goes back so that it belongs to no message.
\<close>

theorem port_recv_takes_oldest:
  assumes "port_msgs_ok s" and "port_recv_take src msg sz code p s = Some (out, s')"
  shows "\<exists>f cd bs rest c. inbox s p = (f, cd, bs) # rest \<and> inbox s' p = rest \<and> tasks s (current s) = Some c \<and>
    out = Ret (int (min sz (length bs))) \<and> (\<forall>q. q \<noteq> p \<longrightarrow> inbox s' q = inbox s q) \<and> port_msgs_ok s' \<and>
    umem s' = umem (put_int (t_team c) code (int cd) (put_int (t_team c) src f (put_bytes (t_team c) msg (take sz bs) s)))"
proof -
  from assms(2) obtain x where px: "ports s p = Some x" by (auto simp: port_recv_take_def bind_Some_conv)
  moreover from px assms(2) obtain m ms where x: "p_msgs x = m # ms"
    by (cases "p_msgs x") (auto simp: port_recv_take_def bind_Some_conv)
  ultimately obtain c data bytes s2 sq s3 s4 where c: "tasks s (current s) = Some c"
    and data: "(if m_size m = 0 then Some [] else bufs s (m_data m)) = Some data"
    and bytes: "(if m_size m \<le> length data then Some (take (min sz (m_size m)) data) else None) = Some bytes"
    and s2: "upd_port p (\<lambda>x. x\<lparr>p_msgs := ms\<rparr>) (put_int (t_team c) code (int (m_code m))
        (put_int (t_team c) src (from_port m) (put_bytes (t_team c) msg bytes s))) = Some s2"
    and "rsrcs s2 (sendqueue x) = Some sq"
    and s3: "(if r_queue sq \<noteq> [] \<and> msgcount x \<le> MAX_MSGCOUNT then do {
                 (t, s) \<leftarrow> rsrc_dequeue (sendqueue x) s2;
                 (if t \<noteq> 0 then task_wake t ERR_NONE s else Some s) }
               else Some s2) = Some s3"
    and s4: "upd_port p (\<lambda>x. x\<lparr>msgcount := msgcount x - 1\<rparr>) s3 = Some s4"
    and out: "out = Ret (int (min sz (m_size m)))" and s': "s' = msg_release m s4"
    using assms(2) unfolding port_recv_take_def Let_def by (auto simp: bind_Some_conv split del: if_split)
  let ?s1 = "put_int (t_team c) code (int (m_code m)) (put_int (t_team c) src (from_port m) (put_bytes (t_team c) msg bytes s))"
  have f1: "ports ?s1 = ports s" "bufs ?s1 = bufs s" "msg_pool ?s1 = msg_pool s" "next_ref ?s1 = next_ref s"
    by (simp_all add: put_int_def put_bytes_def)
  have bo: "buf_ok s m" using port_msgs_okD(1)[OF assms(1) px] x by simp
  have mb: "msg_bytes s m = take (m_size m) data" using data by (auto simp: msg_bytes_def split: if_splits)
  have len: "m_size m \<le> length data" using bytes by (auto split: if_splits)
  have bs: "bytes = take sz (msg_bytes s m)" using bytes mb by (auto split: if_splits)
  have lb: "length (msg_bytes s m) = m_size m" using mb len by simp
  have s2': "s2 = ?s1\<lparr>ports := (ports s)(p \<mapsto> x\<lparr>p_msgs := ms\<rparr>)\<rparr>"
    using s2 px f1(1) by (simp add: upd_port_def)
  have "same_table s2 s3" by (rule dequeue_wake_table[OF s3])
  then have f3: "ports s3 = ports s2" "bufs s3 = bufs s2" "msg_pool s3 = msg_pool s2" "next_ref s3 = next_ref s2"
    "umem s3 = umem s2" by (simp_all add: same_table_def)
  have s4': "s4 = s3\<lparr>ports := (ports s)(p \<mapsto> x\<lparr>p_msgs := ms, msgcount := msgcount x - 1\<rparr>)\<rparr>"
    using s4 f3(1) s2' by (simp add: upd_port_def)
  have f4: "bufs s4 = bufs s" "msg_pool s4 = msg_pool s" "next_ref s4 = next_ref s" "umem s4 = umem ?s1"
    using f3 f1 by (simp_all add: s4' s2')
  have pr: "ports s' = (ports s)(p \<mapsto> x\<lparr>p_msgs := ms, msgcount := msgcount x - 1\<rparr>)"
    "bufs s' = (if m_size m \<noteq> 0 \<and> m_size m < 256 then (bufs s)(m_data m := None) else bufs s)"
    "msg_pool s' = (if m_size m < 256 then msg_pool s else m_data m # msg_pool s)"
    "next_ref s' = next_ref s" "umem s' = umem ?s1"
    using f4 by (simp_all add: s' msg_release_def s4')
  note drop = drop_message[OF assms(1) px x pr(1-4)]
  show ?thesis using drop c out pr(5) lb unfolding bs by (intro exI conjI) (assumption | simp)+
qed


theorem port_recv_takes_oldest_witness:
  "\<exists>s'. port_recv_take 0 300 2 0 10 demo_msg = Some (Ret 2, s') \<and> inbox s' 10 = [] \<and> umem s' 2 300 = 7 \<and> umem s' 2 302 = 0"
proof -
  have "\<exists>s'. port_recv_take 0 300 2 0 10 demo_msg = Some (Ret 2, s')"
    by (simp add: port_recv_take_def put_int_def put_bytes_def upd_port_def msg_release_def
        demo_msg_def demo_port_def demo_def demo_task_def demo_rsrc_def)
  then obtain s' where e: "port_recv_take 0 300 2 0 10 demo_msg = Some (Ret 2, s')" ..
  have p: "inbox demo_msg 10 = [(9, 42, [7, 8, 9])]" "current demo_msg = 7" "tasks demo_msg 7 = Some (demo_task 0 tRUNNING)"
    "t_team (demo_task 0 tRUNNING) = 2" "umem demo_msg = (\<lambda>_ _. 0)"
    by (simp_all add: inbox_def msg_bytes_def demo_msg_def demo_port_def demo_def demo_task_def)
  from port_recv_takes_oldest[OF demo_port_msgs_ok(2) e] p e show ?thesis
    by (auto simp: put_int_def put_bytes_def)
qed

section \<open>A port that is destroyed under a receiver\<close>

lemma wake_all_task:
  "wake_all fuel r v s = Some s' \<Longrightarrow> kwf s \<Longrightarrow> wait_of s t \<noteq> r \<Longrightarrow> tasks s' t = tasks s t"
proof (induction fuel arbitrary: s)
  case 0
  then show ?case
    by (auto simp: wake_all.simps[of 0] bind_Some_conv dest!: queue_detach_empty split: if_splits)
next
  case (Suc fuel)
  from Suc.prems(1) obtain u s1 where d: "queue_detach r s = Some (u, s1)"
    and c: "(if u = 0 then Some s1 else do { s \<leftarrow> task_wake u v s1; wake_all fuel r v s }) = Some s'"
    unfolding wake_all.simps[of "Suc fuel"] nat.case by (elim bindE case_prodE2) blast
  show ?case
  proof (cases "u = 0")
    case True
    then show ?thesis using c queue_detach_empty[OF d[unfolded True] Suc.prems(2)] by simp
  next
    case False
    with c obtain s2 where w: "task_wake u v s1 = Some s2" and rest: "wake_all fuel r v s2 = Some s'"
      by (auto simp: bind_Some_conv)
    have "wait_of s u = r \<and> tasks s1 = tasks s"
      by (rule queue_detach_cases[OF d Suc.prems(2)]) (use False in auto)
    then have u: "wait_of s u = r" and s1: "tasks s1 = tasks s" by simp_all
    then have "t \<noteq> u" using Suc.prems(3) by auto
    then have t2: "tasks s2 t = tasks s t"
      using w s1 by (auto simp: task_wake_def rsrc_enqueue_def upd_task_def upd_rsrc_def bind_Some_conv)
    have "kwf s2" by (rule keeps_kwf[OF detach_wake[where X = "{}", OF Suc.prems(2) d False w]]) simp
    moreover have "wait_of s2 t \<noteq> r" using Suc.prems(3) t2 by (simp add: wait_of_def)
    ultimately show ?thesis using Suc.IH[OF rest] t2 by simp
  qed
qed

lemma release_task:
  assumes "rsrc_release r s = Some s'" and "kwf s" and "wait_of s t \<noteq> r"
  shows "tasks s' t = tasks s t"
proof -
  from assms(1) obtain x s1 s2 s3 rm where "rsrcs s r = Some x"
    and s1: "(if r_owner x \<noteq> 0
           then upd_team (r_owner x) (\<lambda>t. t\<lparr>tm_resources := remove1 r (tm_resources t)\<rparr>) s
           else Some s) = Some s1"
    and s2: "wake_queue r ERR_RESOURCE (s1\<lparr>resource_list := remove1 r (resource_list s1)\<rparr>) = Some s2"
    and s3: "upd_rsrc r (\<lambda>x. x\<lparr>r_type := RSRC_NONE, r_id := 0\<rparr>) s2 = Some s3"
    and "list_put (rmap_resource s3) (r_id x) null_resource = Some rm"
    and f: "free_id (r_id x) (s3\<lparr>rmap_resource := rm\<rparr>) = Some s'"
    unfolding rsrc_release_def by (elim bindE) simp
  let ?s1 = "s1\<lparr>resource_list := remove1 r (resource_list s1)\<rparr>"
  have k1: "keeps {} s s1" using s1 keeps_upd_team[OF assms(2)] keeps_refl[OF assms(2)] by (auto split: if_splits)
  have "keeps {} s1 ?s1" by (rule keeps_same[OF keeps_kwf[OF k1]]) (simp add: same_core_def)
  note wf = keeps_kwf[OF this]
  have t1: "tasks ?s1 = tasks s" using s1 by (auto simp: upd_team_def bind_Some_conv split: if_splits)
  from s2 obtain n where w: "wake_all n r ERR_RESOURCE ?s1 = Some s2"
    using that by (auto simp: wake_queue_def bind_Some_conv)
  have "tasks s2 t = tasks ?s1 t"
    by (rule wake_all_task[OF w wf]) (use assms(3) t1 in \<open>simp add: wait_of_def\<close>)
  moreover have "tasks s' = tasks s2" using s3 f by (auto simp: upd_rsrc_def free_id_def bind_Some_conv)
  ultimately show ?thesis using t1 by simp
qed

text \<open>
  a receiver that a message has woken but that has not run yet is on no queue of the port
  any more, so \<open>port_destroy\<close> does not reach it: it stays on the run queue with status 0, and
  when it gets the processor it goes on reading the port that was freed.
\<close>

theorem destroyed_port_is_read:
  assumes "kinv s" and "\<not> halted s" and "rsrc_find RSRC_PORT i s = Some p" and "p \<noteq> 0"
    and "port_destroy i s = Some (ERR_NONE, s')"
    and "tasks s t = Some k" and "waiting_on k = run_queue s" and "t_kont k = KRecv src msg sz code p" and "t_status k = 0"
  shows "tasks s' t = Some k \<and> t \<in> set (queue_of s' (run_queue s')) \<and> ports s' p = None \<and>
    resume (t_kont k) (s'\<lparr>current := t\<rparr>) = None"
proof -
  have wf: "kwf s" by (rule kinv_kwf[OF assms(1)])
  from assms(3-5) obtain x s1 s2 where x: "ports s p = Some x" "refcount x = 1" and r1: "rsrc_release p s = Some s1"
    and r2: "rsrc_release (sendqueue x) s1 = Some s2"
    and s': "s' = s2\<lparr>rsrcs := (rsrcs s2)(sendqueue x := None, p := None), ports := (ports s2)(p := None)\<rparr>"
    unfolding port_destroy_def by (auto simp: bind_Some_conv split: if_splits)
  have w: "wait_of s t = run_queue s" using assms(6,7) by (simp add: wait_of_def)
  have p: "p \<noteq> run_queue s" using rsrc_find_not_runq[OF wf assms(3,4)] by simp
  have sq: "sendqueue x \<noteq> run_queue s" using kwf_port[OF wf x(1)] by simp
  have t1: "tasks s1 t = tasks s t" by (rule release_task[OF r1 wf]) (use w p in auto)
  note k1 = keeps_release(1)[OF wf r1 _ p, of "{}"]
  have wf1: "kwf s1" using keeps_kwf[OF k1] by (simp add: calm_def)
  have "tasks s2 t = tasks s1 t"
    by (rule release_task[OF r2 wf1]) (use w t1 sq in \<open>auto simp: wait_of_def\<close>)
  then have t: "tasks s' t = Some k" using t1 assms(6) by (simp add: s')
  have k: "keeps {} s s'" by (rule keeps_port_destroy[OF wf assms(5)]) (simp add: calm_def)
  have "run_queue s' = run_queue s" using k by (simp add: keeps_def)
  moreover have "run_queue s \<noteq> 0"
    using kwfD(3,4)[OF wf] by (auto simp: runq_ok_def refs_ok_def type_of_def)
  moreover have "wait_of s' t = run_queue s" using t assms(7) by (simp add: wait_of_def)
  ultimately have "t \<in> set (queue_of s' (run_queue s'))"
    using kwfD(2)[OF keeps_kwf[OF k]] by (simp add: queue_ok_def)
  moreover have "ports s' p = None" by (simp add: s')
  moreover from this have "resume (t_kont k) (s'\<lparr>current := t\<rparr>) = None"
    using t assms(8,9) by (simp add: resume_def port_recv_wakeup_def port_recv_try_def finish_def)
  ultimately show ?thesis using t by blast
qed

definition demo_woken :: kstate where
  "demo_woken = demo_port\<lparr>tasks := (tasks demo_port)(9 \<mapsto> (demo_task 3 tWAITING)\<lparr>t_kont := KRecv 0 300 16 0 10\<rparr>)\<rparr>"

theorem destroyed_port_is_read_witness:
  "\<exists>s'. port_destroy 9 demo_woken = Some (0, s') \<and> 9 \<in> set (queue_of s' (run_queue s')) \<and>
     resume (KRecv 0 300 16 0 10) (s'\<lparr>current := 9\<rparr>) = None"
proof -
  let ?k = "(demo_task 3 tWAITING)\<lparr>t_kont := KRecv 0 300 16 0 10\<rparr>"
  have t9: "tasks demo_port 9 = Some (demo_task 3 tWAITING)" by (simp add: demo_port_def demo_def)
  have k: "keeps (both demo_port) demo_port demo_woken"
    by (rule keeps_upd_task[OF kinv_kwf[OF demo_port_kinv], of 9 "\<lambda>x. x\<lparr>t_kont := KRecv 0 300 16 0 10\<rparr>"])
      (use t9 in \<open>auto simp: upd_task_def demo_woken_def, auto simp: demo_port_def demo_def\<close>)
  note i = keeps_kinv[OF demo_port_kinv k]
  have "\<exists>s'. port_destroy 9 demo_woken = Some (0, s')"
    by (simp add: port_destroy_def rsrc_find_def to_index_def rsrc_release_def wake_queue_def wake_all.simps queue_detach_def
        upd_rsrc_def free_id_def list_put_def demo_woken_def demo_port_def demo_def demo_rsrc_def)
  then obtain s' where e: "port_destroy 9 demo_woken = Some (0, s')" ..
  have f: "rsrc_find RSRC_PORT 9 demo_woken = Some 10" "\<not> halted demo_woken" "tasks demo_woken 9 = Some ?k"
    "waiting_on ?k = run_queue demo_woken" "t_kont ?k = KRecv 0 300 16 0 10" "t_status ?k = 0"
    by (simp_all add: rsrc_find_def to_index_def demo_woken_def demo_port_def demo_def demo_rsrc_def demo_task_def)
  from destroyed_port_is_read[OF i f(2,1) _ e f(3-6)] e f(5) show ?thesis by auto
qed

end
