(* ===== verification/KAspaceProps.thy ===== *)
theory KAspaceProps
  imports KProps
begin

text \<open>
  Address spaces: what \<open>locate_span\<close> finds, what happens when it finds less than it was asked
  for, how a physical mapping looks in the page table, and what \<open>brk\<close> asks for.
\<close>

section \<open>Finding pages\<close>

declare span_loop.simps [simp del]

lemma span_loop_step:
  "found < len \<Longrightarrow> start < 1024 \<Longrightarrow> pt ! start \<noteq> 0 \<Longrightarrow>
     span_loop pt start len found foundat = span_loop pt (start + 1) len 0 0"
  "found < len \<Longrightarrow> start < 1024 \<Longrightarrow> pt ! start = 0 \<Longrightarrow>
     span_loop pt start len found foundat = span_loop pt (start + 1) len (found + 1) (if found = 0 then start else foundat)"
  using span_loop.simps[of pt start len found foundat] by simp_all

lemma span_loop_stop:
  "\<not> (found < len \<and> start < 1024) \<Longrightarrow> span_loop pt start len found foundat = foundat"
  by (subst span_loop.simps) (rule if_not_P)

lemma span_loop_sound:
  assumes "found = 0 \<and> foundat = 0 \<or>
    0 < found \<and> foundat + found = start \<and> lo \<le> foundat \<and> foundat < 1024 \<and> (\<forall>j. foundat \<le> j \<and> j < start \<longrightarrow> pt ! j = 0)"
    and "lo \<le> start" and "span_loop pt start len found foundat = at" and "at \<noteq> 0"
  shows "lo \<le> at \<and> at < 1024 \<and> (\<forall>j. at \<le> j \<and> j < at + len \<and> j < 1024 \<longrightarrow> pt ! j = 0)"
  using assms
proof (induction pt start len found foundat rule: span_loop.induct)
  case (1 pt start len found foundat)
  show ?case
  proof (cases "found < len \<and> start < 1024")
    case False
    with "1.prems"(3,4) have "at = foundat" "found \<noteq> 0" using "1.prems"(1) span_loop_stop by auto
    with "1.prems"(1) False show ?thesis by auto
  next
    case True
    show ?thesis
    proof (cases "pt ! start = 0")
      case zero: True
      have "span_loop pt (start + 1) len (found + 1) (if found = 0 then start else foundat) = at"
        using "1.prems"(3) True zero span_loop_step(2) by simp
      moreover have "\<forall>j. (if found = 0 then start else foundat) \<le> j \<and> j < start + 1 \<longrightarrow> pt ! j = 0"
        using "1.prems"(1) zero by (auto simp: less_Suc_eq)
      ultimately show ?thesis
        using "1.IH"(2)[OF True] zero "1.prems"(1,2,4) True by auto
    next
      case used: False
      then have "span_loop pt (start + 1) len 0 0 = at" using "1.prems"(3) True span_loop_step(1) by simp
      then show ?thesis using "1.IH"(1)[OF True used] "1.prems"(2,4) by simp
    qed
  qed
qed

lemma span_loop_complete:
  assumes "found = 0 \<and> foundat = 0 \<and> start \<le> k \<or> 0 < found \<and> foundat + found = start \<and> 0 < foundat \<and> foundat \<le> k"
    and "0 < start" and "start \<le> 1024" and "0 < len" and "k + len \<le> 1024"
    and "\<forall>j. k \<le> j \<and> j < k + len \<longrightarrow> pt ! j = 0"
  shows "span_loop pt start len found foundat \<noteq> 0 \<and> span_loop pt start len found foundat \<le> k \<and>
    span_loop pt start len found foundat + len \<le> 1024"
  using assms
proof (induction pt start len found foundat rule: span_loop.induct)
  case (1 pt start len found foundat)
  show ?case
  proof (cases "found < len \<and> start < 1024")
    case False
    with "1.prems" have "0 < found" by auto
    with "1.prems" have f: "foundat + found = start" "0 < foundat" "foundat \<le> k" by auto
    then have "foundat + len \<le> 1024" using False "1.prems"(3,5) by auto
    then show ?thesis using span_loop_stop[OF False] f by simp
  next
    case True
    show ?thesis
    proof (cases "pt ! start = 0")
      case zero: True
      have e: "span_loop pt start len found foundat =
          span_loop pt (start + 1) len (found + 1) (if found = 0 then start else foundat)"
        using True zero span_loop_step(2) by simp
      have inv: "(found + 1 = 0 \<and> (if found = 0 then start else foundat) = 0 \<and> start + 1 \<le> k) \<or>
        0 < found + 1 \<and> (if found = 0 then start else foundat) + (found + 1) = start + 1 \<and>
        0 < (if found = 0 then start else foundat) \<and> (if found = 0 then start else foundat) \<le> k"
        using "1.prems"(1,2) by auto
      show ?thesis unfolding e
        by (rule "1.IH"(2)[OF True _ inv _ _ "1.prems"(4,5,6)]) (use zero True in simp_all)
    next
      case used: False
      have e: "span_loop pt start len found foundat = span_loop pt (start + 1) len 0 0"
        using True used span_loop_step(1) by simp
      have free: "\<not> (k \<le> start \<and> start < k + len)" using spec[OF "1.prems"(6), of start] used by simp
      have "start < k + len"
        using "1.prems"(1) conjunct1[OF True] "1.prems"(4) by (elim disjE conjE) linarith+
      with free have "start + 1 \<le> k" by linarith
      then show ?thesis unfolding e
        by (intro "1.IH"(1)[OF True used _ _ _ "1.prems"(4,5,6)]) (use True in simp_all)
    qed
  qed
qed

text \<open>
  C27: \<open>locate_span\<close> is first fit: from the page it is given (page 512 if that is 0 or past the
  table) it returns pages that are not mapped, and if the table has \<open>len\<close> free pages in a row
  it returns the first such place; only when there is none can the answer run over the end.
\<close>

theorem locate_span_first_fit:
  assumes "0 < len"
  shows "let lo = (if start < 1 \<or> 1023 < start then 512 else start); at = locate_span pt start len in
    (at \<noteq> 0 \<longrightarrow> lo \<le> at \<and> at < 1024 \<and> (\<forall>j. at \<le> j \<and> j < at + len \<and> j < 1024 \<longrightarrow> pt ! j = 0)) \<and>
    (\<forall>k. lo \<le> k \<and> k + len \<le> 1024 \<and> (\<forall>j. k \<le> j \<and> j < k + len \<longrightarrow> pt ! j = 0) \<longrightarrow>
       at \<noteq> 0 \<and> at \<le> k \<and> at + len \<le> 1024)"
  unfolding Let_def locate_span_def
proof (intro conjI impI allI, goal_cases)
  case 1
  then show ?case using span_loop_sound[OF _ order_refl refl, of 0 0] by fastforce
next
  case 2
  then show ?case using span_loop_sound[OF _ order_refl refl, of 0 0] by fastforce
next
  case (3 j)
  then show ?case using span_loop_sound[OF _ order_refl refl, of 0 0] by fastforce
qed (use span_loop_complete[OF _ _ _ assms] in auto)

theorem locate_span_first_fit_witness: "locate_span ((replicate 1024 0)[1 := 7]) 1 2 = 2"
proof -
  let ?pt = "(replicate 1024 0)[1 := 7] :: nat list"
  have g: "?pt ! j = (if j = 1 then 7 else 0)" if "j < 1024" for j
    using that by (simp add: nth_list_update del: replicate.simps)
  have "\<forall>j. (2::nat) \<le> j \<and> j < 2 + 2 \<longrightarrow> ?pt ! j = 0" using g by auto
  then have a: "locate_span ?pt 1 2 \<noteq> 0 \<and> locate_span ?pt 1 2 \<le> 2"
    using locate_span_first_fit[of 2 1 ?pt] unfolding Let_def by (auto simp del: replicate.simps)
  moreover have "locate_span ?pt 1 2 \<noteq> 1"
    using locate_span_first_fit[of 2 1 ?pt] g[of 1] unfolding Let_def by (auto simp del: replicate.simps)
  ultimately show ?thesis by linarith
qed


section \<open>Areas that run over the end of the page table\<close>

lemma area_fill_past:
  assumes "area_fill n physmap a pg p at pp ppo s = Some s'" and "aspaces s a = Some x"
    and "length (ptab_tab x) = 1024" and "0 < n"
  shows "at + n \<le> 1024"
  using assms
proof (induction n arbitrary: p at pp ppo s x)
  case (Suc n)
  from Suc.prems(1) obtain q m s1 g ps where "(if physmap then Some (p, km s) else getpage (km s)) = Some (q, m)"
    and s1: "aspace_map a q at 1 7 (s\<lparr>km := m\<rparr>) = Some s1" and "pgroups s1 pg = Some g"
    and "put_page pp ppo q (pg_pages g) = Some ps"
    and rest: "area_fill n physmap a pg (if physmap then q + 1 else q) (at + 1)
       (if ppo + 1 = 6 then pp + 1 else pp) (if ppo + 1 = 6 then 0 else ppo + 1)
       (s1\<lparr>pgroups := (pgroups s1)(pg \<mapsto> g\<lparr>pg_pages := ps\<rparr>)\<rparr>) = Some s'"
    by (auto simp: bind_Some_conv Let_def split del: if_split)
  from s1 Suc.prems(2,3) have "at < 1024" and y: "\<exists>y. aspaces s1 a = Some y \<and> length (ptab_tab y) = 1024"
    by (auto simp: aspace_map_def bind_Some_conv list_put_def split: if_splits)
  from y obtain y where y: "aspaces (s1\<lparr>pgroups := (pgroups s1)(pg \<mapsto> g\<lparr>pg_pages := ps\<rparr>)\<rparr>) a = Some y"
    "length (ptab_tab y) = 1024" by auto
  show ?case
  proof (cases "n = 0")
    case True
    with \<open>at < 1024\<close> show ?thesis by simp
  next
    case False
    with Suc.IH[OF rest y] show ?thesis by simp
  qed
qed simp

text \<open>
  \<open>locate_span\<close> also returns a place when the free pages run out at the end of the page
  table, and \<open>area_create\<close> does not look at how many it found: then it maps pages behind the
  last entry of the table (the access that the model has no result for), where it should
  return ERR_MEMORY.
\<close>

theorem area_create_overruns_table:
  assumes "aspaces s a = Some x" and "length (ptab_tab x) = 1024"
    and "at = locate_span (ptab_tab x) (virt div 0x1000) (page_count size_arg)" and "at \<noteq> 0"
    and "1024 < at + page_count size_arg"
  shows "area_create a size_arg virt phys flags s = None"
proof (rule ccontr)
  let ?n = "page_count size_arg" and ?ph = "and flags AREA_PHYSMAP \<noteq> 0"
  assume "area_create a size_arg virt phys flags s \<noteq> None"
  then obtain v out s' where "area_create a size_arg virt phys flags s = Some (v, out, s')"
    by (cases "area_create a size_arg virt phys flags s") auto
  with assms(1,3,4) obtain s0 s2 s3 ow where
    s2: "upd_aspace a (\<lambda>x. x\<lparr>as_areas := as_areas x @ [Suc (next_ref s)]\<rparr>) s0 = Some s2"
    and s0: "aspaces s0 = aspaces s"
    and s3: "area_fill ?n ?ph a (next_ref s) (phys div 0x1000) at 0 0 s2 = Some s3"
    and "rsrc_bind (Suc (next_ref s)) RSRC_AREA ow s3 = Some s'"
    by (auto simp: area_create_def new_ref_def bind_Some_conv Let_def)
  from s2 s0 assms(1,2) obtain y where y: "aspaces s2 a = Some y" "length (ptab_tab y) = 1024"
    by (auto simp: upd_aspace_def bind_Some_conv)
  have "0 < ?n" by (simp add: page_count_def Let_def)
  from area_fill_past[OF s3 y this] assms(5) show False by simp
qed

theorem area_create_overruns_table_witness:
  "area_create 8 8192 (1023 * 4096) 0 0 (demo\<lparr>aspaces := [8 \<mapsto> \<lparr>as_areas = [], as_pdir = 0, as_ptab = 0,
     pdir_tab = [], ptab_tab = replicate 1024 0, pdirphys = 0\<rparr>]\<rparr>) = None"
proof -
  let ?x = "\<lparr>as_areas = [], as_pdir = 0, as_ptab = 0, pdir_tab = [], ptab_tab = replicate 1024 0, pdirphys = 0\<rparr>"
  let ?s = "demo\<lparr>aspaces := [8 \<mapsto> ?x]\<rparr>"
  have n: "page_count 8192 = 2" by (simp add: page_count_def)
  have "locate_span (ptab_tab ?x) 1023 2 = 1023"
    by (simp add: locate_span_def span_loop.simps[of _ 1023] span_loop_stop del: replicate.simps)
  then have at: "1023 = locate_span (ptab_tab ?x) (1023 * 4096 div 0x1000) (page_count 8192)" by (simp add: n)
  show ?thesis
    by (rule area_create_overruns_table[OF _ _ at]) (simp_all add: n del: replicate.simps)
qed

section \<open>The break\<close>

lemma and_page_mask:
  assumes "(x::nat) < 4294967296"
  shows "and x 0xFFFFF000 = 4096 * (x div 4096)"
proof -
  have "and x 0xFFFFF000 = push_bit 12 (take_bit 20 (drop_bit 12 x))"
  proof (rule bit_eqI)
    fix n
    have m: "(0xFFFFF000 :: nat) = push_bit 12 (mask 20)" by (simp add: push_bit_eq_mult mask_eq_exp_minus_1)
    show "bit (and x 0xFFFFF000) n = bit (push_bit 12 (take_bit 20 (drop_bit 12 x))) n"
      unfolding m by (cases "12 \<le> n") (auto simp: bit_simps simp del: push_bit_of_nat)
  qed
  also have "\<dots> = 4096 * (x div 4096)"
  proof -
    have "x div 4096 < 2 ^ 20" using assms by (simp add: less_mult_imp_div_less)
    then show ?thesis by (simp add: push_bit_eq_mult drop_bit_eq_div take_bit_nat_eq_self)
  qed
  finally show ?thesis .
qed

text \<open>
  \<open>brk\<close> takes the number of the first page of the heap for its address. To make \<open>k\<close> bytes
  of the heap usable it asks for at least \<open>4096 * page + k\<close> bytes (rounded down to a page):
  the heap grows by as much as its own address, on top of what the caller needs.
\<close>

theorem brk_asks_too_much:
  assumes "0 < page" and "page < 1024" and "k < 0x400000"
  shows "brk_size (4096 * page + k) page \<ge> 4096 * page + 4096 * (k div 4096)"
proof -
  let ?d = "4096 * page + k - page"
  have d: "nat ((int (4096 * page + k) - int page) mod 4294967296) = ?d"
  proof -
    have "int (4096 * page + k) - int page = int ?d" using assms by (simp add: of_nat_diff)
    moreover have "?d < 4294967296" using assms by simp
    ultimately show ?thesis by (metis nat_int nat_mod_as_int of_nat_numeral mod_less)
  qed
  have lt: "?d < 4294967296" using assms by simp
  have "4096 * (page - 1) + 4096 * (k div 4096) \<le> 4096 * (?d div 4096)"
  proof -
    have "4096 * ((page - 1) + k div 4096) \<le> ?d" using assms by (simp add: algebra_simps)
    then have "(page - 1) + k div 4096 \<le> ?d div 4096" by (simp add: less_eq_div_iff_mult_less_eq mult.commute)
    then show ?thesis by simp
  qed
  moreover have "4096 * (?d div 4096) \<le> ?d" by (rule times_div_less_eq_dividend)
  moreover have "?d \<le> 4096 * 1024 + 0x400000" using assms by simp
  ultimately have "4096 + 4096 * (?d div 4096) < 4294967296"
    and "4096 * page + 4096 * (k div 4096) \<le> 4096 + 4096 * (?d div 4096)" using assms(1) by linarith+
  then show ?thesis unfolding brk_size_def d and_page_mask[OF lt] by (simp only: mod_less)
qed

theorem brk_asks_too_much_witness: "brk_size (4096 * 100 + 1) 100 \<ge> 4096 * 100"
  using brk_asks_too_much[of 100 1] by simp

end
