(* ===== verification/LibcString.thy ===== *)
theory LibcString
  imports Prelude
begin

text \<open>
  The C library's functions on bytes (\<open>lib/libc/string.c\<close>, \<open>strlcpy.c\<close>, \<open>strlcat.c\<close>). An
  object in memory is its list of bytes, a pointer into it an index; reading or writing
  behind its end is \<open>None\<close>. \<open>memmove\<close> works on one object with two indices, since its
  source and its destination may overlap. A \<open>char\<close> is compared as a byte.
\<close>

section \<open>The functions\<close>

text \<open>The loop of \<open>strncpy\<close>, and the \<open>if(size) *dst = 0\<close> after it.\<close>

primrec strncpy_loop :: "u8 list \<Rightarrow> nat \<Rightarrow> u8 list \<Rightarrow> nat \<Rightarrow> nat \<Rightarrow> u8 list option" where
  "strncpy_loop dst d src s 0 = Some dst"
| "strncpy_loop dst d src s (Suc n) = do {
     c \<leftarrow> list_get src s;
     if c \<noteq> 0 then do { dst \<leftarrow> list_put dst d c; strncpy_loop dst (d + 1) src (s + 1) n }
     else list_put dst d 0 }"

definition strncpy :: "u8 list \<Rightarrow> u8 list \<Rightarrow> nat \<Rightarrow> u8 list option" where
  "strncpy dst src n = strncpy_loop dst 0 src 0 n"

primrec strncmp_loop :: "u8 list \<Rightarrow> u8 list \<Rightarrow> nat \<Rightarrow> nat \<Rightarrow> int option" where
  "strncmp_loop s1 s2 i 0 = Some 0"
| "strncmp_loop s1 s2 i (Suc n) = do {
     a \<leftarrow> list_get s1 i;
     if a = 0 then Some (-1)
     else do {
       b \<leftarrow> list_get s2 i;
       if b = 0 then Some (-1)
       else if a \<noteq> b then Some (-1)
       else strncmp_loop s1 s2 (i + 1) n } }"

definition strncmp :: "u8 list \<Rightarrow> u8 list \<Rightarrow> nat \<Rightarrow> int option" where
  "strncmp s1 s2 n = strncmp_loop s1 s2 0 n"

text \<open>The result of \<open>strchr\<close> is an index, or no index for NULL.\<close>

fun strchr_loop :: "u8 list \<Rightarrow> nat \<Rightarrow> u8 \<Rightarrow> nat option option" where
  "strchr_loop [] i c = None"
| "strchr_loop (b # bs) i c = (if b = 0 then Some None else if b = c then Some (Some i) else strchr_loop bs (i + 1) c)"

definition strchr :: "u8 list \<Rightarrow> u8 \<Rightarrow> nat option option" where
  "strchr cs c = strchr_loop cs 0 c"

primrec memset :: "u8 list \<Rightarrow> nat \<Rightarrow> u8 \<Rightarrow> nat \<Rightarrow> u8 list option" where
  "memset m s c 0 = Some m"
| "memset m s c (Suc n) = do { m \<leftarrow> list_put m s c; memset m (s + 1) c n }"

primrec move_forward :: "u8 list \<Rightarrow> nat \<Rightarrow> nat \<Rightarrow> nat \<Rightarrow> u8 list option" where
  "move_forward m d s 0 = Some m"
| "move_forward m d s (Suc n) = do {
     b \<leftarrow> list_get m s; m \<leftarrow> list_put m d b; move_forward m (d + 1) (s + 1) n }"

text \<open>\<open>d\<close> and \<open>s\<close> stay at the start here: the pointers of the loop are \<open>d + n\<close> and \<open>s + n\<close>.\<close>

primrec move_backward :: "u8 list \<Rightarrow> nat \<Rightarrow> nat \<Rightarrow> nat \<Rightarrow> u8 list option" where
  "move_backward m d s 0 = Some m"
| "move_backward m d s (Suc n) = do {
     b \<leftarrow> list_get m (s + n); m \<leftarrow> list_put m (d + n) b; move_backward m d s n }"

definition memmove_bytes :: "u8 list \<Rightarrow> nat \<Rightarrow> nat \<Rightarrow> nat \<Rightarrow> u8 list option" where
  "memmove_bytes m dest src n = (if dest < src then move_forward m dest src n else move_backward m dest src n)"

primrec memcmp_loop :: "u8 list \<Rightarrow> u8 list \<Rightarrow> nat \<Rightarrow> nat \<Rightarrow> int option" where
  "memcmp_loop dst src i 0 = Some 0"
| "memcmp_loop dst src i (Suc n) = do {
     a \<leftarrow> list_get dst i;
     b \<leftarrow> list_get src i;
     if a \<noteq> b then Some 1 else memcmp_loop dst src (i + 1) n }"

definition memcmp :: "u8 list \<Rightarrow> u8 list \<Rightarrow> nat \<Rightarrow> int option" where
  "memcmp dst src n = memcmp_loop dst src 0 n"

primrec memcpy_loop :: "u8 list \<Rightarrow> u8 list \<Rightarrow> nat \<Rightarrow> nat \<Rightarrow> u8 list option" where
  "memcpy_loop dst src i 0 = Some dst"
| "memcpy_loop dst src i (Suc n) = do {
     b \<leftarrow> list_get src i; dst \<leftarrow> list_put dst i b; memcpy_loop dst src (i + 1) n }"

definition memcpy :: "u8 list \<Rightarrow> u8 list \<Rightarrow> nat \<Rightarrow> u8 list option" where
  "memcpy dst src n = memcpy_loop dst src 0 n"

text \<open>The number of bytes up to the first 0 from an index on, as \<open>strlen\<close> and the last loops count.\<close>

fun strlen :: "u8 list \<Rightarrow> nat option" where
  "strlen [] = None"
| "strlen (b # bs) = (if b = 0 then Some 0 else map_option Suc (strlen bs))"

text \<open>
  The copying loop of \<open>strlcpy\<close>; \<open>n\<close> is the counter at the start of a turn, not 0. The result
  holds the destination, the position in both strings and the counter.
\<close>

fun strlcpy_loop :: "u8 list \<Rightarrow> u8 list \<Rightarrow> nat \<Rightarrow> nat \<Rightarrow> (u8 list \<times> nat \<times> nat) option" where
  "strlcpy_loop dst src i n = do {
     b \<leftarrow> list_get src i;
     dst \<leftarrow> list_put dst i b;
     if b = 0 then Some (dst, i + 1, n)
     else if n - 1 = 0 then Some (dst, i + 1, 0)
     else strlcpy_loop dst src (i + 1) (n - 1) }"

declare strlcpy_loop.simps [simp del]

definition strlcpy :: "u8 list \<Rightarrow> u8 list \<Rightarrow> nat \<Rightarrow> (u8 list \<times> nat) option" where
  "strlcpy dst src siz = do {
     (dst, i, n) \<leftarrow> (if siz \<noteq> 0 \<and> siz - 1 \<noteq> 0 then strlcpy_loop dst src 0 (siz - 1)
       else Some (dst, 0, 0));
     if n = 0 then do {
       dst \<leftarrow> (if siz \<noteq> 0 then list_put dst i 0 else Some dst);
       k \<leftarrow> strlen (drop i src);
       Some (dst, i + k) }
     else Some (dst, i - 1) }"

text \<open>\<open>n\<close> is a \<open>size_t\<close>: it wraps around when \<open>dlen\<close> is larger.\<close>

fun strlcat_loop :: "u8 list \<Rightarrow> nat \<Rightarrow> u8 list \<Rightarrow> nat \<Rightarrow> (u8 list \<times> nat) option" where
  "strlcat_loop dst d [] n = None"
| "strlcat_loop dst d (b # bs) n =
    (if b = 0 then Some (dst, d)
     else if n \<noteq> 1 then do { dst \<leftarrow> list_put dst d b; strlcat_loop dst (d + 1) bs (n - 1) }
     else strlcat_loop dst d bs n)"

definition strlcat :: "u8 list \<Rightarrow> u8 list \<Rightarrow> nat \<Rightarrow> (u8 list \<times> nat) option" where
  "strlcat dst src siz = do {
     dlen \<leftarrow> (if siz = 0 then do { _ \<leftarrow> list_get dst 0; Some 0 } else strlen dst);
     let n = nat ((int siz - int dlen) mod 4294967296);
     k \<leftarrow> strlen src;
     if n = 0 then Some (dst, dlen + k)
     else do {
       (dst, d) \<leftarrow> strlcat_loop dst dlen src n;
       dst \<leftarrow> list_put dst d 0;
       Some (dst, dlen + k) } }"

section \<open>Moving bytes\<close>

lemma move_forward_eq:
  "d \<le> s \<Longrightarrow> s + n \<le> length m \<Longrightarrow> move_forward m d s n = Some (take d m @ take n (drop s m) @ drop (d + n) m)"
proof (induction n arbitrary: d s m)
  case (Suc n)
  have 1: "take (Suc d) (m[d := m ! s]) = take d m @ [m ! s]"
    using Suc.prems by (simp add: take_Suc_conv_app_nth)
  have 2: "take (Suc n) (drop s m) = m ! s # take n (drop (Suc s) m)"
    using Suc.prems by (simp add: Cons_nth_drop_Suc[symmetric])
  have 3: "drop (Suc s) (m[d := m ! s]) = drop (Suc s) m" using Suc.prems by simp
  from Suc.prems show ?case by (simp add: Suc.IH 1 2 3 del: take_Suc)
qed simp

lemma move_backward_eq:
  "s \<le> d \<Longrightarrow> d + n \<le> length m \<Longrightarrow> move_backward m d s n = Some (take d m @ take n (drop s m) @ drop (d + n) m)"
proof (induction n arbitrary: m)
  case (Suc n)
  let ?m = "m[d + n := m ! (s + n)]"
  have 1: "take d ?m = take d m" by simp
  have 2: "take (Suc n) (drop s m) = take n (drop s m) @ [m ! (s + n)]"
    using Suc.prems by (simp add: take_Suc_conv_app_nth)
  have 3: "take n (drop s ?m) = take n (drop s m)"
    by (rule nth_equalityI) (use Suc.prems in auto)
  have 4: "drop (d + n) ?m = m ! (s + n) # drop (Suc (d + n)) m"
    using Suc.prems by (simp add: Cons_nth_drop_Suc[symmetric])
  from Suc.prems show ?case by (simp add: Suc.IH 1 2 3 4)
qed simp

lemma strlcpy_loop_eq:
  assumes "0 \<notin> set cs" and "0 < n" and "length pre + n \<le> length dst" and "src = pre @ cs @ 0 # rest"
  shows "strlcpy_loop dst src (length pre) n =
    (if length cs < n then Some (take (length pre) dst @ cs @ 0 # drop (length pre + length cs + 1) dst, length pre + length cs + 1, n - length cs)
     else Some (take (length pre) dst @ take n cs @ drop (length pre + n) dst, length pre + n, 0))"
  using assms
proof (induction cs arbitrary: pre n dst)
  case Nil
  then show ?case
    by (simp add: strlcpy_loop.simps[of dst] nth_append upd_conv_take_nth_drop)
next
  case (Cons c cs)
  let ?dst = "dst[length pre := c]"
  have t: "take (Suc (length pre)) ?dst = take (length pre) dst @ [c]"
    using Cons.prems by (simp add: take_Suc_conv_app_nth)
  show ?case
  proof (cases "n = 1")
    case True
    with Cons.prems show ?thesis
      by (simp add: strlcpy_loop.simps[of dst] nth_append upd_conv_take_nth_drop)
  next
    case False
    have "strlcpy_loop ?dst src (length (pre @ [c])) (n - 1) =
      (if length cs < n - 1 then Some (take (length (pre @ [c])) ?dst @ cs @ 0 # drop (length (pre @ [c]) + length cs + 1) ?dst,
         length (pre @ [c]) + length cs + 1, n - 1 - length cs)
       else Some (take (length (pre @ [c])) ?dst @ take (n - 1) cs @ drop (length (pre @ [c]) + (n - 1)) ?dst, length (pre @ [c]) + (n - 1), 0))"
      by (rule Cons.IH) (use Cons.prems False in auto)
    moreover have "take n (c # cs) = c # take (n - 1) cs" using Cons.prems(2) by (cases n) auto
    ultimately show ?thesis
      using Cons.prems False by (simp add: strlcpy_loop.simps[of dst] nth_append t) auto
  qed
qed

lemma strlen_eq: "0 \<notin> set cs \<Longrightarrow> strlen (cs @ 0 # rest) = Some (length cs)"
  by (induction cs) auto

lemma strncmp_loop_eq:
  assumes "0 \<notin> set as" and "0 \<notin> set bs" and "s1 = pre1 @ as @ 0 # r1" and "s2 = pre2 @ bs @ 0 # r2" and "length pre2 = length pre1"
  shows "strncmp_loop s1 s2 (length pre1) n =
    Some (if n \<le> length as \<and> n \<le> length bs \<and> take n as = take n bs then 0 else -1)"
  using assms
proof (induction n arbitrary: as bs pre1 pre2)
  case (Suc n)
  show ?case
  proof (cases "as = [] \<or> bs = [] \<or> hd as \<noteq> hd bs")
    case True
    with Suc.prems show ?thesis by (cases as; cases bs) (auto simp: nth_append)
  next
    case False
    then obtain c as' bs' where ab: "as = c # as'" "bs = c # bs'" by (cases as; cases bs) auto
    have "strncmp_loop s1 s2 (length (pre1 @ [c])) n =
      Some (if n \<le> length as' \<and> n \<le> length bs' \<and> take n as' = take n bs' then 0 else -1)"
      using Suc.IH[of as' bs' "pre1 @ [c]" "pre2 @ [c]"] Suc.prems ab by simp
    with Suc.prems ab show ?thesis by (simp add: nth_append)
  qed
qed simp

lemma strlcat_loop_eq:
  assumes "0 \<notin> set cs" and "length cs < n" and "d + length cs \<le> length dst"
  shows "strlcat_loop dst d (cs @ 0 # rest) n = Some (take d dst @ cs @ drop (d + length cs) dst, d + length cs)"
  using assms
proof (induction cs arbitrary: d n dst)
  case (Cons c cs)
  have "take (Suc d) (dst[d := c]) = take d dst @ [c]"
    using Cons.prems by (simp add: take_Suc_conv_app_nth)
  with Cons show ?case by simp
qed simp

section \<open>Properties\<close>

text \<open>
  C31: \<open>memmove\<close> is right also when the two areas overlap, whichever of its loops runs: the
  destination gets the old bytes of the source and nothing else changes.
\<close>

theorem memmove_overlap:
  assumes "dest + n \<le> length m" and "src + n \<le> length m"
  shows "memmove_bytes m dest src n = Some (take dest m @ take n (drop src m) @ drop (dest + n) m)"
  using assms by (simp add: memmove_bytes_def move_forward_eq move_backward_eq)

theorem memmove_overlap_witness: "memmove_bytes [1, 2, 3, 4, 5] 1 0 3 = Some [1, 1, 2, 3, 5]"
  using memmove_overlap[of 1 3 "[1, 2, 3, 4, 5]" 0] by simp

text \<open>
  C40: \<open>strlcpy\<close> copies as much of the string as fits in \<open>siz\<close> bytes with the terminator,
  always writes the terminator, leaves the bytes behind it, and returns the length of the
  source, so that the caller sees a truncation.
\<close>

theorem strlcpy_truncates:
  assumes "0 \<notin> set cs" and "0 < siz" and "siz \<le> length dst"
  shows "strlcpy dst (cs @ 0 # rest) siz =
    Some (take (siz - 1) cs @ 0 # drop (min (siz - 1) (length cs) + 1) dst, length cs)"
proof (cases "siz = 1")
  case True
  with assms show ?thesis by (cases dst) (simp_all add: strlcpy_def strlen_eq)
next
  case False
  let ?n = "siz - 1"
  have l: "strlcpy_loop dst (cs @ 0 # rest) 0 ?n =
    (if length cs < ?n then Some (cs @ 0 # drop (length cs + 1) dst, length cs + 1, ?n - length cs)
     else Some (take ?n cs @ drop ?n dst, ?n, 0))"
    using strlcpy_loop_eq[of cs ?n "[]" dst "cs @ 0 # rest" rest] assms False by simp
  have d: "strlen (drop ?n (cs @ 0 # rest)) = Some (length cs - ?n)" if "?n \<le> length cs"
  proof -
    have "0 \<notin> set (drop ?n cs)" using assms(1) by (meson in_set_dropD)
    with that show ?thesis by (simp add: strlen_eq)
  qed
  show ?thesis
  proof (cases "length cs < ?n")
    case True
    with l assms False show ?thesis by (simp add: strlcpy_def)
  next
    case False
    then have "(take ?n cs @ drop ?n dst)[?n := 0] = take ?n cs @ 0 # drop siz dst"
      using assms \<open>siz \<noteq> 1\<close> by (simp add: list_update_append Cons_nth_drop_Suc[symmetric] min_def)
    with l d False assms \<open>siz \<noteq> 1\<close> show ?thesis by (simp add: strlcpy_def min_def)
  qed
qed

theorem strlcpy_truncates_witness: "strlcpy [9, 9, 9, 9] [65, 66, 67, 68, 69, 0] 3 = Some ([65, 66, 0, 9], 5)"
  using strlcpy_truncates[of "[65, 66, 67, 68, 69]" 3 "[9, 9, 9, 9]" "[]"] by simp

text \<open>
  \<open>strncmp\<close> returns 0 only when the first \<open>n\<close> bytes of both strings are equal and none of
  them is the terminator: two equal strings that are shorter than \<open>n\<close> are reported as
  different, unlike the function of the C standard.
\<close>

theorem strncmp_short_strings_differ:
  assumes "0 \<notin> set as" and "0 \<notin> set bs"
  shows "strncmp (as @ 0 # r1) (bs @ 0 # r2) n =
    Some (if n \<le> length as \<and> n \<le> length bs \<and> take n as = take n bs then 0 else -1)"
  using strncmp_loop_eq[of as bs "as @ 0 # r1" "[]" r1 "bs @ 0 # r2" "[]" r2 n] assms by (simp add: strncmp_def)

theorem strncmp_short_strings_differ_witness: "strncmp [65, 66, 0] [65, 66, 0] 5 = Some (-1)"
  using strncmp_short_strings_differ[of "[65, 66]" "[65, 66]" "[]" "[]" 5] by simp

text \<open>
  \<open>strlcat\<close> does not count down while it looks for the end of the destination. If the
  string there is longer than the size it is given, the room that is left wraps around, and
  the whole source is written behind the place that it must not pass.
\<close>

theorem strlcat_ignores_size:
  assumes "0 \<notin> set ds" and "0 \<notin> set cs" and "0 < siz" and "siz < length ds"
    and "length ds + length cs < 4294967296" and "length cs \<le> length tail"
  shows "strlcat (ds @ 0 # tail) (cs @ 0 # rest) siz = Some (ds @ cs @ 0 # drop (length cs) tail, length ds + length cs)"
proof -
  let ?n = "nat ((int siz - int (length ds)) mod 4294967296)"
  have "(int siz - int (length ds)) mod 4294967296 = (int siz - int (length ds) + 4294967296) mod 4294967296"
    by simp
  also have "\<dots> = int siz - int (length ds) + 4294967296"
    by (rule mod_pos_pos_trivial) (use assms in auto)
  finally have m: "(int siz - int (length ds)) mod 4294967296 = int siz - int (length ds) + 4294967296" .
  then have n: "?n = 4294967296 + siz - length ds" by linarith
  have l: "strlcat_loop (ds @ 0 # tail) (length ds) (cs @ 0 # rest) ?n = Some (ds @ cs @ drop (length cs) (0 # tail), length ds + length cs)"
    using strlcat_loop_eq[of cs ?n "length ds" "ds @ 0 # tail" rest] assms n by simp
  have "(ds @ cs @ drop (length cs) (0 # tail))[length ds + length cs := 0] = ds @ cs @ 0 # drop (length cs) tail"
    using assms(6) by (cases cs) (simp_all add: list_update_append Cons_nth_drop_Suc[symmetric])
  with l assms show ?thesis by (simp add: strlcat_def strlen_eq Let_def m)
qed

theorem strlcat_ignores_size_witness:
  "strlcat [65, 66, 67, 0, 9, 9] [68, 69, 0] 2 = Some ([65, 66, 67, 68, 69, 0], 5)"
  using strlcat_ignores_size[of "[65, 66, 67]" "[68, 69]" 2 "[9, 9]" "[]"] by simp

end
