(* ===== verification/LibcSort.thy ===== *)
theory LibcSort
  imports Prelude "HOL-Library.Multiset"
begin

text \<open>
  The C library's \<open>qsort\<close> (\<open>lib/libc/qsort.c\<close>). The array is the list of its elements
  and a pointer into it the number of the element it points to, so that a step by \<open>es\<close>
  bytes is a step by 1, and \<open>swap\<close> and \<open>vecswap\<close>, which move whole elements, act on
  entries; an access outside the array is \<open>None\<close>. The calls on a part of the array work
  on the same list, and \<open>a\<close> is the number of the first element of the part. The
  comparison function is the parameter \<open>cmp\<close>, and the definitions assume nothing of it.
\<close>

section \<open>The functions\<close>

type_synonym 'a cmp = "'a \<Rightarrow> 'a \<Rightarrow> int"

definition cmp_at :: "'a cmp \<Rightarrow> 'a list \<Rightarrow> nat \<Rightarrow> nat \<Rightarrow> int option" where
  "cmp_at cmp xs i j = do { x \<leftarrow> list_get xs i; y \<leftarrow> list_get xs j; Some (cmp x y) }"

definition swap_el :: "'a list \<Rightarrow> nat \<Rightarrow> nat \<Rightarrow> 'a list option" where
  "swap_el xs i j = do {
     x \<leftarrow> list_get xs i; y \<leftarrow> list_get xs j; xs \<leftarrow> list_put xs i y; list_put xs j x }"

text \<open>The loop of \<open>swapcode\<close>, which exchanges one element after the other.\<close>

primrec vecswap :: "'a list \<Rightarrow> nat \<Rightarrow> nat \<Rightarrow> nat \<Rightarrow> 'a list option" where
  "vecswap xs i j 0 = Some xs"
| "vecswap xs i j (Suc n) = do { xs \<leftarrow> swap_el xs i j; vecswap xs (i + 1) (j + 1) n }"

definition med3 :: "'a cmp \<Rightarrow> 'a list \<Rightarrow> nat \<Rightarrow> nat \<Rightarrow> nat \<Rightarrow> nat option" where
  "med3 cmp xs a b c = do {
     ab \<leftarrow> cmp_at cmp xs a b;
     bc \<leftarrow> cmp_at cmp xs b c;
     if ab < 0 then
       if bc < 0 then Some b
       else do { ac \<leftarrow> cmp_at cmp xs a c; Some (if ac < 0 then c else a) }
     else
       if bc > 0 then Some b
       else do { ac \<leftarrow> cmp_at cmp xs a c; Some (if ac < 0 then a else c) } }"

text \<open>The insertion sort of small arrays: the inner loop over \<open>pl\<close>, the outer loop over \<open>pm\<close>.\<close>

fun insert_down :: "'a cmp \<Rightarrow> nat \<Rightarrow> nat \<Rightarrow> 'a list \<Rightarrow> 'a list option" where
  "insert_down cmp a pl xs =
     (if a < pl then do {
        r \<leftarrow> cmp_at cmp xs (pl - 1) pl;
        if r > 0 then do { xs \<leftarrow> swap_el xs pl (pl - 1); insert_down cmp a (pl - 1) xs }
        else Some xs }
      else Some xs)"

function insert_sort :: "'a cmp \<Rightarrow> nat \<Rightarrow> nat \<Rightarrow> nat \<Rightarrow> 'a list \<Rightarrow> 'a list option" where
  "insert_sort cmp a e pm xs =
     (if pm < e then do { xs \<leftarrow> insert_down cmp a pm xs; insert_sort cmp a e (pm + 1) xs }
      else Some xs)"
  by pat_completeness auto
termination by (relation "measure (\<lambda>(cmp, a, e, pm, xs). e - pm)") auto

declare insert_down.simps [simp del] insert_sort.simps [simp del]

text \<open>The choice of the pivot: the middle element, a median of three, or of nine.\<close>

definition pivot :: "'a cmp \<Rightarrow> nat \<Rightarrow> nat \<Rightarrow> 'a list \<Rightarrow> nat option" where
  "pivot cmp a n xs =
     (let pm = a + n div 2 in
      if n > 7 then
        let pl = a; pn = a + (n - 1) in
        if n > 40 then
          let d = n div 8 in do {
            pl \<leftarrow> med3 cmp xs pl (pl + d) (pl + 2 * d);
            pm \<leftarrow> med3 cmp xs (pm - d) pm (pm + d);
            pn \<leftarrow> med3 cmp xs (pn - 2 * d) (pn - d) pn;
            med3 cmp xs pl pm pn }
        else med3 cmp xs pl pm pn
      else Some pm)"

text \<open>
  The two inner loops of the partition. Elements equal to the pivot, which is in \<open>a\<close>, are
  collected at both ends: below \<open>pa\<close> and above \<open>pd\<close>. Between the ends \<open>pb\<close> is greater
  than \<open>a\<close>, so that \<open>pc\<close> is never 0 where it is counted down; the test \<open>0 < pc\<close>
  only makes the termination plain.
\<close>

record 'a split =
  arr :: "'a list"
  pa :: nat
  pb :: nat
  pc :: nat
  pd :: nat
  swap_cnt :: bool

definition keep_low :: "int \<Rightarrow> 'a split \<Rightarrow> 'a split option" where
  "keep_low r s =
     (if r = 0 then do {
        xs \<leftarrow> swap_el (arr s) (pa s) (pb s);
        Some (s\<lparr>swap_cnt := True, arr := xs, pa := pa s + 1\<rparr>) }
      else Some s)"

definition keep_high :: "int \<Rightarrow> 'a split \<Rightarrow> 'a split option" where
  "keep_high r s =
     (if r = 0 then do {
        xs \<leftarrow> swap_el (arr s) (pc s) (pd s);
        Some (s\<lparr>swap_cnt := True, arr := xs, pd := pd s - 1\<rparr>) }
      else Some s)"

lemma keep_low_counters: "keep_low r s = Some t \<Longrightarrow> pb t = pb s \<and> pc t = pc s \<and> pd t = pd s"
  by (auto simp: keep_low_def bind_Some_conv split: if_splits)

lemma keep_high_counters: "keep_high r s = Some t \<Longrightarrow> pb t = pb s \<and> pc t = pc s \<and> pa t = pa s"
  by (auto simp: keep_high_def bind_Some_conv split: if_splits)

function scan_up :: "'a cmp \<Rightarrow> nat \<Rightarrow> 'a split \<Rightarrow> 'a split option" where
  "scan_up cmp a s =
     (if pb s \<le> pc s then do {
        r \<leftarrow> cmp_at cmp (arr s) (pb s) a;
        if r \<le> 0 then do { s \<leftarrow> keep_low r s; scan_up cmp a (s\<lparr>pb := pb s + 1\<rparr>) }
        else Some s }
      else Some s)"
  by pat_completeness auto
termination
  by (relation "measure (\<lambda>(cmp, a, s). Suc (pc s) - pb s)") (auto dest!: keep_low_counters)

function scan_down :: "'a cmp \<Rightarrow> nat \<Rightarrow> 'a split \<Rightarrow> 'a split option" where
  "scan_down cmp a s =
     (if pb s \<le> pc s \<and> 0 < pc s then do {
        r \<leftarrow> cmp_at cmp (arr s) (pc s) a;
        if r \<ge> 0 then do { s \<leftarrow> keep_high r s; scan_down cmp a (s\<lparr>pc := pc s - 1\<rparr>) }
        else Some s }
      else Some s)"
  by pat_completeness auto
termination
  by (relation "measure (\<lambda>(cmp, a, s). pc s)") (auto dest!: keep_high_counters)

declare scan_up.simps [simp del] scan_down.simps [simp del]

text \<open>The counters stay inside the part of the array, whatever \<open>cmp\<close> answers.\<close>

definition in_part :: "nat \<Rightarrow> nat \<Rightarrow> 'a split \<Rightarrow> bool" where
  "in_part a n s \<longleftrightarrow> a < pa s \<and> pa s \<le> pb s \<and> pb s \<le> a + n \<and> a \<le> pc s \<and> pc s \<le> pd s \<and> pd s < a + n"

lemma scan_up_counters:
  "scan_up cmp a s = Some t \<Longrightarrow> pb s \<le> pb t \<and> pc t = pc s \<and> pd t = pd s \<and> (in_part a n s \<longrightarrow> in_part a n t)"
proof (induction cmp a s rule: scan_up.induct)
  case (1 cmp a s)
  show ?case
  proof (cases "pb s \<le> pc s")
    case False
    with "1.prems" show ?thesis by (simp add: scan_up.simps)
  next
    case True
    with "1.prems" obtain r where r: "cmp_at cmp (arr s) (pb s) a = Some r"
      by (auto simp: scan_up.simps[of cmp a s] bind_Some_conv)
    show ?thesis
    proof (cases "r \<le> 0")
      case False
      with "1.prems" True r show ?thesis by (simp add: scan_up.simps[of cmp a s])
    next
      case le: True
      with "1.prems" True r obtain u where u: "keep_low r s = Some u"
        and t: "scan_up cmp a (u\<lparr>pb := pb u + 1\<rparr>) = Some t"
        by (auto simp: scan_up.simps[of cmp a s] bind_Some_conv)
      have "in_part a n s \<longrightarrow> in_part a n (u\<lparr>pb := pb u + 1\<rparr>)"
        using u True by (auto simp: in_part_def keep_low_def bind_Some_conv split: if_splits)
      with "1.IH"[OF True r le u t] keep_low_counters[OF u] show ?thesis by auto
    qed
  qed
qed

lemma scan_down_counters:
  "scan_down cmp a s = Some t \<Longrightarrow> pc t \<le> pc s \<and> pb t = pb s \<and> pa t = pa s \<and> (in_part a n s \<longrightarrow> in_part a n t)"
proof (induction cmp a s rule: scan_down.induct)
  case (1 cmp a s)
  show ?case
  proof (cases "pb s \<le> pc s \<and> 0 < pc s")
    case False
    with "1.prems" show ?thesis by (simp add: scan_down.simps del: neq0_conv split: if_splits)
  next
    case True
    with "1.prems" obtain r where r: "cmp_at cmp (arr s) (pc s) a = Some r"
      by (auto simp: scan_down.simps[of cmp a s] bind_Some_conv)
    show ?thesis
    proof (cases "0 \<le> r")
      case False
      with "1.prems" True r show ?thesis by (simp add: scan_down.simps[of cmp a s])
    next
      case le: True
      with "1.prems" True r obtain u where u: "keep_high r s = Some u"
        and t: "scan_down cmp a (u\<lparr>pc := pc u - 1\<rparr>) = Some t"
        by (auto simp: scan_down.simps[of cmp a s] bind_Some_conv)
      have "in_part a n s \<longrightarrow> in_part a n (u\<lparr>pc := pc u - 1\<rparr>)"
        using u True by (auto simp: in_part_def keep_high_def bind_Some_conv split: if_splits)
      with "1.IH"[OF True r le u t] keep_high_counters[OF u] show ?thesis by auto
    qed
  qed
qed

text \<open>The loop around them ends when the two have met.\<close>

function partition_loop :: "'a cmp \<Rightarrow> nat \<Rightarrow> 'a split \<Rightarrow> 'a split option" where
  "partition_loop cmp a s = do {
     s1 \<leftarrow> scan_up cmp a s;
     s2 \<leftarrow> scan_down cmp a s1;
     if pb s2 > pc s2 then Some s2
     else do {
       xs \<leftarrow> swap_el (arr s2) (pb s2) (pc s2);
       partition_loop cmp a (s2\<lparr>arr := xs, swap_cnt := True, pb := pb s2 + 1, pc := pc s2 - 1\<rparr>) } }"
  by pat_completeness auto
termination
  by (relation "measure (\<lambda>(cmp, a, s). Suc (pc s) - pb s)")
    (auto dest!: scan_up_counters[where n = 0] scan_down_counters[where n = 0])

declare partition_loop.simps [simp del]

lemma partition_counters:
  "partition_loop cmp a s = Some t \<Longrightarrow> in_part a n s \<Longrightarrow> in_part a n t"
proof (induction cmp a s rule: partition_loop.induct)
  case (1 cmp a s)
  from "1.prems"(1) obtain s1 s2 where s1: "scan_up cmp a s = Some s1" and s2: "scan_down cmp a s1 = Some s2"
    by (subst (asm) partition_loop.simps) (auto simp: bind_Some_conv)
  with "1.prems"(2) have part: "in_part a n s2"
    by (auto dest!: scan_up_counters[where n = n] scan_down_counters[where n = n])
  show ?case
  proof (cases "pb s2 > pc s2")
    case True
    with "1.prems"(1) s1 s2 part show ?thesis by (simp add: partition_loop.simps[of cmp a s])
  next
    case False
    with "1.prems"(1) s1 s2 obtain xs where xs: "swap_el (arr s2) (pb s2) (pc s2) = Some xs"
      and t: "partition_loop cmp a (s2\<lparr>arr := xs, swap_cnt := True, pb := pb s2 + 1, pc := pc s2 - 1\<rparr>) = Some t"
      by (auto simp: partition_loop.simps[of cmp a s] bind_Some_conv)
    have "in_part a n (s2\<lparr>arr := xs, swap_cnt := True, pb := pb s2 + 1, pc := pc s2 - 1\<rparr>)"
      using part False by (auto simp: in_part_def)
    with "1.IH"[OF s1 s2 False xs t] show ?thesis .
  qed
qed

definition partition_start :: "nat \<Rightarrow> nat \<Rightarrow> 'a list \<Rightarrow> 'a split" where
  "partition_start a n xs = \<lparr>arr = xs, pa = a + 1, pb = a + 1, pc = a + (n - 1), pd = a + (n - 1), swap_cnt = False\<rparr>"
lemma partition_start_in: "2 \<le> n \<Longrightarrow> in_part a n (partition_start a n xs)"
  by (auto simp: in_part_def partition_start_def)

text \<open>
  \<open>qsort\<close>. The \<open>goto loop\<close> at the end sorts the elements above the pivot as a call
  would. When the partition has exchanged nothing the whole part is sorted by insertion.
\<close>

function qsort :: "'a cmp \<Rightarrow> nat \<Rightarrow> nat \<Rightarrow> 'a list \<Rightarrow> 'a list option" where
  "qsort cmp a n xs =
     (if n < 7 then insert_sort cmp a (a + n) (a + 1) xs
      else do {
        pm \<leftarrow> pivot cmp a n xs;
        xs \<leftarrow> swap_el xs a pm;
        s \<leftarrow> partition_loop cmp a (partition_start a n xs);
        if \<not> swap_cnt s then insert_sort cmp a (a + n) (a + 1) (arr s)
        else do {
          let pn = a + n;
          let r = min (pa s - a) (pb s - pa s);
          xs \<leftarrow> vecswap (arr s) a (pb s - r) r;
          let r = min (pd s - pc s) (pn - pd s - 1);
          xs \<leftarrow> vecswap xs (pb s) (pn - r) r;
          let r = pb s - pa s;
          xs \<leftarrow> (if r > 1 then qsort cmp a r xs else Some xs);
          let r = pd s - pc s;
          if r > 1 then qsort cmp (pn - r) r xs else Some xs } })"
  by pat_completeness auto
termination
proof (relation "measure (\<lambda>(cmp, a, n, xs). n)", goal_cases)
  case 1
  show ?case by simp
qed (auto simp: in_part_def dest!: partition_counters[OF _ partition_start_in])

declare qsort.simps [simp del]

section \<open>Parts of the array\<close>

text \<open>\<open>perm_part a e xs ys\<close>: \<open>ys\<close> has the entries of \<open>xs\<close>, those outside \<open>a ..< e\<close> in place.\<close>

definition perm_part :: "nat \<Rightarrow> nat \<Rightarrow> 'a list \<Rightarrow> 'a list \<Rightarrow> bool" where
  "perm_part a e xs ys \<longleftrightarrow> length ys = length xs \<and> mset ys = mset xs \<and>
     (\<forall>i < length xs. i < a \<or> e \<le> i \<longrightarrow> ys ! i = xs ! i)"

definition part_sorted :: "'a cmp \<Rightarrow> nat \<Rightarrow> nat \<Rightarrow> 'a list \<Rightarrow> bool" where
  "part_sorted cmp a e xs \<longleftrightarrow> (\<forall>i j. a \<le> i \<and> i < j \<and> j < e \<longrightarrow> cmp (xs ! i) (xs ! j) \<le> 0)"

text \<open>What the standard asks of a comparison function: it is a total preorder.\<close>

definition cmp_ok :: "'a cmp \<Rightarrow> bool" where
  "cmp_ok cmp \<longleftrightarrow> (\<forall>x y. cmp x y < 0 \<longleftrightarrow> cmp y x > 0) \<and>
     (\<forall>x y z. cmp x y \<le> 0 \<longrightarrow> cmp y z \<le> 0 \<longrightarrow> cmp x z \<le> 0)"

lemma cmp_ok_flip: "cmp_ok cmp \<Longrightarrow> 0 \<le> cmp x y \<Longrightarrow> cmp y x \<le> 0"
  by (metis cmp_ok_def not_le)

lemma cmp_ok_trans: "cmp_ok cmp \<Longrightarrow> cmp x y \<le> 0 \<Longrightarrow> cmp y z \<le> 0 \<Longrightarrow> cmp x z \<le> 0"
  by (auto simp: cmp_ok_def)

lemma cmp_ok_refl: "cmp_ok cmp \<Longrightarrow> cmp x x = 0"
  by (metis cmp_ok_def not_less_iff_gr_or_eq)

lemma cmp_at_in [simp]: "i < length xs \<Longrightarrow> j < length xs \<Longrightarrow> cmp_at cmp xs i j = Some (cmp (xs ! i) (xs ! j))"
  by (simp add: cmp_at_def)

lemma swap_el_in [simp]:
  "i < length xs \<Longrightarrow> j < length xs \<Longrightarrow> swap_el xs i j = Some (xs[i := xs ! j, j := xs ! i])"
  by (simp add: swap_el_def)

lemma perm_part_refl [simp]: "perm_part a e xs xs"
  by (simp add: perm_part_def)

lemma perm_part_trans: "perm_part a e xs ys \<Longrightarrow> perm_part a e ys zs \<Longrightarrow> perm_part a e xs zs"
  by (simp add: perm_part_def)

lemma perm_part_mono: "perm_part a' e' xs ys \<Longrightarrow> a \<le> a' \<Longrightarrow> e' \<le> e \<Longrightarrow> perm_part a e xs ys"
  by (auto simp: perm_part_def)

lemma perm_part_length: "perm_part a e xs ys \<Longrightarrow> length ys = length xs"
  by (simp add: perm_part_def)

lemma perm_part_nth: "perm_part a e xs ys \<Longrightarrow> i < length xs \<Longrightarrow> i < a \<or> e \<le> i \<Longrightarrow> ys ! i = xs ! i"
  by (auto simp: perm_part_def)

lemma perm_part_swap [simp]:
  assumes "a \<le> i" and "i < e" and "a \<le> j" and "j < e" and "e \<le> length xs"
  shows "perm_part a e xs (xs[i := xs ! j, j := xs ! i])"
  using assms mset_swap[of j xs i] by (auto simp: perm_part_def list_update_swap)

lemma perm_part_all:
  assumes p: "perm_part a e xs ys" and e: "e \<le> length xs"
    and P: "\<And>i. a \<le> i \<Longrightarrow> i < e \<Longrightarrow> P (xs ! i)" and k: "a \<le> k" "k < e"
  shows "P (ys ! k)"
proof -
  have len: "length ys = length xs" using p by (rule perm_part_length)
  have split: "mset (take a zs) + mset (take (e - a) (drop a zs)) + mset (drop e zs) = mset zs" for zs :: "'a list"
  proof -
    have "take a zs @ take (e - a) (drop a zs) @ drop e zs = zs"
      using k by (metis append_assoc append_take_drop_id le_add_diff_inverse less_imp_le order.strict_trans1 take_add)
    then show ?thesis by (metis add.assoc mset_append)
  qed
  have "take a ys = take a xs" "drop e ys = drop e xs"
    using p k e len by (auto intro!: nth_equalityI simp: perm_part_nth)
  with split[of ys] split[of xs] p have "mset (take (e - a) (drop a ys)) = mset (take (e - a) (drop a xs))"
    by (simp add: perm_part_def) (metis add_left_cancel add_right_cancel)
  moreover have "ys ! k \<in> set (take (e - a) (drop a ys))"
    using k e len by (auto simp: in_set_conv_nth intro!: exI[of _ "k - a"])
  ultimately have "ys ! k \<in> set (take (e - a) (drop a xs))"
    by (metis set_mset_mset)
  then obtain i where "i < e - a" "ys ! k = xs ! (a + i)"
    using e by (auto simp: in_set_conv_nth)
  with P[of "a + i"] show ?thesis by simp
qed

section \<open>Insertion sort\<close>

lemma insert_down_spec:
  "a \<le> pl \<Longrightarrow> pl < length xs \<Longrightarrow> \<exists>ys. insert_down cmp a pl xs = Some ys \<and> perm_part a (Suc pl) xs ys"
proof (induction cmp a pl xs rule: insert_down.induct)
  case (1 cmp a pl xs)
  show ?case
  proof (cases "a < pl \<and> cmp (xs ! (pl - 1)) (xs ! pl) > 0")
    case False
    with "1.prems" show ?thesis by (auto simp: insert_down.simps[of cmp a pl xs])
  next
    case True
    let ?ys = "xs[pl := xs ! (pl - 1), pl - 1 := xs ! pl]"
    have "perm_part a (Suc pl) xs ?ys" using "1.prems" True by (intro perm_part_swap) auto
    moreover have "a \<le> pl - 1" "pl - 1 < length ?ys" using "1.prems" True by auto
    with "1.IH"[of "cmp (xs ! (pl - 1)) (xs ! pl)" ?ys] "1.prems" True
    obtain zs where "insert_down cmp a (pl - 1) ?ys = Some zs" "perm_part a (Suc (pl - 1)) ?ys zs" by auto
    moreover then have "perm_part a (Suc pl) ?ys zs" by (auto elim: perm_part_mono)
    ultimately show ?thesis using "1.prems" True
      by (auto simp: insert_down.simps[of cmp a pl xs] intro: perm_part_trans)
  qed
qed

text \<open>While the element moves down, only the pairs with it in the second place may be out of order.\<close>

lemma insert_down_sorts:
  "cmp_ok cmp \<Longrightarrow> insert_down cmp a pl xs = Some ys \<Longrightarrow> a \<le> pl \<Longrightarrow> pl < e \<Longrightarrow> e \<le> length xs \<Longrightarrow>
   (\<And>i j. a \<le> i \<Longrightarrow> i < j \<Longrightarrow> j < e \<Longrightarrow> j \<noteq> pl \<Longrightarrow> cmp (xs ! i) (xs ! j) \<le> 0) \<Longrightarrow> part_sorted cmp a e ys"
proof (induction cmp a pl xs rule: insert_down.induct)
  case (1 cmp a pl xs)
  note ok = "1.prems"(1)
  show ?case
  proof (cases "a < pl \<and> cmp (xs ! (pl - 1)) (xs ! pl) > 0")
    case False
    then have ys: "ys = xs" using "1.prems"(2-5)
      by (subst (asm) insert_down.simps) (auto split: if_splits)
    have "cmp (xs ! i) (xs ! pl) \<le> 0" if "a \<le> i" "i < pl" for i
      using that False cmp_ok_trans[OF ok, of "xs ! i" "xs ! (pl - 1)" "xs ! pl"] "1.prems"(4) "1.prems"(6)[of i "pl - 1"]
      by (cases "i = pl - 1") auto
    with "1.prems"(6) show ?thesis by (auto simp: ys part_sorted_def)
  next
    case True
    let ?ys = "xs[pl := xs ! (pl - 1), pl - 1 := xs ! pl]"
    have "insert_down cmp a (pl - 1) ?ys = Some ys"
      using "1.prems" True by (auto simp: insert_down.simps[of cmp a pl xs])
    moreover have "cmp (?ys ! i) (?ys ! j) \<le> 0" if "a \<le> i" "i < j" "j < e" "j \<noteq> pl - 1" for i j
      using that True "1.prems"(4-5) "1.prems"(6)[of i j] "1.prems"(6)[of i "pl - 1"] "1.prems"(6)[of pl j]
        "1.prems"(6)[of "pl - 1" j] cmp_ok_flip[OF ok, of "xs ! (pl - 1)" "xs ! pl"]
      by (cases "j = pl"; cases "i = pl"; cases "i = pl - 1") auto
    ultimately show ?thesis
      using "1.IH"[of "cmp (xs ! (pl - 1)) (xs ! pl)" ?ys] True ok "1.prems" by auto
  qed
qed

lemma insert_sort_spec:
  "a < pm \<Longrightarrow> pm \<le> Suc e \<Longrightarrow> e \<le> length xs \<Longrightarrow> \<exists>ys. insert_sort cmp a e pm xs = Some ys \<and> perm_part a e xs ys \<and>
     (cmp_ok cmp \<longrightarrow> part_sorted cmp a pm xs \<longrightarrow> part_sorted cmp a e ys)"
proof (induction cmp a e pm xs rule: insert_sort.induct)
  case (1 cmp a e pm xs)
  show ?case
  proof (cases "pm < e")
    case False
    then have "insert_sort cmp a e pm xs = Some xs" by (simp add: insert_sort.simps)
    moreover have "part_sorted cmp a pm xs \<Longrightarrow> part_sorted cmp a e xs"
      using False by (auto simp: part_sorted_def)
    ultimately show ?thesis by auto
  next
    case True
    then obtain ys where ys: "insert_down cmp a pm xs = Some ys" "perm_part a (Suc pm) xs ys"
      using insert_down_spec[of a pm xs cmp] "1.prems" by auto
    have sorted: "part_sorted cmp a (Suc pm) ys" if "cmp_ok cmp" "part_sorted cmp a pm xs"
      using that(2) "1.prems" True
      by (intro insert_down_sorts[OF that(1) ys(1), of "Suc pm"]) (auto simp: part_sorted_def)
    from "1.IH"[OF True ys(1)] "1.prems" True perm_part_length[OF ys(2)]
    obtain zs where zs: "insert_sort cmp a e (pm + 1) ys = Some zs" "perm_part a e ys zs"
      "cmp_ok cmp \<longrightarrow> part_sorted cmp a (pm + 1) ys \<longrightarrow> part_sorted cmp a e zs" by auto
    have "perm_part a e xs zs"
      using perm_part_trans[OF perm_part_mono[OF ys(2)] zs(2)] True by simp
    with True ys zs sorted show ?thesis by (auto simp: insert_sort.simps[of cmp a e pm xs])
  qed
qed

section \<open>The partition\<close>

text \<open>
  The zones around the unexamined elements \<open>pb .. pc\<close>: equal to the pivot \<open>v\<close> below
  \<open>pa\<close> and above \<open>pd\<close>, less between \<open>pa\<close> and \<open>pb\<close>, greater between \<open>pc\<close> and
  \<open>pd\<close>.
\<close>

definition zones :: "'a cmp \<Rightarrow> 'a \<Rightarrow> nat \<Rightarrow> nat \<Rightarrow> 'a split \<Rightarrow> bool" where
  "zones cmp v a n s \<longleftrightarrow> arr s ! a = v \<and>
     (\<forall>i. a < i \<and> i < pa s \<longrightarrow> cmp (arr s ! i) v = 0) \<and>
     (\<forall>i. pa s \<le> i \<and> i < pb s \<longrightarrow> cmp (arr s ! i) v < 0) \<and>
     (\<forall>i. pc s < i \<and> i \<le> pd s \<longrightarrow> cmp (arr s ! i) v > 0) \<and>
     (\<forall>i. pd s < i \<and> i < a + n \<longrightarrow> cmp (arr s ! i) v = 0)"

definition split_ok :: "'a cmp \<Rightarrow> 'a list \<Rightarrow> 'a \<Rightarrow> nat \<Rightarrow> nat \<Rightarrow> 'a split \<Rightarrow> bool" where
  "split_ok cmp xs v a n s \<longleftrightarrow> in_part a n s \<and> pb s \<le> pc s + 1 \<and> a + n \<le> length xs \<and>
     perm_part a (a + n) xs (arr s) \<and> zones cmp v a n s"

lemma split_ok_bounds:
  assumes "split_ok cmp xs v a n s"
  shows "a < pa s" "pa s \<le> pb s" "pb s \<le> pc s + 1" "pc s \<le> pd s" "pd s < a + n" "a + n \<le> length (arr s)"
    "arr s ! a = v" "length (arr s) = length xs"
  using assms by (auto simp: split_ok_def in_part_def zones_def dest: perm_part_length)

lemma keep_low_ok:
  assumes s: "split_ok cmp xs v a n s" and le: "pb s \<le> pc s" and r: "cmp (arr s ! pb s) v \<le> 0"
  shows "\<exists>t. keep_low (cmp (arr s ! pb s) v) s = Some t \<and> split_ok cmp xs v a n (t\<lparr>pb := pb t + 1\<rparr>)"
proof (cases "cmp (arr s ! pb s) v = 0")
  case False
  with s le r show ?thesis
    by (auto simp: keep_low_def split_ok_def in_part_def zones_def less_Suc_eq)
next
  case True
  note b = split_ok_bounds[OF s]
  have p: "perm_part a (a + n) (arr s) ((arr s)[pa s := arr s ! pb s, pb s := arr s ! pa s])"
    using b le by (intro perm_part_swap) auto
  from s True b le perm_part_trans[OF _ p, of xs] show ?thesis
    by (auto simp: keep_low_def split_ok_def in_part_def zones_def nth_list_update less_Suc_eq)
qed

lemma keep_high_ok:
  assumes s: "split_ok cmp xs v a n s" and le: "pb s \<le> pc s" and r: "0 \<le> cmp (arr s ! pc s) v"
  shows "\<exists>t. keep_high (cmp (arr s ! pc s) v) s = Some t \<and> split_ok cmp xs v a n (t\<lparr>pc := pc t - 1\<rparr>) \<and>
    (\<forall>i < pc s. arr t ! i = arr s ! i)"
proof (cases "cmp (arr s ! pc s) v = 0")
  case False
  note b = split_ok_bounds[OF s]
  have "cmp (arr s ! i) v > 0" if "pc s - 1 < i" "i \<le> pd s" for i
    using that s False r by (cases "i = pc s") (auto simp: split_ok_def zones_def)
  with s le b False show ?thesis by (auto simp: keep_high_def split_ok_def in_part_def zones_def)
next
  case True
  note b = split_ok_bounds[OF s]
  let ?ys = "(arr s)[pc s := arr s ! pd s, pd s := arr s ! pc s]"
  have p: "perm_part a (a + n) (arr s) ?ys"
    using b le by (intro perm_part_swap) auto
  have low: "?ys ! i = arr s ! i" if "i < pc s" for i
    using that b by (auto simp: nth_list_update)
  have greater: "cmp (?ys ! i) v > 0" if "pc s - 1 < i" "i \<le> pd s - 1" for i
  proof (cases "i = pc s")
    case False
    then have "pc s < i" "i \<le> pd s" "i \<noteq> pd s" using that b le by auto
    with s show ?thesis by (auto simp: split_ok_def zones_def)
  next
    case i: True
    then have "pc s < pd s" using that b le by auto
    with s i b show ?thesis by (auto simp: split_ok_def zones_def nth_list_update)
  qed
  have equal: "cmp (?ys ! i) v = 0" if "pd s - 1 < i" "i < a + n" for i
    using that s b True by (cases "i = pd s") (auto simp: split_ok_def zones_def nth_list_update)
  have "zones cmp v a n (s\<lparr>swap_cnt := True, arr := ?ys, pd := pd s - 1, pc := pc s - 1\<rparr>)"
    using s b le low greater equal by (auto simp: split_ok_def zones_def)
  moreover have "in_part a n (s\<lparr>swap_cnt := True, arr := ?ys, pd := pd s - 1, pc := pc s - 1\<rparr>)"
    using b le by (auto simp: in_part_def)
  moreover have "perm_part a (a + n) xs ?ys" using s p by (auto simp: split_ok_def intro: perm_part_trans)
  ultimately show ?thesis using s b le True low by (auto simp: keep_high_def split_ok_def)
qed

lemma scan_up_ok:
  "split_ok cmp xs v a n s \<Longrightarrow> \<exists>t. scan_up cmp a s = Some t \<and> split_ok cmp xs v a n t \<and>
     (pb t \<le> pc t \<longrightarrow> cmp (arr t ! pb t) v > 0)"
proof (induction cmp a s rule: scan_up.induct)
  case (1 cmp a s)
  note b = split_ok_bounds[OF "1.prems"]
  show ?case
  proof (cases "pb s \<le> pc s \<and> cmp (arr s ! pb s) v \<le> 0")
    case False
    with "1.prems" b show ?thesis by (auto simp: scan_up.simps[of cmp a s])
  next
    case True
    with keep_low_ok[OF "1.prems"] obtain t where t: "keep_low (cmp (arr s ! pb s) v) s = Some t"
      "split_ok cmp xs v a n (t\<lparr>pb := pb t + 1\<rparr>)" by blast
    from "1.IH"[of "cmp (arr s ! pb s) v" t] True b t show ?thesis
      by (auto simp: scan_up.simps[of cmp a s])
  qed
qed

lemma scan_down_ok:
  "split_ok cmp xs v a n s \<Longrightarrow> \<exists>t. scan_down cmp a s = Some t \<and> split_ok cmp xs v a n t \<and>
     (pb t \<le> pc t \<longrightarrow> cmp (arr t ! pc t) v < 0) \<and> (\<forall>i \<le> pc t. arr t ! i = arr s ! i) \<and> pb t = pb s"
proof (induction cmp a s rule: scan_down.induct)
  case (1 cmp a s)
  note b = split_ok_bounds[OF "1.prems"]
  show ?case
  proof (cases "pb s \<le> pc s \<and> 0 \<le> cmp (arr s ! pc s) v")
    case False
    with "1.prems" b show ?thesis by (auto simp: scan_down.simps[of cmp a s])
  next
    case True
    with keep_high_ok[OF "1.prems"] obtain t where t: "keep_high (cmp (arr s ! pc s) v) s = Some t"
      "split_ok cmp xs v a n (t\<lparr>pc := pc t - 1\<rparr>)" "\<forall>i < pc s. arr t ! i = arr s ! i" by blast
    note c = keep_high_counters[OF t(1)]
    have "0 < pc s" using True b by auto
    with "1.IH"[of "cmp (arr s ! pc s) v" t] True b t obtain u where u: "scan_down cmp a (t\<lparr>pc := pc t - 1\<rparr>) = Some u"
      "split_ok cmp xs v a n u" "pb u \<le> pc u \<longrightarrow> cmp (arr u ! pc u) v < 0" "\<forall>i \<le> pc u. arr u ! i = arr t ! i" "pb u = pb t"
      by auto
    have "pc u < pc s" using scan_down_counters[OF u(1), of n] c \<open>0 < pc s\<close> by auto
    with u t True b c \<open>0 < pc s\<close> show ?thesis by (auto simp: scan_down.simps[of cmp a s])
  qed
qed

lemma partition_loop_ok:
  "split_ok cmp xs v a n s \<Longrightarrow> \<exists>t. partition_loop cmp a s = Some t \<and> split_ok cmp xs v a n t \<and> pb t = pc t + 1"
proof (induction cmp a s rule: partition_loop.induct)
  case (1 cmp a s)
  from scan_up_ok[OF "1.prems"] obtain s1 where s1: "scan_up cmp a s = Some s1" "split_ok cmp xs v a n s1"
    "pb s1 \<le> pc s1 \<longrightarrow> cmp (arr s1 ! pb s1) v > 0" by blast
  from scan_down_ok[OF s1(2)] obtain s2 where s2: "scan_down cmp a s1 = Some s2" "split_ok cmp xs v a n s2"
    "pb s2 \<le> pc s2 \<longrightarrow> cmp (arr s2 ! pc s2) v < 0" "\<forall>i \<le> pc s2. arr s2 ! i = arr s1 ! i" "pb s2 = pb s1" by blast
  note b = split_ok_bounds[OF s2(2)]
  show ?case
  proof (cases "pb s2 > pc s2")
    case True
    with s1 s2 b show ?thesis by (auto simp: partition_loop.simps[of cmp a s])
  next
    case False
    have "pc s2 \<le> pc s1" using scan_down_counters[OF s2(1), of n] by simp
    then have gt: "cmp (arr s2 ! pb s2) v > 0" using s1(3) s2(4,5) False by auto
    then have lt: "pb s2 < pc s2" using s2(3) False by (cases "pb s2 = pc s2") auto
    let ?ys = "(arr s2)[pb s2 := arr s2 ! pc s2, pc s2 := arr s2 ! pb s2]"
    let ?t = "s2\<lparr>arr := ?ys, swap_cnt := True, pb := pb s2 + 1, pc := pc s2 - 1\<rparr>"
    have p: "perm_part a (a + n) (arr s2) ?ys" using b lt by (intro perm_part_swap) auto
    have less: "cmp (?ys ! i) v < 0" if "pa s2 \<le> i" "i < pb s2 + 1" for i
      using that s2 b lt by (cases "i = pb s2") (auto simp: split_ok_def zones_def)
    have greater: "cmp (?ys ! i) v > 0" if "pc s2 - 1 < i" "i \<le> pd s2" for i
      using that s2(2) b lt gt by (cases "i = pc s2") (auto simp: split_ok_def zones_def)
    have "zones cmp v a n ?t"
      using s2(2) b lt less greater by (auto simp: split_ok_def zones_def)
    then have "split_ok cmp xs v a n ?t"
      using s2(2) b lt perm_part_trans[OF _ p, of xs] by (auto simp: split_ok_def in_part_def)
    with "1.IH"[OF s1(1) s2(1) False] b lt s1 s2 show ?thesis
      by (auto simp: partition_loop.simps[of cmp a s])
  qed
qed

section \<open>The exchange of the zones and the whole sort\<close>

lemma vecswap_spec:
  "i + n \<le> j \<Longrightarrow> j + n \<le> length xs \<Longrightarrow> \<exists>ys. vecswap xs i j n = Some ys \<and> perm_part i (j + n) xs ys \<and>
     (\<forall>k < length xs. ys ! k = (if i \<le> k \<and> k < i + n then xs ! (j + (k - i))
        else if j \<le> k \<and> k < j + n then xs ! (i + (k - j)) else xs ! k))"
proof (induction n arbitrary: xs i j)
  case 0
  then show ?case by auto
next
  case (Suc n)
  let ?ys = "xs[i := xs ! j, j := xs ! i]"
  have p: "perm_part i (j + Suc n) xs ?ys" using Suc.prems by (intro perm_part_swap) auto
  have "i + 1 + n \<le> j + 1" "j + 1 + n \<le> length ?ys" using Suc.prems by auto
  from Suc.IH[OF this] obtain zs where zs: "vecswap ?ys (i + 1) (j + 1) n = Some zs"
    "perm_part (i + 1) (j + 1 + n) ?ys zs"
    "\<forall>k < length xs. zs ! k = (if i + 1 \<le> k \<and> k < i + 1 + n then ?ys ! (j + 1 + (k - (i + 1)))
        else if j + 1 \<le> k \<and> k < j + 1 + n then ?ys ! (i + 1 + (k - (j + 1))) else ?ys ! k)" by auto
  have "perm_part i (j + Suc n) xs zs"
    using perm_part_trans[OF p perm_part_mono[OF zs(2)]] by simp
  moreover have "zs ! k = (if i \<le> k \<and> k < i + Suc n then xs ! (j + (k - i))
        else if j \<le> k \<and> k < j + Suc n then xs ! (i + (k - j)) else xs ! k)" if "k < length xs" for k
  proof -
    have up: "Suc (j + k - Suc i) = j + k - i" if "i < k" using that by simp
    have down: "Suc (i + k - Suc j) = i + k - j" if "j < k" using that by simp
    consider "k = i" | "i < k" "k < i + Suc n" | "k = j" | "j < k" "k < j + Suc n" |
      "k < i \<or> i + Suc n \<le> k" "k < j \<or> j + Suc n \<le> k" by linarith
    then show ?thesis
      using zs(3) that Suc.prems by cases (auto simp: up down nth_list_update)
  qed
  ultimately show ?case using zs(1) Suc.prems by auto
qed

text \<open>After the two exchanges the elements below, equal to and above the pivot are in order.\<close>

definition zoned :: "'a cmp \<Rightarrow> 'a \<Rightarrow> nat \<Rightarrow> nat \<Rightarrow> nat \<Rightarrow> nat \<Rightarrow> 'a list \<Rightarrow> bool" where
  "zoned cmp v a l h e xs \<longleftrightarrow>
     (\<forall>i. a \<le> i \<and> i < l \<longrightarrow> cmp (xs ! i) v < 0) \<and> (\<forall>i. l \<le> i \<and> i < h \<longrightarrow> cmp (xs ! i) v = 0) \<and>
     (\<forall>i. h \<le> i \<and> i < e \<longrightarrow> cmp (xs ! i) v > 0)"

lemma exchange_ok:
  assumes s: "split_ok cmp xs v a n s" and meet: "pb s = pc s + 1"
  shows "\<exists>ys zs. vecswap (arr s) a (pb s - min (pa s - a) (pb s - pa s)) (min (pa s - a) (pb s - pa s)) = Some ys \<and>
    vecswap ys (pb s) (a + n - min (pd s - pc s) (a + n - pd s - 1)) (min (pd s - pc s) (a + n - pd s - 1)) = Some zs \<and>
    perm_part a (a + n) xs zs \<and>
    (cmp v v = 0 \<longrightarrow> zoned cmp v a (a + (pb s - pa s)) (a + n - (pd s - pc s)) (a + n) zs)"
proof -
  note b = split_ok_bounds[OF s]
  define r where "r = min (pa s - a) (pb s - pa s)"
  define q where "q = min (pd s - pc s) (a + n - pd s - 1)"
  have r: "a + r \<le> pb s - r" "pb s - r + r = pb s" using b by (auto simp: r_def)
  have q: "pb s + q \<le> a + n - q" "a + n - q + q = a + n" using b meet by (auto simp: q_def)
  obtain ys where ys: "vecswap (arr s) a (pb s - r) r = Some ys" "perm_part a (pb s) (arr s) ys"
    "\<And>k. k < length xs \<Longrightarrow> ys ! k = (if a \<le> k \<and> k < a + r then arr s ! (pb s - r + (k - a))
        else if pb s - r \<le> k \<and> k < pb s then arr s ! (a + (k - (pb s - r))) else arr s ! k)"
    using vecswap_spec[OF r(1), of "arr s"] r(2) b meet by auto
  have len: "length ys = length xs" using perm_part_length[OF ys(2)] b by simp
  obtain zs where zs: "vecswap ys (pb s) (a + n - q) q = Some zs" "perm_part (pb s) (a + n) ys zs"
    "\<And>k. k < length xs \<Longrightarrow> zs ! k = (if pb s \<le> k \<and> k < pb s + q then ys ! (a + n - q + (k - pb s))
        else if a + n - q \<le> k \<and> k < a + n then ys ! (pb s + (k - (a + n - q))) else ys ! k)"
    using vecswap_spec[OF q(1), of ys] q(2) b len by auto
  have "perm_part a (a + n) xs zs"
    using s b meet perm_part_mono[OF ys(2), of a "a + n"] perm_part_mono[OF zs(2), of a "a + n"]
    by (auto simp: split_ok_def intro: perm_part_trans)
  moreover have "zoned cmp v a (a + (pb s - pa s)) (a + n - (pd s - pc s)) (a + n) zs" if v: "cmp v v = 0"
  proof -
    have eq: "cmp (arr s ! i) v = 0" if "a \<le> i \<and> i < pa s \<or> pd s < i \<and> i < a + n" for i
      using that s v by (cases "i = a") (auto simp: split_ok_def zones_def)
    have lt: "cmp (arr s ! i) v < 0" if "pa s \<le> i" "i < pb s" for i
      using that s by (auto simp: split_ok_def zones_def)
    have gt: "cmp (arr s ! i) v > 0" if "pc s < i" "i \<le> pd s" for i
      using that s by (auto simp: split_ok_def zones_def)
    have low: "zs ! k = ys ! k" if "k < pb s" for k
      using zs(3)[of k] that b meet q by auto
    have high: "ys ! k = arr s ! k" if "pb s \<le> k" "k < a + n" for k
      using ys(3)[of k] that b r by auto
    have r_cases: "r = pa s - a \<and> r \<le> pb s - pa s \<or> r = pb s - pa s \<and> r \<le> pa s - a"
      by (auto simp: r_def)
    have q_cases: "q = pd s - pc s \<and> q \<le> a + n - pd s - 1 \<or> q = a + n - pd s - 1 \<and> q \<le> pd s - pc s"
      by (auto simp: q_def)
    have 1: "cmp (zs ! i) v < 0" if i: "a \<le> i" "i < a + (pb s - pa s)" for i
    proof -
      have "i < pb s" "i < length xs" using i b meet by auto
      then have zs': "zs ! i = ys ! i" and "i < length xs" by (auto simp: low)
      consider "i < a + r" | "a + r \<le> i" "pa s \<le> i" "i < pb s - r"
        by atomize_elim (use i b r_cases in arith)
      then show ?thesis
      proof cases
        case 1
        have "pa s \<le> pb s - r" using r_cases b by linarith
        with 1 i r b show ?thesis
          using ys(3)[OF \<open>i < length xs\<close>] zs' lt[of "pb s - r + (i - a)"] by auto
      next
        case 2
        with i r b show ?thesis using ys(3)[OF \<open>i < length xs\<close>] zs' lt[of i] by auto
      qed
    qed
    have 2: "cmp (zs ! i) v = 0" if i: "a + (pb s - pa s) \<le> i" "i < a + n - (pd s - pc s)" for i
    proof -
      have len: "i < length xs" using i b by auto
      show ?thesis
      proof (cases "i < pb s")
        case True
        then have zs': "zs ! i = ys ! i" by (rule low)
        show ?thesis
        proof (cases "pb s - r \<le> i")
          case up: True
          have "r \<le> pa s - a" by (simp add: r_def)
          then have "cmp (arr s ! (a + (i - (pb s - r)))) v = 0"
            using up True r b by (intro eq disjI1 conjI) linarith+
          with up True i r b show ?thesis using ys(3)[OF len] zs' by auto
        next
          case False
          have "i < pa s" using r_cases i False b by (elim disjE) linarith+
          moreover have "a + r \<le> i" using r_cases i b by (elim disjE) linarith+
          ultimately show ?thesis using i False True b ys(3)[OF len] zs' eq[of i] by auto
        qed
      next
        case False
        show ?thesis
        proof (cases "i < pb s + q")
          case up: True
          have "q \<le> a + n - pd s - 1" by (simp add: q_def)
          then have "cmp (arr s ! (a + n - q + (i - pb s))) v = 0"
            using up False q b by (intro eq disjI2 conjI) linarith+
          moreover have "ys ! (a + n - q + (i - pb s)) = arr s ! (a + n - q + (i - pb s))"
            using up False q b by (intro high) linarith+
          ultimately show ?thesis using up False zs(3)[OF len] by simp
        next
          case up: False
          have "pd s < i" using q_cases i up b meet by (elim disjE) linarith+
          moreover have "i < a + n - q" using q_cases i b meet by (elim disjE) linarith+
          ultimately show ?thesis using i up False b zs(3)[OF len] high[of i] eq[of i] by auto
        qed
      qed
    qed
    have 3: "cmp (zs ! i) v > 0" if i: "a + n - (pd s - pc s) \<le> i" "i < a + n" for i
    proof -
      have len: "i < length xs" using i b by auto
      consider "a + n - q \<le> i" | "pb s + q \<le> i" "pc s < i" "i \<le> pd s" "i < a + n - q"
        by atomize_elim (use i b meet q_cases in arith)
      then show ?thesis
      proof cases
        case 1
        have "q \<le> pd s - pc s" by (simp add: q_def)
        then have "cmp (arr s ! (pb s + (i - (a + n - q)))) v > 0"
          using 1 i q b meet by (intro gt) linarith+
        moreover have "ys ! (pb s + (i - (a + n - q))) = arr s ! (pb s + (i - (a + n - q)))"
          using 1 i q by (intro high) linarith+
        ultimately show ?thesis using 1 i q zs(3)[OF len] by simp
      next
        case 2
        with i q b meet show ?thesis using zs(3)[OF len] high[of i] gt[of i] by auto
      qed
    qed
    show ?thesis using 1 2 3 by (auto simp: zoned_def)
  qed
  ultimately show ?thesis using ys(1) zs(1) unfolding r_def q_def by blast
qed

lemma med3_in:
  assumes "a \<le> i" "i < e" "a \<le> j" "j < e" "a \<le> k" "k < e" "e \<le> length xs"
  shows "\<exists>m. med3 cmp xs i j k = Some m \<and> a \<le> m \<and> m < e"
  using assms by (auto simp: med3_def)

lemma pivot_in:
  assumes n: "7 \<le> n" and e: "a + n \<le> length xs"
  shows "\<exists>m. pivot cmp a n xs = Some m \<and> a \<le> m \<and> m < a + n"
proof (cases "n > 40")
  case False
  with assms show ?thesis
    by (cases "n > 7") (auto simp: pivot_def Let_def intro!: med3_in)
next
  case True
  let ?d = "n div 8"
  have d: "2 * ?d \<le> n - 1" "n div 2 + ?d < n" "?d \<le> n div 2" using True by auto
  obtain l where l: "med3 cmp xs a (a + ?d) (a + 2 * ?d) = Some l" "a \<le> l" "l < a + n"
    using med3_in[of a a "a + n" "a + ?d" "a + 2 * ?d" xs cmp] d True e by auto
  obtain m where m: "med3 cmp xs (a + n div 2 - ?d) (a + n div 2) (a + n div 2 + ?d) = Some m" "a \<le> m" "m < a + n"
  proof -
    have "a \<le> a + n div 2 - ?d" "a + n div 2 - ?d < a + n" "a + n div 2 < a + n" "a + n div 2 + ?d < a + n"
      using d True by auto
    with that med3_in[of a "a + n div 2 - ?d" "a + n" "a + n div 2" "a + n div 2 + ?d" xs cmp] e
    show thesis by auto
  qed
  obtain h where h: "med3 cmp xs (a + (n - 1) - 2 * ?d) (a + (n - 1) - ?d) (a + (n - 1)) = Some h" "a \<le> h" "h < a + n"
  proof -
    have "a \<le> a + (n - 1) - 2 * ?d" "a \<le> a + (n - 1) - ?d" "a + (n - 1) < a + n"
      "a + (n - 1) - 2 * ?d < a + n" "a + (n - 1) - ?d < a + n" "a \<le> a + (n - 1)"
      using d True by auto
    with that med3_in[of a "a + (n - 1) - 2 * ?d" "a + n" "a + (n - 1) - ?d" "a + (n - 1)" xs cmp] e
    show thesis by blast
  qed
  from med3_in[OF l(2,3) m(2,3) h(2,3) e, of cmp] l(1) m(1) h(1) True show ?thesis
    by (auto simp: pivot_def Let_def)
qed

lemma zoned_sorted:
  assumes ok: "cmp_ok cmp" and z: "zoned cmp v a l h e xs" and "a \<le> l" "l \<le> h" "h \<le> e"
    and low: "part_sorted cmp a l xs" and high: "part_sorted cmp h e xs"
  shows "part_sorted cmp a e xs"
  unfolding part_sorted_def
proof (intro allI impI)
  fix i j assume ij: "a \<le> i \<and> i < j \<and> j < e"
  have "cmp (xs ! i) v \<le> 0" if "i < h"
    using z ij that by (cases "i < l") (auto simp: zoned_def order.strict_iff_order)
  moreover have "cmp v (xs ! j) \<le> 0" if "l \<le> j"
    using z ij that cmp_ok_flip[OF ok, of "xs ! j" v] by (cases "j < h") (auto simp: zoned_def order.strict_iff_order)
  moreover have "j < l \<or> h \<le> i \<or> i < h \<and> l \<le> j" by linarith
  ultimately show "cmp (xs ! i) (xs ! j) \<le> 0"
    using low high ij cmp_ok_trans[OF ok, of "xs ! i" v "xs ! j"] by (auto simp: part_sorted_def)
qed

lemma zoned_perm_low:
  assumes z: "zoned cmp v a l h e xs" and p: "perm_part a l xs ys" and e: "e \<le> length xs" "l \<le> h" "h \<le> e"
  shows "zoned cmp v a l h e ys"
  using z perm_part_all[OF p, of "\<lambda>x. cmp x v < 0"] e
  by (auto simp: zoned_def perm_part_nth[OF p])

lemma zoned_perm_high:
  assumes z: "zoned cmp v a l h e xs" and p: "perm_part h e xs ys" and e: "e \<le> length xs" "l \<le> h" "h \<le> e"
  shows "zoned cmp v a l h e ys"
  using z perm_part_all[OF p, of "\<lambda>x. cmp x v > 0"] e
  by (auto simp: zoned_def perm_part_nth[OF p])

lemma part_sorted_outside:
  "part_sorted cmp a l xs \<Longrightarrow> perm_part h e xs ys \<Longrightarrow> l \<le> h \<Longrightarrow> l \<le> length xs \<Longrightarrow> part_sorted cmp a l ys"
  by (auto simp: part_sorted_def perm_part_nth)

lemma part_sorted_small: "l \<le> a + 1 \<Longrightarrow> part_sorted cmp a l xs"
  by (auto simp: part_sorted_def)

text \<open>Sorting the two outer zones sorts the whole.\<close>

lemma zones_sorted:
  assumes ok: "cmp_ok cmp" and z: "zoned cmp v a l h e zs" and b: "a \<le> l" "l \<le> h" "h \<le> e" "e \<le> length zs"
    and us: "perm_part a l zs us" "part_sorted cmp a l us" and ws: "perm_part h e us ws" "part_sorted cmp h e ws"
  shows "part_sorted cmp a e ws"
proof -
  have "zoned cmp v a l h e us" using z us(1) b by (auto intro: zoned_perm_low)
  then have "zoned cmp v a l h e ws"
    using ws(1) b perm_part_length[OF us(1)] by (auto intro: zoned_perm_high)
  moreover have "part_sorted cmp a l ws"
    using us(2) ws(1) b perm_part_length[OF us(1)] by (auto intro: part_sorted_outside)
  ultimately show ?thesis using zoned_sorted[OF ok] ws(2) b by auto
qed

text \<open>\<open>sorts_part\<close>: a result that is the part of \<open>xs\<close> at \<open>a ..< e\<close>, permuted and sorted.\<close>

definition sorts_part :: "'a cmp \<Rightarrow> nat \<Rightarrow> nat \<Rightarrow> 'a list \<Rightarrow> 'a list option \<Rightarrow> bool" where
  "sorts_part cmp a e xs res \<longleftrightarrow>
     (\<exists>ys. res = Some ys \<and> perm_part a e xs ys \<and> (cmp_ok cmp \<longrightarrow> part_sorted cmp a e ys))"

lemma sorts_partI:
  "res = Some ys \<Longrightarrow> perm_part a e xs ys \<Longrightarrow> (cmp_ok cmp \<Longrightarrow> part_sorted cmp a e ys) \<Longrightarrow> sorts_part cmp a e xs res"
  by (auto simp: sorts_part_def)

lemma sorts_partE:
  assumes "sorts_part cmp a e xs res"
  obtains ys where "res = Some ys" "perm_part a e xs ys" "cmp_ok cmp \<longrightarrow> part_sorted cmp a e ys"
  using assms by (auto simp: sorts_part_def)

lemma insertion_sorts:
  assumes "perm_part a (a + n) xs zs" and "a + n \<le> length xs"
  shows "sorts_part cmp a (a + n) xs (insert_sort cmp a (a + n) (a + 1) zs)"
  using insert_sort_spec[of a "a + 1" "a + n" zs cmp] assms perm_part_length[OF assms(1)] perm_part_trans[OF assms(1)]
  by (auto simp: part_sorted_small sorts_part_def)

text \<open>The end of \<open>qsort\<close> after a partition: the two exchanges and the two calls.\<close>

lemma finish_sorts:
  assumes s: "split_ok cmp xs1 v a n s" "pb s = pc s + 1" and p1: "perm_part a (a + n) xs xs1"
    and part: "\<And>r b zs. r < n \<Longrightarrow> b + r \<le> length zs \<Longrightarrow>
      sorts_part cmp b (b + r) zs (if r > 1 then qsort cmp b r zs else Some zs)"
    and n: "\<not> n < 7" and pm: "pivot cmp a n xs = Some pm" "swap_el xs a pm = Some xs1"
    and loop: "partition_loop cmp a (partition_start a n xs1) = Some s" and cnt: "swap_cnt s"
    and len: "a + n \<le> length xs"
  shows "sorts_part cmp a (a + n) xs (qsort cmp a n xs)"
proof -
  note b = split_ok_bounds[OF s(1)]
  define l where "l = pb s - pa s"
  define h where "h = pd s - pc s"
  have lh: "l < n" "h < n" "a + l \<le> a + n - h" "h \<le> n" using b s(2) by (auto simp: l_def h_def)
  obtain ys zs where ex: "vecswap (arr s) a (pb s - min (pa s - a) (pb s - pa s)) (min (pa s - a) (pb s - pa s)) = Some ys"
    "vecswap ys (pb s) (a + n - min (pd s - pc s) (a + n - pd s - 1)) (min (pd s - pc s) (a + n - pd s - 1)) = Some zs"
    and p3: "perm_part a (a + n) xs1 zs" and z: "cmp v v = 0 \<longrightarrow> zoned cmp v a (a + l) (a + n - h) (a + n) zs"
    using exchange_ok[OF s] unfolding l_def h_def by blast
  have lenz: "length zs = length xs" using perm_part_length[OF p3] perm_part_length[OF p1] by simp
  obtain us where us: "(if l > 1 then qsort cmp a l zs else Some zs) = Some us" "perm_part a (a + l) zs us"
    "cmp_ok cmp \<longrightarrow> part_sorted cmp a (a + l) us"
    using part[OF lh(1), of a zs] len lh lenz by (auto elim: sorts_partE)
  obtain ws where ws: "(if h > 1 then qsort cmp (a + n - h) h us else Some us) = Some ws"
    "perm_part (a + n - h) (a + n) us ws" "cmp_ok cmp \<longrightarrow> part_sorted cmp (a + n - h) (a + n) ws"
    using part[OF lh(2), of "a + n - h" us] len lh lenz perm_part_length[OF us(2)] by (auto elim: sorts_partE)
  show ?thesis
  proof (rule sorts_partI)
    show "qsort cmp a n xs = Some ws"
      using n pm loop cnt ex us(1) ws(1)
      by (simp add: qsort.simps[of cmp a n xs] Let_def flip: l_def h_def)
    show "perm_part a (a + n) xs ws"
      using perm_part_mono[OF us(2), of a "a + n"] perm_part_mono[OF ws(2), of a "a + n"] lh
      by (auto intro!: perm_part_trans[OF p1] perm_part_trans[OF p3] elim: perm_part_trans)
    show "part_sorted cmp a (a + n) ws" if ok: "cmp_ok cmp"
      using zones_sorted[OF ok _ _ _ _ _ us(2) _ ws(2)] z cmp_ok_refl[OF ok] us(3) ws(3) ok lh len lenz by auto
  qed
qed

lemma qsort_part: "a + n \<le> length xs \<Longrightarrow> sorts_part cmp a (a + n) xs (qsort cmp a n xs)"
proof (induction n arbitrary: a xs rule: less_induct)
  case (less n)
  note insertion = insertion_sorts[OF _ less.prems, of _ cmp]
  show ?case
  proof (cases "n < 7")
    case True
    then show ?thesis using insertion[of xs] by (simp add: qsort.simps[of cmp a n xs])
  next
    case n: False
    with pivot_in[of n a xs cmp] less.prems obtain pm where pm: "pivot cmp a n xs = Some pm" "a \<le> pm" "pm < a + n" by auto
    define xs1 where "xs1 = xs[a := xs ! pm, pm := xs ! a]"
    have sw: "swap_el xs a pm = Some xs1" using pm less.prems n by (simp add: xs1_def)
    have p1: "perm_part a (a + n) xs xs1" unfolding xs1_def using pm less.prems n by (intro perm_part_swap) auto
    have start: "split_ok cmp xs1 (xs1 ! a) a n (partition_start a n xs1)"
      using n less.prems perm_part_length[OF p1]
      by (auto simp: split_ok_def in_part_def zones_def partition_start_def)
    from partition_loop_ok[OF start] obtain s where s: "partition_loop cmp a (partition_start a n xs1) = Some s"
      "split_ok cmp xs1 (xs1 ! a) a n s" "pb s = pc s + 1" by auto
    show ?thesis
    proof (cases "swap_cnt s")
      case False
      have "perm_part a (a + n) xs (arr s)" using perm_part_trans[OF p1] s(2) by (auto simp: split_ok_def)
      from insertion[OF this] False n pm(1) sw s(1) show ?thesis by (simp add: qsort.simps[of cmp a n xs])
    next
      case True
      have "sorts_part cmp b (b + r) zs (if r > 1 then qsort cmp b r zs else Some zs)"
        if "r < n" "b + r \<le> length zs" for r b zs
        using less.IH[of r b zs] that by (auto simp: part_sorted_small intro: sorts_partI)
      from finish_sorts[OF s(2,3) p1 this n pm(1) sw s(1) True less.prems] show ?thesis .
    qed
  qed
qed

text \<open>
  C8: On every array that has the \<open>n\<close> elements from \<open>a\<close> on, \<open>qsort\<close> returns, makes no
  access outside these elements that fails, whatever the comparison function answers, and
  leaves a permutation of them, with the rest of the array in place. When the comparison
  function is a total preorder they are in its order afterwards.
\<close>

theorem qsort_sorts:
  assumes "a + n \<le> length xs"
  shows "\<exists>ys. qsort cmp a n xs = Some ys \<and> perm_part a (a + n) xs ys \<and>
     (cmp_ok cmp \<longrightarrow> part_sorted cmp a (a + n) ys)"
  using qsort_part[OF assms, of cmp] by (simp add: sorts_part_def)

definition int_cmp :: "int cmp" where
  "int_cmp x y = x - y"

theorem qsort_sorts_witness:
  "\<exists>ys. qsort int_cmp 1 8 [9, 5, 3, 8, 5, 1, 5, 7, 2, 0] = Some ys \<and>
     perm_part 1 9 [9, 5, 3, 8, 5, 1, 5, 7, 2, 0] ys \<and> part_sorted int_cmp 1 9 ys"
  using qsort_sorts[of 1 8 "[9, 5, 3, 8, 5, 1, 5, 7, 2, 0]" int_cmp]
  by (simp add: cmp_ok_def int_cmp_def)

end
