(* ===== verification/VfsPath.thy ===== *)
theory VfsPath
  imports LibcString
begin

text \<open>
  Paths in the file system server (\<open>srv/vfs/path.c\<close>), at the level of the buffers: \<open>path_concat\<close>
  appends a path to the one in a buffer and resolves \<open>.\<close> and \<open>..\<close> on the way, with one index
  into the buffer and one into the new path. A pointer in front of a buffer or behind it is
  \<open>None\<close>. The reference is a stack of components.
\<close>

abbreviation (input) "slash \<equiv> 0x2F :: u8"
abbreviation (input) "dot \<equiv> 0x2E :: u8"

section \<open>The functions\<close>

text \<open>\<open>while (*t && (*t != '/')) *c++ = *t++\<close>\<close>

partial_function (option) copy_comp :: "u8 list \<Rightarrow> nat \<Rightarrow> u8 list \<Rightarrow> nat \<Rightarrow> (u8 list \<times> nat \<times> nat) option" where
  "copy_comp buf c t i = do {
     b \<leftarrow> list_get t i;
     if b = 0 \<or> b = slash then Some (buf, c, i)
     else do { buf \<leftarrow> list_put buf c b; copy_comp buf (c + 1) t (i + 1) } }"

text \<open>\<open>while ((c != s) && (*c != '/')) c--\<close>\<close>

primrec slash_before :: "u8 list \<Rightarrow> nat \<Rightarrow> nat option" where
  "slash_before buf 0 = Some 0"
| "slash_before buf (Suc c) = do { b \<leftarrow> list_get buf (Suc c); if b = slash then Some (Suc c) else slash_before buf c }"

text \<open>The loop over the components.\<close>

partial_function (option) concat_loop :: "u8 list \<Rightarrow> nat \<Rightarrow> u8 list \<Rightarrow> nat \<Rightarrow> (u8 list \<times> nat) option" where
  "concat_loop buf c t i = do {
     b \<leftarrow> list_get t i;
     if b = 0 then Some (buf, c)
     else if b = slash then do { buf \<leftarrow> list_put buf c b; concat_loop buf (c + 1) t (i + 1) }
     else if b \<noteq> dot then do {
       (buf, c, i) \<leftarrow> copy_comp buf c t i;
       concat_loop buf c t i }
     else do {
       b \<leftarrow> list_get t (i + 1);
       if b = slash \<or> b = 0 then concat_loop buf c t (i + 2)
       else if b = dot then
         if c = 1 then concat_loop buf c t (i + 1)
         else if c < 2 then None
         else do {
           c \<leftarrow> slash_before buf (c - 2);
           b \<leftarrow> list_get t (i + 2);
           concat_loop buf (c + 1) t (if b = slash then i + 3 else i + 2) }
       else do {
         buf \<leftarrow> list_put buf c dot;
         (buf, c, i) \<leftarrow> copy_comp buf (c + 1) t (i + 1);
         concat_loop buf c t i } } }"

definition path_concat :: "u8 list \<Rightarrow> u8 list \<Rightarrow> u8 list option" where
  "path_concat s t = do {
     c \<leftarrow> strlen s;
     (s, c) \<leftarrow> concat_loop s c t 0;
     s \<leftarrow> list_put s c 0;
     if c = 0 then None
     else if c = 1 then Some s
     else do { b \<leftarrow> list_get s (c - 1); if b = slash then list_put s (c - 1) 0 else Some s } }"

text \<open>\<open>while (*c) *d++ = *c++\<close>; the terminator is not copied.\<close>

partial_function (option) copy_str :: "u8 list \<Rightarrow> u8 list \<Rightarrow> nat \<Rightarrow> (u8 list \<times> nat) option" where
  "copy_str d s i = do {
     b \<leftarrow> list_get s i;
     if b = 0 then Some (d, i) else do { d \<leftarrow> list_put d i b; copy_str d s (i + 1) } }"

definition path_combine :: "u8 list \<Rightarrow> u8 list \<Rightarrow> u8 list \<Rightarrow> u8 list option" where
  "path_combine s t d = do {
     d \<leftarrow> list_put d 0 0;
     b \<leftarrow> list_get t 0;
     if b = slash then path_concat d t
     else do {
       (d, i) \<leftarrow> copy_str d s 0;
       b \<leftarrow> list_get d i;
       d \<leftarrow> (if b \<noteq> slash then list_put d i slash else Some d);
       path_concat d t } }"

section \<open>The reference\<close>

primrec resolve :: "u8 list list \<Rightarrow> u8 list list \<Rightarrow> u8 list list" where
  "resolve st [] = st"
| "resolve st (x # xs) = resolve (if x = [dot, dot] then butlast st else if x = [dot] then st else st @ [x]) xs"

definition path :: "u8 list list \<Rightarrow> u8 list" where
  "path cs = (if cs = [] then [slash] else concat (map (\<lambda>x. slash # x) cs))"

text \<open>
  A component: not empty, without a slash or the terminator, and it starts with a dot only if it
  is \<open>.\<close> or \<open>..\<close>.
\<close>

definition comp_ok :: "u8 list \<Rightarrow> bool" where
  "comp_ok x \<longleftrightarrow> x \<noteq> [] \<and> 0 \<notin> set x \<and> slash \<notin> set x \<and> (hd x = dot \<longrightarrow> x = [dot] \<or> x = [dot, dot])"

text \<open>The last component is neither \<open>.\<close> nor a \<open>..\<close> at the root.\<close>

primrec ends_well :: "u8 list list \<Rightarrow> u8 list list \<Rightarrow> bool" where
  "ends_well st [] \<longleftrightarrow> True"
| "ends_well st (x # xs) \<longleftrightarrow>
     (if xs = [] then x \<noteq> [dot] \<and> (x = [dot, dot] \<longrightarrow> st \<noteq> [])
      else ends_well (resolve st [x]) xs)"

section \<open>path_concat is the reference\<close>

lemma list_at [simp]: "list_get (as @ x # bs) (length as) = Some x" "list_put (as @ x # bs) (length as) y = Some (as @ y # bs)"
  by simp_all

lemma list_at_Suc [simp]: "list_get (as @ x # y # bs) (Suc (length as)) = Some y"
  "list_get (as @ x # y # z # bs) (Suc (Suc (length as))) = Some z"
  by (simp_all add: nth_append)

lemma copy_comp_eq:
  assumes "0 \<notin> set x" and "slash \<notin> set x" and "y = 0 \<or> y = slash" and "length x \<le> length r"
  shows "copy_comp (out @ r) (length out) (pre @ x @ y # post) (length pre) =
    Some ((out @ x) @ drop (length x) r, length (out @ x), length (pre @ x))"
  using assms
proof (induction x arbitrary: out r pre)
  case Nil
  then show ?case by (simp add: copy_comp.simps[of "out @ r"])
next
  case (Cons b x)
  obtain b' r' where r: "r = b' # r'" using Cons.prems(4) by (cases r) auto
  show ?case using Cons.IH[of r' "out @ [b]" "pre @ [b]"] Cons.prems
    by (simp add: copy_comp.simps[of "out @ b' # r'"] r)
qed

definition dirp :: "u8 list list \<Rightarrow> u8 list" where
  "dirp st = slash # concat (map (\<lambda>x. x @ [slash]) st)"

lemma dirp_snoc: "dirp (st @ [x]) = dirp st @ x @ [slash]"
  by (simp add: dirp_def)

lemma dirp_last: "\<exists>us. dirp st = us @ [slash]"
proof (cases st rule: rev_cases)
  case (snoc st' x)
  then show ?thesis using dirp_snoc[of st' x] by (metis append.assoc)
qed (simp add: dirp_def)

lemma slash_before_eq:
  assumes "slash \<notin> set x"
  shows "slash_before (us @ slash # x @ r) (length us + length x) = Some (length us)"
  using assms
proof (induction x arbitrary: r rule: rev_induct)
  case Nil
  then show ?case by (cases "length us") (auto simp: nth_append)
next
  case (snoc b x)
  have "slash_before (us @ slash # (x @ [b]) @ r) (length us + length (x @ [b])) =
    slash_before (us @ slash # x @ b # r) (length us + length x)"
    using snoc.prems by (simp add: list_get_def nth_append)
  with snoc show ?case by simp
qed

primrec jn :: "u8 list list \<Rightarrow> u8 list" where
  "jn [] = []"
| "jn (x # xs) = (if xs = [] then x else x @ slash # jn xs)"

lemma concat_loop_end: "concat_loop buf c (pre @ 0 # post) (length pre) = Some (buf, c)"
  by (simp add: concat_loop.simps[of buf])

lemma concat_loop_slash:
  "concat_loop (out @ b # r) (length out) (pre @ slash # post) (length pre) =
   concat_loop ((out @ [slash]) @ r) (length (out @ [slash])) ((pre @ [slash]) @ post) (length (pre @ [slash]))"
  by (simp add: concat_loop.simps[of "out @ b # r"])

lemma concat_loop_plain:
  assumes "comp_ok x" and "hd x \<noteq> dot" and "y = 0 \<or> y = slash" and "length x \<le> length r"
  shows "concat_loop (out @ r) (length out) (pre @ x @ y # post) (length pre) =
    concat_loop ((out @ x) @ drop (length x) r) (length (out @ x)) ((pre @ x) @ y # post) (length (pre @ x))"
proof -
  obtain b x' where x: "x = b # x'" using assms(1) by (cases x) (auto simp: comp_ok_def)
  have "copy_comp (out @ r) (length out) (pre @ x @ y # post) (length pre) =
    Some ((out @ x) @ drop (length x) r, length (out @ x), length (pre @ x))"
    by (rule copy_comp_eq) (use assms in \<open>auto simp: comp_ok_def\<close>)
  then show ?thesis using assms(1,2) by (subst concat_loop.simps) (simp add: x comp_ok_def)
qed

lemma concat_loop_dot:
  "concat_loop buf c (pre @ dot # slash # post) (length pre) =
   concat_loop buf c ((pre @ [dot, slash]) @ post) (length (pre @ [dot, slash]))"
  by (simp add: concat_loop.simps[of buf c "pre @ dot # slash # post"])

lemma concat_loop_dot_end: "concat_loop buf c (pre @ [dot, 0]) (length pre) = None"
  by (simp add: concat_loop.simps[of buf c "pre @ [dot, 0]"] concat_loop.simps[of buf c _ "Suc (Suc (length pre))"] list_get_def nth_append)

lemma concat_loop_root:
  "concat_loop buf (Suc 0) (pre @ dot # dot # post) (length pre) =
   concat_loop buf (Suc 0) ((pre @ [dot]) @ dot # post) (length (pre @ [dot]))"
  by (simp add: concat_loop.simps[of buf "Suc 0" "pre @ dot # dot # post"])

lemma concat_loop_up:
  assumes "st \<noteq> []" and "comp_ok (last st)" and "y = 0 \<or> y = slash"
  shows "\<exists>r'. concat_loop (dirp st @ r) (length (dirp st)) (pre @ dot # dot # y # post) (length pre) =
    concat_loop (dirp (butlast st) @ r') (length (dirp (butlast st))) (pre @ dot # dot # y # post)
      (if y = slash then length pre + 3 else length pre + 2) \<and>
    length (dirp (butlast st) @ r') = length (dirp st @ r)"
proof -
  obtain st' x where st: "st = st' @ [x]" using assms(1) by (cases st rule: rev_cases) auto
  have x: "slash \<notin> set x" "x \<noteq> []" using assms(2) by (auto simp: st comp_ok_def)
  obtain us where us: "dirp st' = us @ [slash]" using dirp_last by blast
  have d: "dirp st = us @ slash # x @ [slash]" by (simp add: st dirp_snoc us)
  let ?t = "pre @ dot # dot # y # post"
  have "slash_before (us @ slash # x @ [slash] @ r) (length us + length x) = Some (length us)"
    by (rule slash_before_eq[OF x(1)])
  moreover have "length (dirp st) - 2 = length us + length x" by (simp add: d)
  ultimately have sb: "slash_before (dirp st @ r) (length (dirp st) - 2) = Some (length us)" by (simp add: d)
  have big: "length (dirp st) \<noteq> 1" "\<not> length (dirp st) < 2" using x(2) by (cases x; simp add: d)+
  have t: "list_get ?t (length pre) = Some dot" "list_get ?t (length pre + 1) = Some dot" "list_get ?t (length pre + 2) = Some y"
    by (simp_all add: nth_append)
  have "concat_loop (dirp st @ r) (length (dirp st)) ?t (length pre) =
    concat_loop (dirp st @ r) (length us + 1) ?t (if y = slash then length pre + 3 else length pre + 2)"
    using big by (subst concat_loop.simps) (simp only: t sb bind.bind_lunit, simp)
  then have "concat_loop (dirp st @ r) (length (dirp st)) ?t (length pre) =
    concat_loop (dirp st' @ x @ slash # r) (length (dirp st')) ?t (if y = slash then length pre + 3 else length pre + 2)"
    by (simp add: d us)
  moreover have "length (dirp st' @ x @ slash # r) = length (dirp st @ r)" by (simp add: d us)
  ultimately show ?thesis unfolding st by (metis butlast_snoc)
qed

text \<open>What is in the buffer at the end of the loop.\<close>

definition final :: "u8 list list \<Rightarrow> u8 list list \<Rightarrow> u8 list" where
  "final st cs = (if last cs = [dot, dot] then dirp (resolve st cs) else butlast (dirp (resolve st cs)))"

lemma final_Cons: "xs \<noteq> [] \<Longrightarrow> final st (x # xs) = final (resolve st [x]) xs"
  by (simp add: final_def)

definition ends_at :: "(u8 list \<times> nat) option \<Rightarrow> u8 list \<Rightarrow> nat \<Rightarrow> nat \<Rightarrow> bool" where
  "ends_at res out n m \<longleftrightarrow> (\<exists>r. res = Some (out @ r, length out) \<and> length (out @ r) = n \<and> length out \<le> m)"

lemma plain_comp: "comp_ok x \<Longrightarrow> x \<noteq> [dot] \<Longrightarrow> x \<noteq> [dot, dot] \<Longrightarrow> hd x \<noteq> dot \<and> resolve st [x] = st @ [x]"
  by (auto simp: comp_ok_def)

lemma concat_loop_last:
  assumes "comp_ok x" and "\<forall>y \<in> set st. comp_ok y" and "length (dirp st) \<le> length pre"
    and "length x + length pre < length (dirp st @ r)"
  shows "if ends_well st [x]
    then ends_at (concat_loop (dirp st @ r) (length (dirp st)) (pre @ x @ [0]) (length pre)) (final st [x])
      (length (dirp st @ r)) (length pre + length x)
    else concat_loop (dirp st @ r) (length (dirp st)) (pre @ x @ [0]) (length pre) = None"
proof -
  consider (plain) "x \<noteq> [dot]" "x \<noteq> [dot, dot]" | (here) "x = [dot]" | (up) "x = [dot, dot]" "st \<noteq> []" | (root) "x = [dot, dot]" "st = []"
    by blast
  then show ?thesis
  proof cases
    case plain
    have "concat_loop (dirp st @ r) (length (dirp st)) (pre @ x @ [0]) (length pre) =
      Some ((dirp st @ x) @ drop (length x) r, length (dirp st @ x))"
      using concat_loop_plain[of x 0 r "dirp st" pre "[]"] concat_loop_end[of _ _ "pre @ x" "[]"]
        plain_comp[OF assms(1) plain] assms(1,3,4) by simp
    moreover have "final st [x] = butlast ((dirp st @ x) @ [slash])" using plain by (simp add: final_def dirp_snoc)
    then have "final st [x] = dirp st @ x" unfolding butlast_snoc .
    moreover have "length (dirp st @ x) + length (drop (length x) r) = length (dirp st @ r)" using assms(3,4) by simp
    ultimately show ?thesis using plain assms(3) by (auto simp: ends_at_def)
  next
    case here
    then show ?thesis by (simp add: concat_loop_dot_end)
  next
    case up
    have "comp_ok (last st)" using assms(2) up(2) by simp
    from concat_loop_up[OF up(2) this, of 0 r pre "[]"] obtain r' where
      r': "concat_loop (dirp st @ r) (length (dirp st)) (pre @ x @ [0]) (length pre) =
        concat_loop (dirp (butlast st) @ r') (length (dirp (butlast st))) (pre @ x @ [0]) (length pre + 2)"
      "length (dirp (butlast st) @ r') = length (dirp st @ r)" by (auto simp: up(1))
    moreover obtain st' z where "st = st' @ [z]" using up(2) by (cases st rule: rev_cases) auto
    ultimately show ?thesis using concat_loop_end[of _ _ "pre @ x" "[]"] up assms(3)
      by (auto simp: ends_at_def final_def dirp_snoc)
  next
    case root
    then show ?thesis
      using concat_loop_root[of "dirp [] @ r" pre "[0]"] concat_loop_dot_end[of "dirp [] @ r" "Suc 0" "pre @ [dot]"]
      by (simp add: dirp_def)
  qed
qed

lemma concat_loop_more:
  assumes "comp_ok x" and "\<forall>y \<in> set st. comp_ok y" and "length (dirp st) \<le> length pre"
    and "length x + 1 + length pre < length (dirp st @ r)"
  shows "\<exists>r' pre'. concat_loop (dirp st @ r) (length (dirp st)) (pre @ x @ slash # post) (length pre) =
      concat_loop (dirp (resolve st [x]) @ r') (length (dirp (resolve st [x]))) (pre' @ post) (length pre') \<and>
    pre' = pre @ x @ [slash] \<and> length (dirp (resolve st [x]) @ r') = length (dirp st @ r) \<and>
    length (dirp (resolve st [x])) \<le> length pre' \<and> (\<forall>y \<in> set (resolve st [x]). comp_ok y)"
proof -
  consider (plain) "x \<noteq> [dot]" "x \<noteq> [dot, dot]" | (here) "x = [dot]" | (up) "x = [dot, dot]" "st \<noteq> []" | (root) "x = [dot, dot]" "st = []"
    by blast
  then show ?thesis
  proof cases
    case plain
    obtain b r' where r': "drop (length x) r = b # r'" using assms(3,4) by (cases "drop (length x) r") auto
    have "concat_loop (dirp st @ r) (length (dirp st)) (pre @ x @ slash # post) (length pre) =
      concat_loop (dirp (st @ [x]) @ r') (length (dirp (st @ [x]))) ((pre @ x @ [slash]) @ post) (length (pre @ x @ [slash]))"
      using concat_loop_plain[of x slash r "dirp st" pre post] concat_loop_slash[of "dirp st @ x" b r' "pre @ x" post]
        plain_comp[OF assms(1) plain] assms(1,3,4) by (simp add: r' dirp_snoc)
    moreover have "length r' + 1 + length x = length r" using arg_cong[OF r', of length] assms(3,4) by simp
    ultimately show ?thesis using plain_comp[OF assms(1) plain] assms(1-3) by (auto simp: dirp_snoc)
  next
    case here
    then show ?thesis using concat_loop_dot[of "dirp st @ r" "length (dirp st)" pre post] assms(2,3) by auto
  next
    case up
    have "comp_ok (last st)" using assms(2) up(2) by simp
    from concat_loop_up[OF up(2) this, of slash r pre post] obtain r' where
      r': "concat_loop (dirp st @ r) (length (dirp st)) (pre @ x @ slash # post) (length pre) =
        concat_loop (dirp (butlast st) @ r') (length (dirp (butlast st))) ((pre @ x @ [slash]) @ post) (length (pre @ x @ [slash]))"
      "length (dirp (butlast st) @ r') = length (dirp st @ r)" by (auto simp: up(1) eval_nat_numeral)
    obtain st' z where "st = st' @ [z]" using up(2) by (cases st rule: rev_cases) auto
    then show ?thesis using r' up assms(2,3) by (auto simp: dirp_snoc)
  next
    case root
    then show ?thesis
      using concat_loop_root[of "dirp [] @ r" pre "slash # post"] concat_loop_dot[of "dirp [] @ r" "Suc 0" "pre @ [dot]" post] assms(3)
      by (auto simp: dirp_def)
  qed
qed

lemma concat_loop_main:
  assumes "cs \<noteq> []" and "\<forall>x \<in> set cs. comp_ok x" and "\<forall>y \<in> set st. comp_ok y" and "length (dirp st) \<le> length pre"
    and "length (jn cs) + length pre < length (dirp st @ r)"
  shows "if ends_well st cs
    then ends_at (concat_loop (dirp st @ r) (length (dirp st)) (pre @ jn cs @ [0]) (length pre)) (final st cs)
      (length (dirp st @ r)) (length pre + length (jn cs))
    else concat_loop (dirp st @ r) (length (dirp st)) (pre @ jn cs @ [0]) (length pre) = None"
  using assms
proof (induction cs arbitrary: st pre r)
  case (Cons x xs)
  show ?case
  proof (cases "xs = []")
    case True
    then have j: "x # xs = [x]" "jn [x] = x" by simp_all
    show ?thesis unfolding j by (rule concat_loop_last[OF _ Cons.prems(3,4)]) (use Cons.prems(2,5) j in auto)
  next
    case False
    from concat_loop_more[of x st pre r "jn xs @ [0]"] Cons.prems False obtain r' where
      step: "concat_loop (dirp st @ r) (length (dirp st)) (pre @ jn (x # xs) @ [0]) (length pre) =
        concat_loop (dirp (resolve st [x]) @ r') (length (dirp (resolve st [x]))) ((pre @ x @ [slash]) @ jn xs @ [0]) (length (pre @ x @ [slash]))"
      and len: "length (dirp (resolve st [x]) @ r') = length (dirp st @ r)"
      and p: "length (dirp (resolve st [x])) \<le> length (pre @ x @ [slash])" "\<forall>y \<in> set (resolve st [x]). comp_ok y"
      by auto
    have e: "ends_well st (x # xs) = ends_well (resolve st [x]) xs" using False by simp
    have "length (jn xs) + length (pre @ x @ [slash]) < length (dirp (resolve st [x]) @ r')"
      unfolding len using Cons.prems(5) False by simp
    moreover have "length (pre @ x @ [slash]) + length (jn xs) = length pre + length (jn (x # xs))" using False by simp
    ultimately show ?thesis
      using Cons.IH[OF False _ p(2,1), of r'] Cons.prems(2) unfolding step final_Cons[OF False] len e by (metis list.set_intros(2))
  qed
qed simp

lemma path_dirp: "cs \<noteq> [] \<Longrightarrow> slash # jn cs = path cs"
  by (induction cs) (auto simp: path_def)

lemma butlast_dirp: "st \<noteq> [] \<Longrightarrow> butlast (dirp st) = path st"
proof (induction st rule: rev_induct)
  case (snoc x st)
  have "butlast (dirp (st @ [x])) = dirp st @ x"
    using butlast_snoc[of "dirp st @ x" slash] by (simp add: dirp_snoc)
  moreover have "dirp st @ x = path (st @ [x])"
  proof (cases "st = []")
    case False
    obtain us where us: "dirp st = us @ [slash]" using dirp_last by blast
    then have "us = path st" using snoc.IH[OF False] by simp
    then show ?thesis using us False by (simp add: path_def)
  qed (simp add: dirp_def path_def)
  ultimately show ?case by simp
qed simp

lemma resolve_append: "resolve st (xs @ ys) = resolve (resolve st xs) ys"
  by (induction xs arbitrary: st) auto

lemma resolve_ok: "\<forall>x \<in> set cs. comp_ok x \<Longrightarrow> \<forall>x \<in> set st. comp_ok x \<Longrightarrow> \<forall>x \<in> set (resolve st cs). comp_ok x"
proof (induction cs arbitrary: st)
  case (Cons x xs)
  have "\<forall>y \<in> set (resolve st [x]). comp_ok y" using Cons.prems by (auto dest: in_set_butlastD)
  from Cons.IH[OF _ this] Cons.prems show ?case by simp
qed simp

lemma ends_well_last: "cs \<noteq> [] \<Longrightarrow> ends_well st cs \<Longrightarrow> last cs \<noteq> [dot] \<and> (last cs \<noteq> [dot, dot] \<longrightarrow> resolve st cs = resolve st (butlast cs) @ [last cs])"
proof (induction cs arbitrary: st)
  case (Cons x xs)
  show ?case
  proof (cases "xs = []")
    case False
    then show ?thesis using Cons.IH[of "resolve st [x]"] Cons.prems by simp
  qed (use Cons.prems in auto)
qed simp

lemma takeWhile_str: "0 \<notin> set x \<Longrightarrow> takeWhile (\<lambda>b. b \<noteq> 0) (x @ 0 # r) = (x :: u8 list)"
  by (induction x) auto

lemma path_no_zero: "\<forall>x \<in> set cs. comp_ok x \<Longrightarrow> 0 \<notin> set (path cs)"
  by (auto simp: path_def comp_ok_def)

lemma path_concat_lemma:
  assumes "cs \<noteq> []" and "\<forall>x \<in> set cs. comp_ok x" and "length (path cs) < length s" and "s ! 0 = 0"
  shows "if ends_well [] cs
    then \<exists>s'. path_concat s (path cs @ [0]) = Some s' \<and> takeWhile (\<lambda>b. b \<noteq> 0) s' = path (resolve [] cs) \<and> length s' = length s
    else path_concat s (path cs @ [0]) = None"
proof -
  obtain r where r: "s = 0 # r" using assms(3,4) by (cases s) auto
  have p: "path cs = slash # jn cs" using path_dirp[OF assms(1)] by simp
  have step: "concat_loop s 0 (path cs @ [0]) 0 = concat_loop (dirp [] @ r) (length (dirp [])) ([slash] @ jn cs @ [0]) (length [slash])"
    using concat_loop_slash[of "[]" 0 r "[]" "jn cs @ [0]"] by (simp add: r p dirp_def)
  have len: "length (dirp [] @ r) = length s" by (simp add: r dirp_def)
  have sl: "strlen s = Some 0" by (simp add: r)
  note m = concat_loop_main[OF assms(1,2), of "[]" "[slash]" r, folded step, unfolded len]
  show ?thesis
  proof (cases "ends_well [] cs")
    case False
    then show ?thesis using m assms(3) by (simp add: path_concat_def sl p dirp_def)
  next
    case True
    let ?f = "final [] cs" and ?st = "resolve [] cs"
    obtain r' where res: "concat_loop s 0 (path cs @ [0]) 0 = Some (?f @ r', length ?f)"
      and n: "length (?f @ r') = length s" and bound: "length ?f \<le> length (path cs)"
      using m assms(3) True by (auto simp: ends_at_def p dirp_def)
    obtain b r'' where r'': "r' = b # r''" using n bound assms(3) by (cases r') auto
    have "\<exists>s'. path_concat s (path cs @ [0]) = Some (path ?st @ 0 # s') \<and> length (path ?st @ 0 # s') = length s"
    proof (cases "last cs = [dot, dot]")
      case up: True
      then have f: "?f = dirp ?st" by (simp add: final_def)
      show ?thesis
      proof (cases "?st = []")
        case True
        then show ?thesis using res n by (simp add: path_concat_def sl f r'' dirp_def path_def)
      next
        case False
        obtain us where us: "dirp ?st = us @ [slash]" using dirp_last by blast
        then have "us = path ?st" using butlast_dirp[OF False] by simp
        moreover have "us \<noteq> []" using \<open>us = path ?st\<close> False by (cases ?st) (auto simp: path_def)
        ultimately show ?thesis using res n by (simp add: path_concat_def sl f r'' us list_update_append)
      qed
    next
      case plain: False
      then have st: "?st = resolve [] (butlast cs) @ [last cs]" using ends_well_last[OF assms(1) True] by simp
      then have f: "?f = path ?st" using plain butlast_dirp[of ?st] by (simp add: final_def)
      have "comp_ok (last cs)" using assms(1,2) by simp
      then obtain us z where z: "path ?st = us @ [z]" "z \<noteq> slash"
        by (cases "last cs" rule: rev_cases) (auto simp: st path_def comp_ok_def)
      moreover have "2 \<le> length (path ?st)" using \<open>comp_ok (last cs)\<close> by (cases "last cs") (auto simp: st path_def comp_ok_def)
      then have "us \<noteq> []" using z(1) by auto
      ultimately show ?thesis using res n by (simp add: path_concat_def sl f r'' list_update_append)
    qed
    moreover have "0 \<notin> set (path ?st)" by (rule path_no_zero) (rule resolve_ok[OF assms(2)], simp)
    ultimately show ?thesis using True takeWhile_str by auto
  qed
qed

text \<open>
  C17: \<open>path_concat\<close> on an empty buffer is the stack machine on components: it gives the path of
  what is left after \<open>.\<close> was dropped and every \<open>..\<close> took the component before it away, and at the
  root nothing. But if the last component is \<open>.\<close>, or a \<open>..\<close> that finds the root, the code steps
  over the end of the new path and goes on reading behind it.
\<close>

theorem path_concat_resolves:
  assumes "cs \<noteq> []" and "\<forall>x \<in> set cs. comp_ok x" and "length (path cs) < length s" and "s ! 0 = 0"
  shows "if ends_well [] cs
    then \<exists>s'. path_concat s (path cs @ [0]) = Some s' \<and> takeWhile (\<lambda>b. b \<noteq> 0) s' = path (resolve [] cs) \<and> length s' = length s
    else path_concat s (path cs @ [0]) = None"
  by (rule path_concat_lemma[OF assms])

text \<open>\<open>/a/../b\<close> and \<open>/a/.\<close>\<close>

lemma path_concat_resolves_witness:
  "(\<exists>s'. path_concat (replicate 20 0) [47, 97, 47, 46, 46, 47, 98, 0] = Some s' \<and> takeWhile (\<lambda>b. b \<noteq> 0) s' = [47, 98]) \<and>
   path_concat (replicate 20 0) [47, 97, 47, 46, 0] = None"
  using path_concat_resolves[of "[[97], [46, 46], [98]]" "replicate 20 0"] path_concat_resolves[of "[[97], [46]]" "replicate 20 0"]
  by (auto simp: comp_ok_def path_def)

end
