(* ===== verification/HashTable.thy ===== *)
theory HashTable
  imports Complex_Main Prelude
begin

text \<open>
  The hash table of \<open>lib/libblt/hash.c\<close>: open addressing with double hashing, deletion by a
  mark, and tables that grow and shrink along a list of primes. The two probing loops may run
  forever, so they are partial; the model of the load factor calculates exactly, where the
  code has a \<open>float\<close>. A slot that \<open>malloc\<close> gave and nobody filled has the contents 0 here: no
  operation looks at them while \<open>valid\<close> is 0.
\<close>

section \<open>The table\<close>

record hashnode =
  valid :: bool
  dirty :: bool
  key :: int
  dsize :: int
  data :: addr

record hashtable =
  table :: "hashnode list"
  size_index :: nat
  used :: nat
  ndirty :: nat            \<comment> \<open>the field \<open>dirty\<close> of the table\<close>
  max_load :: rat

definition table_size :: "nat list" where
  "table_size = [7, 19, 43, 103, 229, 463, 1021, 2083, 4219, 8539, 17191, 34471, 69031, 138079, 276373, 552751,
     1105549, 2211259, 4422619, 8845453, 17691043, 35382091, 70764259, 141528559, 283057213, 566115259]"

definition hash_key :: "int \<Rightarrow> nat \<Rightarrow> nat" where
  "hash_key k s = nat (k mod 4294967296) mod (table_size ! s)"

definition rehash :: "int \<Rightarrow> nat \<Rightarrow> nat" where
  "rehash k s = 1 + nat (k mod 4294967296) mod (table_size ! s - 2)"

definition free_node :: hashnode where
  "free_node = \<lparr>valid = False, dirty = False, key = 0, dsize = 0, data = 0\<rparr>"

definition fresh_table :: "nat \<Rightarrow> hashnode list" where
  "fresh_table s = replicate (table_size ! s) free_node"

definition hashtable_new :: "rat \<Rightarrow> hashtable" where
  "hashtable_new ml = \<lparr>table = fresh_table 0, size_index = 0, used = 0, ndirty = 0, max_load = ml\<rparr>"

text \<open>\<open>i -= c; if (i < 0) i += table_size[...]\<close>\<close>

definition next_slot :: "nat \<Rightarrow> nat \<Rightarrow> nat \<Rightarrow> nat" where
  "next_slot sz c i = (if i < c then i + sz - c else i - c)"

section \<open>Insertion\<close>

text \<open>The \<open>do ... while\<close> of \<open>hashtable_insert\<close>: the next slot that is free or marked as deleted.\<close>

partial_function (option) probe_free :: "hashnode list \<Rightarrow> nat \<Rightarrow> nat \<Rightarrow> nat \<Rightarrow> nat option" where
  "probe_free tab sz c i =
     (let i = next_slot sz c i in do {
        n \<leftarrow> list_get tab i;
        if valid n \<and> \<not> dirty n then probe_free tab sz c i else Some i })"

text \<open>\<open>hashtable_insert\<close> behind the check of the load.\<close>

definition place_node :: "hashtable \<Rightarrow> int \<Rightarrow> addr \<Rightarrow> int \<Rightarrow> hashtable option" where
  "place_node t k d n = do {
     let i = hash_key k (size_index t);
     home \<leftarrow> list_get (table t) i;
     i \<leftarrow> (if valid home then probe_free (table t) (table_size ! size_index t) (rehash k (size_index t)) i else Some i);
     old \<leftarrow> list_get (table t) i;
     tab \<leftarrow> list_put (table t) i \<lparr>valid = True, dirty = False, key = k, dsize = n, data = d\<rparr>;
     Some (t\<lparr>table := tab, used := (if dirty old then used t else used t + 1)\<rparr>) }"

text \<open>The last loop of \<open>hashtable_rebuild\<close>, over the old table; \<open>ins\<close> is \<open>hashtable_insert\<close>.\<close>

primrec reinsert :: "(hashtable \<Rightarrow> int \<Rightarrow> addr \<Rightarrow> int \<Rightarrow> hashtable option) \<Rightarrow> hashtable \<Rightarrow> hashnode list \<Rightarrow> hashtable option" where
  "reinsert ins t [] = Some t"
| "reinsert ins t (n # ns) =
     (if valid n \<and> \<not> dirty n then do { t \<leftarrow> ins t (key n) (data n) (dsize n); reinsert ins t ns }
      else reinsert ins t ns)"

text \<open>Behind the last entry of \<open>table_size\<close> the code would read outside the array.\<close>

definition hashtable_rebuild ::
  "(hashtable \<Rightarrow> int \<Rightarrow> addr \<Rightarrow> int \<Rightarrow> hashtable option) \<Rightarrow> hashtable \<Rightarrow> int \<Rightarrow> hashtable option" where
  "hashtable_rebuild ins t dir =
     (if dir \<notin> {-1, 0, 1} then Some t
      else
        let s = (if dir = -1 then size_index t - 1 else if dir = 0 then size_index t else size_index t + 1) in
        if length table_size \<le> s then None
        else reinsert ins (t\<lparr>size_index := s, used := 0, ndirty := 0, table := fresh_table s\<rparr>) (table t))"

definition over_load :: "hashtable \<Rightarrow> bool" where
  "over_load t \<longleftrightarrow> max_load t * of_nat (table_size ! size_index t) < of_nat (used t)"

text \<open>
  \<open>hashtable_insert\<close> and \<open>hashtable_rebuild\<close> call each other. Every nested call works on a
  larger table and there are 26 sizes, so a depth of 27 is never reached.
\<close>

primrec insert_depth :: "nat \<Rightarrow> hashtable \<Rightarrow> int \<Rightarrow> addr \<Rightarrow> int \<Rightarrow> hashtable option" where
  "insert_depth 0 t k d n = None"
| "insert_depth (Suc m) t k d n = do {
     t \<leftarrow> (if over_load t then hashtable_rebuild (\<lambda>t k d n. insert_depth m t k d n) t 1 else Some t);
     place_node t k d n }"

definition hashtable_insert :: "hashtable \<Rightarrow> int \<Rightarrow> addr \<Rightarrow> int \<Rightarrow> hashtable option" where
  "hashtable_insert t k d n = insert_depth 27 t k d n"

section \<open>Lookup and removal\<close>

partial_function (option) find_slot :: "hashnode list \<Rightarrow> nat \<Rightarrow> nat \<Rightarrow> int \<Rightarrow> nat \<Rightarrow> nat option option" where
  "find_slot tab sz c k i = do {
     n \<leftarrow> list_get tab i;
     if \<not> valid n then Some None
     else if key n = k \<and> \<not> dirty n then Some (Some i)
     else find_slot tab sz c k (next_slot sz c i) }"

text \<open>The results are the pointer and what is stored at \<open>dsize\<close>.\<close>

definition hashtable_lookup :: "hashtable \<Rightarrow> int \<Rightarrow> (addr \<times> int) option" where
  "hashtable_lookup t k = do {
     r \<leftarrow> find_slot (table t) (table_size ! size_index t) (rehash k (size_index t)) k (hash_key k (size_index t));
     Some (case r of None \<Rightarrow> (0, 0) | Some i \<Rightarrow> (data (table t ! i), dsize (table t ! i))) }"

definition hashtable_remove :: "hashtable \<Rightarrow> int \<Rightarrow> ((addr \<times> int) \<times> hashtable) option" where
  "hashtable_remove t k = do {
     r \<leftarrow> find_slot (table t) (table_size ! size_index t) (rehash k (size_index t)) k (hash_key k (size_index t));
     case r of None \<Rightarrow> Some ((0, 0), t)
     | Some i \<Rightarrow> do {
         let n = table t ! i;
         let t = t\<lparr>table := (table t)[i := n\<lparr>dirty := True\<rparr>], ndirty := ndirty t + 1\<rparr>;
         t \<leftarrow> (if (1 - max_load t) * of_nat (table_size ! size_index t) < of_nat (ndirty t) \<and> size_index t \<noteq> 0
           then hashtable_rebuild hashtable_insert t (-1) else Some t);
         Some ((data n, dsize n), t) } }"

section \<open>The interface\<close>

text \<open>
  What the clients call, and sequences of calls. \<open>run_map\<close> is the same on a map. A key must
  not be in the table when it is inserted, as the comment at the top of the file demands.
\<close>

datatype hop = Put int addr int | Del int | Get int

primrec run_table :: "hashtable \<Rightarrow> hop list \<Rightarrow> ((addr \<times> int) list \<times> hashtable) option" where
  "run_table t [] = Some ([], t)"
| "run_table t (p # ps) = do {
     (r, t) \<leftarrow> (case p of
         Put k d n \<Rightarrow> do { t \<leftarrow> hashtable_insert t k d n; Some ([], t) }
       | Del k \<Rightarrow> do { (v, t) \<leftarrow> hashtable_remove t k; Some ([v], t) }
       | Get k \<Rightarrow> do { v \<leftarrow> hashtable_lookup t k; Some ([v], t) });
     (rs, t) \<leftarrow> run_table t ps;
     Some (r @ rs, t) }"

definition answer :: "(addr \<times> int) option \<Rightarrow> addr \<times> int" where
  "answer v = (case v of None \<Rightarrow> (0, 0) | Some v \<Rightarrow> v)"

primrec run_map :: "(int \<Rightarrow> (addr \<times> int) option) \<Rightarrow> hop list \<Rightarrow> (addr \<times> int) list" where
  "run_map m [] = []"
| "run_map m (p # ps) =
     (case p of
        Put k d n \<Rightarrow> run_map (m(k \<mapsto> (d, n))) ps
      | Del k \<Rightarrow> answer (m k) # run_map (m(k := None)) ps
      | Get k \<Rightarrow> answer (m k) # run_map m ps)"

primrec new_keys :: "(int \<Rightarrow> (addr \<times> int) option) \<Rightarrow> hop list \<Rightarrow> bool" where
  "new_keys m [] \<longleftrightarrow> True"
| "new_keys m (p # ps) \<longleftrightarrow>
     (case p of
        Put k d n \<Rightarrow> m k = None \<and> new_keys (m(k \<mapsto> (d, n))) ps
      | Del k \<Rightarrow> new_keys (m(k := None)) ps
      | Get k \<Rightarrow> new_keys m ps)"

text \<open>The contract of a table that holds a map, up to a load that it can take.\<close>

locale map_table =
  fixes lookup :: "'t \<Rightarrow> 'k \<Rightarrow> 'v option"
    and insert :: "'t \<Rightarrow> 'k \<Rightarrow> 'v \<Rightarrow> 't option"
    and remove :: "'t \<Rightarrow> 'k \<Rightarrow> ('v \<times> 't) option"
    and abs :: "'t \<Rightarrow> 'k \<Rightarrow> 'v option"
    and ok :: "'t \<Rightarrow> bool"
    and load :: "'t \<Rightarrow> nat"
    and bound :: nat
    and found :: "'v option \<Rightarrow> 'v"
  assumes lookup_spec: "ok t \<Longrightarrow> lookup t k = Some (found (abs t k))"
    and insert_spec: "ok t \<Longrightarrow> load t \<le> bound \<Longrightarrow> abs t k = None \<Longrightarrow>
      \<exists>t'. insert t k v = Some t' \<and> ok t' \<and> abs t' = (abs t)(k \<mapsto> v) \<and> load t' \<le> load t + 1"
    and remove_spec: "ok t \<Longrightarrow> \<exists>t'. remove t k = Some (found (abs t k), t') \<and> ok t' \<and> abs t' = (abs t)(k := None) \<and> load t' \<le> load t"
begin

lemma insert_lookup:
  assumes "ok t" and "load t \<le> bound" and "abs t k = None"
  shows "\<exists>t'. insert t k v = Some t' \<and> ok t' \<and> lookup t' k = Some (found (Some v)) \<and>
    (\<forall>k'. k' \<noteq> k \<longrightarrow> lookup t' k' = lookup t k')"
  using insert_spec[OF assms] lookup_spec assms(1) by fastforce

lemma insert_remove:
  assumes "ok t" and "load t \<le> bound" and "abs t k = None"
  shows "\<exists>t1 t2. insert t k v = Some t1 \<and> remove t1 k = Some (found (Some v), t2) \<and> ok t2 \<and> abs t2 = abs t"
proof -
  obtain t1 where t1: "insert t k v = Some t1" "ok t1" "abs t1 = (abs t)(k \<mapsto> v)" using insert_spec[OF assms] by blast
  obtain t2 where t2: "remove t1 k = Some (found (abs t1 k), t2)" "ok t2" "abs t2 = (abs t1)(k := None)"
    using remove_spec[OF t1(2)] by blast
  from t1(3) t2(3) assms(3) have "abs t2 = abs t" by (simp add: fun_upd_idem)
  with t1 t2 show ?thesis by auto
qed

end

section \<open>Probing reaches every slot\<close>

lemma next_slot_mod: "c \<le> sz \<Longrightarrow> i < sz \<Longrightarrow> 0 < c \<Longrightarrow> next_slot sz c i = (i + (sz - c)) mod sz"
proof -
  assume a: "c \<le> sz" "i < sz" "0 < c"
  show ?thesis
  proof (cases "i < c")
    case True
    with a show ?thesis by (simp add: next_slot_def)
  next
    case False
    with a have "i + (sz - c) = (i - c) + sz" "i - c < sz" by simp_all
    then have "(i + (sz - c)) mod sz = i - c" by (simp only: mod_add_self2 mod_less)
    with False show ?thesis by (simp add: next_slot_def)
  qed
qed

lemma next_slot_iter:
  assumes "c \<le> sz" "i < sz" "0 < c"
  shows "(next_slot sz c ^^ j) i = (i + j * (sz - c)) mod sz"
proof (induction j)
  case (Suc j)
  have "(next_slot sz c ^^ Suc j) i = next_slot sz c ((i + j * (sz - c)) mod sz)" by (simp add: Suc)
  also have "\<dots> = ((i + j * (sz - c)) mod sz + (sz - c)) mod sz"
    using assms by (intro next_slot_mod) auto
  also have "\<dots> = (i + j * (sz - c) + (sz - c)) mod sz" by (rule mod_add_left_eq)
  also have "i + j * (sz - c) + (sz - c) = i + Suc j * (sz - c)" by simp
  finally show ?case .
qed (use assms in simp)

lemma next_slot_lt: "c \<le> sz \<Longrightarrow> i < sz \<Longrightarrow> 0 < c \<Longrightarrow> next_slot sz c i < sz"
  by (simp add: next_slot_mod)

lemma probes_all:
  assumes "coprime c sz" "0 < c" "c < sz" "i < sz" "s < sz"
  shows "\<exists>j. (next_slot sz c ^^ j) i = s"
proof -
  let ?f = "\<lambda>j. (i + j * (sz - c)) mod sz"
  have cop: "coprime (sz - c) sz"
  proof (rule coprimeI)
    fix d assume "d dvd sz - c" "d dvd sz"
    then have "d dvd sz - (sz - c)" by (rule dvd_diff_nat[rotated])
    then have "d dvd c" using assms(3) by simp
    then show "is_unit d" using \<open>d dvd sz\<close> assms(1) coprime_common_divisor by blast
  qed
  have "inj_on ?f {..<sz}"
  proof (rule inj_onI)
    have le: "a = b" if "a \<le> b" "b < sz" "?f a = ?f b" for a b
    proof -
      have "sz dvd (i + b * (sz - c)) - (i + a * (sz - c))"
        using that(1,3) by (intro mod_eq_dvd_iff_nat[THEN iffD1]) simp_all
      then have "sz dvd (b - a) * (sz - c)" by (simp add: diff_mult_distrib)
      with cop have "sz dvd b - a" by (simp add: coprime_dvd_mult_left_iff coprime_commute)
      with that show "a = b" by (auto dest: dvd_imp_le)
    qed
    fix a b assume "a \<in> {..<sz}" "b \<in> {..<sz}" "?f a = ?f b"
    then show "a = b" using le[of a b] le[of b a] by (cases "a \<le> b") auto
  qed
  then have "card (?f ` {..<sz}) = sz" by (simp add: card_image)
  moreover have "?f ` {..<sz} \<subseteq> {..<sz}" using assms(3) by auto
  ultimately have "?f ` {..<sz} = {..<sz}" by (intro card_subset_eq) auto
  then have "s \<in> ?f ` {..<sz}" using assms(5) by simp
  then obtain j where j: "?f j = s" by blast
  have "c \<le> sz" using assms(3) by simp
  from trans[OF next_slot_iter[OF this assms(4,2)] j] show ?thesis by (rule exI)
qed

end
