(* ===== verification/Vfs.thy ===== *)
theory Vfs
  imports VfsPath HashTable
begin

text \<open>
  The file system server (\<open>srv/vfs\<close>): superblocks, vnodes and the list of mounts (\<open>super.c\<close>,
  \<open>vnode.c\<close>, \<open>fs.c\<close>), the two file systems \<open>rootfs.c\<close> and \<open>bootfs.c\<close> behind their tables of
  operations, the requests of the clients and the loop that serves them (\<open>vfs.c\<close>, \<open>shm.c\<close>). Objects
  are in heaps that \<open>malloc\<close> extends; it never fails. A string is its bytes without the
  terminator, but the page in which a client leaves its names is kept as it is, since the code
  computes with pointers into it. \<open>None\<close> is an access through a bad pointer or to memory that
  nobody initialised. The locks of the vnodes and the debugging output are left out.
\<close>

type_synonym str = "u8 list"

section \<open>The data\<close>

datatype fs_kind = Rootfs | Bootfs

record rootfs_inode =
  ri_ino :: int
  ri_name :: str

record bootfs_inode =
  bi_ino :: int
  bi_offset :: int
  bi_size :: int
  bi_name :: str

datatype sb_data = Root_data "rootfs_inode list" | Boot_data "bootfs_inode list"

record superblock =
  sb_dir :: str
  sb_root :: addr
  sb_vops :: fs_kind
  sb_data :: sb_data

text \<open>\<open>v_data\<close> points to an inode: here its place in the list of the superblock, if it was set.\<close>

record vnode =
  v_vnid :: int
  v_refcount :: int
  v_sb :: addr
  v_data :: "nat option"

type_synonym dirent = "int \<times> str"

datatype cookie = Dir_cookie "dirent list" "dirent list" | File_cookie int int

record ofile =
  o_vnode :: addr
  o_cookie :: "addr option"
  o_pos :: "int option"
  o_area :: nat
  o_offset :: nat
  o_length :: nat
  o_slots :: "nat \<Rightarrow> dirent option"    \<comment> \<open>the entries in the area of a directory\<close>

definition MAX_FDS :: nat where "MAX_FDS = 256"

record client =
  c_in :: int
  c_out :: nat
  cwd :: str
  ofiles :: "addr list"

record boot_entry =
  be_name :: str
  be_offset :: int
  be_type :: int
  be_vsize :: int

record vfs =
  supers :: "addr \<Rightarrow> superblock option"
  vnodes :: "addr \<Rightarrow> vnode option"
  cookies :: "addr \<Rightarrow> cookie option"
  files :: "addr \<Rightarrow> ofile option"
  clients :: "addr \<Rightarrow> client option"
  heap_top :: addr
  fs_drivers :: "fs_kind list"
  mount_list :: "addr list"
  conn_table :: hashtable
  root_inode_max :: int
  boot_inode_max :: int
  boot_dir :: "boot_entry list"
  boot_mem :: "u8 list"
  res_freed :: bool                    \<comment> \<open>\<open>res\<close> of the loop points to a reply that was freed\<close>

definition malloc :: "vfs \<Rightarrow> addr \<times> vfs" where
  "malloc s = (heap_top s, s\<lparr>heap_top := heap_top s + 1\<rparr>)"

abbreviation (input) "ENOENT \<equiv> 2 :: int"
abbreviation (input) "EBADF \<equiv> 9 :: int"
abbreviation (input) "ENOTDIR \<equiv> 20 :: int"
abbreviation (input) "EMFILE \<equiv> 24 :: int"
abbreviation (input) "ENOSYS \<equiv> 78 :: int"

text \<open>The string at a place of a buffer, if it has an end.\<close>

definition cstr :: "u8 list \<Rightarrow> nat \<Rightarrow> str option" where
  "cstr b i = (if 0 \<in> set (drop i b) then Some (takeWhile (\<lambda>c. c \<noteq> 0) (drop i b)) else None)"

section \<open>vnodes\<close>

text \<open>The loops over the inodes: the place of the first one with a property.\<close>

fun find_place :: "('a \<Rightarrow> bool) \<Rightarrow> 'a list \<Rightarrow> nat option" where
  "find_place P [] = None"
| "find_place P (x # xs) = (if P x then Some 0 else map_option Suc (find_place P xs))"

definition rootfs_read_vnode :: "addr \<Rightarrow> vfs \<Rightarrow> (int \<times> vfs) option" where
  "rootfs_read_vnode v s = do {
     n \<leftarrow> vnodes s v;
     sb \<leftarrow> supers s (v_sb n);
     case sb_data sb of
       Root_data is \<Rightarrow> (case find_place (\<lambda>i. ri_ino i = v_vnid n) is of
           Some k \<Rightarrow> Some (0, s\<lparr>vnodes := (vnodes s)(v \<mapsto> n\<lparr>v_data := Some k\<rparr>)\<rparr>)
         | None \<Rightarrow> Some (-1, s))
     | _ \<Rightarrow> None }"

definition bootfs_read_vnode :: "addr \<Rightarrow> vfs \<Rightarrow> (int \<times> vfs) option" where
  "bootfs_read_vnode v s = do {
     n \<leftarrow> vnodes s v;
     sb \<leftarrow> supers s (v_sb n);
     case sb_data sb of
       Boot_data is \<Rightarrow> (case find_place (\<lambda>i. bi_ino i = v_vnid n) is of
           Some k \<Rightarrow> Some (0, s\<lparr>vnodes := (vnodes s)(v \<mapsto> n\<lparr>v_data := Some k\<rparr>)\<rparr>)
         | None \<Rightarrow> Some (0, s))
     | _ \<Rightarrow> None }"

definition vget :: "addr \<Rightarrow> int \<Rightarrow> vfs \<Rightarrow> (addr \<times> vfs) option" where
  "vget super vnid s = do {
     let (v, s) = malloc s;
     let s = s\<lparr>vnodes := (vnodes s)(v \<mapsto> \<lparr>v_vnid = vnid, v_refcount = 1, v_sb = super, v_data = None\<rparr>)\<rparr>;
     sb \<leftarrow> supers s super;
     (r, s) \<leftarrow> (case sb_vops sb of Rootfs \<Rightarrow> rootfs_read_vnode v s | Bootfs \<Rightarrow> bootfs_read_vnode v s);
     Some (v, s) }"

definition rootfs_drop_vnode :: "addr \<Rightarrow> vfs \<Rightarrow> vfs option" where
  "rootfs_drop_vnode v s = do { n \<leftarrow> vnodes s v; Some (s\<lparr>vnodes := (vnodes s)(v \<mapsto> n\<lparr>v_data := None\<rparr>)\<rparr>) }"

definition bootfs_drop_vnode :: "addr \<Rightarrow> vfs \<Rightarrow> vfs option" where
  "bootfs_drop_vnode v s = Some s"

definition vput :: "addr \<Rightarrow> vfs \<Rightarrow> vfs option" where
  "vput v s = do {
     n \<leftarrow> vnodes s v;
     sb \<leftarrow> supers s (v_sb n);
     s \<leftarrow> (case sb_vops sb of Rootfs \<Rightarrow> rootfs_drop_vnode v s | Bootfs \<Rightarrow> bootfs_drop_vnode v s);
     n \<leftarrow> vnodes s v;
     let n = n\<lparr>v_refcount := v_refcount n - 1\<rparr>;
     Some (s\<lparr>vnodes := (vnodes s)(v := if v_refcount n = 0 then None else Some n)\<rparr>) }"

section \<open>rootfs\<close>

definition dot_name :: str where "dot_name = [dot]"
definition dotdot_name :: str where "dotdot_name = [dot, dot]"

definition rootfs_inew :: "str \<Rightarrow> vfs \<Rightarrow> rootfs_inode \<times> vfs" where
  "rootfs_inew name s = (\<lparr>ri_ino = root_inode_max s, ri_name = name\<rparr>, s\<lparr>root_inode_max := root_inode_max s + 1\<rparr>)"

definition rootfs_mount :: "addr \<Rightarrow> vfs \<Rightarrow> (int \<times> vfs) option" where
  "rootfs_mount super s = do {
     sb \<leftarrow> supers s super;
     let (i1, s) = rootfs_inew dot_name s;
     let (i2, s) = rootfs_inew dotdot_name s;
     let sb = sb\<lparr>sb_data := Root_data [i1, i2]\<rparr>;
     (v, s) \<leftarrow> vget super 0 (s\<lparr>supers := (supers s)(super \<mapsto> sb)\<rparr>);
     Some (0, s\<lparr>supers := (supers s)(super \<mapsto> sb\<lparr>sb_root := v\<rparr>)\<rparr>) }"

text \<open>The search starts at the inode of the parent.\<close>

definition rootfs_walk :: "addr \<Rightarrow> str \<Rightarrow> vfs \<Rightarrow> (addr \<times> vfs) option" where
  "rootfs_walk parent p s = do {
     n \<leftarrow> vnodes s parent;
     sb \<leftarrow> supers s (v_sb n);
     k \<leftarrow> v_data n;
     case sb_data sb of
       Root_data is \<Rightarrow> (case find_place (\<lambda>i. ri_name i = p) (drop k is) of
           Some j \<Rightarrow> vget (v_sb n) (ri_ino (is ! (k + j))) s
         | None \<Rightarrow> Some (0, s))
     | _ \<Rightarrow> None }"

definition rootfs_mkdir :: "addr \<Rightarrow> str \<Rightarrow> vfs \<Rightarrow> (int \<times> vfs) option" where
  "rootfs_mkdir parent name s = do {
     n \<leftarrow> vnodes s parent;
     if v_vnid n \<noteq> 0 then Some (-1, s)
     else do {
       let (i, s) = rootfs_inew name s;
       sb \<leftarrow> supers s (v_sb n);
       case sb_data sb of
         Root_data is \<Rightarrow> Some (0, s\<lparr>supers := (supers s)(v_sb n \<mapsto> sb\<lparr>sb_data := Root_data (is @ [i])\<rparr>)\<rparr>)
       | _ \<Rightarrow> None } }"

text \<open>\<open>opendir\<close> builds the list of entries back to front. The errno and the cookie.\<close>

definition rootfs_opendir :: "addr \<Rightarrow> vfs \<Rightarrow> ((int \<times> addr option) \<times> vfs) option" where
  "rootfs_opendir dir s = do {
     n \<leftarrow> vnodes s dir;
     if v_vnid n \<noteq> 0 then Some ((ENOTDIR, None), s)
     else do {
       sb \<leftarrow> supers s (v_sb n);
       case sb_data sb of
         Root_data is \<Rightarrow>
           let es = rev (map (\<lambda>i. (ri_ino i, ri_name i)) is); (c, s) = malloc s
           in Some ((0, Some c), s\<lparr>cookies := (cookies s)(c \<mapsto> Dir_cookie es es)\<rparr>)
       | _ \<Rightarrow> None } }"

text \<open>\<open>rewinddir\<close> and \<open>readdir\<close> are the same in both file systems. A name of 32 bytes or more is left without its end.\<close>

definition fs_rewinddir :: "addr \<Rightarrow> vfs \<Rightarrow> vfs option" where
  "fs_rewinddir c s = do {
     k \<leftarrow> cookies s c;
     case k of Dir_cookie h cur \<Rightarrow> Some (s\<lparr>cookies := (cookies s)(c \<mapsto> Dir_cookie h h)\<rparr>) | _ \<Rightarrow> None }"

definition fs_readdir :: "addr \<Rightarrow> vfs \<Rightarrow> (dirent option \<times> vfs) option" where
  "fs_readdir c s = do {
     k \<leftarrow> cookies s c;
     case k of
       Dir_cookie h [] \<Rightarrow> Some (None, s)
     | Dir_cookie h (e # es) \<Rightarrow>
         if length (snd e) < 32 then Some (Some e, s\<lparr>cookies := (cookies s)(c \<mapsto> Dir_cookie h es)\<rparr>) else None
     | _ \<Rightarrow> None }"

section \<open>bootfs\<close>

definition bootfs_inew :: "str \<Rightarrow> int \<Rightarrow> int \<Rightarrow> vfs \<Rightarrow> bootfs_inode \<times> vfs" where
  "bootfs_inew name off sz s =
     (\<lparr>bi_ino = boot_inode_max s, bi_offset = off, bi_size = sz, bi_name = take 31 name\<rparr>,
      s\<lparr>boot_inode_max := boot_inode_max s + 1\<rparr>)"

text \<open>\<open>BOOTDIR_DIRECTORY\<close>, \<open>"SBBB/Directory"\<close>\<close>

definition bootdir_directory :: str where
  "bootdir_directory = [0x53, 0x42, 0x42, 0x42, 0x2F, 0x44, 0x69, 0x72, 0x65, 0x63, 0x74, 0x6F, 0x72, 0x79]"

primrec bootfs_entries :: "boot_entry list \<Rightarrow> bootfs_inode list \<Rightarrow> vfs \<Rightarrow> bootfs_inode list \<times> vfs" where
  "bootfs_entries [] is s = (is, s)"
| "bootfs_entries (be # bes) is s =
     (if be_type be \<noteq> 0 \<and> be_name be \<noteq> bootdir_directory then
        let (i, s) = bootfs_inew (be_name be) (be_offset be) (be_vsize be) s in bootfs_entries bes (i # is) s
      else bootfs_entries bes is s)"

definition bootfs_mount :: "addr \<Rightarrow> vfs \<Rightarrow> (int \<times> vfs) option" where
  "bootfs_mount super s = do {
     sb \<leftarrow> supers s super;
     let (i1, s) = bootfs_inew dot_name 0 0 s;
     let (i2, s) = bootfs_inew dotdot_name 0 0 s;
     let (is, s) = bootfs_entries (boot_dir s) [i1, i2] s;
     let sb = sb\<lparr>sb_data := Boot_data is\<rparr>;
     (v, s) \<leftarrow> vget super 0 (s\<lparr>supers := (supers s)(super \<mapsto> sb)\<rparr>);
     Some (0, s\<lparr>supers := (supers s)(super \<mapsto> sb\<lparr>sb_root := v\<rparr>)\<rparr>) }"

definition bootfs_walk :: "addr \<Rightarrow> str \<Rightarrow> vfs \<Rightarrow> (addr \<times> vfs) option" where
  "bootfs_walk parent p s = do {
     n \<leftarrow> vnodes s parent;
     if v_vnid n \<noteq> 0 then Some (0, s)
     else do {
       sb \<leftarrow> supers s (v_sb n);
       case sb_data sb of
         Boot_data is \<Rightarrow> (case find_place (\<lambda>i. bi_name i = p) is of
             Some j \<Rightarrow> vget (v_sb n) (bi_ino (is ! j)) s
           | None \<Rightarrow> Some (0, s))
       | _ \<Rightarrow> None } }"

definition bootfs_opendir :: "addr \<Rightarrow> vfs \<Rightarrow> ((int \<times> addr option) \<times> vfs) option" where
  "bootfs_opendir dir s = do {
     n \<leftarrow> vnodes s dir;
     if v_vnid n \<noteq> 0 then Some ((ENOTDIR, None), s)
     else do {
       sb \<leftarrow> supers s (v_sb n);
       case sb_data sb of
         Boot_data is \<Rightarrow>
           let es = rev (map (\<lambda>i. (bi_ino i, bi_name i)) is); (c, s) = malloc s
           in Some ((0, Some c), s\<lparr>cookies := (cookies s)(c \<mapsto> Dir_cookie es es)\<rparr>)
       | _ \<Rightarrow> None } }"

text \<open>The inode a vnode points to.\<close>

definition boot_inode :: "addr \<Rightarrow> vfs \<Rightarrow> bootfs_inode option" where
  "boot_inode v s = do {
     n \<leftarrow> vnodes s v;
     sb \<leftarrow> supers s (v_sb n);
     k \<leftarrow> v_data n;
     case sb_data sb of Boot_data is \<Rightarrow> list_get is k | _ \<Rightarrow> None }"

definition bootfs_open :: "addr \<Rightarrow> vfs \<Rightarrow> ((int \<times> addr option) \<times> vfs) option" where
  "bootfs_open v s = do {
     i \<leftarrow> boot_inode v s;
     let (c, s) = malloc s;
     Some ((0, Some c), s\<lparr>cookies := (cookies s)(c \<mapsto> File_cookie (bi_offset i * 0x1000) 0)\<rparr>) }"

definition bootfs_close :: "addr \<Rightarrow> vfs \<Rightarrow> (int \<times> vfs) option" where
  "bootfs_close v s = Some (0, s)"

definition bootfs_free_cookie :: "addr \<Rightarrow> vfs \<Rightarrow> vfs option" where
  "bootfs_free_cookie c s = do { k \<leftarrow> cookies s c; Some (s\<lparr>cookies := (cookies s)(c := None)\<rparr>) }"

text \<open>\<open>offset\<close> and \<open>count\<close> are unsigned, and so are the comparisons. The errno and the bytes.\<close>

definition bootfs_read :: "addr \<Rightarrow> nat \<Rightarrow> nat \<Rightarrow> vfs \<Rightarrow> ((int \<times> u8 list) \<times> vfs) option" where
  "bootfs_read v count offset s = do {
     i \<leftarrow> boot_inode v s;
     let size = nat (bi_size i mod 4294967296);
     if offset \<ge> size then Some ((0, []), s)
     else
       let numread = (if count \<le> size - offset then count else size - offset);
           src = nat (bi_offset i * 0x1000) + offset
       in if bi_offset i \<ge> 0 \<and> src + numread \<le> length (boot_mem s)
          then Some ((0, take numread (drop src (boot_mem s))), s) else None }"

record stat =
  st_ino :: int
  st_size :: int
  st_blocks :: int
  st_blksize :: int

definition bootfs_rstat :: "addr \<Rightarrow> vfs \<Rightarrow> ((int \<times> stat) \<times> vfs) option" where
  "bootfs_rstat v s = do {
     i \<leftarrow> boot_inode v s;
     Some ((0, \<lparr>st_ino = bi_ino i, st_size = bi_size i,
       st_blocks = (if bi_size i mod 4096 \<noteq> 0 then bi_size i div 4096 + 1 else bi_size i div 4096), st_blksize = 512\<rparr>), s) }"

end
