(* ===== verification/BootImage.thy ===== *)
theory BootImage
  imports Vfs
begin

text \<open>
  The boot image: the tool that builds it from a description (\<open>util/bootmaker.c\<close>), and the
  second stage of the boot (\<open>boot/boot.c\<close>), which maps the kernel of the image and jumps to
  it. The image starts with a page that holds the boot directory (\<open>include/boot.h\<close>), 64
  entries of 64 bytes. A string is its bytes without the terminator. The files of the host are
  the parameter \<open>fs\<close>, its \<open>atoi\<close> the parameter \<open>atoi\<close>.
\<close>

section \<open>The description\<close>

text \<open>A section and its pairs, the last one that was read in front.\<close>

record bsection =
  sec_name :: str
  pairs :: "(str \<times> str) list"

datatype ini_state = NEWLINE | SKIPLINE | HEADER | INI_LHS | INI_RHS

text \<open>
  The loop of \<open>load_ini\<close>. \<open>lhs\<close> and \<open>rhs\<close> are the bytes from these pointers to \<open>data\<close>; as
  strings they end at the first 0. \<open>cur\<close> tells whether the variable \<open>cur\<close> was set in this
  call, to the last section of the list; a pair before that goes through a bad pointer. A
  \<open>char\<close> is signed.
\<close>

definition c_str :: "u8 list \<Rightarrow> str" where
  "c_str b = takeWhile (\<lambda>c. c \<noteq> 0) b"

definition add_pair :: "str \<Rightarrow> str \<Rightarrow> bsection list \<Rightarrow> bsection list" where
  "add_pair l r ss = butlast ss @ [(last ss)\<lparr>pairs := (l, r) # pairs (last ss)\<rparr>]"

fun ini_loop :: "ini_state \<Rightarrow> u8 list \<Rightarrow> u8 list \<Rightarrow> bool \<Rightarrow> bsection list \<Rightarrow> u8 list \<Rightarrow> bsection list option" where
  "ini_loop st lhs rhs cur ss [] = Some ss"
| "ini_loop SKIPLINE lhs rhs cur ss (c # cs) = ini_loop (if c = 10 then NEWLINE else SKIPLINE) lhs rhs cur ss cs"
| "ini_loop NEWLINE lhs rhs cur ss (c # cs) =
     (if c = 10 then ini_loop NEWLINE lhs rhs cur ss cs
      else if c = 91 then ini_loop HEADER [] rhs cur ss cs
      else if c = 35 \<or> sint c \<le> 32 then ini_loop SKIPLINE lhs rhs cur ss cs
      else ini_loop INI_LHS [c] rhs cur ss cs)"
| "ini_loop HEADER lhs rhs cur ss (c # cs) =
     (if c = 93 then ini_loop SKIPLINE lhs rhs True (ss @ [\<lparr>sec_name = c_str lhs, pairs = []\<rparr>]) cs
      else ini_loop HEADER (lhs @ [c]) rhs cur ss cs)"
| "ini_loop INI_LHS lhs rhs cur ss (c # cs) =
     (if c = 10 then ini_loop NEWLINE lhs rhs cur ss cs
      else if c = 61 then ini_loop INI_RHS lhs [] cur ss cs
      else ini_loop INI_LHS (lhs @ [c]) rhs cur ss cs)"
| "ini_loop INI_RHS lhs rhs cur ss (c # cs) =
     (if c = 10 then
        if cur then ini_loop NEWLINE lhs rhs cur (add_pair (c_str lhs) (c_str rhs) ss) cs else None
      else ini_loop INI_RHS lhs (rhs @ [c]) cur ss cs)"

text \<open>\<open>ss\<close> are the sections of the files before. The result is \<open>first\<close>, NULL when it is empty.\<close>

definition load_ini :: "(str \<Rightarrow> u8 list option) \<Rightarrow> str \<Rightarrow> bsection list \<Rightarrow> bsection list option" where
  "load_ini fs file ss =
     (case fs file of None \<Rightarrow> Some ss | Some b \<Rightarrow> ini_loop NEWLINE [] [] False ss b)"

definition print_pair :: "str \<times> str \<Rightarrow> u8 list" where
  "print_pair p = fst p @ [61] @ snd p @ [10]"

definition print_sections :: "bsection list \<Rightarrow> u8 list" where
  "print_sections ss = concat (map (\<lambda>s. [10, 91] @ sec_name s @ [93, 10] @ concat (map print_pair (pairs s))) ss)"

fun lookup_pair :: "(str \<times> str) list \<Rightarrow> str \<Rightarrow> str option" where
  "lookup_pair [] n = None"
| "lookup_pair ((l, r) # ps) n = (if l = n then Some r else lookup_pair ps n)"

definition getval :: "bsection \<Rightarrow> str \<Rightarrow> str option" where
  "getval s n = lookup_pair (pairs s) n"

definition getvaldef :: "bsection \<Rightarrow> str \<Rightarrow> str \<Rightarrow> str" where
  "getvaldef s n d = (case lookup_pair (pairs s) n of Some v \<Rightarrow> v | None \<Rightarrow> d)"

section \<open>The directory\<close>

record bd_entry =
  bd_name :: "u8 list"
  bd_offset :: int
  bd_type :: int
  bd_size :: int
  bd_vsize :: int
  bd_vaddr :: int
  bd_ventr :: int

abbreviation (input) "BE_NONE \<equiv> 0 :: int"
abbreviation (input) "BE_DIRECTORY \<equiv> 1 :: int"
abbreviation (input) "BE_BOOTSTRAP \<equiv> 2 :: int"
abbreviation (input) "BE_CODE \<equiv> 3 :: int"
abbreviation (input) "BE_DATA \<equiv> 4 :: int"
abbreviation (input) "BE_ELF32 \<equiv> 5 :: int"

text \<open>The bytes of an \<open>int\<close>, and of an entry as the compiler lays it out.\<close>

definition put32 :: "int \<Rightarrow> u8 list" where
  "put32 n = [of_int n, of_int (n div 256), of_int (n div 65536), of_int (n div 16777216)]"

definition entry_bytes :: "bd_entry \<Rightarrow> u8 list" where
  "entry_bytes e = bd_name e @ put32 (bd_offset e) @ put32 (bd_type e) @ put32 (bd_size e) @ put32 (bd_vsize e) @
     put32 (bd_vaddr e) @ put32 (bd_ventr e) @ put32 0 @ put32 0"

definition empty_entry :: bd_entry where
  "empty_entry = \<lparr>bd_name = replicate 32 0, bd_offset = 0, bd_type = 0, bd_size = 0, bd_vsize = 0, bd_vaddr = 0, bd_ventr = 0\<rparr>"

text \<open>\<open>strncpy\<close> of 32 bytes, and the terminator in the last one.\<close>

definition name_field :: "str \<Rightarrow> u8 list" where
  "name_field n = take 31 (n @ replicate 31 0) @ [0]"

definition root_entry :: bd_entry where
  "root_entry = empty_entry\<lparr>bd_name := name_field bootdir_directory, bd_type := BE_DIRECTORY, bd_size := 1, bd_vsize := 1\<rparr>"

section \<open>The image\<close>

datatype die = No_file str | Cannot_load str | Bad_type str | Too_many

definition pages :: "nat \<Rightarrow> nat" where
  "pages n = n div 4096 + (if n mod 4096 \<noteq> 0 then 1 else 0)"

text \<open>One turn of the loop over the sections: the new entry and the contents of its file.\<close>

definition type_code :: "str \<Rightarrow> int" where
  "type_code t =
     (if t = [98, 111, 111, 116] then BE_BOOTSTRAP
      else if t = [99, 111, 100, 101] then BE_CODE
      else if t = [100, 97, 116, 97] then BE_DATA
      else if t = [101, 108, 102, 51, 50] then BE_ELF32
      else BE_NONE)"

definition make_entry ::
  "(str \<Rightarrow> u8 list option) \<Rightarrow> (str \<Rightarrow> int) \<Rightarrow> nat \<Rightarrow> bsection \<Rightarrow> die + (bd_entry \<times> u8 list)" where
  "make_entry fs atoi nextpage s =
     (let type = getvaldef s [116, 121, 112, 101] [78, 79, 78, 69] in
      case getval s [102, 105, 108, 101] of
        None \<Rightarrow> Inl (No_file (sec_name s))
      | Some file \<Rightarrow>
          (case fs file of
             None \<Rightarrow> Inl (Cannot_load file)
           | Some b \<Rightarrow>
               let vsize = int (length b); n = int (pages (length b));
                   code = type_code type = BE_BOOTSTRAP \<or> type_code type = BE_CODE
               in if type_code type = BE_NONE then Inl (Bad_type type)
                  else Inr (\<lparr>bd_name = name_field (sec_name s), bd_offset = int nextpage, bd_type = type_code type,
                     bd_size = n, bd_vsize = (if vsize < n then n else vsize),
                     bd_vaddr = (if code then atoi (getvaldef s [118, 97, 100, 100, 114] [48]) else 0),
                     bd_ventr = (if code then atoi (getvaldef s [118, 101, 110, 116, 114, 121] [48]) else 0)\<rparr>, b)))"

text \<open>The loop; \<open>es\<close> are the entries and \<open>raw\<close> the contents up to \<open>c\<close>.\<close>

fun make_entries ::
  "(str \<Rightarrow> u8 list option) \<Rightarrow> (str \<Rightarrow> int) \<Rightarrow> bsection list \<Rightarrow> nat \<Rightarrow> bd_entry list \<Rightarrow> u8 list list \<Rightarrow>
     die + (nat \<times> bd_entry list \<times> u8 list list)" where
  "make_entries fs atoi [] nextpage es raw = Inr (nextpage, es, raw)"
| "make_entries fs atoi (s # ss) nextpage es raw =
     (case make_entry fs atoi nextpage s of
        Inl d \<Rightarrow> Inl d
      | Inr (e, b) \<Rightarrow>
          if length es + 1 = 64 then Inl Too_many
          else make_entries fs atoi ss (nextpage + pages (length b)) (es @ [e]) (raw @ [b]))"

definition pad_page :: "u8 list \<Rightarrow> u8 list" where
  "pad_page b = b @ (if length b mod 4096 \<noteq> 0 then replicate (4096 - length b mod 4096) 0 else [])"

definition directory_bytes :: "bd_entry list \<Rightarrow> u8 list" where
  "directory_bytes es = concat (map entry_bytes (es @ replicate (64 - length es) empty_entry))"

text \<open>\<open>writebootblock\<close>: the number of sectors goes into the bytes 2 and 3 of the boot block.\<close>

definition writebootblock :: "u8 list \<Rightarrow> nat \<Rightarrow> u8 list" where
  "writebootblock bootblock blocks =
     (let blocks = blocks * 8; bb = take 512 bootblock
      in bb[2 := of_nat (blocks mod 256), 3 := of_nat (blocks div 256 mod 256)])"

definition makeboot ::
  "(str \<Rightarrow> u8 list option) \<Rightarrow> (str \<Rightarrow> int) \<Rightarrow> u8 list option \<Rightarrow> bsection list \<Rightarrow> die + u8 list" where
  "makeboot fs atoi floppy ss =
     (case make_entries fs atoi ss 1 [root_entry] [] of
        Inl d \<Rightarrow> Inl d
      | Inr (nextpage, es, raw) \<Rightarrow>
          Inr ((case floppy of None \<Rightarrow> [] | Some bootblock \<Rightarrow> writebootblock bootblock (nextpage + 1)) @
               directory_bytes es @ concat (map pad_page raw)))"

text \<open>
  \<open>main\<close>, with the arguments behind the name of the program: what ends it, or the file that is
  written. The outer option is \<open>None\<close> where \<open>load_ini\<close> goes through its bad pointer.
\<close>

datatype bm_end = Usage | Died die | Written str "u8 list"

fun bm_args ::
  "(str \<Rightarrow> u8 list option) \<Rightarrow> str list \<Rightarrow> bool \<Rightarrow> str option \<Rightarrow> bsection list \<Rightarrow> (bool \<times> str option \<times> bsection list) option option" where
  "bm_args fs [] floppy out ss = Some (Some (floppy, out, ss))"
| "bm_args fs (a # as) floppy out ss =
     (if a = [45, 45, 102, 108, 111, 112, 112, 121] then bm_args fs as True out ss
      else if a = [45, 111] then
        (case as of [] \<Rightarrow> Some None | f # as \<Rightarrow> bm_args fs as floppy (Some f) ss)
      else (case load_ini fs a ss of None \<Rightarrow> None | Some ss \<Rightarrow> bm_args fs as floppy out ss))"

definition bootmaker_main ::
  "(str \<Rightarrow> u8 list option) \<Rightarrow> (str \<Rightarrow> int) \<Rightarrow> u8 list \<Rightarrow> str list \<Rightarrow> bm_end option" where
  "bootmaker_main fs atoi bootblock args =
     (if args = [] then Some Usage
      else do {
        r \<leftarrow> bm_args fs args False None [];
        case r of
          None \<Rightarrow> Some Usage
        | Some (floppy, None, ss) \<Rightarrow> Some Usage
        | Some (floppy, Some out, ss) \<Rightarrow>
            if ss = [] then Some Usage
            else (case makeboot fs atoi (if floppy then Some bootblock else None) ss of
                Inl d \<Rightarrow> Some (Died d)
              | Inr img \<Rightarrow> Some (Written out img)) })"

section \<open>The readers of the directory\<close>

text \<open>The value of an \<open>int\<close> in memory.\<close>

definition get32 :: "u8 list \<Rightarrow> nat \<Rightarrow> int" where
  "get32 b i = s32 (uint (b ! i) + 256 * uint (b ! (i + 1)) + 65536 * uint (b ! (i + 2)) + 16777216 * uint (b ! (i + 3)))"

definition read_entry :: "u8 list \<Rightarrow> nat \<Rightarrow> bd_entry" where
  "read_entry b k = (let i = 64 * k in
     \<lparr>bd_name = take 32 (drop i b), bd_offset = get32 b (i + 32), bd_type = get32 b (i + 36), bd_size = get32 b (i + 40),
      bd_vsize = get32 b (i + 44), bd_vaddr = get32 b (i + 48), bd_ventr = get32 b (i + 52)\<rparr>)"

text \<open>The directory as the file system server sees it in the area it has cloned.\<close>

definition vfs_entry :: "bd_entry \<Rightarrow> boot_entry" where
  "vfs_entry e = \<lparr>be_name = c_str (bd_name e), be_offset = bd_offset e, be_type = bd_type e, be_vsize = bd_vsize e\<rparr>"

definition vfs_directory :: "u8 list \<Rightarrow> boot_entry list" where
  "vfs_directory b = map (\<lambda>k. vfs_entry (read_entry b k)) [0..<64]"

section \<open>The bootstrap\<close>

unbundle bit_operations_syntax

text \<open>
  The three pages at \<open>flat\<close>, as a list of 3072 words: the page directory, the table for the
  first 4 M, and the table for the kernel. The entry 2 of the directory is the kernel.
\<close>

definition kernel_pte :: "int \<Rightarrow> int \<Rightarrow> nat \<Rightarrow> u32" where
  "kernel_pte be_sz be_off i =
     (if int i > be_sz then 0 else of_int (be_off * 4096 + 0x100000 + 4096 * int i) OR 3)"

definition page_tables :: "int \<Rightarrow> int \<Rightarrow> u32 list" where
  "page_tables be_sz be_off =
     replicate 1024 0 @ map (\<lambda>i. of_nat (4096 * i) OR 3) [0..<1024] @ map (kernel_pte be_sz be_off) [0..<1024]"

definition flat_addr :: "nat \<Rightarrow> nat" where
  "flat_addr memsize = 4096 * (memsize div 4096) - 4096 * 3"

definition bootstrap_tables :: "nat \<Rightarrow> int \<Rightarrow> int \<Rightarrow> u32 list" where
  "bootstrap_tables memsize be_sz be_off =
     (let flat = flat_addr memsize in
      (page_tables be_sz be_off)
        [0 := of_nat (flat + 4096) OR 3,
         512 := of_nat (flat + 8192) OR 3,
         2048 + 1023 := of_nat (flat + 2 * 4096) OR 3,
         2048 + 1022 := of_nat (flat + 1 * 4096) OR 3,
         2048 + 1021 := of_nat flat OR 3])"

text \<open>
  The result of \<open>bootstrap\<close>: the memory from 0x100000 on, where the image lies and where
  \<open>kinfo\<close> is written at 0x102000; the tables; the value of \<open>cr3\<close>; and the address that is called.
\<close>

record handoff =
  phys :: "u8 list"
  tables :: "u32 list"
  cr3 :: nat
  k_start :: nat

definition put_kinfo :: "nat \<Rightarrow> nat \<Rightarrow> nat \<Rightarrow> nat \<Rightarrow> u8 list \<Rightarrow> u8 list" where
  "put_kinfo memsize entry_ebp bd p b =
     take 0x2000 b @ put32 (int memsize) @ put32 (int entry_ebp) @ put32 (int bd) @ put32 (int p) @ drop 0x2010 b"

definition bootstrap :: "nat \<Rightarrow> nat \<Rightarrow> nat \<Rightarrow> nat \<Rightarrow> u8 list \<Rightarrow> handoff" where
  "bootstrap bd memsize entry_ebp p b =
     (let b = put_kinfo memsize entry_ebp bd p b; e = read_entry b 2
      in \<lparr>phys = b, tables = bootstrap_tables memsize (bd_size e) (bd_offset e), cr3 = flat_addr memsize,
          k_start = nat ((0x80000000 + bd_ventr e) mod 4294967296)\<rparr>)"

definition grub_bootstrap :: "nat \<Rightarrow> nat \<Rightarrow> nat \<Rightarrow> u8 list \<Rightarrow> handoff" where
  "grub_bootstrap mem_lower mem_upper cmdline b =
     bootstrap 0x100000 ((mem_lower + mem_upper + 384) * 1024 mod 4294967296) 0 cmdline b"

section \<open>The start of the kernel\<close>

text \<open>
  \<open>kmain\<close> up to its call of \<open>memory_init\<close> (through \<open>init_kspace\<close>): the bottom and the top of
  the frames that it hands over. \<open>b\<close> is the memory from 0x100000 on, which is mapped at its own
  address; \<open>kinfo\<close> is at 0x80000000, which the tables of the bootstrap map to 0x102000 when the
  bootstrap is one page. The loop looks for an empty entry and knows no end of the directory.
\<close>

function kmain_len :: "u8 list \<Rightarrow> nat \<Rightarrow> int option" where
  "kmain_len d n =
     (if length d < 64 * n + 64 then None
      else if bd_type (read_entry d n) = 0 then Some 0
      else map_option (\<lambda>l. bd_size (read_entry d n) + l) (kmain_len d (n + 1)))"
  by pat_completeness auto
termination
  by (relation "measure (\<lambda>(d, n). length d - 64 * n)") auto

declare kmain_len.simps [simp del]

definition kmain_memsize :: "u8 list \<Rightarrow> u32" where
  "kmain_memsize b = (of_int (get32 b 0x2000) div 4096) AND NOT 0xFF"

definition kmain_bdir :: "u8 list \<Rightarrow> u8 list" where
  "kmain_bdir b = drop (nat (get32 b 0x2008 mod 4294967296) - 0x100000) b"

definition kmain_frames :: "u8 list \<Rightarrow> (int \<times> u32) option" where
  "kmain_frames b = do {
     len \<leftarrow> kmain_len (kmain_bdir b) 0;
     Some (256 + (1 + len) + 16, kmain_memsize b - 3) }"

end
