(* ===== verification/VfsServer.thy ===== *)
theory VfsServer
  imports Vfs
begin

text \<open>
  The tables of operations of the file systems (\<open>vfs-int.h\<close>, an entry that is NULL is \<open>None\<close>),
  mounting and lookup of the file system of a path (\<open>super.c\<close>, \<open>fs.c\<close>), and the requests and the
  loop of the server (\<open>vfs.c\<close>, \<open>shm.c\<close>).
\<close>

section \<open>The tables of operations\<close>

record vnode_ops =
  op_walk :: "addr \<Rightarrow> str \<Rightarrow> vfs \<Rightarrow> (addr \<times> vfs) option"
  op_mount :: "addr \<Rightarrow> vfs \<Rightarrow> (int \<times> vfs) option"
  op_mkdir :: "(addr \<Rightarrow> str \<Rightarrow> vfs \<Rightarrow> (int \<times> vfs) option) option"
  op_opendir :: "(addr \<Rightarrow> vfs \<Rightarrow> ((int \<times> addr option) \<times> vfs) option) option"
  op_closedir :: "(addr \<Rightarrow> addr option \<Rightarrow> vfs \<Rightarrow> vfs option) option"
  op_free_dircookie :: "(addr \<Rightarrow> vfs \<Rightarrow> vfs option) option"
  op_rewinddir :: "addr \<Rightarrow> vfs \<Rightarrow> vfs option"
  op_readdir :: "addr \<Rightarrow> vfs \<Rightarrow> (dirent option \<times> vfs) option"
  op_open :: "(addr \<Rightarrow> vfs \<Rightarrow> ((int \<times> addr option) \<times> vfs) option) option"
  op_close :: "(addr \<Rightarrow> vfs \<Rightarrow> (int \<times> vfs) option) option"
  op_free_cookie :: "(addr \<Rightarrow> vfs \<Rightarrow> vfs option) option"
  op_read :: "(addr \<Rightarrow> nat \<Rightarrow> nat \<Rightarrow> vfs \<Rightarrow> ((int \<times> u8 list) \<times> vfs) option) option"
  op_rstat :: "(addr \<Rightarrow> vfs \<Rightarrow> ((int \<times> stat) \<times> vfs) option) option"

definition rootfs_vnode_ops :: vnode_ops where
  "rootfs_vnode_ops = \<lparr>op_walk = rootfs_walk, op_mount = rootfs_mount, op_mkdir = Some rootfs_mkdir,
     op_opendir = Some rootfs_opendir, op_closedir = Some (\<lambda>v c s. Some s), op_free_dircookie = None,
     op_rewinddir = fs_rewinddir, op_readdir = fs_readdir, op_open = None, op_close = None, op_free_cookie = None,
     op_read = None, op_rstat = None\<rparr>"

definition bootfs_vnode_ops :: vnode_ops where
  "bootfs_vnode_ops = \<lparr>op_walk = bootfs_walk, op_mount = bootfs_mount, op_mkdir = None,
     op_opendir = Some bootfs_opendir, op_closedir = Some (\<lambda>v c s. Some s), op_free_dircookie = None,
     op_rewinddir = fs_rewinddir, op_readdir = fs_readdir, op_open = Some bootfs_open, op_close = Some bootfs_close,
     op_free_cookie = Some bootfs_free_cookie, op_read = Some bootfs_read, op_rstat = Some bootfs_rstat\<rparr>"

definition vops :: "fs_kind \<Rightarrow> vnode_ops" where
  "vops k = (case k of Rootfs \<Rightarrow> rootfs_vnode_ops | Bootfs \<Rightarrow> bootfs_vnode_ops)"

definition fs_name :: "fs_kind \<Rightarrow> str" where
  "fs_name k = (case k of Rootfs \<Rightarrow> [0x72, 0x6F, 0x6F, 0x74, 0x66, 0x73] | Bootfs \<Rightarrow> [0x62, 0x6F, 0x6F, 0x74, 0x66, 0x73])"

section \<open>Drivers and mounts\<close>

text \<open>The loop compares with every driver but the last.\<close>

definition fs_register :: "fs_kind \<Rightarrow> vfs \<Rightarrow> int \<times> vfs" where
  "fs_register k s =
     (if fs_drivers s \<noteq> [] \<and> fs_name k \<in> fs_name ` set (butlast (fs_drivers s)) then (1, s)
      else (0, s\<lparr>fs_drivers := fs_drivers s @ [k]\<rparr>))"

text \<open>The mount with the longest directory that the name starts with; 0 is NULL.\<close>

primrec find_mount :: "addr list \<Rightarrow> str \<Rightarrow> addr \<Rightarrow> nat \<Rightarrow> vfs \<Rightarrow> addr option" where
  "find_mount [] name best bestlen s = Some best"
| "find_mount (m # ms) name best bestlen s = do {
     sb \<leftarrow> supers s m;
     let len = length (sb_dir sb);
     r \<leftarrow> strncmp (sb_dir sb @ [0]) (name @ [0]) len;
     if r = 0 \<and> len > bestlen then find_mount ms name m len s else find_mount ms name best bestlen s }"

definition fs_find :: "str \<Rightarrow> vfs \<Rightarrow> addr option" where
  "fs_find name s = find_mount (mount_list s) name 0 0 s"

definition vfs_mount :: "str \<Rightarrow> str \<Rightarrow> vfs \<Rightarrow> (int \<times> vfs) option" where
  "vfs_mount dir type s =
     (case find (\<lambda>k. fs_name k = type) (fs_drivers s) of
        None \<Rightarrow> Some (1, s)
      | Some k \<Rightarrow> do {
          let (super, s) = malloc s;
          let s = s\<lparr>supers := (supers s)(super \<mapsto> \<lparr>sb_dir = dir, sb_root = 0, sb_vops = k, sb_data = Root_data []\<rparr>)\<rparr>;
          (res, s) \<leftarrow> op_mount (vops k) super s;
          Some (res, if res = 0 then s\<lparr>mount_list := super # mount_list s\<rparr> else s) })"

section \<open>The requests\<close>

abbreviation (input) "VFS_OPENCONN \<equiv> 1 :: nat"
abbreviation (input) "VFS_SCROLL_AREA \<equiv> 19 :: nat"
abbreviation (input) "VFS_MKDIR \<equiv> 10 :: nat"
abbreviation (input) "VFS_OPENDIR \<equiv> 17 :: nat"
abbreviation (input) "VFS_CLOSEDIR \<equiv> 18 :: nat"
abbreviation (input) "VFS_OPEN \<equiv> 21 :: nat"
abbreviation (input) "VFS_CLOSE \<equiv> 22 :: nat"
abbreviation (input) "VFS_READ \<equiv> 23 :: nat"
abbreviation (input) "VFS_RSTAT \<equiv> 27 :: nat"

abbreviation (input) "VFS_OK \<equiv> 1 :: int"
abbreviation (input) "VFS_ERROR \<equiv> 2 :: int"

record vfs_cmd =
  vcmd :: nat
  vdata :: "nat list"

text \<open>A word of a reply that nobody set is \<open>None\<close>.\<close>

record vfs_res =
  status :: int
  rerrno :: int
  rdata :: "nat \<Rightarrow> nat option"

definition reply_err :: "int \<Rightarrow> vfs_res" where
  "reply_err e = \<lparr>status = VFS_ERROR, rerrno = e, rdata = Map.empty\<rparr>"

definition reply_of :: "int \<Rightarrow> (nat \<Rightarrow> nat option) \<Rightarrow> vfs_res" where
  "reply_of e d = \<lparr>status = (if e \<noteq> 0 then VFS_ERROR else VFS_OK), rerrno = e, rdata = d\<rparr>"

definition vfs_openconn :: "int \<Rightarrow> nat \<Rightarrow> nat \<Rightarrow> vfs \<Rightarrow> (vfs_res \<times> vfs) option" where
  "vfs_openconn rport area private_port s = do {
     let (c, s) = malloc s;
     let s = s\<lparr>clients := (clients s)(c \<mapsto> \<lparr>c_in = rport, c_out = private_port, cwd = [slash], ofiles = replicate MAX_FDS 0\<rparr>)\<rparr>;
     t \<leftarrow> hashtable_insert (conn_table s) rport c 0;
     Some (reply_of 0 [0 \<mapsto> private_port], s\<lparr>conn_table := t\<rparr>) }"

definition arg :: "vfs_cmd \<Rightarrow> nat \<Rightarrow> nat option" where
  "arg vc i = list_get (vdata vc) i"

text \<open>The open file of a descriptor that a client names; 0 is NULL.\<close>

definition fd_file :: "addr \<Rightarrow> nat \<Rightarrow> vfs \<Rightarrow> addr option" where
  "fd_file c fd s = do { cl \<leftarrow> clients s c; list_get (ofiles cl) fd }"

definition set_fd :: "addr \<Rightarrow> nat \<Rightarrow> addr \<Rightarrow> vfs \<Rightarrow> vfs option" where
  "set_fd c fd f s = do {
     cl \<leftarrow> clients s c;
     fs \<leftarrow> list_put (ofiles cl) fd f;
     Some (s\<lparr>clients := (clients s)(c \<mapsto> cl\<lparr>ofiles := fs\<rparr>)\<rparr>) }"

text \<open>\<open>shm_write\<close> has no body any more.\<close>

definition vfs_scroll_area :: "addr \<Rightarrow> vfs_cmd \<Rightarrow> vfs \<Rightarrow> (vfs_res \<times> vfs) option" where
  "vfs_scroll_area c vc s = do {
     fd \<leftarrow> arg vc 0;
     f \<leftarrow> fd_file c fd s;
     fl \<leftarrow> files s f;
     Some (reply_of 0 Map.empty, s) }"

definition vfs_mkdir :: "str \<Rightarrow> vfs \<Rightarrow> (int \<times> vfs) option" where
  "vfs_mkdir dir s = do {
     super \<leftarrow> fs_find dir s;
     sb \<leftarrow> supers s super;
     case op_mkdir (vops (sb_vops sb)) of
       None \<Rightarrow> Some (ENOSYS, s)
     | Some mkdir \<Rightarrow> mkdir (sb_root sb) (drop (length (sb_dir sb)) dir) s }"

text \<open>
  The new open file and the reply, as \<open>vfs_opendir\<close> and \<open>vfs_open\<close> end; \<open>pos\<close> is \<open>None\<close> where
  the code leaves \<open>o_pos\<close> alone.
\<close>

definition new_file ::
  "addr \<Rightarrow> nat \<Rightarrow> addr \<Rightarrow> int option \<Rightarrow> vfs_cmd \<Rightarrow> (addr \<Rightarrow> vfs \<Rightarrow> ((int \<times> addr option) \<times> vfs) option) \<Rightarrow> vfs \<Rightarrow> (vfs_res \<times> vfs) option" where
  "new_file c i vnode pos vc opn s = do {
     let (f, s) = malloc s;
     s \<leftarrow> set_fd c i f s;
     a1 \<leftarrow> arg vc 1; a2 \<leftarrow> arg vc 2; a3 \<leftarrow> arg vc 3;
     ((e, ck), s) \<leftarrow> opn vnode s;
     Some (reply_of e [0 \<mapsto> i], s\<lparr>files := (files s)(f \<mapsto>
       \<lparr>o_vnode = vnode, o_cookie = ck, o_pos = pos, o_area = a1, o_offset = a2, o_length = a3, o_slots = Map.empty\<rparr>)\<rparr>) }"

text \<open>\<open>names\<close> is the page with the client's names; \<open>junk\<close> what is in the 32 bytes that \<open>malloc\<close> gives for \<open>dir\<close>.\<close>

definition vfs_opendir :: "addr \<Rightarrow> vfs_cmd \<Rightarrow> u8 list \<Rightarrow> u8 list \<Rightarrow> vfs \<Rightarrow> (vfs_res \<times> vfs) option" where
  "vfs_opendir c vc names junk s = do {
     a0 \<leftarrow> arg vc 0;
     cl \<leftarrow> clients s c;
     case find_place (\<lambda>f. f = 0) (ofiles cl) of
       None \<Rightarrow> Some (reply_err EMFILE, s)
     | Some i \<Rightarrow> do {
         (dir, n) \<leftarrow> strlcpy junk (cwd cl @ [0]) 32;
         dir \<leftarrow> path_combine (cwd cl @ [0]) (drop a0 names) dir;
         name \<leftarrow> cstr dir 0;
         super \<leftarrow> fs_find name s;
         if super = 0 then Some (reply_err ENOENT, s)
         else do {
           sb \<leftarrow> supers s super;
           case op_opendir (vops (sb_vops sb)) of
             None \<Rightarrow> Some (reply_err ENOSYS, s)
           | Some opendir \<Rightarrow> do {
               (vnode, s) \<leftarrow> (if name = sb_dir sb then Some (sb_root sb, s)
                 else do {
                   rest \<leftarrow> cstr dir (length (sb_dir sb) + 1);
                   op_walk (vops (sb_vops sb)) (sb_root sb) rest s });
               if vnode = 0 then Some (reply_err ENOENT, s)
               else new_file c i vnode None vc opendir s } } } }"

text \<open>\<open>res->errno\<close> is read before it is set: both ways are in the argument \<open>err\<close>.\<close>

definition vfs_closedir :: "addr \<Rightarrow> vfs_cmd \<Rightarrow> bool \<Rightarrow> vfs \<Rightarrow> (vfs_res \<times> vfs) option" where
  "vfs_closedir c vc err s = do {
     fd \<leftarrow> arg vc 0;
     f \<leftarrow> fd_file c fd s;
     if f = 0 then Some (reply_err EBADF, s)
     else do {
       fl \<leftarrow> files s f;
       n \<leftarrow> vnodes s (o_vnode fl);
       sb \<leftarrow> supers s (v_sb n);
       case op_closedir (vops (sb_vops sb)) of
         None \<Rightarrow> Some (reply_err ENOSYS, s)
       | Some closedir \<Rightarrow> do {
           s \<leftarrow> closedir (o_vnode fl) (o_cookie fl) s;
           s \<leftarrow> (case op_free_dircookie (vops (sb_vops sb)) of
               Some fc \<Rightarrow> if err then Some s else do { ck \<leftarrow> o_cookie fl; fc ck s }
             | None \<Rightarrow> Some s);
           let s = s\<lparr>files := (files s)(f := None)\<rparr>;
           s \<leftarrow> set_fd c fd 0 s;
           Some (reply_of 0 Map.empty, s) } } }"

text \<open>The vnode of a path, without the current directory, as \<open>vfs_open\<close> and \<open>vfs_rstat\<close> find it.\<close>

definition walk_path :: "superblock \<Rightarrow> u8 list \<Rightarrow> nat \<Rightarrow> vfs \<Rightarrow> (addr \<times> vfs) option" where
  "walk_path sb names a0 s = do {
     rest \<leftarrow> cstr names (a0 + length (sb_dir sb) + 1);
     op_walk (vops (sb_vops sb)) (sb_root sb) rest s }"

definition vfs_open :: "addr \<Rightarrow> vfs_cmd \<Rightarrow> u8 list \<Rightarrow> vfs \<Rightarrow> (vfs_res \<times> vfs) option" where
  "vfs_open c vc names s = do {
     a0 \<leftarrow> arg vc 0;
     cl \<leftarrow> clients s c;
     case find_place (\<lambda>f. f = 0) (ofiles cl) of
       None \<Rightarrow> Some (reply_err EMFILE, s)
     | Some i \<Rightarrow> do {
         name \<leftarrow> cstr names a0;
         super \<leftarrow> fs_find name s;
         if super = 0 then Some (reply_err ENOENT, s)
         else do {
           sb \<leftarrow> supers s super;
           case op_open (vops (sb_vops sb)) of
             None \<Rightarrow> Some (reply_err ENOSYS, s)
           | Some opn \<Rightarrow> do {
               (vnode, s) \<leftarrow> walk_path sb names a0 s;
               if vnode = 0 then Some (reply_err ENOENT, s)
               else new_file c i vnode (Some 0) vc opn s } } } }"

text \<open>The descriptor and the open file stay.\<close>

definition vfs_close :: "addr \<Rightarrow> vfs_cmd \<Rightarrow> vfs \<Rightarrow> (vfs_res \<times> vfs) option" where
  "vfs_close c vc s = do {
     fd \<leftarrow> arg vc 0;
     f \<leftarrow> fd_file c fd s;
     if f = 0 then Some (reply_err EBADF, s)
     else do {
       fl \<leftarrow> files s f;
       n \<leftarrow> vnodes s (o_vnode fl);
       sb \<leftarrow> supers s (v_sb n);
       case op_close (vops (sb_vops sb)) of
         None \<Rightarrow> Some (reply_err ENOSYS, s)
       | Some cls \<Rightarrow> do {
           (e, s) \<leftarrow> cls (o_vnode fl) s;
           s \<leftarrow> (case op_free_cookie (vops (sb_vops sb)) of
               Some fc \<Rightarrow> do { ck \<leftarrow> o_cookie fl; fc ck s }
             | None \<Rightarrow> Some s);
           Some (reply_of e Map.empty, s) } } }"

text \<open>The reply and, if all went well, the bytes.\<close>

definition vfs_read :: "addr \<Rightarrow> vfs_cmd \<Rightarrow> vfs \<Rightarrow> ((vfs_res \<times> u8 list option) \<times> vfs) option" where
  "vfs_read c vc s = do {
     fd \<leftarrow> arg vc 0;
     count \<leftarrow> arg vc 1;
     f \<leftarrow> fd_file c fd s;
     if f = 0 then Some ((reply_err EBADF, None), s)
     else do {
       fl \<leftarrow> files s f;
       n \<leftarrow> vnodes s (o_vnode fl);
       sb \<leftarrow> supers s (v_sb n);
       case op_read (vops (sb_vops sb)) of
         None \<Rightarrow> Some ((reply_err ENOSYS, None), s)
       | Some rd \<Rightarrow> do {
           pos \<leftarrow> o_pos fl;
           ((e, bytes), s) \<leftarrow> rd (o_vnode fl) count (nat pos) s;
           Some ((reply_of e [0 \<mapsto> length bytes], Some bytes),
             s\<lparr>files := (files s)(f \<mapsto> fl\<lparr>o_pos := Some (pos + int (length bytes))\<rparr>)\<rparr>) } } }"

definition vfs_rstat :: "vfs_cmd \<Rightarrow> u8 list \<Rightarrow> vfs \<Rightarrow> ((vfs_res \<times> stat option) \<times> vfs) option" where
  "vfs_rstat vc names s = do {
     a0 \<leftarrow> arg vc 0;
     name \<leftarrow> cstr names a0;
     super \<leftarrow> fs_find name s;
     if super = 0 then Some ((reply_err ENOENT, None), s)
     else do {
       sb \<leftarrow> supers s super;
       case op_rstat (vops (sb_vops sb)) of
         None \<Rightarrow> Some ((reply_err ENOSYS, None), s)
       | Some st \<Rightarrow> do {
           (vnode, s) \<leftarrow> walk_path sb names a0 s;
           if vnode = 0 then Some ((reply_err ENOENT, None), s)
           else do {
             ((e, buf), s) \<leftarrow> st vnode s;
             Some ((reply_of e Map.empty, Some buf), s) } } } }"

section \<open>Listing a directory into the client's area\<close>

text \<open>
  The loop of \<open>shm_write_dir\<close>: \<open>k\<close> turns are left; the result is the final \<open>i\<close>. An area of a
  client takes \<open>len / sizeof (struct dirent)\<close> entries of 40 bytes.
\<close>

primrec dir_loop :: "nat \<Rightarrow> nat \<Rightarrow> addr \<Rightarrow> (addr \<Rightarrow> vfs \<Rightarrow> (dirent option \<times> vfs) option) \<Rightarrow> addr \<Rightarrow> vfs \<Rightarrow> (nat \<times> vfs) option" where
  "dir_loop 0 i f readdir ck s = Some (i, s)"
| "dir_loop (Suc k) i f readdir ck s = do {
     (r, s) \<leftarrow> readdir ck s;
     case r of
       None \<Rightarrow> Some (i + 1, s)
     | Some e \<Rightarrow> do {
         fl \<leftarrow> files s f;
         dir_loop k (i + 1) f readdir ck (s\<lparr>files := (files s)(f \<mapsto> fl\<lparr>o_slots := (o_slots fl)(i \<mapsto> e)\<rparr>)\<rparr>) } }"

text \<open>With \<open>skip\<close> and \<open>doff\<close> 0, as it is called. The number of entries it reports.\<close>

definition shm_write_dir :: "addr \<Rightarrow> nat \<Rightarrow> vfs \<Rightarrow> (nat \<times> vfs) option" where
  "shm_write_dir f len s = do {
     fl \<leftarrow> files s f;
     n \<leftarrow> vnodes s (o_vnode fl);
     sb \<leftarrow> supers s (v_sb n);
     ck \<leftarrow> o_cookie fl;
     s \<leftarrow> op_rewinddir (vops (sb_vops sb)) ck s;
     (i, s) \<leftarrow> dir_loop (len div 40) 0 f (op_readdir (vops (sb_vops sb))) ck s;
     Some (if i = 0 then 0 else i - 1, s) }"

section \<open>The loop of the server\<close>

datatype packet = Res vfs_res | Res_stat vfs_res "stat option" | Bytes "u8 list"

text \<open>The messages that carry the bytes of a read: pages, and what is left.\<close>

function data_packets :: "u8 list \<Rightarrow> packet list" where
  "data_packets bs = (if length bs > 0x1000 then Bytes (take 0x1000 bs) # data_packets (drop 0x1000 bs) else [Bytes bs])"
  by pat_completeness auto
termination by (relation "measure length") auto

declare data_packets.simps [simp del]

text \<open>
  One turn for a message from the port \<open>src\<close>; what the client receives. \<open>private_port\<close> is what
  \<open>port_create\<close> returns. An unknown request keeps the \<open>res\<close> of an earlier turn, which was freed.
\<close>

definition serve :: "int \<Rightarrow> vfs_cmd \<Rightarrow> u8 list \<Rightarrow> u8 list \<Rightarrow> bool \<Rightarrow> nat \<Rightarrow> vfs \<Rightarrow> (packet list \<times> vfs) option" where
  "serve src vc names junk err private_port s = do {
     (ps, s) \<leftarrow>
       (if vcmd vc = VFS_OPENCONN then do {
          area \<leftarrow> arg vc 0;
          (r, s) \<leftarrow> vfs_openconn src area private_port s;
          Some ([Res r], s) }
        else do {
          (c, _) \<leftarrow> hashtable_lookup (conn_table s) src;
          if vcmd vc = VFS_SCROLL_AREA then do { (r, s) \<leftarrow> vfs_scroll_area c vc s; Some ([Res r], s) }
          else if vcmd vc = VFS_OPENDIR then do {
            (r, s) \<leftarrow> vfs_opendir c vc names junk s;
            if status r = VFS_OK then do {
              fd \<leftarrow> rdata r 0;
              f \<leftarrow> fd_file c fd s;
              len \<leftarrow> arg vc 3;
              (n, s) \<leftarrow> shm_write_dir f len s;
              Some ([Res (r\<lparr>rdata := (rdata r)(1 \<mapsto> n, 2 \<mapsto> 0)\<rparr>)], s) }
            else Some ([Res r], s) }
          else if vcmd vc = VFS_CLOSEDIR then do { (r, s) \<leftarrow> vfs_closedir c vc err s; Some ([Res r], s) }
          else if vcmd vc = VFS_OPEN then do { (r, s) \<leftarrow> vfs_open c vc names s; Some ([Res r], s) }
          else if vcmd vc = VFS_CLOSE then do { (r, s) \<leftarrow> vfs_close c vc s; Some ([Res r], s) }
          else if vcmd vc = VFS_READ then do {
            ((r, data), s) \<leftarrow> vfs_read c vc s;
            Some (Res r # (case data of None \<Rightarrow> [] | Some bs \<Rightarrow> data_packets bs), s) }
          else if vcmd vc = VFS_RSTAT then do {
            cl \<leftarrow> clients s c;
            ((r, st), s) \<leftarrow> vfs_rstat vc names s;
            Some ([Res_stat r st], s) }
          else if vcmd vc = VFS_MKDIR then do {
            a0 \<leftarrow> arg vc 0;
            cl \<leftarrow> clients s c;
            dir \<leftarrow> cstr names a0;
            (r, s) \<leftarrow> vfs_mkdir dir s;
            Some ([Res \<lparr>status = r, rerrno = 0, rdata = Map.empty\<rparr>], s) }
          else if res_freed s then None
          else Some ([], s) });
     Some (ps, s\<lparr>res_freed := (res_freed s \<or> ps \<noteq> [])\<rparr>) }"

text \<open>The start of \<open>vfs_main\<close>. \<open>/\<close> and \<open>/boot\<close>.\<close>

definition boot_path :: str where "boot_path = [slash, 0x62, 0x6F, 0x6F, 0x74]"

definition vfs_start :: "boot_entry list \<Rightarrow> u8 list \<Rightarrow> vfs option" where
  "vfs_start bes mem = do {
     let s = \<lparr>supers = Map.empty, vnodes = Map.empty, cookies = Map.empty, files = Map.empty, clients = Map.empty,
       heap_top = 1, fs_drivers = [], mount_list = [], conn_table = hashtable_new (3 / 4), root_inode_max = 0,
       boot_inode_max = 0, boot_dir = bes, boot_mem = mem, res_freed = False\<rparr>;
     let (_, s) = fs_register Rootfs s;
     let (_, s) = fs_register Bootfs s;
     (_, s) \<leftarrow> vfs_mount [slash] (fs_name Rootfs) s;
     (_, s) \<leftarrow> vfs_mkdir boot_path s;
     (_, s) \<leftarrow> vfs_mount boot_path (fs_name Bootfs) s;
     Some s }"

end
