(* ===== verification/VfsClient.thy ===== *)
theory VfsClient
  imports VfsServer
begin

text \<open>
  The file operations of the C library (\<open>lib/libposix/vfs.c\<close>, \<open>fdl.c\<close>): each sends a request to
  the file system server and receives the reply, and for a read the bytes. A process and the
  server are one state here, since the process waits for its replies: \<open>inbox\<close> is the queue of
  \<open>vfs_local_port\<close>, which is a queue of messages by the properties of the ports. The reply is
  received into a structure on the stack; \<open>stale\<close> is what was there before.
\<close>

section \<open>The process and the messages\<close>

record vfs_fd =
  srv_fd :: nat
  fd_offset :: nat
  fd_length :: "nat option"
  fd_more :: "nat option"

record DIR =
  dir_fd :: nat
  dir_len :: int
  dir_left :: int
  dir_current :: nat

datatype fdl_type = Fdl_vfs

record filedesc =
  imp :: fdl_type
  fd_cookie :: addr

record sys =
  srv :: vfs
  inbox :: "packet list"
  local_port :: int
  nameptr :: "u8 list"
  fd_table :: "filedesc option list"
  errno :: int
  vfds :: "addr \<Rightarrow> vfs_fd option"
  lib_top :: addr

text \<open>What the environment gives to a request: see \<open>serve\<close>.\<close>

record env =
  junk :: "u8 list"
  err :: bool
  new_port :: nat

definition send_cmd :: "env \<Rightarrow> nat \<Rightarrow> nat list \<Rightarrow> sys \<Rightarrow> sys option" where
  "send_cmd e c args s = do {
     (ps, v) \<leftarrow> serve (local_port s) \<lparr>vcmd = c, vdata = args\<rparr> (nameptr s) (junk e) (err e) (new_port e) (srv s);
     Some (s\<lparr>srv := v, inbox := inbox s @ ps\<rparr>) }"

text \<open>
  A message without bytes leaves the structure alone. Bytes of a file in place of a reply are
  not described further, and so is waiting for a message that never comes.
\<close>

definition recv_res :: "vfs_res \<Rightarrow> sys \<Rightarrow> (vfs_res \<times> sys) option" where
  "recv_res stale s =
     (case inbox s of
        Res r # ps \<Rightarrow> Some (r, s\<lparr>inbox := ps\<rparr>)
      | Res_stat r st # ps \<Rightarrow> Some (r, s\<lparr>inbox := ps\<rparr>)
      | Bytes [] # ps \<Rightarrow> Some (stale, s\<lparr>inbox := ps\<rparr>)
      | _ \<Rightarrow> None)"

definition recv_bytes :: "nat \<Rightarrow> sys \<Rightarrow> (u8 list \<times> sys) option" where
  "recv_bytes cap s = (case inbox s of Bytes bs # ps \<Rightarrow> Some (take cap bs, s\<lparr>inbox := ps\<rparr>) | _ \<Rightarrow> None)"

section \<open>The table of descriptors\<close>

definition fdl_alloc_descriptor :: "fdl_type \<Rightarrow> addr \<Rightarrow> sys \<Rightarrow> int \<times> sys" where
  "fdl_alloc_descriptor handler ck s =
     (case find_place (\<lambda>d. d = None) (fd_table s) of
        Some i \<Rightarrow> (int i, s\<lparr>fd_table := (fd_table s)[i := Some \<lparr>imp = handler, fd_cookie = ck\<rparr>]\<rparr>)
      | None \<Rightarrow> (-1, s))"

definition fdl_free_descriptor :: "nat \<Rightarrow> sys \<Rightarrow> sys option" where
  "fdl_free_descriptor d s = do { t \<leftarrow> list_put (fd_table s) d None; Some (s\<lparr>fd_table := t\<rparr>) }"

definition get_desc :: "nat \<Rightarrow> sys \<Rightarrow> filedesc option" where
  "get_desc fd s = do { d \<leftarrow> list_get (fd_table s) fd; d }"

definition init_fdl :: "sys \<Rightarrow> sys" where
  "init_fdl s = s\<lparr>fd_table := replicate MAX_FDS None\<rparr>"

section \<open>The connection\<close>

text \<open>\<open>vfs_local_port\<close> and the page for names are there; the result is \<open>vfs_remote_port\<close>.\<close>

definition lib_openconn :: "env \<Rightarrow> vfs_res \<Rightarrow> nat \<Rightarrow> sys \<Rightarrow> (nat \<times> sys) option" where
  "lib_openconn e stale filename_area s = do {
     s \<leftarrow> send_cmd e VFS_OPENCONN [filename_area] s;
     (vr, s) \<leftarrow> recv_res stale s;
     let s = (if status vr \<noteq> VFS_OK then s\<lparr>local_port := -1\<rparr> else s);
     port \<leftarrow> rdata vr 0;
     Some (port, s) }"

section \<open>Files\<close>

definition lib_open :: "env \<Rightarrow> vfs_res \<Rightarrow> nat \<Rightarrow> u8 list \<Rightarrow> sys \<Rightarrow> (int \<times> sys) option" where
  "lib_open e stale area pathname s = do {
     (names, n) \<leftarrow> strlcpy (nameptr s) pathname 32;
     s \<leftarrow> send_cmd e VFS_OPEN [0, area, 0, 0x2000] (s\<lparr>nameptr := names\<rparr>);
     (vr, s) \<leftarrow> recv_res stale s;
     if status vr \<noteq> VFS_OK then Some (-1, s\<lparr>errno := rerrno vr\<rparr>)
     else do {
       let p = lib_top s;
       let (i, s) = fdl_alloc_descriptor Fdl_vfs p (s\<lparr>lib_top := p + 1\<rparr>);
       fd \<leftarrow> rdata vr 0;
       Some (i, s\<lparr>vfds := (vfds s)(p \<mapsto> \<lparr>srv_fd = fd, fd_offset = 0, fd_length = rdata vr 1, fd_more = rdata vr 2\<rparr>)\<rparr>) } }"

definition lib_vfs_close :: "env \<Rightarrow> vfs_res \<Rightarrow> addr \<Rightarrow> sys \<Rightarrow> (int \<times> sys) option" where
  "lib_vfs_close e stale ck s = do {
     v \<leftarrow> vfds s ck;
     s \<leftarrow> send_cmd e VFS_CLOSE [srv_fd v] s;
     (vr, s) \<leftarrow> recv_res stale s;
     if status vr \<noteq> VFS_OK then Some (-1, s\<lparr>errno := rerrno vr\<rparr>) else Some (0, s) }"

text \<open>\<open>for (i = 0; len > 0x1000; i += 0x1000, len -= 0x1000)\<close> and the last message.\<close>

function recv_pages :: "nat \<Rightarrow> nat \<Rightarrow> sys \<Rightarrow> ((nat \<times> u8 list) \<times> sys) option" where
  "recv_pages i len s =
     (if len > 0x1000 then do {
        (bs, s) \<leftarrow> recv_bytes 0x1000 s;
        if length bs \<noteq> 0x1000 then None
        else do {
          ((r, rest), s) \<leftarrow> recv_pages (i + 0x1000) (len - 0x1000) s;
          Some ((r, bs @ rest), s) } }
      else do { (bs, s) \<leftarrow> recv_bytes len s; Some ((i + len, bs), s) })"
  by pat_completeness auto
termination by (relation "measure (\<lambda>(i, len, s). len)") auto

declare recv_pages.simps [simp del]

definition lib_vfs_read :: "env \<Rightarrow> vfs_res \<Rightarrow> addr \<Rightarrow> nat \<Rightarrow> sys \<Rightarrow> ((int \<times> u8 list) \<times> sys) option" where
  "lib_vfs_read e stale ck count s = do {
     v \<leftarrow> vfds s ck;
     s \<leftarrow> send_cmd e VFS_READ [srv_fd v, count] s;
     (vr, s) \<leftarrow> recv_res stale s;
     len \<leftarrow> rdata vr 0;
     if len = 0 then Some ((0, []), s\<lparr>errno := 0\<rparr>)
     else if len < 0x1000 then do {
       (bs, s) \<leftarrow> recv_bytes count s;
       Some ((int len, bs), s\<lparr>errno := rerrno vr\<rparr>) }
     else do {
       ((r, bs), s) \<leftarrow> recv_pages 0 len s;
       Some ((int r, bs), s\<lparr>errno := rerrno vr\<rparr>) } }"

text \<open>The entry of \<open>vfs_fdl_handler\<close> for \<open>write\<close> is NULL, and so is the one for \<open>ioctl\<close>.\<close>

definition lib_read :: "env \<Rightarrow> vfs_res \<Rightarrow> nat \<Rightarrow> nat \<Rightarrow> sys \<Rightarrow> ((int \<times> u8 list) \<times> sys) option" where
  "lib_read e stale fd count s = do {
     d \<leftarrow> get_desc fd s;
     case imp d of Fdl_vfs \<Rightarrow> lib_vfs_read e stale (fd_cookie d) count s }"

definition lib_write :: "nat \<Rightarrow> u8 list \<Rightarrow> sys \<Rightarrow> (int \<times> sys) option" where
  "lib_write fd bs s = do { d \<leftarrow> get_desc fd s; case imp d of Fdl_vfs \<Rightarrow> Some (-1, s\<lparr>errno := ENOSYS\<rparr>) }"

definition lib_ioctl :: "nat \<Rightarrow> nat \<Rightarrow> sys \<Rightarrow> (int \<times> sys) option" where
  "lib_ioctl fd request s = do { d \<leftarrow> get_desc fd s; case imp d of Fdl_vfs \<Rightarrow> Some (-1, s\<lparr>errno := ENOSYS\<rparr>) }"

definition lib_close :: "env \<Rightarrow> vfs_res \<Rightarrow> nat \<Rightarrow> sys \<Rightarrow> (int \<times> sys) option" where
  "lib_close e stale fd s = do {
     d \<leftarrow> get_desc fd s;
     (r, s) \<leftarrow> (case imp d of Fdl_vfs \<Rightarrow> lib_vfs_close e stale (fd_cookie d) s);
     s \<leftarrow> fdl_free_descriptor fd s;
     Some (r, s) }"

definition lib_stat :: "env \<Rightarrow> vfs_res \<Rightarrow> u8 list \<Rightarrow> sys \<Rightarrow> ((int \<times> stat option) \<times> sys) option" where
  "lib_stat e stale filename s = do {
     (names, n) \<leftarrow> strlcpy (nameptr s) filename 32;
     s \<leftarrow> send_cmd e VFS_RSTAT [0] (s\<lparr>nameptr := names\<rparr>);
     let st = (case inbox s of Res_stat r st # ps \<Rightarrow> st | _ \<Rightarrow> None);
     (vr, s) \<leftarrow> recv_res stale s;
     if status vr = VFS_OK then Some ((0, st), s) else Some ((-1, None), s\<lparr>errno := rerrno vr\<rparr>) }"

definition lib_mkdir :: "env \<Rightarrow> vfs_res \<Rightarrow> u8 list \<Rightarrow> nat \<Rightarrow> sys \<Rightarrow> (int \<times> sys) option" where
  "lib_mkdir e stale pathname mode s = do {
     (names, n) \<leftarrow> strlcpy (nameptr s) pathname 32;
     s \<leftarrow> send_cmd e VFS_MKDIR [0, mode] (s\<lparr>nameptr := names\<rparr>);
     (vr, s) \<leftarrow> recv_res stale s;
     if status vr \<noteq> VFS_OK then Some (-1, s\<lparr>errno := rerrno vr\<rparr>) else Some (0, s) }"

section \<open>Directories\<close>

text \<open>NULL is \<open>None\<close>. The entries are in the area that the server wrote to, from 0 on.\<close>

definition lib_opendir :: "env \<Rightarrow> vfs_res \<Rightarrow> nat \<Rightarrow> u8 list \<Rightarrow> sys \<Rightarrow> (DIR option \<times> sys) option" where
  "lib_opendir e stale area name s = do {
     (names, n) \<leftarrow> strlcpy (nameptr s) name 32;
     s \<leftarrow> send_cmd e VFS_OPENDIR [0, area, 0, 0x2000] (s\<lparr>nameptr := names\<rparr>);
     (vr, s) \<leftarrow> recv_res stale s;
     if status vr \<noteq> VFS_OK then Some (None, s\<lparr>errno := rerrno vr\<rparr>)
     else do {
       fd \<leftarrow> rdata vr 0;
       len \<leftarrow> rdata vr 1;
       Some (Some \<lparr>dir_fd = fd, dir_len = int len, dir_left = int len, dir_current = 0\<rparr>, s) } }"

definition lib_readdir :: "DIR \<Rightarrow> nat option \<times> DIR" where
  "lib_readdir d =
     (if dir_left d > 0 then (Some (dir_current d), d\<lparr>dir_left := dir_left d - 1, dir_current := dir_current d + 1\<rparr>)
      else (None, d\<lparr>dir_left := dir_left d - 1\<rparr>))"

definition lib_closedir :: "env \<Rightarrow> vfs_res \<Rightarrow> DIR \<Rightarrow> sys \<Rightarrow> (int \<times> sys) option" where
  "lib_closedir e stale d s = do {
     s \<leftarrow> send_cmd e VFS_CLOSEDIR [dir_fd d] s;
     (vr, s) \<leftarrow> recv_res stale s;
     Some (if status vr = VFS_OK then 0 else 1, s\<lparr>errno := rerrno vr\<rparr>) }"

end
