(* ===== verification/VfsProps.thy ===== *)
theory VfsProps
  imports VfsClient
begin

text \<open>
  The file system server with the C library in front of it: what a process reads from a file,
  what happens at its end, which names \<open>open\<close> accepts, how many files a connection opens, and
  what \<open>mkdir\<close> returns.
\<close>

section \<open>Reading a file through the server\<close>

definition inode_ok :: "vfs \<Rightarrow> bootfs_inode \<Rightarrow> bool" where
  "inode_ok v i \<longleftrightarrow> 0 \<le> bi_offset i \<and> 0 \<le> bi_size i \<and> bi_size i < 2147483648 \<and>
     nat (bi_offset i * 0x1000) + nat (bi_size i) \<le> length (boot_mem v)"

text \<open>The bytes of a file.\<close>

definition content :: "vfs \<Rightarrow> bootfs_inode \<Rightarrow> u8 list" where
  "content v i = take (nat (bi_size i)) (drop (nat (bi_offset i * 0x1000)) (boot_mem v))"

text \<open>The client at \<open>port\<close> has the file \<open>i\<close> open as \<open>fd\<close>, at position \<open>pos\<close>.\<close>

definition open_file :: "vfs \<Rightarrow> int \<Rightarrow> nat \<Rightarrow> bootfs_inode \<Rightarrow> nat \<Rightarrow> bool" where
  "open_file v port fd i pos \<longleftrightarrow>
     (\<exists>c sz f fl n sb. hashtable_lookup (conn_table v) port = Some (c, sz) \<and> fd_file c fd v = Some f \<and> f \<noteq> 0 \<and>
        files v f = Some fl \<and> o_pos fl = Some (int pos) \<and> vnodes v (o_vnode fl) = Some n \<and>
        supers v (v_sb n) = Some sb \<and> sb_vops sb = Bootfs \<and> boot_inode (o_vnode fl) v = Some i)"

lemma length_content: "inode_ok v i \<Longrightarrow> length (content v i) = nat (bi_size i)"
  unfolding inode_ok_def content_def length_take length_drop by linarith

lemma bootfs_read_content:
  assumes "boot_inode vn v = Some i" and "inode_ok v i"
  shows "bootfs_read vn n pos v = Some ((0, take n (drop pos (content v i))), v)"
proof -
  have m: "nat (bi_size i mod 4294967296) = nat (bi_size i)" using assms(2) by (simp add: inode_ok_def)
  show ?thesis
  proof (cases "nat (bi_size i) \<le> pos")
    case True
    then show ?thesis using length_content[OF assms(2)] by (simp add: bootfs_read_def assms(1) m)
  next
    case False
    let ?k = "if n \<le> nat (bi_size i) - pos then n else nat (bi_size i) - pos"
    have "take n (drop pos (content v i)) = take ?k (drop (nat (bi_offset i * 0x1000) + pos) (boot_mem v))"
      using False by (simp add: content_def drop_take add.commute)
    moreover have "nat (bi_offset i * 0x1000) + pos + ?k \<le> length (boot_mem v)"
      using False assms(2) unfolding inode_ok_def by (auto simp del: nat_le_iff)
    ultimately show ?thesis using False assms(2) by (simp add: bootfs_read_def assms(1) m inode_ok_def)
  qed
qed

lemma vfs_read_file:
  assumes "open_file v port fd i pos" and "inode_ok v i"
  shows "\<exists>v'. serve port \<lparr>vcmd = VFS_READ, vdata = [fd, n]\<rparr> names jk er pp v =
      Some (Res (reply_of 0 [0 \<mapsto> length (take n (drop pos (content v i)))]) # data_packets (take n (drop pos (content v i))), v') \<and>
    open_file v' port fd i (pos + length (take n (drop pos (content v i)))) \<and> boot_mem v' = boot_mem v"
proof -
  let ?bs = "take n (drop pos (content v i))"
  from assms(1) obtain c sz f fl nd sb where
    o: "hashtable_lookup (conn_table v) port = Some (c, sz)" "fd_file c fd v = Some f" "f \<noteq> 0" "files v f = Some fl"
    "o_pos fl = Some (int pos)" "vnodes v (o_vnode fl) = Some nd" "supers v (v_sb nd) = Some sb" "sb_vops sb = Bootfs"
    "boot_inode (o_vnode fl) v = Some i" by (auto simp: open_file_def)
  define v' where "v' = v\<lparr>files := (files v)(f \<mapsto> fl\<lparr>o_pos := Some (int pos + int (length ?bs))\<rparr>)\<rparr>"
  have "vfs_read c \<lparr>vcmd = VFS_READ, vdata = [fd, n]\<rparr> v = Some ((reply_of 0 [0 \<mapsto> length ?bs], Some ?bs), v')"
    using o bootfs_read_content[OF o(9) assms(2)]
    by (simp add: vfs_read_def arg_def list_get_def vops_def bootfs_vnode_ops_def v'_def del: length_take)
  then have "serve port \<lparr>vcmd = VFS_READ, vdata = [fd, n]\<rparr> names jk er pp v =
      Some (Res (reply_of 0 [0 \<mapsto> length ?bs]) # data_packets ?bs, v'\<lparr>res_freed := True\<rparr>)"
    using o(1) by (simp add: serve_def del: length_take)
  moreover have "open_file (v'\<lparr>res_freed := True\<rparr>) port fd i (pos + length ?bs)"
    unfolding open_file_def
    by (rule exI[of _ c], rule exI[of _ sz], rule exI[of _ f], rule exI[of _ "fl\<lparr>o_pos := Some (int pos + int (length ?bs))\<rparr>"],
        rule exI[of _ nd], rule exI[of _ sb])
      (use o in \<open>simp add: v'_def fd_file_def boot_inode_def del: length_take\<close>)
  moreover have "boot_mem (v'\<lparr>res_freed := True\<rparr>) = boot_mem v" by (simp add: v'_def)
  ultimately show ?thesis by blast
qed

lemma data_packets_single: "length bs \<le> 0x1000 \<Longrightarrow> data_packets bs = [Bytes bs]"
  by (simp add: data_packets.simps)

lemma recv_pages_data:
  "inbox s = data_packets bs @ ps \<Longrightarrow> recv_pages i (length bs) s = Some ((i + length bs, bs), s\<lparr>inbox := ps\<rparr>)"
proof (induction bs arbitrary: i s rule: data_packets.induct)
  case (1 bs)
  show ?case
  proof (cases "length bs > 0x1000")
    case True
    have "inbox s = Bytes (take 0x1000 bs) # data_packets (drop 0x1000 bs) @ ps"
      using "1.prems" True by (subst (asm) data_packets.simps) simp
    then have "recv_bytes 0x1000 s = Some (take 0x1000 bs, s\<lparr>inbox := data_packets (drop 0x1000 bs) @ ps\<rparr>)"
      by (simp add: recv_bytes_def)
    moreover have "recv_pages (i + 0x1000) (length bs - 0x1000) (s\<lparr>inbox := data_packets (drop 0x1000 bs) @ ps\<rparr>) =
      Some ((i + 0x1000 + (length bs - 0x1000), drop 0x1000 bs), s\<lparr>inbox := ps\<rparr>)"
      using "1.IH"[OF True, of "s\<lparr>inbox := data_packets (drop 0x1000 bs) @ ps\<rparr>" "i + 0x1000"] by simp
    ultimately show ?thesis using True by (subst recv_pages.simps) simp
  next
    case False
    then have "recv_bytes (length bs) s = Some (bs, s\<lparr>inbox := ps\<rparr>)"
      using "1.prems" by (simp add: data_packets_single recv_bytes_def)
    then show ?thesis using False by (subst recv_pages.simps) simp
  qed
qed

text \<open>The whole: a descriptor of the process, the structure behind it, the server's file.\<close>

definition lib_file :: "sys \<Rightarrow> nat \<Rightarrow> bootfs_inode \<Rightarrow> nat \<Rightarrow> bool" where
  "lib_file s fd i pos \<longleftrightarrow>
     (\<exists>d vf. get_desc fd s = Some d \<and> vfds s (fd_cookie d) = Some vf \<and> open_file (srv s) (local_port s) (srv_fd vf) i pos)"

lemma lib_read_lemma:
  assumes "lib_file s fd i pos" and "inode_ok (srv s) i" and "inbox s = []"
    and bs: "bs = take n (drop pos (content (srv s) i))"
  shows "\<exists>s'. lib_read e stale fd n s = Some ((int (length bs), bs), s') \<and> lib_file s' fd i (pos + length bs) \<and>
    inode_ok (srv s') i \<and> content (srv s') i = content (srv s) i \<and> inbox s' = (if bs = [] then [Bytes []] else [])"
proof -
  from assms(1) obtain d vf where
    d: "get_desc fd s = Some d" "vfds s (fd_cookie d) = Some vf" "open_file (srv s) (local_port s) (srv_fd vf) i pos"
    by (auto simp: lib_file_def)
  obtain v' where v': "serve (local_port s) \<lparr>vcmd = VFS_READ, vdata = [srv_fd vf, n]\<rparr> (nameptr s) (junk e) (err e) (new_port e) (srv s) =
      Some (Res (reply_of 0 [0 \<mapsto> length bs]) # data_packets bs, v')"
    "open_file v' (local_port s) (srv_fd vf) i (pos + length bs)" "boot_mem v' = boot_mem (srv s)"
    using vfs_read_file[OF d(3) assms(2)] unfolding bs by blast
  define s1 where "s1 = s\<lparr>srv := v', inbox := data_packets bs\<rparr>"
  have sent: "send_cmd e VFS_READ [srv_fd vf, n] s = Some (s\<lparr>srv := v', inbox := Res (reply_of 0 [0 \<mapsto> length bs]) # data_packets bs\<rparr>)"
    using v'(1) assms(3) by (simp add: send_cmd_def)
  have recv: "recv_res stale (s\<lparr>srv := v', inbox := Res (reply_of 0 [0 \<mapsto> length bs]) # data_packets bs\<rparr>) =
      Some (reply_of 0 [0 \<mapsto> length bs], s1)" by (simp add: recv_res_def s1_def)
  have le: "length bs \<le> n" by (simp add: bs)
  have "lib_read e stale fd n s = Some ((int (length bs), bs), s1\<lparr>inbox := (if bs = [] then [Bytes []] else []), errno := 0\<rparr>)"
  proof (cases "bs = []")
    case True
    then show ?thesis using d(1,2) sent recv
      by (simp add: lib_read_def lib_vfs_read_def reply_of_def s1_def data_packets_single split: fdl_type.split)
  next
    case False
    show ?thesis
    proof (cases "length bs < 0x1000")
      case True
      then have "recv_bytes n s1 = Some (bs, s1\<lparr>inbox := []\<rparr>)" using le by (simp add: recv_bytes_def s1_def data_packets_single)
      then show ?thesis using True False d(1,2) sent recv
        by (simp add: lib_read_def lib_vfs_read_def reply_of_def split: fdl_type.split)
    next
      case big: False
      have "recv_pages 0 (length bs) s1 = Some ((length bs, bs), s1\<lparr>inbox := []\<rparr>)"
        using recv_pages_data[of s1 bs "[]" 0] by (simp add: s1_def)
      then show ?thesis using big False d(1,2) sent recv
        by (simp add: lib_read_def lib_vfs_read_def reply_of_def split: fdl_type.split)
    qed
  qed
  moreover have "lib_file (s1\<lparr>inbox := (if bs = [] then [Bytes []] else []), errno := 0\<rparr>) fd i (pos + length bs)"
    using d(1,2) v'(2) by (auto simp: lib_file_def s1_def get_desc_def)
  ultimately show ?thesis using assms(2) v'(3) by (simp add: s1_def inode_ok_def content_def)
qed

text \<open>Several reads, one after the other.\<close>

primrec read_many :: "env \<Rightarrow> vfs_res \<Rightarrow> nat \<Rightarrow> nat list \<Rightarrow> sys \<Rightarrow> ((int \<times> u8 list) list \<times> sys) option" where
  "read_many e stale fd [] s = Some ([], s)"
| "read_many e stale fd (n # ns) s = do {
     (r, s) \<leftarrow> lib_read e stale fd n s;
     (rs, s) \<leftarrow> read_many e stale fd ns s;
     Some (r # rs, s) }"

lemma read_many_lemma:
  assumes "lib_file s fd i pos" and "inode_ok (srv s) i" and "inbox s = []"
    and "\<forall>n \<in> set ns. 0 < n" and "ns = [] \<or> pos + sum_list (butlast ns) < length (content (srv s) i)"
  shows "\<exists>rs s'. read_many e stale fd ns s = Some (rs, s') \<and>
    concat (map snd rs) = take (sum_list ns) (drop pos (content (srv s) i)) \<and> (\<forall>r \<in> set rs. fst r = int (length (snd r)) \<and> snd r \<noteq> []) \<and>
    lib_file s' fd i (pos + length (concat (map snd rs))) \<and> inode_ok (srv s') i \<and> content (srv s') i = content (srv s) i \<and> inbox s' = []"
  using assms
proof (induction ns arbitrary: s pos)
  case (Cons n ns)
  let ?c = "content (srv s) i"
  let ?bs = "take n (drop pos ?c)"
  have "pos < length ?c" using Cons.prems(5) by (auto split: if_splits)
  then have ne: "?bs \<noteq> []" using Cons.prems(4) by simp
  from lib_read_lemma[OF Cons.prems(1-3) refl, where e = e and stale = stale and n = n] ne obtain s1 where
    s1: "lib_read e stale fd n s = Some ((int (length ?bs), ?bs), s1)" "lib_file s1 fd i (pos + length ?bs)"
    "inode_ok (srv s1) i" "content (srv s1) i = ?c" "inbox s1 = []" by auto
  have next_: "ns = [] \<or> pos + length ?bs + sum_list (butlast ns) < length (content (srv s1) i)"
    using Cons.prems(5) s1(4) by (auto split: if_splits)
  from Cons.IH[OF s1(2,3,5) _ next_] Cons.prems(4) obtain rs s' where
    IH: "read_many e stale fd ns s1 = Some (rs, s')"
    "concat (map snd rs) = take (sum_list ns) (drop (pos + length ?bs) ?c)"
    "\<forall>r \<in> set rs. fst r = int (length (snd r)) \<and> snd r \<noteq> []"
    "lib_file s' fd i (pos + length ?bs + length (concat (map snd rs)))" "inode_ok (srv s') i" "content (srv s') i = ?c" "inbox s' = []"
    unfolding s1(4) by auto
  have eq: "?bs @ take (sum_list ns) (drop (pos + length ?bs) ?c) = take (n + sum_list ns) (drop pos ?c)"
  proof (cases "n \<le> length ?c - pos")
    case True
    then have "length ?bs = n" by simp
    then show ?thesis by (simp only: take_add drop_drop add.commute)
  qed simp
  let ?rs = "(int (length ?bs), ?bs) # rs"
  have "read_many e stale fd (n # ns) s = Some (?rs, s')" using s1(1) IH(1) by simp
  moreover have "concat (map snd ?rs) = take (sum_list (n # ns)) (drop pos ?c)" using IH(2) eq by simp
  moreover have "lib_file s' fd i (pos + length (concat (map snd ?rs)))" using IH(4) by (simp add: add.assoc)
  ultimately show ?case using IH(3,5,6,7) ne by (metis fst_conv set_ConsD snd_conv)
qed simp

section \<open>Opening a file\<close>

lemma strncmp_prefix: "0 \<notin> set a \<Longrightarrow> strncmp_loop (pre @ a @ xs) (pre @ a @ ys) (length pre) (length a) = Some 0"
proof (induction a arbitrary: pre)
  case (Cons b a)
  have "strncmp_loop ((pre @ [b]) @ a @ xs) ((pre @ [b]) @ a @ ys) (length (pre @ [b])) (length a) = Some 0"
    by (rule Cons.IH) (use Cons.prems in simp)
  then show ?case using Cons.prems by (simp add: list_get_def nth_append)
qed simp

text \<open>The two mounts of the start: \<open>/boot\<close> with the inodes \<open>is\<close>, and \<open>/\<close>.\<close>

definition boot_mounted :: "vfs \<Rightarrow> bootfs_inode list \<Rightarrow> bool" where
  "boot_mounted v is \<longleftrightarrow>
     (\<exists>b r sb sr n. mount_list v = [b, r] \<and> b \<noteq> 0 \<and> supers v b = Some sb \<and> sb_dir sb = boot_path \<and> sb_vops sb = Bootfs \<and>
        sb_data sb = Boot_data is \<and> vnodes v (sb_root sb) = Some n \<and> v_vnid n = 0 \<and> v_sb n = b \<and>
        supers v r = Some sr \<and> sb_dir sr = [slash]) \<and> distinct (map bi_ino is) \<and> 0 < heap_top v"

lemma find_place_nth: "find_place P xs = Some j \<Longrightarrow> j < length xs \<and> P (xs ! j)"
  by (induction xs arbitrary: j) (auto split: if_splits)

lemma find_place_distinct: "j < length xs \<Longrightarrow> distinct (map f xs) \<Longrightarrow> find_place (\<lambda>x. f x = f (xs ! j)) xs = Some j"
  by (induction xs arbitrary: j) (auto simp: nth_Cons split: nat.splits)

lemma fs_find_boot:
  assumes "boot_mounted v is" and "name = boot_path @ rest"
  shows "\<exists>b. fs_find name v = Some b \<and> b = hd (mount_list v)"
proof -
  obtain b r sb sr where m: "mount_list v = [b, r]" "supers v b = Some sb" "sb_dir sb = boot_path"
    "supers v r = Some sr" "sb_dir sr = [slash]" using assms(1) by (auto simp: boot_mounted_def)
  have "strncmp (boot_path @ [0]) (name @ [0]) (length boot_path) = Some 0"
    using strncmp_prefix[of boot_path "[]" "[0]" "rest @ [0]"] by (simp add: strncmp_def assms(2) boot_path_def)
  moreover have "strncmp ([slash] @ [0]) (name @ [0]) (length [slash]) = Some 0"
    using strncmp_prefix[of "[slash]" "[]" "[0]" "tl boot_path @ rest @ [0]"] by (simp add: strncmp_def assms(2) boot_path_def)
  ultimately show ?thesis using m by (simp add: fs_find_def boot_path_def)
qed

lemma cstr_at: "0 \<notin> set x \<Longrightarrow> cstr (pre @ x @ 0 # post) (length pre) = Some x"
  by (simp add: cstr_def takeWhile_str)

lemma open_lemma:
  assumes m: "boot_mounted v is" and names: "names = boot_path @ ch # p @ 0 # zs" "ch \<noteq> 0" "0 \<notin> set p"
    and j: "find_place (\<lambda>i. bi_name i = p) is = Some j"
    and c: "hashtable_lookup (conn_table v) port = Some (c, sz)" "clients v c = Some cl" "find_place (\<lambda>f. f = 0) (ofiles cl) = Some i"
  shows "\<exists>v'. serve port \<lparr>vcmd = VFS_OPEN, vdata = [0, a1, a2, a3]\<rparr> names jk er pp v = Some ([Res (reply_of 0 [0 \<mapsto> i])], v') \<and>
    open_file v' port i (is ! j) 0 \<and> boot_mem v' = boot_mem v"
proof -
  obtain b r sb n where b: "mount_list v = [b, r]" "b \<noteq> 0" "supers v b = Some sb" "sb_dir sb = boot_path" "sb_vops sb = Bootfs"
    "sb_data sb = Boot_data is" "vnodes v (sb_root sb) = Some n" "v_vnid n = 0" "v_sb n = b" and h: "0 < heap_top v"
    and d: "distinct (map bi_ino is)"
    using m by (auto simp: boot_mounted_def)
  have l: "length boot_path = 5" "0 \<notin> set boot_path" by (simp_all add: boot_path_def)
  have n0: "cstr names 0 = Some (boot_path @ ch # p)"
    using cstr_at[of "boot_path @ ch # p" "[]" zs] names l by simp
  have n6: "cstr names (length boot_path + 1) = Some p"
    using cstr_at[of p "boot_path @ [ch]" zs] names by simp
  have find: "fs_find (boot_path @ ch # p) v = Some b" using fs_find_boot[OF m refl] b(1) by simp
  have jl: "j < length is" using find_place_nth[OF j] by simp
  define vn where "vn = heap_top v"
  define v1 where "v1 = v\<lparr>heap_top := vn + 1, vnodes := (vnodes v)(vn \<mapsto> \<lparr>v_vnid = bi_ino (is ! j), v_refcount = 1, v_sb = b, v_data = Some j\<rparr>)\<rparr>"
  have walk: "bootfs_walk (sb_root sb) p v = Some (vn, v1)"
    using b j find_place_distinct[OF jl d]
    by (simp add: bootfs_walk_def vget_def malloc_def bootfs_read_vnode_def v1_def vn_def Let_def)
  have inode: "boot_inode vn v1 = Some (is ! j)" using b jl by (simp add: boot_inode_def v1_def)
  define cl' where "cl' = cl\<lparr>ofiles := (ofiles cl)[i := vn + 1]\<rparr>"
  define fl where "fl = \<lparr>o_vnode = vn, o_cookie = Some (vn + 2), o_pos = Some 0, o_area = a1, o_offset = a2, o_length = a3, o_slots = Map.empty\<rparr>"
  define v2 where "v2 = v1\<lparr>heap_top := vn + 3, clients := (clients v)(c \<mapsto> cl'), files := (files v)(vn + 1 \<mapsto> fl),
    cookies := (cookies v)(vn + 2 \<mapsto> File_cookie (bi_offset (is ! j) * 0x1000) 0)\<rparr>"
  have il: "i < length (ofiles cl)" using find_place_nth[OF c(3)] by simp
  have "vfs_open c \<lparr>vcmd = VFS_OPEN, vdata = [0, a1, a2, a3]\<rparr> names v = Some (reply_of 0 [0 \<mapsto> i], v2)"
    using c(2,3) n0 find b(2-5) n6 walk inode h il
    by (simp add: vfs_open_def arg_def list_get_def walk_path_def vops_def bootfs_vnode_ops_def new_file_def malloc_def set_fd_def
        list_put_def bootfs_open_def boot_inode_def vn_def[symmetric] Let_def)
      (simp add: v1_def v2_def cl'_def fl_def)
  then have "serve port \<lparr>vcmd = VFS_OPEN, vdata = [0, a1, a2, a3]\<rparr> names jk er pp v =
    Some ([Res (reply_of 0 [0 \<mapsto> i])], v2\<lparr>res_freed := True\<rparr>)" using c(1) by (simp add: serve_def)
  moreover have "open_file (v2\<lparr>res_freed := True\<rparr>) port i (is ! j) 0"
    unfolding open_file_def
    by (rule exI[of _ c], rule exI[of _ sz], rule exI[of _ "vn + 1"], rule exI[of _ fl],
        rule exI[of _ "\<lparr>v_vnid = bi_ino (is ! j), v_refcount = 1, v_sb = b, v_data = Some j\<rparr>"], rule exI[of _ sb])
      (use c b il jl in \<open>simp add: v2_def v1_def fl_def cl'_def fd_file_def boot_inode_def\<close>)
  moreover have "boot_mem (v2\<lparr>res_freed := True\<rparr>) = boot_mem v" by (simp add: v2_def v1_def)
  ultimately show ?thesis by blast
qed

section \<open>How many files a connection opens\<close>

datatype file_req = Open_req vfs_cmd "u8 list" | Close_req vfs_cmd

primrec run_reqs :: "addr \<Rightarrow> file_req list \<Rightarrow> vfs \<Rightarrow> ((bool \<times> vfs_res) list \<times> vfs) option" where
  "run_reqs c [] v = Some ([], v)"
| "run_reqs c (q # qs) v = do {
     (r, v) \<leftarrow> (case q of
         Open_req vc names \<Rightarrow> do { (r, v) \<leftarrow> vfs_open c vc names v; Some ((True, r), v) }
       | Close_req vc \<Rightarrow> do { (r, v) \<leftarrow> vfs_close c vc v; Some ((False, r), v) });
     (rs, v) \<leftarrow> run_reqs c qs v;
     Some (r # rs, v) }"

definition unused :: "addr \<Rightarrow> vfs \<Rightarrow> nat" where
  "unused c v = (case clients v c of Some cl \<Rightarrow> length (filter (\<lambda>f. f = 0) (ofiles cl)) | None \<Rightarrow> 0)"

text \<open>What the operations of the file systems leave alone.\<close>

definition calm :: "vfs \<Rightarrow> vfs \<Rightarrow> bool" where
  "calm v v' \<longleftrightarrow> clients v' = clients v \<and> heap_top v \<le> heap_top v'"

lemma calm_refl: "calm v v" and calm_trans: "calm v v' \<Longrightarrow> calm v' v'' \<Longrightarrow> calm v v''"
  by (auto simp: calm_def)

lemma case_Some_convs:
  "(case d of Root_data is \<Rightarrow> f is | Boot_data is \<Rightarrow> g is) = Some y \<longleftrightarrow>
     (\<exists>is. d = Root_data is \<and> f is = Some y) \<or> (\<exists>is. d = Boot_data is \<and> g is = Some y)"
  "(case o' of None \<Rightarrow> h | Some x \<Rightarrow> h' x) = Some y \<longleftrightarrow> (o' = None \<and> h = Some y) \<or> (\<exists>x. o' = Some x \<and> h' x = Some y)"
  "(case k of Rootfs \<Rightarrow> h | Bootfs \<Rightarrow> h2) = Some y \<longleftrightarrow> (k = Rootfs \<and> h = Some y) \<or> (k = Bootfs \<and> h2 = Some y)"
  "(if b then h else h2) = Some y \<longleftrightarrow> (b \<and> h = Some y) \<or> (\<not> b \<and> h2 = Some y)"
     apply (cases d; simp)
    apply (cases o'; simp)
   apply (cases k; simp)
  apply simp
  done

lemma read_vnode_calm:
  "rootfs_read_vnode x v = Some (r, v') \<Longrightarrow> calm v v'" "bootfs_read_vnode x v = Some (r, v') \<Longrightarrow> calm v v'"
  by (auto simp: rootfs_read_vnode_def bootfs_read_vnode_def calm_def bind_Some_conv case_Some_convs)

lemma vget_calm: "vget b n v = Some (x, v') \<Longrightarrow> calm v v'"
  by (auto simp: vget_def malloc_def Let_def bind_Some_conv case_Some_convs calm_def dest!: read_vnode_calm)

lemma walk_calm: "op_walk (vops k) p x v = Some (y, v') \<Longrightarrow> calm v v'"
  by (cases k)
    (auto simp: vops_def rootfs_vnode_ops_def bootfs_vnode_ops_def rootfs_walk_def bootfs_walk_def bind_Some_conv calm_refl
      case_Some_convs dest: vget_calm)

lemma open_calm: "op_open (vops k) = Some opn \<Longrightarrow> opn x v = Some (y, v') \<Longrightarrow> calm v v'"
  by (cases k)
    (auto simp: vops_def rootfs_vnode_ops_def bootfs_vnode_ops_def bootfs_open_def malloc_def calm_def Let_def bind_Some_conv)

lemma close_calm: "op_close (vops k) = Some cls \<Longrightarrow> cls x v = Some (y, v') \<Longrightarrow> calm v v'"
  by (cases k) (auto simp: vops_def rootfs_vnode_ops_def bootfs_vnode_ops_def bootfs_close_def calm_refl)

lemma free_calm: "op_free_cookie (vops k) = Some fc \<Longrightarrow> fc x v = Some v' \<Longrightarrow> calm v v'"
  by (cases k) (auto simp: vops_def rootfs_vnode_ops_def bootfs_vnode_ops_def bootfs_free_cookie_def calm_def bind_Some_conv)

lemma count_update:
  "i < length xs \<Longrightarrow> xs ! i = 0 \<Longrightarrow> f \<noteq> 0 \<Longrightarrow> length (filter (\<lambda>x. x = 0) (xs[i := f])) + 1 = length (filter (\<lambda>x. x = (0::nat)) xs)"
  by (induction xs arbitrary: i) (auto simp: nth_Cons split: nat.splits)

lemma new_file_unused:
  assumes "new_file c i vn pos vc opn v = Some (r, v')" and "op_open (vops k) = Some opn" and "0 < heap_top v"
    and "clients v c = Some cl" and "find_place (\<lambda>f. f = 0) (ofiles cl) = Some i"
  shows "unused c v' + 1 = unused c v \<and> 0 < heap_top v'"
proof -
  obtain v1 e ck v2 where v1: "set_fd c i (heap_top v) (v\<lparr>heap_top := heap_top v + 1\<rparr>) = Some v1"
    and v2: "opn vn v1 = Some ((e, ck), v2)" and v': "clients v' = clients v2" "heap_top v' = heap_top v2"
    using assms(1) by (auto simp: new_file_def malloc_def Let_def bind_Some_conv)
  have il: "i < length (ofiles cl)" "ofiles cl ! i = 0" using find_place_nth[OF assms(5)] by auto
  have "clients v1 c = Some (cl\<lparr>ofiles := (ofiles cl)[i := heap_top v]\<rparr>)" "heap_top v1 = heap_top v + 1"
    using v1 assms(4) by (auto simp: set_fd_def bind_Some_conv)
  moreover have "calm v1 v2" by (rule open_calm[OF assms(2) v2])
  ultimately show ?thesis using v' assms(3,4) count_update[OF il] by (auto simp: unused_def calm_def)
qed

lemma calm_unused: "calm v v' \<Longrightarrow> 0 < heap_top v \<Longrightarrow> unused c v' = unused c v \<and> 0 < heap_top v'"
  by (auto simp: calm_def unused_def)

lemma vfs_open_unused:
  assumes "vfs_open c vc names v = Some (r, v')" and "0 < heap_top v"
  shows "unused c v' + (if status r = VFS_OK then 1 else 0) \<le> unused c v \<and> 0 < heap_top v'"
proof -
  obtain a0 cl where a: "arg vc 0 = Some a0" "clients v c = Some cl" using assms(1) by (auto simp: vfs_open_def bind_Some_conv)
  consider (err) e where "r = reply_err e" "calm v v'" |
    (new) i vn v1 opn k where "find_place (\<lambda>f. f = 0) (ofiles cl) = Some i" "calm v v1" "op_open (vops k) = Some opn"
      "new_file c i vn (Some 0) vc opn v1 = Some (r, v')"
    using assms(1) a
    by (fastforce simp: vfs_open_def bind_Some_conv case_Some_convs walk_path_def calm_refl dest: walk_calm)
  then show ?thesis
  proof cases
    case err
    then show ?thesis using calm_unused[OF err(2) assms(2), of c] by (simp add: reply_err_def)
  next
    case new
    have "clients v1 c = Some cl" using new(2) a(2) by (simp add: calm_def)
    from new_file_unused[OF new(4,3) _ this new(1)] calm_unused[OF new(2) assms(2), of c] show ?thesis by auto
  qed
qed

lemma vfs_close_calm:
  assumes "vfs_close c vc v = Some (r, v')"
  shows "calm v v'"
  using assms
  by (auto simp: vfs_close_def bind_Some_conv case_Some_convs calm_refl dest!: close_calm free_calm intro: calm_trans)

lemma run_reqs_lemma:
  "run_reqs c qs v = Some (rs, v') \<Longrightarrow> 0 < heap_top v \<Longrightarrow>
   length (filter (\<lambda>(opened, r). opened \<and> status r = VFS_OK) rs) + unused c v' \<le> unused c v"
proof (induction qs arbitrary: v rs)
  case (Cons q qs)
  obtain b r v1 rs1 where step: "(case q of
         Open_req vc names \<Rightarrow> do { (r, v) \<leftarrow> vfs_open c vc names v; Some ((True, r), v) }
       | Close_req vc \<Rightarrow> do { (r, v) \<leftarrow> vfs_close c vc v; Some ((False, r), v) }) = Some ((b, r), v1)"
    and rest: "run_reqs c qs v1 = Some (rs1, v')" and rs: "rs = (b, r) # rs1"
    using Cons.prems(1) by (auto simp: bind_Some_conv)
  have "unused c v1 + (if b \<and> status r = VFS_OK then 1 else 0) \<le> unused c v \<and> 0 < heap_top v1"
  proof (cases q)
    case (Open_req vc names)
    then have "vfs_open c vc names v = Some (r, v1)" "b" using step by (auto simp: bind_Some_conv)
    then show ?thesis using vfs_open_unused[OF _ Cons.prems(2)] by simp
  next
    case (Close_req vc)
    then show ?thesis using step calm_unused[OF vfs_close_calm Cons.prems(2), of c vc] by (fastforce simp: bind_Some_conv)
  qed
  with Cons.IH[OF rest] show ?case by (auto simp: rs split: if_splits)
qed simp

section \<open>mkdir\<close>

lemma vfs_mkdir_result:
  assumes "vfs_mkdir dir v = Some (r, v')"
  shows "r \<in> {0, -1, ENOSYS}"
proof -
  obtain super sb where "fs_find dir v = Some super" "supers v super = Some sb"
    and "(case op_mkdir (vops (sb_vops sb)) of None \<Rightarrow> Some (ENOSYS, v)
      | Some mkdir \<Rightarrow> mkdir (sb_root sb) (drop (length (sb_dir sb)) dir) v) = Some (r, v')"
    using assms by (auto simp: vfs_mkdir_def bind_Some_conv)
  then show ?thesis
    by (cases "sb_vops sb")
      (auto simp: vops_def rootfs_vnode_ops_def bootfs_vnode_ops_def rootfs_mkdir_def rootfs_inew_def bind_Some_conv case_Some_convs)
qed

text \<open>
  \<open>mkdir\<close> never succeeds for a process: the server puts the result of \<open>vfs_mkdir\<close>, 0 or an errno, where
  the library expects \<open>VFS_OK\<close>, and leaves the errno 0.
\<close>

lemma mkdir_never_succeeds:
  assumes "inbox s = []" and "lib_mkdir e stale pathname mode s = Some (r, s')"
  shows "r = -1 \<and> errno s' = 0"
proof -
  obtain names n s1 vr s2 where m: "strlcpy (nameptr s) pathname 32 = Some (names, n)"
    "send_cmd e VFS_MKDIR [0, mode] (s\<lparr>nameptr := names\<rparr>) = Some s1" "recv_res stale s1 = Some (vr, s2)"
    "(r, s') = (if status vr \<noteq> VFS_OK then (-1, s2\<lparr>errno := rerrno vr\<rparr>) else (0, s2))"
    using assms(2) by (auto simp: lib_mkdir_def bind_Some_conv split: if_splits)
  obtain k where "inbox s1 = [Res \<lparr>status = k, rerrno = 0, rdata = Map.empty\<rparr>]" "k \<in> {0, -1, ENOSYS}"
    using m(2) assms(1) by (auto simp: send_cmd_def serve_def bind_Some_conv dest!: vfs_mkdir_result)
  then have "status vr \<noteq> VFS_OK" "rerrno vr = 0" using m(3) by (auto simp: recv_res_def)
  then show ?thesis using m(4) by simp
qed

section \<open>Listing a directory\<close>

text \<open>
  What the server relies on when it lists a directory: \<open>opendir\<close> gives a cookie for the entries,
  last one first, and leaves the open files alone. \<open>entries\<close> are those of the directory, if the
  vnode is one.
\<close>

locale listable =
  fixes opendir :: "addr \<Rightarrow> vfs \<Rightarrow> ((int \<times> addr option) \<times> vfs) option"
    and entries :: "addr \<Rightarrow> vfs \<Rightarrow> dirent list option"
  assumes opendir_spec: "entries d v = Some es \<Longrightarrow>
    \<exists>ck v'. opendir d v = Some ((0, Some ck), v') \<and> cookies v' ck = Some (Dir_cookie (rev es) (rev es)) \<and> files v' = files v"
    and opendir_total: "entries d v = None \<Longrightarrow> opendir d v = Some ((ENOTDIR, None), v) \<or> opendir d v = None"

lemma dir_loop_lemma:
  "cookies v ck = Some (Dir_cookie h es) \<Longrightarrow> \<forall>e \<in> set es. length (snd e) < 32 \<Longrightarrow> files v f = Some fl \<Longrightarrow>
   \<exists>v' fl'. dir_loop k i f fs_readdir ck v = Some (i + min k (length es + 1), v') \<and> files v' f = Some fl' \<and>
     (\<forall>j. o_slots fl' j = (if i \<le> j \<and> j < i + min k (length es) then Some (es ! (j - i)) else o_slots fl j))"
proof (induction k arbitrary: i es v fl)
  case (Suc k)
  show ?case
  proof (cases es)
    case Nil
    then show ?thesis using Suc.prems by (auto simp: fs_readdir_def)
  next
    case (Cons e es')
    let ?fl = "fl\<lparr>o_slots := (o_slots fl)(i \<mapsto> e)\<rparr>"
    let ?v = "v\<lparr>cookies := (cookies v)(ck \<mapsto> Dir_cookie h es'), files := (files v)(f \<mapsto> ?fl)\<rparr>"
    have "cookies ?v ck = Some (Dir_cookie h es')" "\<forall>e \<in> set es'. length (snd e) < 32" "files ?v f = Some ?fl"
      using Suc.prems by (simp_all add: Cons)
    from Suc.IH[OF this, of "i + 1"] obtain v' fl' where
      IH: "dir_loop k (i + 1) f fs_readdir ck ?v = Some (i + 1 + min k (length es' + 1), v')" "files v' f = Some fl'"
      "\<forall>j. o_slots fl' j = (if i + 1 \<le> j \<and> j < i + 1 + min k (length es') then Some (es' ! (j - (i + 1))) else o_slots ?fl j)"
      by blast
    have "dir_loop (Suc k) i f fs_readdir ck v = dir_loop k (i + 1) f fs_readdir ck ?v"
      using Suc.prems by (simp add: Cons fs_readdir_def)
    moreover have "o_slots fl' j = (if i \<le> j \<and> j < i + min (Suc k) (length es) then Some (es ! (j - i)) else o_slots fl j)" for j
      using IH(3)[rule_format, of j] by (cases "j = i") (auto simp: Cons nth_Cons' Suc_diff_le)
    ultimately show ?thesis using IH(1,2) by (auto simp: Cons)
  qed
qed auto

context listable
begin

text \<open>
  With room for \<open>k\<close> entries the list is as long as the directory, but never \<open>k\<close>: when the area is
  full, the last entry is written and not counted.
\<close>

lemma lists_directory:
  assumes "entries d v = Some es" and "\<forall>e \<in> set es. length (snd e) < 32" and "files v f = Some fl"
  shows "\<exists>ck v1 v2 v3 fl'. opendir d v = Some ((0, Some ck), v1) \<and> fs_rewinddir ck v1 = Some v2 \<and>
    dir_loop k 0 f fs_readdir ck v2 = Some (min k (length es + 1), v3) \<and> files v3 f = Some fl' \<and>
    (\<forall>j < min k (length es). o_slots fl' j = Some (rev es ! j))"
proof -
  obtain ck v1 where o: "opendir d v = Some ((0, Some ck), v1)" "cookies v1 ck = Some (Dir_cookie (rev es) (rev es))"
    "files v1 = files v" using opendir_spec[OF assms(1)] by blast
  let ?v2 = "v1\<lparr>cookies := (cookies v1)(ck \<mapsto> Dir_cookie (rev es) (rev es))\<rparr>"
  have "fs_rewinddir ck v1 = Some ?v2" using o(2) by (simp add: fs_rewinddir_def)
  moreover have "cookies ?v2 ck = Some (Dir_cookie (rev es) (rev es))" "files ?v2 f = Some fl" using o(3) assms(3) by simp_all
  from dir_loop_lemma[OF this(1) _ this(2), of k 0] assms(2) obtain v3 fl' where
    "dir_loop k 0 f fs_readdir ck ?v2 = Some (min k (length es + 1), v3)" "files v3 f = Some fl'"
    "\<forall>j. o_slots fl' j = (if j < min k (length es) then Some (rev es ! j) else o_slots fl j)" by auto
  ultimately show ?thesis using o(1) by auto
qed

end

definition rootfs_dirents :: "addr \<Rightarrow> vfs \<Rightarrow> dirent list option" where
  "rootfs_dirents d v = do {
     n \<leftarrow> vnodes v d;
     sb \<leftarrow> supers v (v_sb n);
     case sb_data sb of Root_data is \<Rightarrow> if v_vnid n = 0 then Some (map (\<lambda>i. (ri_ino i, ri_name i)) is) else None | _ \<Rightarrow> None }"

definition bootfs_dirents :: "addr \<Rightarrow> vfs \<Rightarrow> dirent list option" where
  "bootfs_dirents d v = do {
     n \<leftarrow> vnodes v d;
     sb \<leftarrow> supers v (v_sb n);
     case sb_data sb of Boot_data is \<Rightarrow> if v_vnid n = 0 then Some (map (\<lambda>i. (bi_ino i, bi_name i)) is) else None | _ \<Rightarrow> None }"

interpretation root_dir: listable rootfs_opendir rootfs_dirents
  by unfold_locales
    (auto simp: rootfs_dirents_def rootfs_opendir_def malloc_def Let_def bind_Some_conv case_Some_convs split: bind_splits sb_data.splits)

interpretation boot_dir: listable bootfs_opendir bootfs_dirents
  by unfold_locales
    (auto simp: bootfs_dirents_def bootfs_opendir_def malloc_def Let_def bind_Some_conv case_Some_convs split: bind_splits sb_data.splits)

section \<open>The properties\<close>

text \<open>
  A server with \<open>/boot\<close> and \<open>/\<close> mounted, and a process that has the file \<open>/boot/a\<close> of five bytes
  open as 0, at position \<open>pos\<close>. The page for the names holds \<open>/boot\<close>, the character \<open>ch\<close> and \<open>a\<close>.
\<close>

definition demo_inode :: bootfs_inode where
  "demo_inode = \<lparr>bi_ino = 2, bi_offset = 0, bi_size = 5, bi_name = [0x61]\<rparr>"

definition demo_inodes :: "bootfs_inode list" where
  "demo_inodes = [demo_inode, \<lparr>bi_ino = 0, bi_offset = 0, bi_size = 0, bi_name = dot_name\<rparr>]"

definition demo_table :: hashtable where
  "demo_table = (hashtable_new (3 / 4))\<lparr>table := (fresh_table 0)[5 := \<lparr>valid = True, dirty = False, key = 5, dsize = 0, data = 4\<rparr>]\<rparr>"

definition demo_vfs :: "nat \<Rightarrow> vfs" where
  "demo_vfs pos = \<lparr>
     supers = [1 \<mapsto> \<lparr>sb_dir = boot_path, sb_root = 7, sb_vops = Bootfs, sb_data = Boot_data demo_inodes\<rparr>,
       6 \<mapsto> \<lparr>sb_dir = [slash], sb_root = 8, sb_vops = Rootfs, sb_data = Root_data []\<rparr>],
     vnodes = [2 \<mapsto> \<lparr>v_vnid = 2, v_refcount = 1, v_sb = 1, v_data = Some 0\<rparr>, 7 \<mapsto> \<lparr>v_vnid = 0, v_refcount = 1, v_sb = 1, v_data = Some 1\<rparr>],
     cookies = Map.empty,
     files = [3 \<mapsto> \<lparr>o_vnode = 2, o_cookie = Some 9, o_pos = Some (int pos), o_area = 0, o_offset = 0, o_length = 0, o_slots = Map.empty\<rparr>],
     clients = [4 \<mapsto> \<lparr>c_in = 5, c_out = 77, cwd = [slash], ofiles = [3, 0]\<rparr>],
     heap_top = 10, fs_drivers = [Rootfs, Bootfs], mount_list = [1, 6], conn_table = demo_table, root_inode_max = 3,
     boot_inode_max = 3, boot_dir = [], boot_mem = [10, 11, 12, 13, 14], res_freed = True\<rparr>"

definition demo_sys :: "nat \<Rightarrow> sys" where
  "demo_sys pos = \<lparr>srv = demo_vfs pos, inbox = [], local_port = 5, nameptr = [], fd_table = [Some \<lparr>imp = Fdl_vfs, fd_cookie = 1\<rparr>],
     errno = 0, vfds = [1 \<mapsto> \<lparr>srv_fd = 0, fd_offset = 0, fd_length = None, fd_more = None\<rparr>], lib_top = 2\<rparr>"

lemma demo_lookup: "hashtable_lookup demo_table 5 = Some (4, 0)"
  by (simp add: hashtable_lookup_def demo_table_def hashtable_new_def hash_key_def table_size_def fresh_table_def
      find_slot.simps list_get_def)

lemma demo_file:
  "lib_file (demo_sys pos) 0 demo_inode pos" "inode_ok (srv (demo_sys pos)) demo_inode" "inbox (demo_sys pos) = []"
  "content (srv (demo_sys pos)) demo_inode = [10, 11, 12, 13, 14]"
  using demo_lookup
  by (auto simp: lib_file_def open_file_def get_desc_def demo_sys_def demo_vfs_def fd_file_def list_get_def boot_inode_def
      demo_inodes_def demo_inode_def inode_ok_def content_def)

text \<open>
  C4: reading a file through the C library and the server. However a process cuts a file of
  \<open>/boot\<close> into reads, as long as each begins before the end, every read returns its length, the
  bytes together are exactly the bytes of the file from the position on, and no message is left
  over; reads of a page and more come in several messages.
\<close>

theorem read_returns_file:
  assumes "lib_file s fd i pos" and "inode_ok (srv s) i" and "inbox s = []"
    and "\<forall>n \<in> set ns. 0 < n" and "ns = [] \<or> pos + sum_list (butlast ns) < length (content (srv s) i)"
  shows "\<exists>rs s'. read_many e stale fd ns s = Some (rs, s') \<and>
    concat (map snd rs) = take (sum_list ns) (drop pos (content (srv s) i)) \<and> (\<forall>r \<in> set rs. fst r = int (length (snd r)) \<and> snd r \<noteq> []) \<and>
    lib_file s' fd i (pos + length (concat (map snd rs))) \<and> inode_ok (srv s') i \<and> content (srv s') i = content (srv s) i \<and> inbox s' = []"
  by (rule read_many_lemma[OF assms])

lemma read_returns_file_witness:
  "\<exists>rs s'. read_many \<lparr>junk = [], err = False, new_port = 0\<rparr> (reply_err 0) 0 [2, 2, 4] (demo_sys 0) = Some (rs, s') \<and>
     concat (map snd rs) = [10, 11, 12, 13, 14] \<and> inbox s' = []"
  using read_returns_file[OF demo_file(1-3), where pos = 0 and ns = "[2, 2, 4]" and e = "\<lparr>junk = [], err = False, new_port = 0\<rparr>"
      and stale = "reply_err 0"] demo_file(4)[of 0]
  by auto

text \<open>
  C29: a read at the end of a file returns 0 and leaves an empty message in the queue of the
  process: the server sends the reply and then the data, even when there is none, and the
  library does not fetch it. Whatever the process asks next, it takes that message for the
  reply, and goes on with what happens to be on its stack.
\<close>

theorem read_at_end_leaves_message:
  assumes "lib_file s fd i pos" and "inode_ok (srv s) i" and "inbox s = []" and "length (content (srv s) i) \<le> pos"
  shows "\<exists>s'. lib_read e stale fd n s = Some ((0, []), s') \<and> inbox s' = [Bytes []] \<and>
    (\<forall>c args s2 x. send_cmd e c args s' = Some s2 \<longrightarrow> (\<exists>s3. recv_res x s2 = Some (x, s3)))"
proof -
  have "take n (drop pos (content (srv s) i)) = []" using assms(4) by simp
  from lib_read_lemma[OF assms(1-3), of "[]" n e stale] this obtain s' where
    s': "lib_read e stale fd n s = Some ((0, []), s')" "inbox s' = [Bytes []]" by auto
  have "\<exists>s3. recv_res x s2 = Some (x, s3)" if "send_cmd e c args s' = Some s2" for c args s2 x
    using that s'(2) by (auto simp: send_cmd_def recv_res_def bind_Some_conv)
  with s' show ?thesis by blast
qed

lemma read_at_end_leaves_message_witness:
  "\<exists>s'. lib_read \<lparr>junk = [], err = False, new_port = 0\<rparr> (reply_err 0) 0 100 (demo_sys 5) = Some ((0, []), s') \<and> inbox s' = [Bytes []]"
  using read_at_end_leaves_message[OF demo_file(1-3), where pos = 5 and n = 100 and e = "\<lparr>junk = [], err = False, new_port = 0\<rparr>"
      and stale = "reply_err 0"] demo_file(4)[of 5]
  by auto

text \<open>
  C23: opening a file of the boot file system. The server opens the first file with the name that
  follows \<open>/boot\<close> and one more character, at its start and under the lowest free descriptor, and
  says so. The character between them is never looked at: \<open>/bootXa\<close> is \<open>/boot/a\<close>.
\<close>

theorem open_finds_file:
  assumes "boot_mounted v is" and "names = boot_path @ ch # p @ 0 # zs" and "ch \<noteq> 0" and "0 \<notin> set p"
    and "find_place (\<lambda>i. bi_name i = p) is = Some j"
    and "hashtable_lookup (conn_table v) port = Some (c, sz)" and "clients v c = Some cl" and "find_place (\<lambda>f. f = 0) (ofiles cl) = Some i"
  shows "\<exists>v'. serve port \<lparr>vcmd = VFS_OPEN, vdata = [0, a1, a2, a3]\<rparr> names jk er pp v = Some ([Res (reply_of 0 [0 \<mapsto> i])], v') \<and>
    open_file v' port i (is ! j) 0 \<and> boot_mem v' = boot_mem v"
  by (rule open_lemma[OF assms])

text \<open>\<open>/bootXa\<close>\<close>

lemma open_finds_file_witness:
  "\<exists>v'. serve 5 \<lparr>vcmd = VFS_OPEN, vdata = [0, 0, 0, 0]\<rparr> [0x2F, 0x62, 0x6F, 0x6F, 0x74, 0x58, 0x61, 0] [] False 0 (demo_vfs 0) =
     Some ([Res (reply_of 0 [0 \<mapsto> 1])], v') \<and> open_file v' 5 1 demo_inode 0"
proof -
  have m: "boot_mounted (demo_vfs 0) demo_inodes"
    by (simp add: boot_mounted_def demo_vfs_def demo_inodes_def demo_inode_def)
  have n: "[0x2F, 0x62, 0x6F, 0x6F, 0x74, 0x58, 0x61, 0] = boot_path @ 0x58 # [0x61] @ 0 # ([] :: u8 list)" by (simp add: boot_path_def)
  have p: "find_place (\<lambda>i. bi_name i = [0x61]) demo_inodes = Some 0" by (simp add: demo_inodes_def demo_inode_def)
  have c: "hashtable_lookup (conn_table (demo_vfs 0)) 5 = Some (4, 0)" "clients (demo_vfs 0) 4 = Some \<lparr>c_in = 5, c_out = 77, cwd = [slash], ofiles = [3, 0]\<rparr>"
    using demo_lookup by (simp_all add: demo_vfs_def)
  from open_finds_file[OF m n _ _ p c, of 1 0 0 0 "[]" False 0] show ?thesis by (simp add: demo_inodes_def) blast
qed

text \<open>
  C28: a connection never opens more files than it has free descriptors at the start, no matter
  how many it closes in between: closing frees the cookie, but neither the descriptor nor the
  open file.
\<close>

theorem closing_frees_no_descriptor:
  assumes "run_reqs c qs v = Some (rs, v')" and "0 < heap_top v"
  shows "length (filter (\<lambda>(opened, r). opened \<and> status r = VFS_OK) rs) \<le> unused c v"
  using run_reqs_lemma[OF assms] by simp

definition demo_reqs :: "file_req list" where
  "demo_reqs = [Open_req \<lparr>vcmd = VFS_OPEN, vdata = [0, 0, 0, 0]\<rparr> [0x2F, 0x62, 0x6F, 0x6F, 0x74, 0x2F, 0x61, 0],
     Close_req \<lparr>vcmd = VFS_CLOSE, vdata = [1]\<rparr>, Open_req \<lparr>vcmd = VFS_OPEN, vdata = [0, 0, 0, 0]\<rparr> [0x2F, 0x62, 0x6F, 0x6F, 0x74, 0x2F, 0x61, 0]]"

lemma demo_run:
  "map_option (map (\<lambda>(opened, r). (opened, status r, rerrno r)) \<circ> fst) (run_reqs 4 demo_reqs (demo_vfs 0)) =
     Some [(True, VFS_OK, 0), (False, VFS_OK, 0), (True, VFS_ERROR, EMFILE)]"
  by (simp add: demo_reqs_def vfs_open_def vfs_close_def arg_def list_get_def demo_vfs_def cstr_def fs_find_def strncmp_def
      boot_path_def walk_path_def vops_def bootfs_vnode_ops_def bootfs_walk_def demo_inodes_def demo_inode_def vget_def malloc_def
      bootfs_read_vnode_def dot_name_def new_file_def set_fd_def list_put_def bootfs_open_def boot_inode_def reply_of_def reply_err_def
      fd_file_def bootfs_close_def bootfs_free_cookie_def Let_def)

lemma closing_frees_no_descriptor_witness:
  "\<exists>rs v'. run_reqs 4 demo_reqs (demo_vfs 0) = Some (rs, v') \<and> map (\<lambda>(opened, r). (opened, status r)) rs = [(True, 1), (False, 1), (True, 2)] \<and>
     length (filter (\<lambda>(opened, r). opened \<and> status r = VFS_OK) rs) \<le> 1"
proof -
  obtain rs v' where run: "run_reqs 4 demo_reqs (demo_vfs 0) = Some (rs, v')"
    and m: "map (\<lambda>(opened, r). (opened, status r, rerrno r)) rs = [(True, VFS_OK, 0), (False, VFS_OK, 0), (True, VFS_ERROR, EMFILE)]"
    using demo_run by (auto simp: o_def)
  have "map (\<lambda>(opened, r). (opened, status r)) rs = map (\<lambda>(b, s, e). (b, s)) (map (\<lambda>(opened, r). (opened, status r, rerrno r)) rs)"
    by (induction rs) auto
  moreover have "0 < heap_top (demo_vfs 0)" "unused 4 (demo_vfs 0) = 1" by (simp_all add: demo_vfs_def unused_def)
  ultimately show ?thesis using closing_frees_no_descriptor[OF run] run m by simp
qed

end
