(* ===== verification/VfsStart.thy ===== *)
theory VfsStart
  imports VfsProps
begin

text \<open>
  The start of the file system server: after \<open>vfs_start\<close> the root is mounted and so is \<open>/boot\<close>,
  with an inode for every file of the boot directory, and a first client can connect.
\<close>

section \<open>The mounts\<close>

text \<open>The state in which \<open>vfs_main\<close> mounts the root.\<close>

definition start0 :: "boot_entry list \<Rightarrow> u8 list \<Rightarrow> vfs" where
  "start0 bes mem = \<lparr>supers = Map.empty, vnodes = Map.empty, cookies = Map.empty, files = Map.empty, clients = Map.empty,
       heap_top = 1, fs_drivers = [Rootfs, Bootfs], mount_list = [], conn_table = hashtable_new (3 / 4), root_inode_max = 0,
       boot_inode_max = 0, boot_dir = bes, boot_mem = mem, res_freed = False\<rparr>"

lemma bootfs_entries_spec:
  "bootfs_entries es is s = (is', s') \<Longrightarrow> (\<exists>m. s' = s\<lparr>boot_inode_max := m\<rparr>) \<and>
   (distinct (map bi_ino is) \<longrightarrow> (\<forall>i \<in> set is. bi_ino i < boot_inode_max s) \<longrightarrow> distinct (map bi_ino is')) \<and>
   (\<exists>new. is' = rev new @ is \<and> map (\<lambda>i. (bi_name i, bi_offset i, bi_size i)) new =
     map (\<lambda>e. (take 31 (be_name e), be_offset e, be_vsize e)) (filter (\<lambda>e. be_type e \<noteq> 0 \<and> be_name e \<noteq> bootdir_directory) es))"
proof (induction es arbitrary: "is" s)
  case (Cons e es)
  show ?case
  proof (cases "be_type e \<noteq> 0 \<and> be_name e \<noteq> bootdir_directory")
    case True
    obtain i t where i: "bootfs_inew (be_name e) (be_offset e) (be_vsize e) s = (i, t)" by (cases "bootfs_inew (be_name e) (be_offset e) (be_vsize e) s")
    with Cons.prems True have "bootfs_entries es (i # is) t = (is', s')" by simp
    note IH = Cons.IH[OF this]
    then obtain new where new: "is' = rev new @ i # is"
      "map (\<lambda>i. (bi_name i, bi_offset i, bi_size i)) new =
         map (\<lambda>e. (take 31 (be_name e), be_offset e, be_vsize e)) (filter (\<lambda>e. be_type e \<noteq> 0 \<and> be_name e \<noteq> bootdir_directory) es)"
      by blast
    have t: "t = s\<lparr>boot_inode_max := boot_inode_max s + 1\<rparr>" "bi_name i = take 31 (be_name e)" "bi_offset i = be_offset e"
      "bi_size i = be_vsize e" "bi_ino i = boot_inode_max s"
      using i by (auto simp: bootfs_inew_def)
    have "\<exists>m. s' = s\<lparr>boot_inode_max := m\<rparr>" using IH t(1) by auto
    moreover have "distinct (map bi_ino is')" if "distinct (map bi_ino is)" "\<forall>i \<in> set is. bi_ino i < boot_inode_max s"
    proof -
      have "distinct (map bi_ino (i # is))" "\<forall>j \<in> set (i # is). bi_ino j < boot_inode_max t" using that t by force+
      with IH show ?thesis by blast
    qed
    ultimately show ?thesis using new t True by (intro conjI impI exI[of _ "i # new"]) auto
  next
    case False
    then have "bootfs_entries (e # es) is s = bootfs_entries es is s" by auto
    with Cons False show ?thesis by auto
  qed
next
  case Nil
  have "s = s\<lparr>boot_inode_max := boot_inode_max s\<rparr>" by simp
  with Nil show ?case by (simp, blast)
qed

text \<open>The inodes of \<open>.\<close> and \<open>..\<close>, which are made first.\<close>

definition dots :: "bootfs_inode list" where
  "dots = [\<lparr>bi_ino = 0, bi_offset = 0, bi_size = 0, bi_name = dot_name\<rparr>, \<lparr>bi_ino = 1, bi_offset = 0, bi_size = 0, bi_name = dotdot_name\<rparr>]"

lemma start_root:
  "\<exists>s r sr. (do { (_, s) \<leftarrow> vfs_mount [slash] (fs_name Rootfs) (start0 bes mem); (_, s) \<leftarrow> vfs_mkdir boot_path s; Some s }) = Some s \<and>
     fs_drivers s = [Rootfs, Bootfs] \<and> mount_list s = [r] \<and> supers s r = Some sr \<and> sb_dir sr = [slash] \<and>
     0 < r \<and> r < heap_top s \<and> boot_inode_max s = 0 \<and> boot_dir s = bes \<and> boot_mem s = mem \<and>
     conn_table s = hashtable_new (3 / 4)"
  by (simp add: start0_def vfs_mount_def fs_name_def malloc_def vops_def rootfs_vnode_ops_def rootfs_mount_def vget_def
     rootfs_inew_def rootfs_read_vnode_def Let_def vfs_mkdir_def fs_find_def boot_path_def strncmp_def rootfs_mkdir_def)


lemma mount_boot:
  assumes s: "fs_drivers s = [Rootfs, Bootfs]" "mount_list s = [r]" "supers s r = Some sr" "sb_dir sr = [slash]"
    "0 < r" "r < heap_top s" "boot_inode_max s = 0"
  shows "\<exists>v new. vfs_mount boot_path (fs_name Bootfs) s = Some (0, v) \<and> boot_mounted v (rev new @ dots) \<and> boot_mem v = boot_mem s \<and>
    conn_table v = conn_table s \<and>
    map (\<lambda>i. (bi_name i, bi_offset i, bi_size i)) new =
     map (\<lambda>e. (take 31 (be_name e), be_offset e, be_vsize e)) (filter (\<lambda>e. be_type e \<noteq> 0 \<and> be_name e \<noteq> bootdir_directory) (boot_dir s))"
proof -
  define b where "b = heap_top s"
  define s1 where "s1 = s\<lparr>heap_top := b + 1, supers := (supers s)(b \<mapsto> \<lparr>sb_dir = boot_path, sb_root = 0, sb_vops = Bootfs, sb_data = Root_data []\<rparr>), boot_inode_max := 2\<rparr>"
  obtain "is" s2 where e: "bootfs_entries (boot_dir s) [hd dots, dots ! 1] s1 = (is, s2)" by (cases "bootfs_entries (boot_dir s) [hd dots, dots ! 1] s1")
  from bootfs_entries_spec[OF e] obtain m new where m: "s2 = s1\<lparr>boot_inode_max := m\<rparr>" "distinct (map bi_ino is)" 
   "is = rev new @ [hd dots, dots ! 1]"
    "map (\<lambda>i. (bi_name i, bi_offset i, bi_size i)) new =
     map (\<lambda>e. (take 31 (be_name e), be_offset e, be_vsize e)) (filter (\<lambda>e. be_type e \<noteq> 0 \<and> be_name e \<noteq> bootdir_directory) (boot_dir s))"
    by (auto simp: dots_def s1_def)
  have e': "bootfs_entries (boot_dir s) [\<lparr>bi_ino = 0, bi_offset = 0, bi_size = 0, bi_name = take 31 dot_name\<rparr>,
      \<lparr>bi_ino = 1, bi_offset = 0, bi_size = 0, bi_name = take 31 dotdot_name\<rparr>] s1 = (is, s2)"
    using e by (simp add: dots_def dot_name_def dotdot_name_def)
  define sb where "sb = \<lparr>sb_dir = boot_path, sb_root = 0, sb_vops = Bootfs, sb_data = Boot_data is\<rparr>"
  define s3 where "s3 = s2\<lparr>supers := (supers s2)(b \<mapsto> sb)\<rparr>"
  have "\<exists>n. vget b 0 s3 = Some (b + 1, s3\<lparr>heap_top := b + 2, vnodes := (vnodes s3)(b + 1 \<mapsto> n)\<rparr>) \<and> v_vnid n = 0 \<and> v_sb n = b"
    by (cases "find_place (\<lambda>i. bi_ino i = 0) is"; intro exI[of _ "\<lparr>v_vnid = 0, v_refcount = 1, v_sb = b, v_data = find_place (\<lambda>i. bi_ino i = 0) is\<rparr>"])
      (simp_all add: vget_def malloc_def bootfs_read_vnode_def s3_def sb_def s1_def m(1) Let_def)
  then obtain n where n: "vget b 0 s3 = Some (b + 1, s3\<lparr>heap_top := b + 2, vnodes := (vnodes s3)(b + 1 \<mapsto> n)\<rparr>)" "v_vnid n = 0" "v_sb n = b"
    by blast
  let ?v = "s3\<lparr>heap_top := b + 2, vnodes := (vnodes s3)(b + 1 \<mapsto> n), supers := (supers s3)(b \<mapsto> sb\<lparr>sb_root := b + 1\<rparr>), mount_list := [b, r]\<rparr>"
  have "vfs_mount boot_path (fs_name Bootfs) s = Some (0, ?v)"
    using s(1,2,7) e' n(1) by (simp add: vfs_mount_def fs_name_def malloc_def vops_def bootfs_vnode_ops_def bootfs_mount_def bootfs_inew_def
        s1_def b_def s3_def sb_def m(1))
  moreover have "boot_mounted ?v is"
    using s m(2) n by (auto simp: boot_mounted_def s3_def sb_def s1_def m(1) b_def)
  moreover have "boot_mem ?v = boot_mem s \<and> conn_table ?v = conn_table s \<and> is = rev new @ dots"
    using m(3) by (simp add: s3_def s1_def m(1) dots_def)
  ultimately show ?thesis using m(4) by (intro exI[of _ ?v] exI[of _ new]) simp
qed

text \<open>\<open>/boot\<close> is mounted with the files of the directory, the last one first.\<close>

lemma vfs_start_boot:
  "\<exists>v new. vfs_start bes mem = Some v \<and> boot_mounted v (rev new @ dots) \<and> boot_mem v = mem \<and> conn_table v = hashtable_new (3 / 4) \<and>
    map (\<lambda>i. (bi_name i, bi_offset i, bi_size i)) new =
     map (\<lambda>e. (take 31 (be_name e), be_offset e, be_vsize e)) (filter (\<lambda>e. be_type e \<noteq> 0 \<and> be_name e \<noteq> bootdir_directory) bes)"
proof -
  obtain s r sr where s: "(do { (_, s) \<leftarrow> vfs_mount [slash] (fs_name Rootfs) (start0 bes mem); (_, s) \<leftarrow> vfs_mkdir boot_path s; Some s }) = Some s"
     "fs_drivers s = [Rootfs, Bootfs]" "mount_list s = [r]" "supers s r = Some sr" "sb_dir sr = [slash]"
     "0 < r" "r < heap_top s" "boot_inode_max s = 0" and b: "boot_dir s = bes" "boot_mem s = mem" "conn_table s = hashtable_new (3 / 4)"
    using start_root[of bes mem] by blast
  have "vfs_start bes mem = do { s \<leftarrow> (do { (_, s) \<leftarrow> vfs_mount [slash] (fs_name Rootfs) (start0 bes mem); (_, s) \<leftarrow> vfs_mkdir boot_path s; Some s });
      (_, s) \<leftarrow> vfs_mount boot_path (fs_name Bootfs) s; Some s }"
    by (simp add: vfs_start_def fs_register_def fs_name_def start0_def split_def)
  then have "vfs_start bes mem = do { (_, s) \<leftarrow> vfs_mount boot_path (fs_name Bootfs) s; Some s }"
    unfolding s(1) by simp
  with mount_boot[OF s(2-8)] b show ?thesis by auto
qed

section \<open>The first client\<close>

lemma first_client:
  "\<exists>t. hashtable_insert (hashtable_new ml) k d n = Some t \<and> hashtable_lookup t k = Some (d, n)" if "0 \<le> ml"
proof -
  define i where "i = hash_key k 0"
  have i: "i < length (fresh_table 0)" by (simp add: i_def hash_key_def table_size_def fresh_table_def)
  then have f: "list_get (fresh_table 0) i = Some (fresh_table 0 ! i)" "\<not> valid (fresh_table 0 ! i)" "\<not> dirty (fresh_table 0 ! i)"
    by (simp_all add: list_get_def fresh_table_def free_node_def)
  have ol: "\<not> over_load (hashtable_new ml)" using that by (simp add: over_load_def hashtable_new_def not_less)
  have ins: "hashtable_insert t k d n = insert_depth (Suc 26) t k d n" for t by (simp add: hashtable_insert_def)
  let ?n = "\<lparr>valid = True, dirty = False, key = k, dsize = n, data = d\<rparr>"
  have "hashtable_insert (hashtable_new ml) k d n = Some ((hashtable_new ml)\<lparr>table := (fresh_table 0)[i := ?n], used := 1\<rparr>)"
    using f i ol unfolding ins insert_depth.simps by (simp add: hashtable_new_def place_node_def list_put_def i_def[symmetric])
  moreover have "find_slot ((fresh_table 0)[i := ?n]) sz c k i = Some (Some i)" for sz c
    using i by (subst find_slot.simps) (simp add: list_get_def)
  ultimately show ?thesis using i by (simp add: hashtable_lookup_def hashtable_new_def i_def[symmetric])
qed

text \<open>The first client that connects.\<close>

lemma openconn_lemma:
  assumes m: "boot_mounted v is" and "conn_table v = hashtable_new (3 / 4)"
  shows "\<exists>v' c sz cl. serve port \<lparr>vcmd = VFS_OPENCONN, vdata = a # as\<rparr> names jk er pp v = Some ([Res (reply_of 0 [0 \<mapsto> pp])], v') \<and>
    boot_mounted v' is \<and> boot_mem v' = boot_mem v \<and> hashtable_lookup (conn_table v') port = Some (c, sz) \<and>
    clients v' c = Some cl \<and> find_place (\<lambda>f. f = 0) (ofiles cl) = Some 0"
proof -
  obtain t where t: "hashtable_insert (hashtable_new (3 / 4)) port (heap_top v) 0 = Some t" "hashtable_lookup t port = Some (heap_top v, 0)"
    using first_client[of "3 / 4" port "heap_top v" 0] by auto
  have "find_place (\<lambda>f. f = 0) (replicate MAX_FDS (0 :: addr)) = Some 0" by (simp add: MAX_FDS_def replicate_Suc[of 255, simplified])
  with m t show ?thesis
    by (simp add: serve_def arg_def list_get_def vfs_openconn_def malloc_def assms(2) boot_mounted_def)
qed
end
