(* ===== verification/NetBoot.thy ===== *)
theory NetBoot
  imports LibcString
begin

text \<open>
  The network boot loader (\<open>netboot/netboot.c\<close>). It answers ARP requests, asks for its own
  address by RARP, and takes an image in blocks of 1024 bytes over UDP: a packet \<open>LOAD\<close>
  stores its block above the address 1 M and is acknowledged, a packet \<open>EXEC\<close> jumps into
  the image. A frame is the list of its bytes and the casts to \<open>udp_packet\<close> and so on are
  accesses at the offsets of the packed structures (\<open>net.h\<close>, \<open>netboot.h\<close>); an access behind
  the end of a frame is \<open>None\<close>. What the loader prints is left out.
\<close>

section \<open>Bytes in frames\<close>

definition get_bytes :: "u8 list \<Rightarrow> nat \<Rightarrow> nat \<Rightarrow> u8 list option" where
  "get_bytes b i n = (if i + n \<le> length b then Some (take n (drop i b)) else None)"

text \<open>A load of a little-endian \<open>unsigned short\<close>, its store, and the macro \<open>ntohs\<close> (and \<open>htons\<close>).\<close>

definition le16 :: "u8 list \<Rightarrow> nat \<Rightarrow> nat option" where
  "le16 b i = do { l \<leftarrow> list_get b i; h \<leftarrow> list_get b (i + 1); Some (unat l + 256 * unat h) }"

definition put16 :: "nat \<Rightarrow> u8 list" where
  "put16 n = [of_nat n, of_nat (n div 256)]"

definition ntohs :: "nat \<Rightarrow> nat" where
  "ntohs n = n div 256 mod 256 + (n mod 256) * 256"

text \<open>The loop of \<open>ipchksum\<close> over \<open>n\<close> words; the sum never leaves 16 bits.\<close>

primrec ipchksum_loop :: "u8 list \<Rightarrow> nat \<Rightarrow> nat \<Rightarrow> nat \<Rightarrow> nat option" where
  "ipchksum_loop b i 0 acc = Some acc"
| "ipchksum_loop b i (Suc n) acc = do {
     w \<leftarrow> le16 b i;
     let acc = acc + w;
     ipchksum_loop b (i + 2) n (if acc > 65535 then acc - 65535 else acc) }"

definition ipchksum :: "u8 list \<Rightarrow> nat \<Rightarrow> nat \<Rightarrow> nat option" where
  "ipchksum b i len = do { acc \<leftarrow> ipchksum_loop b i (len div 2) 0; Some (65535 - acc mod 65536) }"

text \<open>\<open>memcpy\<close> to an address of the machine.\<close>

primrec store_bytes :: "(nat \<Rightarrow> u8) \<Rightarrow> nat \<Rightarrow> u8 list \<Rightarrow> nat \<Rightarrow> u8" where
  "store_bytes m a [] = m"
| "store_bytes m a (b # bs) = store_bytes (m(a := b)) (a + 1) bs"

section \<open>The state\<close>

text \<open>
  \<open>nb_ip\<close> are the bytes that \<open>ip\<close> points to, \<open>ip_ptr\<close> the four bytes of the pointer
  \<open>ip\<close> itself. \<open>sent\<close> are the frames handed to the network card. \<open>started\<close> holds the
  address and the argument of the call of the image, from which the loader does not return.
\<close>

record nboot =
  got_server :: bool
  server_ip :: "u8 list"
  server_mac :: "u8 list"
  ip_id :: nat
  nb_ip :: "u8 list"
  ip_ptr :: "u8 list"
  prom :: "u8 list"
  got_ip :: bool
  nb_reset :: bool
  param :: "u8 list"
  linebuf :: "u8 list"
  lp :: nat
  nb_mem :: "nat \<Rightarrow> u8"
  sent :: "u8 list list"
  started :: "(nat \<times> u8 list) option"

definition nic_send_packet :: "u8 list \<Rightarrow> nboot \<Rightarrow> nboot" where
  "nic_send_packet f s = s\<lparr>sent := sent s @ [f]\<rparr>"

abbreviation NETBOOT_BASE :: nat where "NETBOOT_BASE \<equiv> 0x100000"
abbreviation NETBOOT_PORT :: nat where "NETBOOT_PORT \<equiv> 4242"

section \<open>The handlers\<close>

text \<open>
  The reply in \<open>nbr\<close>: first the header of the IP packet with the checksum 0, then the whole
  frame. The macro in \<open>ntohs(id++)\<close> evaluates its argument twice, in an order that C leaves
  open; here from the left.
\<close>

definition reply_header :: "nat \<Rightarrow> nboot \<Rightarrow> u8 list" where
  "reply_header chk s =
     [0x45, 0] @ put16 (ntohs (20 + 8 + 8)) @
     put16 (ip_id s div 256 mod 256 + ((ip_id s + 1) mod 256) * 256) @ put16 0 @ [128, 17] @
     put16 chk @ ip_ptr s @ server_ip s"

definition make_reply :: "u8 list \<Rightarrow> nboot \<Rightarrow> (u8 list \<times> nboot) option" where
  "make_reply b s = do {
     src \<leftarrow> get_bytes b 34 2;
     dst \<leftarrow> get_bytes b 36 2;
     blk \<leftarrow> get_bytes b 44 2;
     chk \<leftarrow> ipchksum (reply_header 0 s) 0 20;
     Some (server_mac s @ take 6 (prom s) @ put16 (ntohs 0x0800) @ reply_header chk s @
             dst @ src @ put16 (ntohs (8 + 4)) @ put16 0 @ put16 (ntohs 3) @ blk,
           s\<lparr>ip_id := ip_id s + 2\<rparr>) }"

text \<open>
  \<open>handle_udp\<close>. The image starts with the boot directory; \<open>be_code_ventr\<close> of its second
  entry is at the offset 116.
\<close>

definition mem32 :: "(nat \<Rightarrow> u8) \<Rightarrow> nat \<Rightarrow> nat" where
  "mem32 m a = unat (m a) + 256 * unat (m (a + 1)) + 65536 * unat (m (a + 2)) + 16777216 * unat (m (a + 3))"

definition exec_image :: "nboot \<Rightarrow> nboot" where
  "exec_image s = s\<lparr>started := Some ((mem32 (nb_mem s) (NETBOOT_BASE + 116) + 0x1000 + NETBOOT_BASE) mod 2 ^ 32,
     if hd (param s) \<noteq> 0 then param s else [105, 112, 61] @ nb_ip s @ [0])\<rparr>"

definition learn_server :: "u8 list \<Rightarrow> nboot \<Rightarrow> nboot option" where
  "learn_server b s =
     (if got_server s then Some s
      else do {
        mac \<leftarrow> get_bytes b 6 6;
        addr \<leftarrow> get_bytes b 26 4;
        Some (s\<lparr>server_mac := mac, server_ip := addr, got_server := True\<rparr>) })"

definition handle_udp :: "u8 list \<Rightarrow> nboot \<Rightarrow> nboot option" where
  "handle_udp b s = do {
     port \<leftarrow> le16 b 36;
     if ntohs port \<noteq> NETBOOT_PORT then Some s
     else do {
       cmd \<leftarrow> le16 b 42;
       blk \<leftarrow> le16 b 44;
       let addr = ntohs blk * 1024 + NETBOOT_BASE;
       if ntohs cmd \<noteq> 1 \<and> ntohs cmd \<noteq> 2 then Some s
       else do {
         s \<leftarrow> learn_server b s;
         s \<leftarrow> (if ntohs cmd = 1
               then do { d \<leftarrow> get_bytes b 46 1024; Some (s\<lparr>nb_mem := store_bytes (nb_mem s) addr d\<rparr>) }
               else Some s);
         (nbr, s) \<leftarrow> make_reply b s;
         if ntohs cmd = 2 then Some (exec_image s) else Some (nic_send_packet nbr s) } } }"

definition handle_ip :: "u8 list \<Rightarrow> nboot \<Rightarrow> nboot option" where
  "handle_ip b s = do {
     dst \<leftarrow> get_bytes b 30 4;
     if dst = nb_ip s then do {
       chk \<leftarrow> ipchksum b 14 20;
       if chk \<noteq> 0 then Some s
       else do {
         proto \<leftarrow> list_get b 23;
         if proto = 17 then handle_udp b s else Some s } }
     else Some s }"

text \<open>The frames with ARP and RARP packets, which have the same form.\<close>

definition arp_frame :: "u8 list \<Rightarrow> u8 list \<Rightarrow> nat \<Rightarrow> nat \<Rightarrow> u8 list \<Rightarrow> u8 list \<Rightarrow> u8 list \<Rightarrow> u8 list \<Rightarrow> u8 list" where
  "arp_frame dst src type op enet_sender ip_sender enet_target ip_target =
     dst @ src @ put16 (ntohs type) @ put16 (ntohs 1) @ put16 (ntohs 0x0800) @ [6, 4] @ put16 (ntohs op) @
     enet_sender @ ip_sender @ enet_target @ ip_target"

definition issue_rarp_request :: "nboot \<Rightarrow> nboot" where
  "issue_rarp_request s =
     (let p = take 6 (prom s); bcast = replicate 6 255
      in nic_send_packet (arp_frame bcast p 0x8035 3 p (take 4 bcast) p (take 4 bcast)) s)"

definition handle_rarp :: "u8 list \<Rightarrow> nboot \<Rightarrow> nboot option" where
  "handle_rarp b s = do {
     op \<leftarrow> le16 b 20;
     if ntohs op = 4 then do {
       mac \<leftarrow> get_bytes b 32 6;
       if mac = take 6 (prom s) then do {
         x \<leftarrow> get_bytes b 38 4;
         if x \<noteq> nb_ip s then Some (s\<lparr>nb_ip := x, got_ip := True, nb_reset := True\<rparr>) else Some s }
       else Some s }
     else Some s }"

definition handle_arp :: "u8 list \<Rightarrow> nboot \<Rightarrow> nboot option" where
  "handle_arp b s = do {
     op \<leftarrow> le16 b 20;
     if ntohs op = 1 then do {
       x \<leftarrow> get_bytes b 38 4;
       if x = nb_ip s then do {
         src \<leftarrow> get_bytes b 6 6;
         enet_sender \<leftarrow> get_bytes b 22 6;
         ip_sender \<leftarrow> get_bytes b 28 4;
         let p = take 6 (prom s);
         Some (nic_send_packet (arp_frame src p 0x0806 2 p (nb_ip s) enet_sender ip_sender) s) }
       else Some s }
     else Some s }"

definition receive :: "u8 list \<Rightarrow> nboot \<Rightarrow> nboot option" where
  "receive b s = do {
     t0 \<leftarrow> list_get b 12;
     t1 \<leftarrow> list_get b 13;
     if t0 = 0x80 \<and> t1 = 0x35 then handle_rarp b s
     else if t0 \<noteq> 0x08 then Some s
     else if t1 = 0x06 then handle_arp b s
     else if t1 = 0x00 then handle_ip b s
     else Some s }"

section \<open>The command line\<close>

text \<open>The inner loop of \<open>read_ip\<close>: the value before the next dot, and the rest of the string.\<close>

fun read_octet :: "u8 list \<Rightarrow> int \<Rightarrow> (int \<times> u8 list) option" where
  "read_octet [] v = None"
| "read_octet (c # cs) v = (if c = 0 \<or> c = 46 then Some (v, c # cs) else read_octet cs (v * 10 + sint c - 48))"

primrec read_ip_loop :: "nat \<Rightarrow> u8 list \<Rightarrow> u8 list \<Rightarrow> nat \<Rightarrow> u8 list option" where
  "read_ip_loop 0 s ip k = Some ip"
| "read_ip_loop (Suc i) s ip k = do {
     (v, s) \<leftarrow> read_octet s 0;
     ip \<leftarrow> list_put ip k (of_int v);
     if hd s = 0 then Some ip else read_ip_loop i (tl s) ip (k + 1) }"

definition read_ip :: "u8 list \<Rightarrow> u8 list \<Rightarrow> u8 list option" where
  "read_ip s ip = read_ip_loop 4 s ip 0"

definition nb_option :: "u8 list \<Rightarrow> u8 list \<Rightarrow> nboot \<Rightarrow> nboot option" where
  "nb_option lhs rhs s =
     (if lhs = [105, 112] then do { ip \<leftarrow> read_ip (rhs @ [0]) (nb_ip s); Some (s\<lparr>nb_ip := ip\<rparr>) } else Some s)"

text \<open>
  \<open>parse\<close>. \<open>lhs\<close> and \<open>rhs\<close> are the bytes from those pointers up to \<open>p\<close>, which the code ends
  with a 0 in place. A \<open>char\<close> is signed. The first byte of a left side is looked at by the
  case \<open>LHS\<close> in the same turn.
\<close>

datatype pstate = SKIP | LHS | RHS

fun parse_loop :: "pstate \<Rightarrow> u8 list \<Rightarrow> u8 list \<Rightarrow> u8 list \<Rightarrow> nboot \<Rightarrow> nboot option" where
  "parse_loop st lhs rhs [] s = None"
| "parse_loop st lhs rhs (c # cs) s =
     (if c = 0 then if st = RHS then nb_option lhs rhs s else Some s
      else case st of
        SKIP \<Rightarrow> if 32 < sint c
                then if c = 61 then parse_loop RHS [] [] cs s else parse_loop LHS [c] [] cs s
                else parse_loop SKIP lhs rhs cs s
      | LHS \<Rightarrow> if c = 61 then parse_loop RHS lhs [] cs s else parse_loop LHS (lhs @ [c]) rhs cs s
      | RHS \<Rightarrow> if sint c \<le> 32
               then do { s \<leftarrow> nb_option lhs rhs s; parse_loop SKIP lhs rhs cs s }
               else parse_loop RHS lhs (rhs @ [c]) cs s)"

definition nb_parse :: "u8 list \<Rightarrow> nboot \<Rightarrow> nboot option" where
  "nb_parse p s = parse_loop SKIP [] [] p s"

text \<open>\<open>command\<close> gets the line without its prompt; the result is whether the line was \<open>go\<close>.\<close>

fun copy_param :: "u8 list \<Rightarrow> u8 list \<Rightarrow> nat \<Rightarrow> u8 list option" where
  "copy_param [] p k = None"
| "copy_param (c # cs) p k = (if c = 0 then list_put p k 0 else do { p \<leftarrow> list_put p k c; copy_param cs p (k + 1) })"

definition nb_command :: "u8 list \<Rightarrow> nboot \<Rightarrow> (bool \<times> nboot) option" where
  "nb_command cmd s =
     (if take 3 cmd = [103, 111, 0] then Some (True, s)
      else if take 5 cmd = [98, 111, 111, 116, 61] then do {
        p \<leftarrow> copy_param (drop 5 cmd) (param s) 0;
        Some (False, s\<lparr>param := p\<rparr>) }
      else do { s \<leftarrow> nb_parse cmd s; Some (False, s) })"

text \<open>The line editor. \<open>con_puts\<close> shows the line up to its terminator, which has to be in it.\<close>

definition show_line :: "nboot \<Rightarrow> nboot option" where
  "show_line s = do { strlen (linebuf s); Some s }"

definition nb_newline :: "nboot \<Rightarrow> nboot option" where
  "nb_newline s = show_line (s\<lparr>linebuf := [110, 101, 116, 98, 111, 111, 116, 62, 32] @ replicate 70 32 @ [0], lp := 9\<rparr>)"

definition nb_keypress :: "u8 \<Rightarrow> nboot \<Rightarrow> (bool \<times> nboot) option" where
  "nb_keypress key s =
     (if key = 27 then do {
        l \<leftarrow> memset (linebuf s) 9 32 70;
        s \<leftarrow> show_line (s\<lparr>linebuf := l, lp := 9\<rparr>);
        Some (False, s) }
      else if key = 13 then do {
        l \<leftarrow> list_put (linebuf s) (lp s) 0;
        (go, s) \<leftarrow> nb_command (drop 9 l) (s\<lparr>linebuf := l\<rparr>);
        if go then Some (True, s)
        else do { s \<leftarrow> nb_newline s; s \<leftarrow> show_line s; Some (False, s) } }
      else if key = 8 then
        if lp s > 9 then do {
          l \<leftarrow> list_put (linebuf s) (lp s - 1) 32;
          s \<leftarrow> show_line (s\<lparr>linebuf := l, lp := lp s - 1\<rparr>);
          Some (False, s) }
        else do { s \<leftarrow> show_line s; Some (False, s) }
      else if lp s < 79 then do {
        l \<leftarrow> list_put (linebuf s) (lp s) key;
        s \<leftarrow> show_line (s\<lparr>linebuf := l, lp := lp s + 1\<rparr>);
        Some (False, s) }
      else do { s \<leftarrow> show_line s; Some (False, s) })"

text \<open>One scan code from the keyboard in \<open>console\<close>; \<open>shift\<close> is its local variable.\<close>

definition str_bytes :: "string \<Rightarrow> u8 list" where
  "str_bytes cs = map (\<lambda>c. of_nat (of_char c)) cs"

definition nb_ScanTable :: "u8 list" where
  "nb_ScanTable = [32, 27] @ str_bytes ''1234567890-='' @ [8, 9] @ str_bytes ''qwertyuiop[]'' @ [13, 32] @
     str_bytes ''asdfghjkl;'' @ [39, 126, 32, 92] @ str_bytes ''zxcvbnm,./     ''"

definition nb_ShiftTable :: "u8 list" where
  "nb_ShiftTable = [32, 27] @ str_bytes ''!@#$%^&*()_+'' @ [32, 32] @ str_bytes ''QWERTYUIOP{}'' @ [13, 32] @
     str_bytes ''ASDFGHJKL:'' @ [34, 126, 32, 124] @ str_bytes ''ZXCVBNM<>?     ''"

definition console_key :: "nat \<Rightarrow> bool \<Rightarrow> nboot \<Rightarrow> (bool \<times> bool \<times> nboot) option" where
  "console_key key shift s =
     (if key = 42 \<or> key = 54 then Some (False, True, s)
      else if key = 42 + 128 \<or> key = 54 + 128 then Some (False, False, s)
      else if key \<ge> 128 then Some (False, shift, s)
      else if key < 59 then do {
        c \<leftarrow> list_get (if shift then nb_ShiftTable else nb_ScanTable) key;
        (go, s) \<leftarrow> nb_keypress c s;
        Some (go, shift, s) }
      else Some (False, shift, s))"

text \<open>\<open>console\<close> on the scan codes that the keyboard gives; it returns at \<open>go\<close>.\<close>

primrec console_keys :: "nat list \<Rightarrow> bool \<Rightarrow> nboot \<Rightarrow> (bool \<times> nboot) option" where
  "console_keys [] shift s = Some (False, s)"
| "console_keys (k # ks) shift s = do {
     (go, shift, s) \<leftarrow> console_key k shift s;
     if go then Some (True, s) else console_keys ks shift s }"

definition nb_console :: "nat list \<Rightarrow> nboot \<Rightarrow> (bool \<times> nboot) option" where
  "nb_console ks s = do { s \<leftarrow> nb_newline s; console_keys ks False s }"

text \<open>
  The start of \<open>main\<close> up to the loop that waits for frames. \<open>p\<close> is the address PROM of the
  card, \<open>ptr\<close> the address of the bytes at \<open>ip\<close>, \<open>m\<close> the memory.
\<close>

definition nboot0 :: "u8 list \<Rightarrow> u8 list \<Rightarrow> (nat \<Rightarrow> u8) \<Rightarrow> nboot" where
  "nboot0 p ptr m = \<lparr>got_server = False, server_ip = replicate 4 0, server_mac = replicate 6 0, ip_id = 1,
     nb_ip = replicate 4 0, ip_ptr = ptr, prom = p, got_ip = False, nb_reset = False, param = replicate 80 0,
     linebuf = replicate 80 0, lp = 0, nb_mem = m, sent = [], started = None\<rparr>"

definition netboot_main :: "u8 list \<Rightarrow> u8 list \<Rightarrow> (nat \<Rightarrow> u8) \<Rightarrow> nboot option" where
  "netboot_main p ptr m = do {
     s \<leftarrow> nb_parse (str_bytes ''ip=0.0.0.0'' @ [0]) (nboot0 p ptr m);
     let s = s\<lparr>nb_ip := replicate 4 10\<rparr>;
     Some (issue_rarp_request (issue_rarp_request (issue_rarp_request s))) }"

end
