(* ===== verification/NetBootHost.thy ===== *)
theory NetBootHost
  imports NetBoot
begin

text \<open>
  The other end of the network boot: the tool on the host (\<open>util/netboot.c\<close>), which sends a
  file block by block and goes on to the next when the acknowledgement of the last one has
  come, and the step relation of both programs with a network between them that may lose,
  repeat and reorder packets.
\<close>

section \<open>The host\<close>

text \<open>
  \<open>Ready\<close> is the label \<open>retry\<close>, \<open>Waiting\<close> the call of \<open>select\<close>. \<open>h_rest\<close> is what is not yet
  read of the file, \<open>h_data\<close> the field \<open>data\<close> of \<open>nb\<close>, \<open>h_i\<close> the number of the block,
  \<open>h_sent\<close> the payloads that were sent.
\<close>

datatype hphase = Ready | Waiting | Finished

record host =
  h_rest :: "u8 list"
  h_data :: "u8 list"
  h_i :: nat
  h_phase :: hphase
  h_sent :: "u8 list list"

text \<open>\<open>sendto\<close> of \<open>nb\<close> with a command and the number of the block.\<close>

definition nb_payload :: "nat \<Rightarrow> nat \<Rightarrow> u8 list \<Rightarrow> u8 list" where
  "nb_payload cmd blk d = put16 (ntohs cmd) @ put16 (ntohs blk) @ d"

text \<open>
  The head of the loop. A \<open>read\<close> from a file fills \<open>data\<close> up to its size or the end of the
  file; the bytes behind it stay. At the end of the file comes the packet \<open>EXEC\<close>, of which
  only the first 4 bytes are sent.
\<close>

definition host_read :: "host \<Rightarrow> host" where
  "host_read h =
     (let n = min 1024 (length (h_rest h)) in
      if n > 0
      then h\<lparr>h_data := take n (h_rest h) @ drop n (h_data h), h_rest := drop n (h_rest h), h_phase := Ready\<rparr>
      else h\<lparr>h_phase := Finished, h_sent := h_sent h @ [nb_payload 2 0 []]\<rparr>)"

definition host_start :: "u8 list \<Rightarrow> u8 list \<Rightarrow> host" where
  "host_start file d = host_read \<lparr>h_rest = file, h_data = d, h_i = 0, h_phase = Ready, h_sent = []\<rparr>"

definition host_send :: "host \<Rightarrow> host" where
  "host_send h = h\<lparr>h_phase := Waiting, h_sent := h_sent h @ [nb_payload 1 (h_i h) (h_data h)]\<rparr>"

text \<open>The reply \<open>nbr\<close>: every other one than the acknowledgement of the block leads to \<open>retry\<close>.\<close>

definition host_recv :: "u8 list \<Rightarrow> host \<Rightarrow> host option" where
  "host_recv r h = do {
     cmd \<leftarrow> le16 r 0;
     blk \<leftarrow> le16 r 2;
     if cmd \<noteq> ntohs 3 then Some (h\<lparr>h_phase := Ready\<rparr>)
     else if blk \<noteq> ntohs (h_i h) then Some (h\<lparr>h_phase := Ready\<rparr>)
     else Some (host_read (h\<lparr>h_i := h_i h + 1\<rparr>)) }"

definition host_timeout :: "host \<Rightarrow> host" where
  "host_timeout h = h\<lparr>h_phase := Ready\<rparr>"

section \<open>Both ends and the network\<close>

text \<open>
  \<open>carries ip p f\<close>: the receive buffer \<open>f\<close> holds a frame with a UDP packet to the port of the
  loader at the address \<open>ip\<close>, with a valid header and the payload \<open>p\<close>. Whatever stands
  behind it is left from older frames.
\<close>

definition carries :: "u8 list \<Rightarrow> u8 list \<Rightarrow> u8 list \<Rightarrow> bool" where
  "carries ip p f \<longleftrightarrow> f ! 12 = 0x08 \<and> f ! 13 = 0x00 \<and> get_bytes f 30 4 = Some ip \<and> ipchksum f 14 20 = Some 0 \<and>
     f ! 23 = 17 \<and> le16 f 36 = Some (ntohs NETBOOT_PORT) \<and> get_bytes f 42 (length p) = Some p"

text \<open>
  \<open>foreign f\<close>: any other frame, as long as it is not for the port of the loader.
\<close>

definition foreign :: "u8 list \<Rightarrow> bool" where
  "foreign f \<longleftrightarrow> \<not> (list_get f 12 = Some 0x08 \<and> list_get f 13 = Some 0x00 \<and> list_get f 23 = Some 17 \<and>
     map_option ntohs (le16 f 36) = Some NETBOOT_PORT)"

text \<open>What the host's socket gets of a frame of the loader: the payload, if it is an IP packet.\<close>

definition reply_payload :: "u8 list \<Rightarrow> u8 list option" where
  "reply_payload f = (if get_bytes f 12 2 = Some [0x08, 0x00] then Some (drop 42 f) else None)"

text \<open>
  One step. A packet that was sent can arrive at any later time and any number of times, or
  never. The loader does not take frames any more when it has started the image.
\<close>

inductive net_step :: "host \<times> nboot \<Rightarrow> host \<times> nboot \<Rightarrow> bool" where
  send: "h_phase h = Ready \<Longrightarrow> net_step (h, s) (host_send h, s)"
| timeout: "h_phase h = Waiting \<Longrightarrow> net_step (h, s) (host_timeout h, s)"
| reply: "h_phase h = Waiting \<Longrightarrow> f \<in> set (sent s) \<Longrightarrow> reply_payload f = Some r \<Longrightarrow> host_recv r h = Some h' \<Longrightarrow>
    net_step (h, s) (h', s)"
| arrive: "started s = None \<Longrightarrow> p \<in> set (h_sent h) \<Longrightarrow> carries (nb_ip s) p f \<Longrightarrow> receive f s = Some s' \<Longrightarrow>
    net_step (h, s) (h, s')"
| other: "started s = None \<Longrightarrow> foreign f \<Longrightarrow> receive f s = Some s' \<Longrightarrow> net_step (h, s) (h, s')"

text \<open>
  The states of a boot: the host starts with the file, while the loader waits for frames and
  has sent none with an IP packet. \<open>sized\<close> are the sizes of its arrays.
\<close>

definition sized :: "nboot \<Rightarrow> bool" where
  "sized s \<longleftrightarrow> length (prom s) = 32 \<and> length (ip_ptr s) = 4 \<and> length (server_mac s) = 6 \<and> length (server_ip s) = 4"

definition waiting :: "nboot \<Rightarrow> bool" where
  "waiting s \<longleftrightarrow> sized s \<and> started s = None \<and> (\<forall>f \<in> set (sent s). reply_payload f = None)"

inductive booting :: "u8 list \<Rightarrow> host \<times> nboot \<Rightarrow> bool" for img where
  start: "length d = 1024 \<Longrightarrow> waiting s \<Longrightarrow> booting img (host_start img d, s)"
| step: "booting img c \<Longrightarrow> net_step c c' \<Longrightarrow> booting img c'"

end
