(* ===== verification/NetBootProps.thy ===== *)
theory NetBootProps
  imports NetBootHost
begin

text \<open>
  Properties of the network boot: the checksum of the headers, the line editor, what the
  loader has in memory when it starts the image, and that a boot can always be completed.
\<close>

section \<open>Bytes\<close>

lemma store_bytes_at:
  "store_bytes m a bs x = (if a \<le> x \<and> x < a + length bs then bs ! (x - a) else m x)"
proof (induction bs arbitrary: m a)
  case Nil
  then show ?case by auto
next
  case (Cons b bs)
  have "bs ! (x - Suc a) = (b # bs) ! (x - a)" if "Suc a \<le> x"
    using that by (simp add: nth_Cons' Suc_diff_le)
  then show ?case by (auto simp: Cons.IH)
qed

lemma ntohs_ntohs [simp]: "n < 65536 \<Longrightarrow> ntohs (ntohs n) = n"
  by (simp add: ntohs_def)

lemma ntohs_less [simp]: "ntohs n < 65536"
proof -
  have "n div 256 mod 256 < 256" "n mod 256 < 256" by simp_all
  then show ?thesis unfolding ntohs_def by linarith
qed

lemma le16_put16 [simp]: "n < 65536 \<Longrightarrow> le16 (put16 n @ r) 0 = Some n"
  by (simp add: le16_def put16_def unat_of_nat bind_Some_conv)

lemma le16_put16_2 [simp]: "n < 65536 \<Longrightarrow> le16 (put16 k @ put16 n @ r) 2 = Some n"
  by (simp add: le16_def put16_def unat_of_nat numeral_2_eq_2 bind_Some_conv)

lemma le16_less: "le16 b i = Some n \<Longrightarrow> n < 65536"
proof -
  assume "le16 b i = Some n"
  then obtain l h :: u8 where "n = unat l + 256 * unat h" by (auto simp: le16_def bind_Some_conv)
  moreover have "unat l < 256" "unat h < 256" using unsigned_less[of l] unsigned_less[of h] by simp_all
  ultimately show ?thesis by linarith
qed

lemma get_bytes_Some: "get_bytes b i n = Some x \<longleftrightarrow> i + n \<le> length b \<and> x = take n (drop i b)"
  by (auto simp: get_bytes_def)

lemma get_bytes_nth: "get_bytes b i n = Some x \<Longrightarrow> k < n \<Longrightarrow> i + k < length b \<and> b ! (i + k) = x ! k"
  by (auto simp: get_bytes_def split: if_splits)

lemma get_bytes_le16:
  assumes "get_bytes b i n = Some x" and "k + 2 \<le> n"
  shows "le16 b (i + k) = le16 x k"
  using get_bytes_nth[OF assms(1), of k] get_bytes_nth[OF assms(1), of "k + 1"] assms
  by (auto simp: le16_def get_bytes_def list_get_def split: if_splits)

lemma get_bytes_sub:
  assumes "get_bytes b i n = Some x" and "k + m \<le> n"
  shows "get_bytes b (i + k) m = get_bytes x k m"
  using assms by (auto simp: get_bytes_def drop_take min_def add.commute split: if_splits)

section \<open>The checksum\<close>

text \<open>The loop sums modulo 65535, and stays away from 0 once it has left it.\<close>

lemma ipchksum_loop_SomeI:
  "i + 2 * n \<le> length b \<Longrightarrow> acc < 65536 \<Longrightarrow> \<exists>r. ipchksum_loop b i n acc = Some r \<and> r < 65536"
proof (induction n arbitrary: i acc)
  case (Suc n)
  then obtain w where w: "le16 b i = Some w" by (auto simp: le16_def bind_Some_conv)
  from le16_less[OF w] Suc.prems
  have "(if acc + w > 65535 then acc + w - 65535 else acc + w) < 65536" by auto
  from Suc.IH[OF _ this, of "i + 2"] Suc.prems w show ?case by (simp add: Let_def)
qed simp

text \<open>The value of the loop for the sum \<open>n\<close> of the words: a remainder in \<open>1 .. 65535\<close>, or 0 for 0.\<close>

definition residue :: "nat \<Rightarrow> nat" where
  "residue n = (if n = 0 then 0 else (n - 1) mod 65535 + 1)"

primrec word_sum :: "u8 list \<Rightarrow> nat \<Rightarrow> nat \<Rightarrow> nat" where
  "word_sum b i 0 = 0"
| "word_sum b i (Suc n) = the (le16 b i) + word_sum b (i + 2) n"

lemma mod_once: "x < 2 * n \<Longrightarrow> x mod n = (if x < n then x else x - n)" for n :: nat
  by (simp add: le_mod_geq)

lemma residue_step:
  assumes w: "w < 65536"
  shows "(if residue n + w > 65535 then residue n + w - 65535 else residue n + w) = residue (n + w)"
proof (cases n)
  case 0
  then show ?thesis using w by (simp add: residue_def)
next
  case (Suc k)
  have m: "k mod 65535 < 65535" by simp
  have "(k + w) mod 65535 = (k mod 65535 + w) mod 65535" by (simp add: mod_add_left_eq)
  also have "\<dots> = (if k mod 65535 + w < 65535 then k mod 65535 + w else k mod 65535 + w - 65535)"
    using m w by (intro mod_once) simp
  finally have *: "(k + w) mod 65535 = (if k mod 65535 + w < 65535 then k mod 65535 + w else k mod 65535 + w - 65535)" .
  show ?thesis using Suc unfolding residue_def by (simp add: *) (cases "65534 < k mod 65535 + w"; linarith)
qed

lemma ipchksum_loop_residue:
  "i + 2 * n \<le> length b \<Longrightarrow> ipchksum_loop b i n (residue k) = Some (residue (k + word_sum b i n))"
proof (induction n arbitrary: i k)
  case (Suc n)
  then obtain w where w: "le16 b i = Some w" by (auto simp: le16_def bind_Some_conv)
  have "ipchksum_loop b i (Suc n) (residue k) = ipchksum_loop b (i + 2) n (residue (k + w))"
    using w by (simp add: Let_def residue_step[OF le16_less[OF w]])
  with Suc w show ?case by (simp add: add_ac)
qed simp

lemma residue_less: "residue n \<le> 65535"
proof -
  define m where "m = (n - 1) mod 65535"
  have "m < 65535" by (simp add: m_def)
  then show ?thesis unfolding residue_def m_def[symmetric] by simp
qed

text \<open>The checksum is the sixth of the ten words of a header.\<close>

lemma le16_append: "i + 1 < length a \<Longrightarrow> le16 (a @ b) i = le16 a i"
  by (simp add: le16_def list_get_def nth_append)

lemma le16_append2: "length a \<le> i \<Longrightarrow> le16 (a @ b) i = le16 b (i - length a)"
  by (auto simp: le16_def list_get_def nth_append Suc_diff_le)

lemma word_sum_append: "i + 2 * n \<le> length a \<Longrightarrow> word_sum (a @ b) i n = word_sum a i n"
  by (induction n arbitrary: i) (auto simp: le16_append)

lemma word_sum_drop: "length a \<le> i \<Longrightarrow> word_sum (a @ b) i n = word_sum b (i - length a) n"
  by (induction n arbitrary: i) (auto simp: le16_append2 Suc_diff_le)

lemma word_sum_add: "word_sum b i (m + n) = word_sum b i m + word_sum b (i + 2 * m) n"
  by (induction m arbitrary: i) auto

lemma word_sum_field:
  assumes a: "length a = 10" and r: "length r = 8" and n: "n < 65536"
  shows "word_sum (a @ put16 n @ r) 0 10 = word_sum a 0 5 + n + word_sum r 0 4"
proof -
  have "word_sum (a @ put16 n @ r) 0 (5 + (1 + 4)) = word_sum (a @ put16 n @ r) 0 5 +
    (word_sum (a @ put16 n @ r) 10 1 + word_sum (a @ put16 n @ r) 12 4)"
    unfolding word_sum_add by simp
  moreover have "word_sum (a @ put16 n @ r) 0 5 = word_sum a 0 5" using a by (intro word_sum_append) simp
  moreover have "word_sum (a @ put16 n @ r) 10 1 = n" using a n by (simp add: word_sum_drop le16_append2)
  moreover have "word_sum (a @ put16 n @ r) 12 4 = word_sum r 0 4"
    using a word_sum_drop[of "a @ put16 n" 12 r 4] by (simp add: put16_def)
  ultimately show ?thesis by simp
qed

lemma ipchksum_field:
  assumes "length a = 10" and "length r = 8" and "n < 65536"
  shows "ipchksum (a @ put16 n @ r) 0 20 = Some (65535 - residue (word_sum a 0 5 + n + word_sum r 0 4))"
proof -
  have "ipchksum_loop (a @ put16 n @ r) 0 10 (residue 0) = Some (residue (0 + word_sum (a @ put16 n @ r) 0 10))"
    using assms by (intro ipchksum_loop_residue) (simp add: put16_def)
  moreover have "residue k < 65536" for k by (simp add: residue_def)
  ultimately show ?thesis using assms by (simp add: ipchksum_def word_sum_field residue_def[of 0])
qed

lemma header_seal:
  assumes "length a = 10" and "length r = 8"
  shows "\<exists>c. ipchksum (a @ put16 0 @ r) 0 20 = Some c \<and> c < 65536 \<and> ipchksum (a @ put16 c @ r) 0 20 = Some 0 \<and>
    (\<forall>d < 65536. ipchksum (a @ put16 d @ r) 0 20 = Some 0 \<longrightarrow> d = c \<or> {c, d} = {0, 65535})"
proof -
  define k where "k = word_sum a 0 5 + word_sum r 0 4"
  define c where "c = 65535 - residue k"
  have chk: "ipchksum (a @ put16 n @ r) 0 20 = Some (65535 - residue (k + n))" if "n < 65536" for n
    using ipchksum_field[OF assms that] by (simp add: k_def add_ac)
  have res: "residue k = 65535 - c" "c < 65536" "k \<noteq> 0 \<Longrightarrow> c < 65535"
    by (auto simp: c_def residue_def)
  have zero: "residue m = 65535 \<longleftrightarrow> m \<noteq> 0 \<and> 65535 dvd m" for m
    by (cases m) (auto simp: residue_def dvd_eq_mod_eq_0 mod_Suc)
  have passes: "ipchksum (a @ put16 d @ r) 0 20 = Some 0 \<longleftrightarrow> k + d \<noteq> 0 \<and> 65535 dvd k + d" if "d < 65536" for d
    using chk[OF that] zero[of "k + d"] residue_less[of "k + d"] by auto
  have "65535 dvd k + c" "k + c \<noteq> 0"
  proof -
    have "k + c = 65535 * ((k - 1) div 65535 + 1)" if "k \<noteq> 0"
    proof -
      define q where "q = (k - 1) div 65535"
      define m where "m = (k - 1) mod 65535"
      have "k - 1 = q * 65535 + m" "m < 65535" by (simp_all add: q_def m_def)
      moreover have "c = 65535 - (m + 1)" using that by (simp add: c_def residue_def m_def)
      ultimately show ?thesis using that by (simp flip: q_def)
    qed
    then show "65535 dvd k + c" by (cases "k = 0") (simp_all add: c_def residue_def)
    show "k + c \<noteq> 0" by (cases "k = 0") (simp_all add: c_def residue_def)
  qed
  moreover have "d = c \<or> {c, d} = {0, 65535}" if d: "d < 65536" "65535 dvd k + d" for d
  proof -
    have multiple: "x = 0 \<or> x = 65535" if "65535 dvd x" "x \<le> 65535" for x :: nat
      using that dvd_imp_le[of 65535 x] by (cases "x = 0") auto
    have "65535 dvd (k + d) - (k + c)" "65535 dvd (k + c) - (k + d)"
      using \<open>65535 dvd k + c\<close> d(2) by (simp_all only: dvd_diff_nat)
    then have "d - c = 0 \<or> d - c = 65535" "c - d = 0 \<or> c - d = 65535"
      using multiple[of "d - c"] multiple[of "c - d"] d(1) res(2) by auto
    then show ?thesis using d(1) res(2) by auto
  qed
  moreover have "ipchksum (a @ put16 0 @ r) 0 20 = Some c" using chk[of 0] by (simp add: c_def)
  ultimately show ?thesis using res(2) by (intro exI[of _ c]) (simp add: passes)
qed

text \<open>
  C36: A header whose checksum field was filled with the \<open>ipchksum\<close> of the header with 0 in
  the field passes the check of \<open>handle_ip\<close>, for any header, and no other value but the two
  representations of zero, 0 and 65535, could pass in place of it.
\<close>

theorem ipchksum_seals:
  assumes "length a = 10" and "length r = 8"
  shows "\<exists>c. ipchksum (a @ put16 0 @ r) 0 20 = Some c \<and> c < 65536 \<and> ipchksum (a @ put16 c @ r) 0 20 = Some 0 \<and>
    (\<forall>d < 65536. ipchksum (a @ put16 d @ r) 0 20 = Some 0 \<longrightarrow> d = c \<or> {c, d} = {0, 65535})"
  using assms by (rule header_seal)

text \<open>The header is 0x45 to the identification, as the replies of the loader have it.\<close>

theorem ipchksum_seals_witness:
  "\<exists>c. ipchksum ([0x45, 0, 0, 36, 0, 1, 0, 0, 128, 17] @ put16 c @ [10, 0, 0, 1, 10, 0, 0, 2]) 0 20 = Some 0"
  using ipchksum_seals[of "[0x45, 0, 0, 36, 0, 1, 0, 0, 128, 17]" "[10, 0, 0, 1, 10, 0, 0, 2]"] by auto

section \<open>What the loader does with a frame\<close>

text \<open>The part of the state that the network boot is about stays the same in all other handlers.\<close>

definition same_image :: "nboot \<Rightarrow> nboot \<Rightarrow> bool" where
  "same_image s s' \<longleftrightarrow> nb_mem s' = nb_mem s \<and> started s' = started s \<and> (sized s \<longrightarrow> sized s') \<and>
     (\<exists>fs. sent s' = sent s @ fs \<and> (\<forall>f \<in> set fs. reply_payload f = None))"

lemma same_imageI [intro]: "nb_mem s' = nb_mem s \<Longrightarrow> started s' = started s \<Longrightarrow>
  sent s' = sent s \<Longrightarrow> (sized s \<longrightarrow> sized s') \<Longrightarrow> same_image s s'"
  by (simp add: same_image_def)

lemma arp_frame_no_reply:
  "length dst = 6 \<Longrightarrow> length src = 6 \<Longrightarrow> reply_payload (arp_frame dst src 0x0806 op a b c d) = None"
  by (simp add: reply_payload_def arp_frame_def get_bytes_def put16_def ntohs_def)

lemma get_bytes_length: "get_bytes b i n = Some x \<Longrightarrow> length x = n"
  by (auto simp: get_bytes_def split: if_splits)

lemma handle_rarp_same: "handle_rarp b s = Some s' \<Longrightarrow> same_image s s'"
  by (auto simp: handle_rarp_def bind_Some_conv sized_def split: if_splits)

lemma nic_send_same: "reply_payload f = None \<Longrightarrow> same_image s (nic_send_packet f s)"
  by (simp add: same_image_def nic_send_packet_def sized_def)

lemma handle_arp_same:
  assumes "handle_arp b s = Some s'" and "6 \<le> length (prom s)"
  shows "same_image s s'"
proof -
  from assms(1) consider "s' = s" | src es ips where "get_bytes b 6 6 = Some src"
    "s' = nic_send_packet (arp_frame src (take 6 (prom s)) 0x0806 2 (take 6 (prom s)) (nb_ip s) es ips) s"
    by (auto simp: handle_arp_def bind_Some_conv Let_def simp del: get_bytes_Some split: if_splits)
  then show ?thesis
  proof cases
    case 2
    from 2(1) have "length src = 6" by (rule get_bytes_length)
    then show ?thesis
      unfolding 2(2) using assms(2) by (intro nic_send_same arp_frame_no_reply) simp_all
  qed auto
qed

lemma receive_foreign:
  assumes f: "foreign f" and s': "receive f s = Some s'" and p: "6 \<le> length (prom s)"
  shows "same_image s s'"
proof -
  have "same_image s s'" if "handle_ip f s = Some s'" "f ! 12 = 8" "f ! 13 = 0" "13 < length f"
  proof -
    from that(1) consider "s' = s" | "list_get f 23 = Some 17" "handle_udp f s = Some s'"
      by (auto simp: handle_ip_def bind_Some_conv split: if_splits)
    then show ?thesis
    proof cases
      case 2
      with f that have "s' = s"
        by (auto simp: foreign_def handle_udp_def bind_Some_conv split: if_splits)
      then show ?thesis by auto
    qed auto
  qed
  with s' p show ?thesis
    by (auto simp: receive_def bind_Some_conv split: if_splits
        intro: handle_rarp_same handle_arp_same)
qed

text \<open>A packet of the host that arrives.\<close>

lemma carries_D:
  assumes "carries ip p f"
  shows "13 < length f" "get_bytes f 42 (length p) = Some p" "42 + length p \<le> length f"
  using assms by (auto simp: carries_def get_bytes_def split: if_splits)

lemma carries_receive:
  assumes "carries (nb_ip s) p f"
  shows "receive f s = handle_udp f s"
  using assms carries_D[OF assms]
  by (simp add: receive_def handle_ip_def carries_def)

lemma length_put16 [simp]: "length (put16 n) = 2"
  by (simp add: put16_def)

lemma nb_payload_fields:
  assumes "get_bytes f 42 (length (nb_payload cmd blk d)) = Some (nb_payload cmd blk d)" and "cmd < 65536" "blk < 65536"
  shows "le16 f 42 = Some (ntohs cmd)" "le16 f 44 = Some (ntohs blk)" "get_bytes f 44 2 = Some (put16 (ntohs blk))"
    "get_bytes f 46 (length d) = Some d"
proof -
  have len: "length (nb_payload cmd blk d) = 4 + length d" by (simp add: nb_payload_def put16_def)
  show "le16 f 42 = Some (ntohs cmd)"
    using get_bytes_le16[OF assms(1), of 0] by (simp add: len nb_payload_def)
  show "le16 f 44 = Some (ntohs blk)"
    using get_bytes_le16[OF assms(1), of 2] by (simp add: len nb_payload_def)
  show "get_bytes f 44 2 = Some (put16 (ntohs blk))"
    using get_bytes_sub[OF assms(1), of 2 2] by (simp add: len nb_payload_def get_bytes_def put16_def)
  show "get_bytes f 46 (length d) = Some d"
    using get_bytes_sub[OF assms(1), of 4 "length d"] by (simp add: len nb_payload_def get_bytes_def put16_def)
qed

text \<open>The reply to a packet, with its payload behind the 42 bytes of the headers.\<close>

lemma make_reply_payload:
  assumes "make_reply f s = Some (nbr, s')" and "sized s" and "get_bytes f 44 2 = Some (put16 (ntohs j))"
  shows "reply_payload nbr = Some (put16 (ntohs 3) @ put16 (ntohs j)) \<and> s' = s\<lparr>ip_id := ip_id s + 2\<rparr>"
proof -
  from assms(1) obtain src dst blk chk where f: "get_bytes f 34 2 = Some src" "get_bytes f 36 2 = Some dst"
    "get_bytes f 44 2 = Some blk" "s' = s\<lparr>ip_id := ip_id s + 2\<rparr>"
    and nbr: "nbr = server_mac s @ take 6 (prom s) @ put16 (ntohs 0x0800) @ reply_header chk s @
             dst @ src @ put16 (ntohs (8 + 4)) @ put16 0 @ put16 (ntohs 3) @ blk"
    by (auto simp: make_reply_def bind_Some_conv simp del: get_bytes_Some)
  have blk: "blk = put16 (ntohs j)" using f(3) assms(3) by simp
  have len: "length src = 2" "length dst = 2" using f(1,2) by (auto dest: get_bytes_length)
  have "get_bytes nbr 12 2 = Some (put16 (ntohs 0x0800))"
    using assms(2) by (simp add: nbr get_bytes_def sized_def)
  moreover have "drop 42 nbr = put16 (ntohs 3) @ put16 (ntohs j)"
    using assms(2) len by (simp add: nbr blk reply_header_def sized_def)
  moreover have "put16 (ntohs 0x0800) = [8, 0]" by (simp add: put16_def ntohs_def)
  ultimately show ?thesis using f(4) by (simp add: reply_payload_def)
qed

lemma learn_server_sized:
  "learn_server f s = Some s' \<Longrightarrow> sized s \<Longrightarrow> sized s' \<and> nb_mem s' = nb_mem s \<and> started s' = started s \<and> sent s' = sent s"
  by (auto simp: learn_server_def bind_Some_conv sized_def dest: get_bytes_length split: if_splits)

section \<open>The invariant of a boot\<close>

definition block_of :: "u8 list \<Rightarrow> nat \<Rightarrow> u8 list \<Rightarrow> bool" where
  "block_of img j d \<longleftrightarrow> length d = 1024 \<and> (\<forall>k < 1024. 1024 * j + k < length img \<longrightarrow> d ! k = img ! (1024 * j + k))"

definition stored :: "u8 list \<Rightarrow> nboot \<Rightarrow> nat \<Rightarrow> bool" where
  "stored img s j \<longleftrightarrow> (\<forall>k < 1024. 1024 * j + k < length img \<longrightarrow>
     nb_mem s (NETBOOT_BASE + 1024 * j + k) = img ! (1024 * j + k))"

definition payload_ok :: "u8 list \<Rightarrow> host \<Rightarrow> u8 list \<Rightarrow> bool" where
  "payload_ok img h p \<longleftrightarrow>
     (\<exists>j d. p = nb_payload 1 j d \<and> j < 65536 \<and> block_of img j d) \<or> p = nb_payload 2 0 [] \<and> h_phase h = Finished"

definition reply_ok :: "u8 list \<Rightarrow> nboot \<Rightarrow> u8 list \<Rightarrow> bool" where
  "reply_ok img s f \<longleftrightarrow> (\<forall>r. reply_payload f = Some r \<longrightarrow>
     (\<exists>j < 65536. r = put16 (ntohs 3) @ put16 (ntohs j) \<and> stored img s j))"

definition host_ok :: "u8 list \<Rightarrow> host \<Rightarrow> bool" where
  "host_ok img h \<longleftrightarrow>
     (if h_phase h = Finished then length img \<le> 1024 * h_i h \<and> nb_payload 2 0 [] \<in> set (h_sent h)
      else 1024 * h_i h < length img \<and> h_rest h = drop (1024 * (h_i h + 1)) img \<and> block_of img (h_i h) (h_data h))"

definition boot_inv :: "u8 list \<Rightarrow> host \<times> nboot \<Rightarrow> bool" where
  "boot_inv img c \<longleftrightarrow> (case c of (h, s) \<Rightarrow> sized s \<and> host_ok img h \<and> (\<forall>p \<in> set (h_sent h). payload_ok img h p) \<and>
     (\<forall>f \<in> set (sent s). reply_ok img s f) \<and> (\<forall>j < h_i h. stored img s j) \<and>
     (\<forall>entry arg. started s = Some (entry, arg) \<longrightarrow> h_phase h = Finished \<and>
       entry = (mem32 (nb_mem s) (NETBOOT_BASE + 116) + 0x1000 + NETBOOT_BASE) mod 2 ^ 32))"

text \<open>The head of the host's loop, when all blocks before \<open>h_i\<close> are acknowledged.\<close>

lemma host_read_ok:
  assumes rest: "h_rest h = drop (1024 * h_i h) img" and len: "length (h_data h) = 1024"
    and sent: "\<forall>p \<in> set (h_sent h). payload_ok img h p" and phase: "h_phase h \<noteq> Finished"
  shows "host_ok img (host_read h) \<and> (\<forall>p \<in> set (h_sent (host_read h)). payload_ok img (host_read h) p) \<and>
    h_i (host_read h) = h_i h"
proof (cases "1024 * h_i h < length img")
  case False
  then have "host_read h = h\<lparr>h_phase := Finished, h_sent := h_sent h @ [nb_payload 2 0 []]\<rparr>"
    by (simp add: host_read_def rest Let_def)
  with False sent show ?thesis by (auto simp: host_ok_def payload_ok_def)
next
  case True
  define n where "n = min 1024 (length (h_rest h))"
  define d where "d = take n (h_rest h) @ drop n (h_data h)"
  have n: "0 < n" "n \<le> 1024" "n = 1024 \<or> length img = 1024 * h_i h + n"
    using True by (auto simp: n_def rest min_def)
  have read: "host_read h = h\<lparr>h_data := d, h_rest := drop n (h_rest h), h_phase := Ready\<rparr>"
    using n by (simp add: host_read_def d_def n_def Let_def)
  have "d ! k = img ! (1024 * h_i h + k)" if "k < 1024" "1024 * h_i h + k < length img" for k
  proof -
    have "k < n" "n \<le> length (h_rest h)" using that n by (auto simp: n_def)
    then show ?thesis using that by (simp add: d_def nth_append rest)
  qed
  moreover have "length d = 1024" using n len by (simp add: d_def n_def)
  moreover have "drop n (h_rest h) = drop (1024 * (h_i h + 1)) img"
    using n by (auto simp: rest add.commute)
  ultimately show ?thesis
    using True sent phase by (auto simp: read host_ok_def block_of_def payload_ok_def)
qed

lemma storedD:
  assumes "stored img s j" and "x < length img" and "j = x div 1024"
  shows "nb_mem s (NETBOOT_BASE + x) = img ! x"
proof -
  define r where "r = x mod 1024"
  have x: "x = 1024 * j + r" "r < 1024" by (simp_all add: r_def assms(3))
  with assms(1,2) have "nb_mem s (NETBOOT_BASE + 1024 * j + r) = img ! (1024 * j + r)"
    by (simp add: stored_def)
  with x(1) show ?thesis by (simp add: add.assoc)
qed

lemma stored_load:
  assumes "block_of img j d" and "stored img s i"
  shows "stored img (s\<lparr>nb_mem := store_bytes (nb_mem s) (j * 1024 + NETBOOT_BASE) d\<rparr>) i"
  unfolding stored_def
proof (intro allI impI)
  fix k assume k: "k < 1024" "1024 * i + k < length img"
  have d: "length d = 1024" using assms(1) by (simp add: block_of_def)
  show "nb_mem (s\<lparr>nb_mem := store_bytes (nb_mem s) (j * 1024 + NETBOOT_BASE) d\<rparr>) (NETBOOT_BASE + 1024 * i + k) =
    img ! (1024 * i + k)"
  proof (cases "i = j")
    case True
    then show ?thesis using assms(1) k d by (simp add: store_bytes_at block_of_def)
  next
    case False
    then have "i + 1 \<le> j \<or> j + 1 \<le> i" by linarith
    then have "\<not> (j * 1024 \<le> 1024 * i + k \<and> 1024 * i + k < j * 1024 + 1024)"
      using k(1) by (elim disjE) linarith+
    then have "\<not> (j * 1024 + NETBOOT_BASE \<le> NETBOOT_BASE + 1024 * i + k \<and>
        NETBOOT_BASE + 1024 * i + k < j * 1024 + NETBOOT_BASE + length d)"
      unfolding d by linarith
    then have "store_bytes (nb_mem s) (j * 1024 + NETBOOT_BASE) d (NETBOOT_BASE + 1024 * i + k) =
        nb_mem s (NETBOOT_BASE + 1024 * i + k)"
      unfolding store_bytes_at by (rule if_not_P)
    then show ?thesis using assms(2) k by (simp add: stored_def)
  qed
qed

lemma stored_new:
  "block_of img j d \<Longrightarrow> stored img (s\<lparr>nb_mem := store_bytes (nb_mem s) (j * 1024 + NETBOOT_BASE) d\<rparr>) j"
  by (simp add: stored_def store_bytes_at block_of_def)

text \<open>The two commands.\<close>

lemma receive_load:
  assumes c: "carries (nb_ip s) (nb_payload 1 j d) f" and r: "receive f s = Some s'" and j: "j < 65536"
    and d: "length d = 1024" and z: "sized s"
  shows "sized s' \<and> nb_mem s' = store_bytes (nb_mem s) (j * 1024 + NETBOOT_BASE) d \<and> started s' = started s \<and>
    (\<exists>nbr. sent s' = sent s @ [nbr] \<and> reply_payload nbr = Some (put16 (ntohs 3) @ put16 (ntohs j)))"
proof -
  note f = nb_payload_fields[OF carries_D(2)[OF c] _ j]
  have port: "le16 f 36 = Some (ntohs NETBOOT_PORT)" using c by (simp add: carries_def)
  from r carries_receive[OF c] f j d port obtain s1 nbr s3 where s1: "learn_server f s = Some s1"
    and s3: "make_reply f (s1\<lparr>nb_mem := store_bytes (nb_mem s1) (j * 1024 + NETBOOT_BASE) d\<rparr>) = Some (nbr, s3)"
    and s': "s' = nic_send_packet nbr s3"
    by (auto simp: handle_udp_def bind_Some_conv Let_def)
  note s1' = learn_server_sized[OF s1 z]
  have "sized (s1\<lparr>nb_mem := store_bytes (nb_mem s1) (j * 1024 + NETBOOT_BASE) d\<rparr>)"
    using s1' by (simp add: sized_def)
  from make_reply_payload[OF s3 this f(3)] s1' s' show ?thesis by (auto simp: nic_send_packet_def sized_def)
qed

lemma receive_exec:
  assumes c: "carries (nb_ip s) (nb_payload 2 0 []) f" and r: "receive f s = Some s'" and z: "sized s"
  shows "sized s' \<and> nb_mem s' = nb_mem s \<and> sent s' = sent s \<and>
    (\<exists>arg. started s' = Some ((mem32 (nb_mem s) (NETBOOT_BASE + 116) + 0x1000 + NETBOOT_BASE) mod 2 ^ 32, arg))"
proof -
  note f = nb_payload_fields[OF carries_D(2)[OF c]]
  have port: "le16 f 36 = Some (ntohs NETBOOT_PORT)" using c by (simp add: carries_def)
  from r carries_receive[OF c] f port obtain s1 nbr s3 where s1: "learn_server f s = Some s1"
    and s3: "make_reply f s1 = Some (nbr, s3)" and s': "s' = exec_image s3"
    by (auto simp: handle_udp_def bind_Some_conv Let_def)
  note s1' = learn_server_sized[OF s1 z]
  from make_reply_payload[OF s3 conjunct1[OF s1'], of 0] f(3) s1' s' show ?thesis
    by (auto simp: exec_image_def sized_def)
qed

lemma same_image_inv: "boot_inv img (h, s) \<Longrightarrow> same_image s s' \<Longrightarrow> boot_inv img (h, s')"
  by (auto simp: boot_inv_def same_image_def reply_ok_def stored_def)

lemma arrive_inv:
  assumes inv: "boot_inv img (h, s)" and p: "p \<in> set (h_sent h)" and c: "carries (nb_ip s) p f" and r: "receive f s = Some s'"
    and st: "started s = None"
  shows "boot_inv img (h, s')"
proof -
  have z: "sized s" and pay: "payload_ok img h p" using inv p by (auto simp: boot_inv_def)
  from pay consider j d where "p = nb_payload 1 j d" "j < 65536" "block_of img j d"
    | "p = nb_payload 2 0 []" "h_phase h = Finished" by (auto simp: payload_ok_def)
  then show ?thesis
  proof cases
    case 1
    from receive_load[OF c[unfolded 1] r 1(2) _ z] 1(3)
    obtain nbr where s': "sized s'" "nb_mem s' = store_bytes (nb_mem s) (j * 1024 + NETBOOT_BASE) d" "started s' = started s"
      "sent s' = sent s @ [nbr]" "reply_payload nbr = Some (put16 (ntohs 3) @ put16 (ntohs j))"
      by (auto simp: block_of_def)
    have keep: "stored img s i \<Longrightarrow> stored img s' i" for i
      using stored_load[OF 1(3), of s i] s'(2) by (simp add: stored_def)
    have "stored img s' j" using stored_new[OF 1(3), of s] s'(2) by (simp add: stored_def)
    then have "reply_ok img s' nbr" using s'(5) 1(2) by (auto simp: reply_ok_def)
    moreover have "reply_ok img s' f" if "f \<in> set (sent s)" for f
      using that inv keep by (fastforce simp: boot_inv_def reply_ok_def)
    ultimately show ?thesis using inv s' keep st by (auto simp: boot_inv_def)
  next
    case 2
    from receive_exec[OF c[unfolded 2] r z] inv 2 show ?thesis
      by (auto simp: boot_inv_def reply_ok_def stored_def)
  qed
qed

lemma put16_inj: "put16 m = put16 n \<Longrightarrow> m < 65536 \<Longrightarrow> n < 65536 \<Longrightarrow> m = n"
  using le16_put16[of m "[]"] le16_put16[of n "[]"] by simp

text \<open>The host goes on with the next block only at the acknowledgement of this one.\<close>

lemma reply_inv:
  assumes inv: "boot_inv img (h, s)" and w: "h_phase h = Waiting" and f: "f \<in> set (sent s)"
    and r: "reply_payload f = Some r" and h': "host_recv r h = Some h'" and small: "length img \<le> 65536 * 1024"
  shows "boot_inv img (h', s)"
proof -
  have "reply_ok img s f" using inv f by (simp add: boot_inv_def)
  with r obtain j where j: "j < 65536" "r = put16 (ntohs 3) @ put16 (ntohs j)" "stored img s j"
    unfolding reply_ok_def by blast
  have le: "le16 r 0 = Some (ntohs 3)" "le16 r 2 = Some (ntohs j)"
    using le16_put16_2[of "ntohs j" "ntohs 3" "[]"] by (simp_all add: j(2))
  have host: "host_ok img h" using inv by (simp add: boot_inv_def)
  then have i: "h_i h < 65536" using w small by (simp add: host_ok_def)
  show ?thesis
  proof (cases "j = h_i h")
    case True
    let ?h = "h\<lparr>h_i := h_i h + 1\<rparr>"
    have "h' = host_read ?h" using h' le True by (simp add: host_recv_def)
    moreover have "host_ok img (host_read ?h) \<and> (\<forall>p \<in> set (h_sent (host_read ?h)). payload_ok img (host_read ?h) p) \<and>
        h_i (host_read ?h) = h_i ?h"
      using host w inv by (intro host_read_ok) (auto simp: host_ok_def block_of_def boot_inv_def payload_ok_def)
    ultimately show ?thesis using inv j(3) True w by (auto simp: boot_inv_def less_Suc_eq)
  next
    case False
    then have "ntohs j \<noteq> ntohs (h_i h)" using ntohs_ntohs[OF j(1)] ntohs_ntohs[OF i] by metis
    then have "h' = h\<lparr>h_phase := Ready\<rparr>" using h' le by (simp add: host_recv_def)
    then show ?thesis using inv w by (auto simp: boot_inv_def host_ok_def payload_ok_def)
  qed
qed

lemma net_step_inv:
  assumes "net_step c c'" and "boot_inv img c" and "length img \<le> 65536 * 1024"
  shows "boot_inv img c'"
  using assms
proof (induction rule: net_step.induct)
  case (send h s)
  then have i: "h_i h < 65536" and "block_of img (h_i h) (h_data h)" by (auto simp: boot_inv_def host_ok_def)
  then have "payload_ok img (host_send h) (nb_payload 1 (h_i h) (h_data h))" unfolding payload_ok_def by blast
  with send show ?case by (auto simp: boot_inv_def host_ok_def payload_ok_def host_send_def)
next
  case (timeout h s)
  then show ?case by (auto simp: boot_inv_def host_ok_def payload_ok_def host_timeout_def)
next
  case (reply h f s r h')
  then show ?case by (auto intro: reply_inv)
next
  case (arrive s p h f s')
  then show ?case by (auto intro: arrive_inv)
next
  case (other s f s' h)
  then have "6 \<le> length (prom s)" by (simp add: boot_inv_def sized_def)
  with other show ?case by (auto intro: same_image_inv receive_foreign)
qed

lemma booting_inv:
  assumes "booting img c" and small: "length img \<le> 65536 * 1024"
  shows "boot_inv img c"
  using assms(1)
proof (induction rule: booting.induct)
  case (start d s)
  let ?h = "\<lparr>h_rest = img, h_data = d, h_i = 0, h_phase = Ready, h_sent = []\<rparr>"
  have "host_ok img (host_start img d) \<and> (\<forall>p \<in> set (h_sent (host_start img d)). payload_ok img (host_start img d) p) \<and>
      h_i (host_start img d) = 0"
    using host_read_ok[of ?h img] start by (simp add: host_start_def)
  with start show ?case by (auto simp: boot_inv_def waiting_def reply_ok_def)
next
  case (step c c')
  then show ?case using small by (auto intro: net_step_inv)
qed

text \<open>
  C3: However the network loses, repeats and reorders the packets, and whatever other frames
  arrive: when the loader starts the image it has the whole file in memory from 1 M on, and the
  address it calls is \<open>be_code_ventr\<close> of the second entry of the boot directory, above the
  directory. The number of a block has 16 bits, which limits the file to 64 M.
\<close>

theorem netboot_starts_image:
  assumes "booting img (h, s)" and "started s = Some (entry, arg)" and "length img \<le> 65536 * 1024"
  shows "(\<forall>k < length img. nb_mem s (NETBOOT_BASE + k) = img ! k) \<and>
    (120 \<le> length img \<longrightarrow> entry = (0x101000 + mem32 (nth img) 116) mod 2 ^ 32)"
proof -
  have inv: "boot_inv img (h, s)" using assms by (intro booting_inv)
  then have all: "length img \<le> 1024 * h_i h" "\<forall>j < h_i h. stored img s j"
    and entry: "entry = (mem32 (nb_mem s) (NETBOOT_BASE + 116) + 0x1000 + NETBOOT_BASE) mod 2 ^ 32"
    using assms(2) by (auto simp: boot_inv_def host_ok_def)
  have mem: "nb_mem s (NETBOOT_BASE + k) = img ! k" if "k < length img" for k
  proof -
    have "k div 1024 < h_i h" using all(1) that by (simp add: div_less_iff_less_mult)
    then have "stored img s (k div 1024)" using all(2) by simp
    then show ?thesis using that by (rule storedD) simp
  qed
  have "mem32 (nb_mem s) (NETBOOT_BASE + 116) = mem32 (nth img) 116" if "120 \<le> length img"
    using mem[of 116] mem[of 117] mem[of 118] mem[of 119] that by (simp add: mem32_def)
  with entry mem show ?thesis by simp
qed

section \<open>A boot can be completed\<close>

text \<open>A frame that a host can send: addresses left 0, the header sealed by its checksum.\<close>

lemma ipchksum_loop_inside:
  "i + 2 * n \<le> length b \<Longrightarrow> ipchksum_loop (p @ b @ r) (length p + i) n acc = ipchksum_loop b i n acc"
proof (induction n arbitrary: i acc)
  case (Suc n)
  have "le16 (p @ b @ r) (length p + i) = le16 (b @ r) i" by (simp add: le16_append2)
  also have "\<dots> = le16 b i" using Suc.prems by (intro le16_append) simp
  finally have w: "le16 (p @ b @ r) (length p + i) = le16 b i" .
  have "ipchksum_loop (p @ b @ r) (length p + i + 2) n a = ipchksum_loop b (i + 2) n a" for a
    using Suc.IH[of "i + 2" a] Suc.prems by (simp add: add.assoc)
  with w show ?case by simp
qed simp

definition host_frame :: "u8 list \<Rightarrow> u8 list \<Rightarrow> nat \<Rightarrow> u8 list" where
  "host_frame ip p c = replicate 12 0 @ [8, 0] @ ([0x45, 0, 0, 0, 0, 0, 0, 0, 64, 17] @ put16 c @ replicate 4 0 @ ip) @
     (put16 0 @ put16 (ntohs NETBOOT_PORT) @ put16 0 @ put16 0) @ p"

lemma frame_exists:
  assumes ip: "length ip = 4"
  shows "\<exists>f. carries ip p f"
proof -
  obtain c where c: "c < 65536"
    "ipchksum ([0x45, 0, 0, 0, 0, 0, 0, 0, 64, 17] @ put16 c @ replicate 4 0 @ ip) 0 20 = Some 0"
    using header_seal[of "[0x45, 0, 0, 0, 0, 0, 0, 0, 64, 17]" "replicate 4 0 @ ip"] ip by auto
  let ?f = "host_frame ip p c"
  have loop: "ipchksum_loop ?f 14 10 0 =
      ipchksum_loop ([0x45, 0, 0, 0, 0, 0, 0, 0, 64, 17] @ put16 c @ replicate 4 0 @ ip) 0 10 0"
    using ipchksum_loop_inside[of 0 10 "[0x45, 0, 0, 0, 0, 0, 0, 0, 64, 17] @ put16 c @ replicate 4 0 @ ip"
        "replicate 12 0 @ [8, 0]" "(put16 0 @ put16 (ntohs NETBOOT_PORT) @ put16 0 @ put16 0) @ p" 0] ip
    by (simp add: host_frame_def)
  have chk: "ipchksum ?f 14 20 = Some 0" using c(2) loop by (simp add: ipchksum_def)
  have at: "?f ! 12 = 8" "?f ! 13 = 0" "?f ! 23 = 17"
    by (simp_all add: host_frame_def nth_append)
  have ip': "get_bytes ?f 30 4 = Some ip" using ip by (simp add: host_frame_def get_bytes_def)
  have port: "le16 ?f 36 = Some (ntohs NETBOOT_PORT)"
  proof -
    let ?a = "replicate 12 0 @ [8, 0] @ ([0x45, 0, 0, 0, 0, 0, 0, 0, 64, 17] @ put16 c @ replicate 4 0 @ ip) @ put16 0"
    have "?f = ?a @ put16 (ntohs NETBOOT_PORT) @ put16 0 @ put16 0 @ p" by (simp add: host_frame_def)
    moreover have "length ?a = 36" using ip by simp
    ultimately show ?thesis using le16_append2[of ?a 36] le16_put16[of "ntohs NETBOOT_PORT"] by simp
  qed
  have "get_bytes ?f 42 (length p) = Some p" using ip by (simp add: host_frame_def get_bytes_def)
  with chk at ip' port show ?thesis unfolding carries_def by blast
qed

lemma make_reply_total: "sized s \<Longrightarrow> 46 \<le> length f \<Longrightarrow> \<exists>r. make_reply f s = Some r"
proof -
  assume s: "sized s" and f: "46 \<le> length f"
  have "10 * 2 \<le> length (reply_header 0 s)" using s by (simp add: reply_header_def sized_def)
  then obtain a where "ipchksum_loop (reply_header 0 s) 0 10 0 = Some a"
    using ipchksum_loop_SomeI[of 0 10 "reply_header 0 s" 0] by auto
  then have "\<exists>c. ipchksum (reply_header 0 s) 0 20 = Some c" by (simp add: ipchksum_def)
  with f show ?thesis by (auto simp: make_reply_def get_bytes_def)
qed

lemma learn_server_total: "46 \<le> length f \<Longrightarrow> \<exists>s1. learn_server f s = Some s1 \<and> nb_ip s1 = nb_ip s"
  by (cases "got_server s") (auto simp: learn_server_def get_bytes_def)

lemma receive_load_total:
  assumes c: "carries (nb_ip s) (nb_payload 1 j d) f" and j: "j < 65536" and d: "length d = 1024" and z: "sized s"
  shows "\<exists>s'. receive f s = Some s' \<and> nb_ip s' = nb_ip s"
proof -
  note f = nb_payload_fields[OF carries_D(2)[OF c] _ j]
  have port: "le16 f 36 = Some (ntohs NETBOOT_PORT)" using c by (simp add: carries_def)
  have len: "42 + (4 + 1024) \<le> length f" using carries_D(3)[OF c] d by (simp add: nb_payload_def)
  obtain s1 where s1: "learn_server f s = Some s1" "nb_ip s1 = nb_ip s"
    using learn_server_total[of f s] len by auto
  let ?s2 = "s1\<lparr>nb_mem := store_bytes (nb_mem s1) (j * 1024 + NETBOOT_BASE) d\<rparr>"
  have "sized ?s2" using learn_server_sized[OF s1(1) z] by (simp add: sized_def)
  then obtain nbr s3 where s3: "make_reply f ?s2 = Some (nbr, s3)"
    using make_reply_total[of ?s2 f] len by auto
  then have "nb_ip s3 = nb_ip s" using s1(2) by (auto simp: make_reply_def bind_Some_conv simp del: get_bytes_Some)
  then show ?thesis using carries_receive[OF c] f j d port s1 s3
    by (simp add: handle_udp_def Let_def nic_send_packet_def)
qed

lemma receive_exec_total:
  assumes c: "carries (nb_ip s) (nb_payload 2 0 []) f" and z: "sized s"
  shows "\<exists>s'. receive f s = Some s'"
proof -
  note f = nb_payload_fields[OF carries_D(2)[OF c]]
  have port: "le16 f 36 = Some (ntohs NETBOOT_PORT)" using c by (simp add: carries_def)
  have len: "46 \<le> length f" using carries_D(3)[OF c] by (simp add: nb_payload_def)
  obtain s1 where s1: "learn_server f s = Some s1" using learn_server_total[OF len] by blast
  then obtain nbr s3 where "make_reply f s1 = Some (nbr, s3)"
    using make_reply_total[of s1 f] learn_server_sized[OF s1 z] len by auto
  then show ?thesis using carries_receive[OF c] f port s1 by (simp add: handle_udp_def Let_def)
qed

text \<open>One block: it is sent, it arrives, and the acknowledgement arrives.\<close>

lemma host_send_phase [simp]: "h_phase (host_send h) = Waiting" "h_i (host_send h) = h_i h"
  by (simp_all add: host_send_def)

lemma ready_reachable:
  assumes "h_phase h \<noteq> Finished"
  shows "\<exists>h'. net_step\<^sup>*\<^sup>* (h, s) (h', s) \<and> h_phase h' = Ready \<and> h_i h' = h_i h"
proof (cases "h_phase h")
  case Waiting
  then have "net_step (h, s) (host_timeout h, s)" by (rule timeout)
  then show ?thesis by (auto simp: host_timeout_def intro!: r_into_rtranclp)
qed (use assms in auto)

lemma one_block:
  assumes inv: "boot_inv img (h, s)" and st: "started s = None" and ip: "length (nb_ip s) = 4"
    and ph: "h_phase h = Ready" and small: "length img \<le> 65536 * 1024"
  shows "\<exists>h' s'. net_step\<^sup>*\<^sup>* (h, s) (h', s') \<and> started s' = None \<and> nb_ip s' = nb_ip s \<and> h_i h' = h_i h + 1"
proof -
  let ?p = "nb_payload 1 (h_i h) (h_data h)"
  have i: "h_i h < 65536" "length (h_data h) = 1024" "sized s"
    using inv ph small by (auto simp: boot_inv_def host_ok_def block_of_def)
  have 1: "net_step (h, s) (host_send h, s)" using ph by (rule send)
  obtain f where f: "carries (nb_ip s) ?p f" using frame_exists[OF ip] by blast
  from receive_load_total[OF f i] obtain s' where s': "receive f s = Some s'" "nb_ip s' = nb_ip s" by blast
  have 2: "net_step (host_send h, s) (host_send h, s')"
    using st f s'(1) by (intro arrive[of s ?p]) (simp_all add: host_send_def)
  from receive_load[OF f s'(1) i] obtain nbr where nbr: "nbr \<in> set (sent s')"
    "reply_payload nbr = Some (put16 (ntohs 3) @ put16 (ntohs (h_i h)))" "started s' = None" using st by fastforce
  let ?h = "(host_send h)\<lparr>h_i := h_i h + 1\<rparr>"
  have "host_recv (put16 (ntohs 3) @ put16 (ntohs (h_i h))) (host_send h) = Some (host_read ?h)"
    using le16_put16_2[of "ntohs (h_i h)" "ntohs 3" "[]"] by (simp add: host_recv_def)
  then have 3: "net_step (host_send h, s') (host_read ?h, s')"
    using nbr by (intro reply) simp_all
  have "h_i (host_read ?h) = h_i h + 1" by (simp add: host_read_def Let_def)
  with 1 2 3 nbr(3) s'(2) show ?thesis by (meson r_into_rtranclp rtranclp_trans)
qed

lemma runs_inv:
  assumes "net_step\<^sup>*\<^sup>* c c'" and "boot_inv img c" and "length img \<le> 65536 * 1024"
  shows "boot_inv img c'"
  using assms by (induction rule: rtranclp_induct) (auto intro: net_step_inv)

lemma all_blocks:
  assumes "boot_inv img (h, s)" and "started s = None" and "length (nb_ip s) = 4" and small: "length img \<le> 65536 * 1024"
  shows "\<exists>h' s'. net_step\<^sup>*\<^sup>* (h, s) (h', s') \<and> started s' = None \<and> length (nb_ip s') = 4 \<and> h_phase h' = Finished"
  using assms(1-3)
proof (induction "length img - 1024 * h_i h" arbitrary: h s rule: less_induct)
  case less
  show ?case
  proof (cases "h_phase h = Finished")
    case False
    from ready_reachable[OF False, of s] obtain h1 where h1: "net_step\<^sup>*\<^sup>* (h, s) (h1, s)" "h_phase h1 = Ready" "h_i h1 = h_i h"
      by blast
    have inv: "boot_inv img (h1, s)" using runs_inv[OF h1(1) less.prems(1) small] .
    from one_block[OF inv less.prems(2,3) h1(2) small] obtain h2 s2
      where h2: "net_step\<^sup>*\<^sup>* (h1, s) (h2, s2)" "started s2 = None" "nb_ip s2 = nb_ip s" "h_i h2 = h_i h1 + 1" by blast
    have "1024 * h_i h < length img" using less.prems(1) False by (simp add: boot_inv_def host_ok_def)
    then have "length img - 1024 * h_i h2 < length img - 1024 * h_i h" using h2(4) h1(3) by simp
    from less.hyps[OF this runs_inv[OF h2(1) inv small] h2(2)] h2(3) less.prems(3)
    show ?thesis using h1(1) h2(1) by (metis rtranclp_trans)
  qed (use less.prems in blast)
qed

lemma boot_continues:
  assumes "booting img (h, s)" and "started s = None" and "length (nb_ip s) = 4" and "length img \<le> 65536 * 1024"
  shows "\<exists>h' s'. net_step\<^sup>*\<^sup>* (h, s) (h', s') \<and> started s' \<noteq> None"
proof -
  have inv: "boot_inv img (h, s)" using assms by (intro booting_inv)
  from all_blocks[OF inv assms(2-4)] obtain h1 s1 where run: "net_step\<^sup>*\<^sup>* (h, s) (h1, s1)" "started s1 = None"
    "length (nb_ip s1) = 4" "h_phase h1 = Finished" by blast
  have inv1: "boot_inv img (h1, s1)" by (rule runs_inv[OF run(1) inv assms(4)])
  then have p: "nb_payload 2 0 [] \<in> set (h_sent h1)" and z: "sized s1"
    using run(4) by (auto simp: boot_inv_def host_ok_def)
  from frame_exists[OF run(3)] obtain f where f: "carries (nb_ip s1) (nb_payload 2 0 []) f" by blast
  from receive_exec_total[OF f z] obtain s2 where s2: "receive f s1 = Some s2" by blast
  have "net_step (h1, s1) (h1, s2)" by (rule arrive[OF run(2) p f s2])
  moreover have "started s2 \<noteq> None" using receive_exec[OF f s2 z] by auto
  ultimately show ?thesis using run(1) by (meson rtranclp.rtrancl_into_rtrancl)
qed


text \<open>A small image, and the loader as it starts.\<close>

lemma demo_booting: "booting [1, 2, 3] (host_start [1, 2, 3] (replicate 1024 0), nboot0 (replicate 32 7) [0, 0, 0, 0] (\<lambda>a. 0))"
  by (rule booting.start) (simp_all add: waiting_def sized_def nboot0_def)


lemma booting_runs: "net_step\<^sup>*\<^sup>* c c' \<Longrightarrow> booting img c \<Longrightarrow> booting img c'"
  by (induction rule: rtranclp_induct) (auto intro: booting.step)

theorem netboot_starts_image_witness:
  "\<exists>h s. booting [1, 2, 3] (h, s) \<and> started s \<noteq> None \<and> nb_mem s (NETBOOT_BASE + 2) = 3"
proof -
  from boot_continues[OF demo_booting] obtain h s
    where run: "net_step\<^sup>*\<^sup>* (host_start [1, 2, 3] (replicate 1024 0), nboot0 (replicate 32 7) [0, 0, 0, 0] (\<lambda>a. 0)) (h, s)"
      and st: "started s \<noteq> None" by (auto simp: nboot0_def)
  from st obtain entry arg where "started s = Some (entry, arg)" by auto
  from netboot_starts_image[OF booting_runs[OF run demo_booting] this]
  have "\<forall>k < 3. nb_mem s (NETBOOT_BASE + k) = [1, 2, 3] ! k" by simp
  then have "nb_mem s (NETBOOT_BASE + 2) = [1, 2, 3] ! 2" by (rule allE[of _ 2]) simp
  then show ?thesis using booting_runs[OF run demo_booting] st by auto
qed

section \<open>The line editor\<close>

lemma read_octet_total: "0 \<in> set s \<Longrightarrow> \<exists>v r. read_octet s a = Some (v, r) \<and> r \<noteq> [] \<and> (hd r \<noteq> 0 \<longrightarrow> 0 \<in> set (tl r))"
  by (induction s arbitrary: a) auto

lemma read_ip_loop_total:
  "0 \<in> set s \<Longrightarrow> k + i \<le> length ip \<Longrightarrow> \<exists>ip'. read_ip_loop i s ip k = Some ip' \<and> length ip' = length ip"
proof (induction i arbitrary: s ip k)
  case (Suc i)
  from read_octet_total[OF Suc.prems(1), of 0] obtain v r where
    r: "read_octet s 0 = Some (v, r)" "hd r \<noteq> 0 \<longrightarrow> 0 \<in> set (tl r)" by blast
  with Suc.IH[of "tl r" "Suc k" "ip[k := word_of_int v]"] Suc.prems show ?case by auto
qed simp

definition edit_ok :: "nboot \<Rightarrow> bool" where
  "edit_ok s \<longleftrightarrow> length (linebuf s) = 80 \<and> linebuf s ! 79 = 0 \<and> 9 \<le> lp s \<and> lp s \<le> 79 \<and>
     length (param s) = 80 \<and> length (nb_ip s) = 4"

lemma nb_option_total:
  "length (nb_ip s) = 4 \<Longrightarrow> \<exists>s'. nb_option l r s = Some s' \<and> length (nb_ip s') = 4 \<and> param s' = param s"
  using read_ip_loop_total[of "r @ [0]" 0 4 "nb_ip s"] by (auto simp: nb_option_def read_ip_def)

lemma parse_total:
  "0 \<in> set p \<Longrightarrow> length (nb_ip s) = 4 \<Longrightarrow>
   \<exists>s'. parse_loop st l r p s = Some s' \<and> length (nb_ip s') = 4 \<and> param s' = param s"
proof (induction st l r p s rule: parse_loop.induct)
  case (2 st l r c cs s)
  obtain s' where s': "nb_option l r s = Some s'" "length (nb_ip s') = 4" "param s' = param s"
    using nb_option_total[OF "2.prems"(2)] by blast
  show ?case
  proof (cases "c = 0")
    case True
    with s' "2.prems" show ?thesis by simp
  next
    case False
    with "2.prems" have z: "0 \<in> set cs" by auto
    show ?thesis
      using "2.IH"[OF False] s' z "2.prems"(2) False by (cases st) auto
  qed
qed simp

lemma copy_param_total:
  "0 \<in> set cs \<Longrightarrow> k + length (takeWhile (\<lambda>c. c \<noteq> 0) cs) < length p \<Longrightarrow>
   \<exists>p'. copy_param cs p k = Some p' \<and> length p' = length p"
proof (induction cs arbitrary: p k)
  case (Cons c cs)
  then show ?case using Cons.IH[of "k + 1" "p[k := c]"] by (cases "c = 0") auto
qed simp

text \<open>
  A line of at most 70 bytes and its terminator: no command runs over an array.
\<close>

lemma nb_command_total:
  assumes "0 \<in> set cmd" and "length (takeWhile (\<lambda>c. c \<noteq> 0) cmd) \<le> 70" and "length (nb_ip s) = 4" and "length (param s) = 80"
  shows "\<exists>go s'. nb_command cmd s = Some (go, s') \<and> length (nb_ip s') = 4 \<and> length (param s') = 80"
proof (cases "take 3 cmd = [103, 111, 0]")
  case False
  show ?thesis
  proof (cases "take 5 cmd = [98, 111, 111, 116, 61]")
    case True
    then have cmd: "cmd = [98, 111, 111, 116, 61] @ drop 5 cmd" by (metis append_take_drop_id)
    have "0 \<in> set ([98, 111, 111, 116, 61] @ drop 5 cmd)"
      "length (takeWhile (\<lambda>c. c \<noteq> 0) ([98, 111, 111, 116, 61] @ drop 5 cmd)) \<le> 70"
      unfolding cmd[symmetric] by (fact assms)+
    then have "0 \<in> set (drop 5 cmd)" "length (takeWhile (\<lambda>c. c \<noteq> 0) (drop 5 cmd)) \<le> 70" by simp_all
    from copy_param_total[OF this(1), of 0 "param s"] this(2) assms(3,4) True False show ?thesis
      by (auto simp: nb_command_def)
  next
    case no: False
    from parse_total[OF assms(1,3), of SKIP "[]" "[]"] assms(4) False no show ?thesis
      by (auto simp: nb_command_def nb_parse_def)
  qed
qed (use assms in \<open>auto simp: nb_command_def\<close>)

lemma strlen_total: "0 \<in> set b \<Longrightarrow> \<exists>n. strlen b = Some n"
  by (induction b) auto

lemma show_line_ok: "edit_ok s \<Longrightarrow> show_line s = Some s"
  using strlen_total[of "linebuf s"] nth_mem[of 79 "linebuf s"] by (auto simp: edit_ok_def show_line_def)

lemma takeWhile_upto: "xs ! i = y \<Longrightarrow> length (takeWhile (\<lambda>c. c \<noteq> y) xs) \<le> i"
proof (rule ccontr)
  assume y: "xs ! i = y" and "\<not> length (takeWhile (\<lambda>c. c \<noteq> y) xs) \<le> i"
  then have i: "i < length (takeWhile (\<lambda>c. c \<noteq> y) xs)" by simp
  then have "takeWhile (\<lambda>c. c \<noteq> y) xs ! i \<noteq> y" using nth_mem[OF i] set_takeWhileD by metis
  with y takeWhile_nth[OF i] show False by simp
qed

lemma memset_total:
  "i + n \<le> length m \<Longrightarrow> \<exists>m'. memset m i c n = Some m' \<and> length m' = length m \<and> (\<forall>k. i + n \<le> k \<longrightarrow> m' ! k = m ! k)"
proof (induction n arbitrary: m i)
  case (Suc n)
  then show ?case using Suc.IH[of "i + 1" "m[i := c]"] by auto
qed simp

lemma newline_total:
  assumes "length (param s) = 80" and "length (nb_ip s) = 4"
  shows "\<exists>s'. nb_newline s = Some s' \<and> edit_ok s'"
proof -
  let ?s = "s\<lparr>linebuf := [110, 101, 116, 98, 111, 111, 116, 62, 32] @ replicate 70 32 @ [0], lp := 9\<rparr>"
  have "edit_ok ?s" using assms by (simp add: edit_ok_def nth_append)
  then show ?thesis using show_line_ok[of ?s] by (simp add: nb_newline_def)
qed

lemma keypress_total:
  assumes ok: "edit_ok s"
  shows "\<exists>go s'. nb_keypress key s = Some (go, s') \<and> (go \<or> edit_ok s') \<and> length (param s') = 80 \<and> length (nb_ip s') = 4"
proof -
  have shown: "show_line s' = Some s'" if "edit_ok s'" for s' by (rule show_line_ok[OF that])
  consider "key = 27" | "key = 13" | "key \<noteq> 27" "key \<noteq> 13" by blast
  then show ?thesis
  proof cases
    case 1
    obtain l where l: "memset (linebuf s) 9 32 70 = Some l" "length l = 80" "\<forall>k. 9 + 70 \<le> k \<longrightarrow> l ! k = linebuf s ! k"
      using memset_total[of 9 70 "linebuf s" 32] ok by (auto simp: edit_ok_def)
    then have "edit_ok (s\<lparr>linebuf := l, lp := 9\<rparr>)" using ok by (simp add: edit_ok_def)
    with shown[OF this] l(1) 1 show ?thesis by (auto simp: nb_keypress_def edit_ok_def)
  next
    case 2
    define l where "l = (linebuf s)[lp s := 0]"
    have put: "list_put (linebuf s) (lp s) 0 = Some l" using ok by (simp add: edit_ok_def l_def)
    have at: "drop 9 l ! (lp s - 9) = 0" "lp s - 9 < length (drop 9 l)" using ok by (auto simp: edit_ok_def l_def)
    have "0 \<in> set (drop 9 l)" using at by (metis nth_mem)
    moreover have "length (takeWhile (\<lambda>c. c \<noteq> 0) (drop 9 l)) \<le> 70"
      using takeWhile_upto[OF at(1)] ok unfolding edit_ok_def by linarith
    ultimately obtain go s' where c: "nb_command (drop 9 l) (s\<lparr>linebuf := l\<rparr>) = Some (go, s')"
      "length (nb_ip s') = 4" "length (param s') = 80"
      using nb_command_total[of "drop 9 l" "s\<lparr>linebuf := l\<rparr>"] ok by (auto simp: edit_ok_def)
    obtain s1 where s1: "nb_newline s' = Some s1" "edit_ok s1" using newline_total[OF c(3,2)] by blast
    show ?thesis
    proof (cases go)
      case True
      with put c 2 show ?thesis by (auto simp: nb_keypress_def)
    next
      case False
      have "nb_keypress key s = Some (False, s1)"
        using put c(1) s1(1) shown[OF s1(2)] 2 False by (simp add: nb_keypress_def)
      with s1(2) show ?thesis by (auto simp: edit_ok_def)
    qed
  next
    case 3
    define s' where "s' = (if key = 8 then if lp s > 9 then s\<lparr>linebuf := (linebuf s)[lp s - 1 := 32], lp := lp s - 1\<rparr> else s
      else if lp s < 79 then s\<lparr>linebuf := (linebuf s)[lp s := key], lp := lp s + 1\<rparr> else s)"
    have ok': "edit_ok s'" using ok by (auto simp: s'_def edit_ok_def)
    have "nb_keypress key s = Some (False, s')"
      using 3 ok shown[OF ok'] by (auto simp: nb_keypress_def s'_def edit_ok_def)
    with ok' show ?thesis by (auto simp: edit_ok_def)
  qed
qed

lemma tables_length: "length nb_ScanTable = 59" "length nb_ShiftTable = 59"
  by (simp_all add: nb_ScanTable_def nb_ShiftTable_def str_bytes_def)

lemma console_key_total:
  assumes ok: "edit_ok s"
  shows "\<exists>go sh s'. console_key k shift s = Some (go, sh, s') \<and> (go \<or> edit_ok s') \<and> length (param s') = 80 \<and> length (nb_ip s') = 4"
proof (cases "k < 59 \<and> k \<noteq> 42 \<and> k \<noteq> 54")
  case False
  with ok show ?thesis by (auto simp: console_key_def edit_ok_def)
next
  case True
  let ?c = "(if shift then nb_ShiftTable else nb_ScanTable) ! k"
  obtain go s' where "nb_keypress ?c s = Some (go, s')" "go \<or> edit_ok s'" "length (param s') = 80" "length (nb_ip s') = 4"
    using keypress_total[OF ok] by blast
  with True show ?thesis by (auto simp: console_key_def tables_length)
qed

lemma console_keys_total:
  "edit_ok s \<Longrightarrow> \<exists>go s'. console_keys ks shift s = Some (go, s') \<and> length (param s') = 80 \<and> length (nb_ip s') = 4"
proof (induction ks arbitrary: shift s)
  case Nil
  then show ?case by (auto simp: edit_ok_def)
next
  case (Cons k ks)
  from console_key_total[OF Cons.prems, of k shift] obtain go sh s'
    where k: "console_key k shift s = Some (go, sh, s')" "go \<or> edit_ok s'" "length (param s') = 80" "length (nb_ip s') = 4"
    by blast
  with Cons.IH[of s' sh] show ?case by (cases go) auto
qed

text \<open>
  C37: Whatever is typed, the console of the loader makes no access outside \<open>linebuf\<close>,
  \<open>param\<close> and the bytes of \<open>ip\<close>, and the line it shows is always terminated: this covers
  the line editor, the command \<open>boot=\<close>, the parser of options and \<open>read_ip\<close>.
\<close>

theorem console_in_bounds:
  assumes "length (param s) = 80" and "length (nb_ip s) = 4"
  shows "\<exists>go s'. nb_console ks s = Some (go, s') \<and> length (param s') = 80 \<and> length (nb_ip s') = 4"
  using newline_total[OF assms] console_keys_total by (fastforce simp: nb_console_def)

theorem console_in_bounds_witness:
  "\<exists>go s. nb_console [23, 25, 13, 2, 28] (nboot0 [] [] (\<lambda>a. 0)) = Some (go, s) \<and> length (param s) = 80 \<and> length (nb_ip s) = 4"
  using console_in_bounds[of "nboot0 [] [] (\<lambda>a. 0)"] by (simp add: nboot0_def)

end
