(* ===== verification/BootProps.thy ===== *)
theory BootProps
  imports BootImage VfsStart NetBootProps
begin

text \<open>
  Properties of the boot image: the description survives printing and loading, every file can
  be found again through the directory, in the same place by the bootstrap, the network boot and
  the file system server, and the page tables of the bootstrap map the kernel.
\<close>

section \<open>The description\<close>

definition name_ok :: "str \<Rightarrow> bool" where
  "name_ok n \<longleftrightarrow> n \<noteq> [] \<and> 0 \<notin> set n \<and> 10 \<notin> set n \<and> 61 \<notin> set n \<and> hd n \<noteq> 91 \<and> hd n \<noteq> 35 \<and> sint (hd n) > 32"

definition value_ok :: "str \<Rightarrow> bool" where
  "value_ok v \<longleftrightarrow> 0 \<notin> set v \<and> 10 \<notin> set v"

definition section_ok :: "bsection \<Rightarrow> bool" where
  "section_ok s \<longleftrightarrow> 0 \<notin> set (sec_name s) \<and> 93 \<notin> set (sec_name s) \<and> (\<forall>p \<in> set (pairs s). name_ok (fst p) \<and> value_ok (snd p))"

lemma c_str_id: "0 \<notin> set b \<Longrightarrow> c_str b = b"
  by (induction b) (auto simp: c_str_def)

lemma ini_header:
  "93 \<notin> set n \<Longrightarrow> ini_loop HEADER l r cur ss (n @ 93 # cs) =
   ini_loop SKIPLINE (l @ n) r True (ss @ [\<lparr>sec_name = c_str (l @ n), pairs = []\<rparr>]) cs"
  by (induction n arbitrary: l) auto

lemma ini_lhs: "10 \<notin> set n \<Longrightarrow> 61 \<notin> set n \<Longrightarrow> ini_loop INI_LHS l r cur ss (n @ 61 # cs) = ini_loop INI_RHS (l @ n) [] cur ss cs"
  by (induction n arbitrary: l) auto

lemma ini_rhs: "10 \<notin> set v \<Longrightarrow> ini_loop INI_RHS l r True ss (v @ 10 # cs) =
   ini_loop NEWLINE l (r @ v) True (add_pair (c_str l) (c_str (r @ v)) ss) cs"
  by (induction v arbitrary: r) auto

lemma ini_pair:
  assumes "name_ok n" and "value_ok v"
  shows "ini_loop NEWLINE l r True ss (print_pair (n, v) @ cs) = ini_loop NEWLINE n v True (add_pair n v ss) cs"
proof -
  obtain a m where n: "n = a # m" using assms(1) by (cases n) (auto simp: name_ok_def)
  have "ini_loop NEWLINE l r True ss (print_pair (n, v) @ cs) = ini_loop INI_LHS [a] r True ss (m @ 61 # v @ 10 # cs)"
    using assms(1) by (auto simp: n name_ok_def print_pair_def)
  also have "\<dots> = ini_loop INI_RHS n [] True ss (v @ 10 # cs)"
    using assms(1) by (simp add: ini_lhs n name_ok_def)
  also have "\<dots> = ini_loop NEWLINE n v True (add_pair n v ss) cs"
    using assms by (simp add: ini_rhs value_ok_def c_str_id name_ok_def)
  finally show ?thesis .
qed

lemma ini_pairs:
  "\<forall>p \<in> set ps. name_ok (fst p) \<and> value_ok (snd p) \<Longrightarrow>
   \<exists>l' r'. ini_loop NEWLINE l r True (ss @ [s]) (concat (map print_pair ps) @ cs) =
     ini_loop NEWLINE l' r' True (ss @ [s\<lparr>pairs := rev ps @ pairs s\<rparr>]) cs"
proof (induction ps arbitrary: l r s)
  case (Cons p ps)
  obtain n v where p: "p = (n, v)" by (cases p)
  from Cons.IH[of n v "s\<lparr>pairs := (n, v) # pairs s\<rparr>"] Cons.prems
  show ?case by (simp add: p ini_pair add_pair_def)
qed auto

lemma ini_sections:
  "\<forall>s \<in> set ss. section_ok s \<Longrightarrow>
   ini_loop NEWLINE l r cur ts (print_sections ss) = Some (ts @ map (\<lambda>s. s\<lparr>pairs := rev (pairs s)\<rparr>) ss)"
proof (induction ss arbitrary: l r cur ts)
  case Nil
  then show ?case by (cases cur) (simp_all add: print_sections_def)
next
  case (Cons s ss)
  have ok: "0 \<notin> set (sec_name s)" "93 \<notin> set (sec_name s)" "\<forall>p \<in> set (pairs s). name_ok (fst p) \<and> value_ok (snd p)"
    using Cons.prems by (auto simp: section_ok_def)
  let ?t = "\<lparr>sec_name = sec_name s, pairs = []\<rparr>"
  have "print_sections (s # ss) =
      10 # 91 # sec_name s @ 93 # 10 # concat (map print_pair (pairs s)) @ print_sections ss"
    by (simp add: print_sections_def)
  then have "ini_loop NEWLINE l r cur ts (print_sections (s # ss)) =
      ini_loop NEWLINE (sec_name s) r True (ts @ [?t]) (concat (map print_pair (pairs s)) @ print_sections ss)"
    using ok(1,2) by (simp add: ini_header c_str_id)
  also obtain l' r' where "\<dots> = ini_loop NEWLINE l' r' True (ts @ [?t\<lparr>pairs := rev (pairs s)\<rparr>]) (print_sections ss)"
    using ini_pairs[OF ok(3), of "sec_name s" r ts ?t "print_sections ss"] by auto
  also have "\<dots> = Some ((ts @ [?t\<lparr>pairs := rev (pairs s)\<rparr>]) @ map (\<lambda>s. s\<lparr>pairs := rev (pairs s)\<rparr>) ss)"
    using Cons.prems by (intro Cons.IH) simp
  finally show ?case by simp
qed

text \<open>
  C38: Printing sections and loading the result gives the sections back, after those that were
  there before. The pairs of a section come in the other order, since the parser puts each one
  in front; a name of a pair must not look like the beginning of another line, and only the
  bytes that the syntax uses are excluded.
\<close>

theorem ini_print_load:
  assumes "\<forall>s \<in> set ss. section_ok s" and "fs file = Some (print_sections ss)"
  shows "load_ini fs file ts = Some (ts @ map (\<lambda>s. s\<lparr>pairs := rev (pairs s)\<rparr>) ss)"
  using assms by (simp add: load_ini_def ini_sections)

theorem ini_print_load_witness:
  "load_ini (\<lambda>f. Some (print_sections [\<lparr>sec_name = [97, 98], pairs = [([99], [100]), ([101], [])]\<rparr>])) [] [] =
   Some [\<lparr>sec_name = [97, 98], pairs = [([101], []), ([99], [100])]\<rparr>]"
  using ini_print_load[of "[\<lparr>sec_name = [97, 98], pairs = [([99], [100]), ([101], [])]\<rparr>]"
      "\<lambda>f. Some (print_sections [\<lparr>sec_name = [97, 98], pairs = [([99], [100]), ([101], [])]\<rparr>])" "[]" "[]"]
  by (simp add: section_ok_def name_ok_def value_ok_def)

section \<open>Blocks of equal length\<close>

lemma concat_block:
  "\<forall>x \<in> set xs. length x = n \<Longrightarrow> k < length xs \<Longrightarrow> take n (drop (n * k) (concat xs @ r)) = xs ! k"
proof (induction xs arbitrary: k)
  case (Cons x xs)
  then show ?case by (cases k) auto
qed simp

lemma length_blocks: "\<forall>x \<in> set xs. length x = n \<Longrightarrow> length (concat xs) = n * length xs"
  by (induction xs) auto

lemma concat_drop:
  "k \<le> length xs \<Longrightarrow> drop (sum_list (map length (take k xs))) (concat xs) = concat (drop k xs)"
proof (induction xs arbitrary: k)
  case (Cons x xs)
  then show ?case by (cases k) auto
qed simp

section \<open>The directory\<close>

lemma put32_length [simp]: "length (put32 n) = 4"
  by (simp add: put32_def)

lemma uint_byte: "uint (of_int n :: u8) = n mod 256"
  by (simp add: uint_word_of_int)

lemma bytes_of_int:
  "n mod 256 + 256 * (n div 256 mod 256) + 65536 * (n div 65536 mod 256) + 16777216 * (n div 16777216 mod 256)
   = n mod 4294967296" for n :: int
proof -
  have "n mod 65536 = 256 * (n div 256 mod 256) + n mod 256"
    "n mod 16777216 = 65536 * (n div 65536 mod 256) + n mod 65536"
    "n mod 4294967296 = 16777216 * (n div 16777216 mod 256) + n mod 16777216"
    using zmod_zmult2_eq[of 256 n 256] zmod_zmult2_eq[of 256 n 65536] zmod_zmult2_eq[of 256 n 16777216]
    by simp_all
  then show ?thesis by linarith
qed

lemma s32_mod32: "s32 (n mod 4294967296) = s32 n"
  by (simp add: s32_def mod_add_left_eq)

lemma get32_put32: "length a = i \<Longrightarrow> get32 (a @ put32 n @ r) i = s32 n"
proof -
  assume i: "length a = i"
  have at: "(a @ put32 n @ r) ! (i + j) = put32 n ! j" if "j < 4" for j
    using that i by (simp add: nth_append)
  have "get32 (a @ put32 n @ r) i = s32 (n mod 256 + 256 * (n div 256 mod 256) + 65536 * (n div 65536 mod 256) +
      16777216 * (n div 16777216 mod 256))"
    unfolding get32_def using at[of 0] at[of 1] at[of 2] at[of 3]
    by (simp only: add_0_right less_numeral_simps) (simp add: put32_def uint_byte)
  then show ?thesis by (simp only: bytes_of_int s32_mod32)
qed

definition entry_ok :: "bd_entry \<Rightarrow> bool" where
  "entry_ok e \<longleftrightarrow> length (bd_name e) = 32 \<and> (\<forall>n \<in> {bd_offset e, bd_type e, bd_size e, bd_vsize e, bd_vaddr e, bd_ventr e}.
     - 2147483648 \<le> n \<and> n < 2147483648)"

lemma entry_bytes_length: "length (bd_name e) = 32 \<Longrightarrow> length (entry_bytes e) = 64"
  by (simp add: entry_bytes_def)

lemma get32_at:
  assumes "i + 4 \<le> n" and "m + n \<le> length b"
  shows "get32 (take n (drop m b)) i = get32 b (m + i)"
proof -
  have at: "take n (drop m b) ! (i + j) = b ! (m + i + j)" if "j < 4" for j
    using that assms by (simp add: add.assoc)
  show ?thesis unfolding get32_def using at[of 0] at[of 1] at[of 2] at[of 3] by simp
qed

lemma read_entry_block:
  assumes "64 * k + 64 \<le> length b"
  shows "read_entry b k = read_entry (take 64 (drop (64 * k) b)) 0"
  unfolding read_entry_def Let_def using assms by (simp add: get32_at)

lemma get32_entry:
  assumes n: "length a = 32"
  shows "get32 (a @ put32 b @ c) 32 = s32 b"
    and "get32 (a @ put32 b @ put32 d @ c) 36 = s32 d"
    and "get32 (a @ put32 b @ put32 d @ put32 e @ c) 40 = s32 e"
    and "get32 (a @ put32 b @ put32 d @ put32 e @ put32 f @ c) 44 = s32 f"
    and "get32 (a @ put32 b @ put32 d @ put32 e @ put32 f @ put32 g @ c) 48 = s32 g"
    and "get32 (a @ put32 b @ put32 d @ put32 e @ put32 f @ put32 g @ put32 h @ c) 52 = s32 h"
  using n get32_put32[of a 32 b c] get32_put32[of "a @ put32 b" 36 d c] get32_put32[of "a @ put32 b @ put32 d" 40 e c]
    get32_put32[of "a @ put32 b @ put32 d @ put32 e" 44 f c] get32_put32[of "a @ put32 b @ put32 d @ put32 e @ put32 f" 48 g c]
    get32_put32[of "a @ put32 b @ put32 d @ put32 e @ put32 f @ put32 g" 52 h c]
  by simp_all

lemma read_entry_bytes:
  assumes "entry_ok e"
  shows "read_entry (entry_bytes e) 0 = e"
proof -
  have "length (bd_name e) = 32" using assms by (simp add: entry_ok_def)
  then show ?thesis using assms
    by (cases e) (simp add: read_entry_def Let_def entry_bytes_def get32_entry entry_ok_def s32_id)
qed

lemma name_field_length [simp]: "length (name_field n) = 32"
  by (simp add: name_field_def)

lemma empty_entry_ok: "entry_ok empty_entry"
  by (simp add: empty_entry_def entry_ok_def)

lemma directory_bytes_length:
  assumes "\<forall>e \<in> set es. entry_ok e" and "length es \<le> 64"
  shows "length (directory_bytes es) = 4096"
proof -
  have "\<forall>e \<in> set (es @ replicate (64 - length es) empty_entry). length (entry_bytes e) = 64"
    using assms(1) empty_entry_ok by (auto simp: entry_bytes_length entry_ok_def)
  then have "\<forall>x \<in> set (map entry_bytes (es @ replicate (64 - length es) empty_entry)). length x = 64"
    by (simp only: set_map ball_simps)
  from length_blocks[OF this] assms(2) show ?thesis by (simp add: directory_bytes_def)
qed

lemma read_directory:
  assumes es: "\<forall>e \<in> set es. entry_ok e" and len: "length es \<le> 64" and k: "k < 64"
  shows "read_entry (directory_bytes es @ r) k = (if k < length es then es ! k else empty_entry)"
proof -
  let ?xs = "es @ replicate (64 - length es) empty_entry"
  have blocks: "\<forall>x \<in> set (map entry_bytes ?xs). length x = 64"
    using es empty_entry_ok by (auto simp: entry_bytes_length entry_ok_def)
  have "take 64 (drop (64 * k) (directory_bytes es @ r)) = map entry_bytes ?xs ! k"
    unfolding directory_bytes_def using len k by (intro concat_block[OF blocks]) simp
  also have "\<dots> = entry_bytes (?xs ! k)" using len k by (intro nth_map) simp
  finally have "read_entry (directory_bytes es @ r) k = read_entry (entry_bytes (?xs ! k)) 0"
    using read_entry_block[of k "directory_bytes es @ r"] directory_bytes_length[OF es len] k by simp
  also have "entry_ok (?xs ! k)" using es empty_entry_ok len k by (auto simp: nth_append)
  then have "read_entry (entry_bytes (?xs ! k)) 0 = ?xs ! k" by (rule read_entry_bytes)
  finally show ?thesis using len k by (simp add: nth_append)
qed

section \<open>The files in the image\<close>

lemma pad_page_length: "length (pad_page b) = 4096 * pages (length b)"
proof -
  define q where "q = length b div 4096"
  define m where "m = length b mod 4096"
  have "length b = 4096 * q + m" "m < 4096" by (simp_all add: q_def m_def)
  then show ?thesis unfolding pad_page_def pages_def q_def[symmetric] m_def[symmetric] by auto
qed

lemma pages_le: "pages n \<le> n"
  using div_mult_mod_eq[of n 4096] by (auto simp: pages_def)

lemma pad_page_take: "take (length b) (pad_page b @ r) = b"
  by (simp add: pad_page_def)

definition first_page :: "nat \<Rightarrow> u8 list list \<Rightarrow> nat \<Rightarrow> nat" where
  "first_page np raw k = np + sum_list (map (\<lambda>b. pages (length b)) (take k raw))"

lemma make_entries_spec:
  "make_entries fs atoi ss np es raw = Inr (np', es', raw') \<Longrightarrow> length es < 64 \<Longrightarrow>
   \<exists>new fls. es' = es @ new \<and> raw' = raw @ fls \<and> length new = length ss \<and> length fls = length ss \<and> length es' < 64 \<and>
     (\<forall>k < length ss. make_entry fs atoi (first_page np fls k) (ss ! k) = Inr (new ! k, fls ! k))"
proof (induction fs atoi ss np es raw rule: make_entries.induct)
  case (1 fs atoi np es raw)
  then show ?case by simp
next
  case (2 fs atoi s ss np es raw)
  from "2.prems"(1) obtain e b where e: "make_entry fs atoi np s = Inr (e, b)" and small: "length es + 1 \<noteq> 64"
    and rest: "make_entries fs atoi ss (np + pages (length b)) (es @ [e]) (raw @ [b]) = Inr (np', es', raw')"
    by (auto split: sum.splits prod.splits if_splits)
  from "2.IH"[OF e refl _ rest] small "2.prems"(2) obtain new fls where
    IH: "es' = (es @ [e]) @ new" "raw' = (raw @ [b]) @ fls" "length new = length ss" "length fls = length ss" "length es' < 64"
      "\<forall>k < length ss. make_entry fs atoi (first_page (np + pages (length b)) fls k) (ss ! k) = Inr (new ! k, fls ! k)"
    by auto
  have "make_entry fs atoi (first_page np (b # fls) k) ((s # ss) ! k) = Inr ((e # new) ! k, (b # fls) ! k)"
    if "k < length (s # ss)" for k
    using that e IH(6) by (cases k) (auto simp: first_page_def add.assoc)
  with IH(1-5) show ?case by (intro exI[of _ "e # new"] exI[of _ "b # fls"]) auto
qed

text \<open>What an entry of the image says about its section.\<close>

lemma make_entry_Inr:
  assumes "make_entry fs atoi np s = Inr (e, b)"
  shows "\<exists>file. getval s [102, 105, 108, 101] = Some file \<and> fs file = Some b \<and>
    bd_name e = name_field (sec_name s) \<and> bd_offset e = int np \<and>
    bd_type e = type_code (getvaldef s [116, 121, 112, 101] [78, 79, 78, 69]) \<and> bd_type e \<noteq> 0 \<and>
    bd_size e = int (pages (length b)) \<and> bd_vsize e = int (length b)"
proof -
  have "\<not> length b < pages (length b)" using pages_le[of "length b"] by simp
  with assms show ?thesis
    by (auto simp: make_entry_def Let_def not_less split: option.splits if_splits)
qed

lemma first_page_length: "4096 * first_page 1 fls k = 4096 + sum_list (map length (take k (map pad_page fls)))"
proof -
  have "sum_list (map (\<lambda>b. 4096 * pages (length b)) xs) = 4096 * sum_list (map (\<lambda>b. pages (length b)) xs)" for xs :: "u8 list list"
    by (induction xs) auto
  then show ?thesis by (simp add: first_page_def take_map comp_def pad_page_length)
qed

definition atoi_ok :: "(str \<Rightarrow> int) \<Rightarrow> bool" where
  "atoi_ok atoi \<longleftrightarrow> (\<forall>s. - 2147483648 \<le> atoi s \<and> atoi s < 2147483648)"

lemma make_entry_ok:
  assumes "make_entry fs atoi np s = Inr (e, b)" and "atoi_ok atoi" and "np < 2147483648" and "length b < 2147483648"
  shows "entry_ok e"
proof -
  from make_entry_Inr[OF assms(1)] have f: "bd_name e = name_field (sec_name s)" "bd_offset e = int np"
    "bd_size e = int (pages (length b))" "bd_vsize e = int (length b)" by auto
  from assms(1,2) have "- 2147483648 \<le> bd_vaddr e \<and> bd_vaddr e < 2147483648"
    "- 2147483648 \<le> bd_ventr e \<and> bd_ventr e < 2147483648" "- 2147483648 \<le> bd_type e \<and> bd_type e < 2147483648"
    by (auto simp: make_entry_def atoi_ok_def Let_def type_code_def split: option.splits if_splits)
  with f assms(3,4) pages_le[of "length b"] show ?thesis by (simp add: entry_ok_def)
qed

text \<open>The whole image: the directory of the entries \<open>es\<close>, and the files from their pages on.\<close>

lemma makeboot_layout:
  assumes img: "makeboot fs atoi None ss = Inr img" and small: "length img < 2147483648" and atoi: "atoi_ok atoi"
  obtains es fls where "length es = length ss + 1" "length fls = length ss" "length es < 64" "es ! 0 = root_entry"
    "\<forall>e \<in> set es. entry_ok e" "img = directory_bytes es @ concat (map pad_page fls)"
    "\<forall>k < length ss. make_entry fs atoi (first_page 1 fls k) (ss ! k) = Inr (es ! (k + 1), fls ! k)"
    "\<forall>k < length ss. 4096 * first_page 1 fls k + length (fls ! k) \<le> length img \<and>
      take (length (fls ! k)) (drop (4096 * first_page 1 fls k) img) = fls ! k"
proof -
  from img obtain np es fls where mk: "make_entries fs atoi ss 1 [root_entry] [] = Inr (np, es, fls)"
    and layout: "img = directory_bytes es @ concat (map pad_page fls)"
    by (auto simp: makeboot_def split: sum.splits prod.splits)
  from make_entries_spec[OF mk] obtain new where new: "es = root_entry # new" "length new = length ss" "length fls = length ss"
    "length es < 64" and entry: "\<And>k. k < length ss \<Longrightarrow> make_entry fs atoi (first_page 1 fls k) (ss ! k) = Inr (new ! k, fls ! k)"
    by auto
  let ?data = "map pad_page fls"
  have total: "sum_list (map length (take k ?data)) + length (fls ! k) \<le> length (concat ?data)" if "k < length ss" for k
  proof -
    have "concat ?data = concat (take k ?data) @ pad_page (fls ! k) @ concat (drop (Suc k) ?data)"
      using that new(3) by (metis concat.simps(2) concat_append id_take_nth_drop length_map nth_map)
    then show ?thesis by (simp add: length_concat pad_page_def)
  qed
  have "length (concat ?data) < 2147483648" using small layout by simp
  then have range: "first_page 1 fls k < 2147483648" "length (fls ! k) < 2147483648" if "k < length ss" for k
    using total[OF that] first_page_length[of fls k] by simp_all
  have "entry_ok (new ! k)" if "k < length ss" for k
    using make_entry_ok[OF entry[OF that] atoi range[OF that]] .
  then have ok: "\<forall>e \<in> set es. entry_ok e"
    using new(1,2) by (auto simp: in_set_conv_nth) (simp add: root_entry_def empty_entry_def entry_ok_def)
  have "4096 * first_page 1 fls k + length (fls ! k) \<le> length img \<and>
      take (length (fls ! k)) (drop (4096 * first_page 1 fls k) img) = fls ! k" if "k < length ss" for k
  proof -
    have "drop (4096 * first_page 1 fls k) img = concat (drop k ?data)"
      using concat_drop[of k ?data] that new(3) directory_bytes_length[OF ok] new(4)
      unfolding layout first_page_length by simp
    also have "\<dots> = pad_page (fls ! k) @ concat (drop (Suc k) ?data)"
      using that new(3) by (metis Cons_nth_drop_Suc concat.simps(2) length_map nth_map)
    finally have "take (length (fls ! k)) (drop (4096 * first_page 1 fls k) img) = fls ! k" by (simp only: pad_page_take)
    moreover have "length img = 4096 + length (concat ?data)"
      using directory_bytes_length[OF ok] new(4) layout by simp
    ultimately show ?thesis using total[OF that] first_page_length[of fls k] by simp
  qed
  moreover have "\<forall>k < length ss. make_entry fs atoi (first_page 1 fls k) (ss ! k) = Inr (es ! (k + 1), fls ! k)"
    using entry new(1) by simp
  ultimately show thesis using new(1,2) by (intro that[OF _ new(3,4) _ ok layout]) simp_all
qed

text \<open>
  C16: Reading back what \<open>makeboot\<close> has written. The image is a number of whole pages; for every
  section of the description the directory has an entry, in the same order, with its name and its
  type, and at its offset stands the file of the section, byte for byte; the entries behind them
  are empty. \<open>atoi\<close> is only asked to return an \<open>int\<close>.
\<close>

theorem boot_image_files:
  assumes "makeboot fs atoi None ss = Inr img" and "length img < 2147483648" and "atoi_ok atoi"
  shows "(\<forall>k < length ss. \<exists>file b. getval (ss ! k) [102, 105, 108, 101] = Some file \<and> fs file = Some b \<and>
      (let e = read_entry img (k + 1) in bd_name e = name_field (sec_name (ss ! k)) \<and>
        bd_type e = type_code (getvaldef (ss ! k) [116, 121, 112, 101] [78, 79, 78, 69]) \<and> bd_vsize e = int (length b) \<and>
        take (length b) (drop (4096 * nat (bd_offset e)) img) = b)) \<and>
    (\<forall>k < 64. length ss < k \<longrightarrow> bd_type (read_entry img k) = 0)"
proof -
  from makeboot_layout[OF assms] obtain es fls where es: "length es = length ss + 1" "length fls = length ss" "length es < 64"
    and "es ! 0 = root_entry" and ok: "\<forall>e \<in> set es. entry_ok e" and img: "img = directory_bytes es @ concat (map pad_page fls)"
    and entry: "\<forall>k < length ss. make_entry fs atoi (first_page 1 fls k) (ss ! k) = Inr (es ! (k + 1), fls ! k)"
    and data: "\<forall>k < length ss. 4096 * first_page 1 fls k + length (fls ! k) \<le> length img \<and>
      take (length (fls ! k)) (drop (4096 * first_page 1 fls k) img) = fls ! k" .
  have read: "read_entry img k = (if k < length es then es ! k else empty_entry)" if "k < 64" for k
    unfolding img using es(3) by (intro read_directory[OF ok _ that]) simp
  have "\<exists>file b. getval (ss ! k) [102, 105, 108, 101] = Some file \<and> fs file = Some b \<and>
      (let e = read_entry img (k + 1) in bd_name e = name_field (sec_name (ss ! k)) \<and>
        bd_type e = type_code (getvaldef (ss ! k) [116, 121, 112, 101] [78, 79, 78, 69]) \<and> bd_vsize e = int (length b) \<and>
        take (length b) (drop (4096 * nat (bd_offset e)) img) = b)" if k: "k < length ss" for k
    using make_entry_Inr[OF entry[rule_format, OF k]] data k read[of "k + 1"] es(1,3) k by auto
  moreover have "bd_type (read_entry img k) = 0" if "k < 64" "length ss < k" for k
    using read[OF that(1)] that(2) es(1) by (simp add: empty_entry_def)
  ultimately show ?thesis by blast
qed

section \<open>The image in the file system server\<close>

definition names_ok :: "bsection list \<Rightarrow> bool" where
  "names_ok ss \<longleftrightarrow> distinct (map sec_name ss) \<and>
     (\<forall>s \<in> set ss. 0 \<notin> set (sec_name s) \<and> length (sec_name s) \<le> 31 \<and> sec_name s \<noteq> bootdir_directory)"

lemma c_str_name_field: "0 \<notin> set n \<Longrightarrow> length n \<le> 31 \<Longrightarrow> c_str (name_field n) = n"
proof -
  assume n: "0 \<notin> set n" "length n \<le> 31"
  then have "name_field n = n @ 0 # replicate (31 - length n) 0"
    by (simp add: name_field_def replicate_append_same[symmetric] flip: replicate_Suc)
  then show ?thesis using n by (auto simp: c_str_def takeWhile_tail)
qed

lemma find_place_append: "find_place P xs = Some j \<Longrightarrow> find_place P (xs @ ys) = Some j"
  by (induction xs arbitrary: j) (auto split: if_splits)

lemma find_place_rev:
  assumes "k < length xs" and "distinct (map f xs)"
  shows "find_place (\<lambda>x. f x = f (xs ! k)) (rev xs) = Some (length xs - Suc k)"
proof -
  have "rev xs ! (length xs - Suc k) = xs ! k" using assms(1) by (simp add: rev_nth)
  moreover have "distinct (map f (rev xs))" using assms(2) by (simp add: rev_map[symmetric])
  ultimately show ?thesis
    using find_place_distinct[of "length xs - Suc k" "rev xs" f] assms(1) by simp
qed

text \<open>The entries that the server takes over are those of the sections.\<close>

lemma vfs_directory_filter:
  assumes "makeboot fs atoi None ss = Inr img" and "length img < 2147483648" and "atoi_ok atoi" and names: "names_ok ss"
  obtains fls where "length fls = length ss" "length ss < 64"
    "filter (\<lambda>e. be_type e \<noteq> 0 \<and> be_name e \<noteq> bootdir_directory) (vfs_directory img) =
      map (\<lambda>k. \<lparr>be_name = sec_name (ss ! k), be_offset = int (first_page 1 fls k),
        be_type = type_code (getvaldef (ss ! k) [116, 121, 112, 101] [78, 79, 78, 69]), be_vsize = int (length (fls ! k))\<rparr>) [0..<length ss]"
    "\<forall>k < length ss. \<exists>file. getval (ss ! k) [102, 105, 108, 101] = Some file \<and> fs file = Some (fls ! k)"
    "\<forall>k < length ss. 4096 * first_page 1 fls k + length (fls ! k) \<le> length img \<and>
      take (length (fls ! k)) (drop (4096 * first_page 1 fls k) img) = fls ! k"
proof -
  from makeboot_layout[OF assms(1-3)] obtain es fls where es: "length es = length ss + 1" "length fls = length ss" "length es < 64"
    and root: "es ! 0 = root_entry" and ok: "\<forall>e \<in> set es. entry_ok e" and img: "img = directory_bytes es @ concat (map pad_page fls)"
    and entry: "\<forall>k < length ss. make_entry fs atoi (first_page 1 fls k) (ss ! k) = Inr (es ! (k + 1), fls ! k)"
    and data: "\<forall>k < length ss. 4096 * first_page 1 fls k + length (fls ! k) \<le> length img \<and>
      take (length (fls ! k)) (drop (4096 * first_page 1 fls k) img) = fls ! k" .
  let ?keep = "\<lambda>e. be_type e \<noteq> 0 \<and> be_name e \<noteq> bootdir_directory"
  let ?e = "\<lambda>k. \<lparr>be_name = sec_name (ss ! k), be_offset = int (first_page 1 fls k),
        be_type = type_code (getvaldef (ss ! k) [116, 121, 112, 101] [78, 79, 78, 69]), be_vsize = int (length (fls ! k))\<rparr>"
  have read: "read_entry img k = (if k < length es then es ! k else empty_entry)" if "k < 64" for k
    unfolding img using es(3) by (intro read_directory[OF ok _ that]) simp
  have zero: "\<not> ?keep (vfs_entry (read_entry img 0))"
    using read[of 0] es(1) root c_str_name_field[of bootdir_directory]
    by (simp add: root_entry_def vfs_entry_def bootdir_directory_def)
  have mid: "vfs_entry (read_entry img (k + 1)) = ?e k \<and> ?keep (?e k)" if k: "k < length ss" for k
  proof -
    have "0 \<notin> set (sec_name (ss ! k))" "length (sec_name (ss ! k)) \<le> 31" "sec_name (ss ! k) \<noteq> bootdir_directory"
      using names k by (auto simp: names_ok_def)
    with make_entry_Inr[OF entry[rule_format, OF k]] read[of "k + 1"] es(1,3) k show ?thesis
      by (auto simp: vfs_entry_def c_str_name_field)
  qed
  have hi: "\<not> ?keep (vfs_entry (read_entry img k))" if "length ss < k" "k < 64" for k
    using read[OF that(2)] that(1) es(1) by (simp add: vfs_entry_def empty_entry_def)
  have up: "[0..<64] = 0 # map (\<lambda>k. k + 1) [0..<length ss] @ [length ss + 1..<64]"
  proof -
    have "[0..<64] = 0 # [1..<64]" by (simp add: upt_rec)
    also have "[1..<64] = [1..<length ss + 1] @ [length ss + 1..<64]"
      using es(1,3) upt_add_eq_append[of 1 "length ss + 1" "63 - length ss"] by simp
    also have "[1..<length ss + 1] = map (\<lambda>k. k + 1) [0..<length ss]" by (simp add: map_Suc_upt)
    finally show ?thesis .
  qed
  have "filter ?keep (vfs_directory img) = filter ?keep (map (\<lambda>k. vfs_entry (read_entry img (k + 1))) [0..<length ss]) @
      filter ?keep (map (\<lambda>k. vfs_entry (read_entry img k)) [length ss + 1..<64])"
    unfolding vfs_directory_def up using zero by (simp add: comp_def)
  also have "filter ?keep (map (\<lambda>k. vfs_entry (read_entry img k)) [length ss + 1..<64]) = []"
    using hi by (auto simp: filter_empty_conv)
  also have "map (\<lambda>k. vfs_entry (read_entry img (k + 1))) [0..<length ss] = map ?e [0..<length ss]"
    using mid by simp
  also have "filter ?keep (map ?e [0..<length ss]) = map ?e [0..<length ss]"
    using mid by (intro filter_True) auto
  finally have "filter ?keep (vfs_directory img) = map ?e [0..<length ss]" by simp
  moreover have "\<forall>k < length ss. \<exists>file. getval (ss ! k) [102, 105, 108, 101] = Some file \<and> fs file = Some (fls ! k)"
    using make_entry_Inr entry by metis
  ultimately show thesis using es data by (intro that[OF es(2)]) simp_all
qed


text \<open>Mounting keeps the names apart, so that the file that is found is the one of the section.\<close>

lemma boot_mount_files:
  assumes img: "makeboot fs atoi None ss = Inr img" "length img < 2147483648" "atoi_ok atoi" and names: "names_ok ss"
    and k: "k < length ss"
  shows "\<exists>v is j fl b. vfs_start (vfs_directory img) img = Some v \<and> boot_mounted v is \<and> conn_table v = hashtable_new (3 / 4) \<and>
    find_place (\<lambda>i. bi_name i = sec_name (ss ! k)) is = Some j \<and>
    getval (ss ! k) [102, 105, 108, 101] = Some fl \<and> fs fl = Some b \<and> boot_mem v = img \<and> inode_ok v (is ! j) \<and> content v (is ! j) = b"
proof -
  from vfs_directory_filter[OF img names] obtain fls where fls: "length fls = length ss" "length ss < 64" and
    dir: "filter (\<lambda>e. be_type e \<noteq> 0 \<and> be_name e \<noteq> bootdir_directory) (vfs_directory img) =
      map (\<lambda>k. \<lparr>be_name = sec_name (ss ! k), be_offset = int (first_page 1 fls k),
        be_type = type_code (getvaldef (ss ! k) [116, 121, 112, 101] [78, 79, 78, 69]), be_vsize = int (length (fls ! k))\<rparr>) [0..<length ss]"
    and source: "\<forall>k < length ss. \<exists>file. getval (ss ! k) [102, 105, 108, 101] = Some file \<and> fs file = Some (fls ! k)"
    and data: "\<forall>k < length ss. 4096 * first_page 1 fls k + length (fls ! k) \<le> length img \<and>
      take (length (fls ! k)) (drop (4096 * first_page 1 fls k) img) = fls ! k" .
  from vfs_start_boot[of "vfs_directory img" img] obtain v new where
    v: "vfs_start (vfs_directory img) img = Some v" "boot_mounted v (rev new @ dots)" "boot_mem v = img" "conn_table v = hashtable_new (3 / 4)"
    and new: "map (\<lambda>i. (bi_name i, bi_offset i, bi_size i)) new =
      map (\<lambda>k. (take 31 (sec_name (ss ! k)), int (first_page 1 fls k), int (length (fls ! k)))) [0..<length ss]"
    unfolding dir by (auto simp: comp_def)
  have len: "length new = length ss" using arg_cong[OF new, of length] by simp
  have at: "bi_name (new ! i) = sec_name (ss ! i)" "bi_offset (new ! i) = int (first_page 1 fls i)" "bi_size (new ! i) = int (length (fls ! i))"
    if "i < length ss" for i
    using arg_cong[OF new, of "\<lambda>l. l ! i"] that len names by (auto simp: names_ok_def)
  have "map bi_name new = map sec_name ss" using len at(1) by (intro nth_equalityI) auto
  then have "distinct (map bi_name new)" using names by (simp add: names_ok_def)
  from find_place_rev[OF _ this, of k] k len at(1)[OF k]
  have found: "find_place (\<lambda>i. bi_name i = sec_name (ss ! k)) (rev new @ dots) = Some (length new - Suc k)"
    by (intro find_place_append) simp
  have i: "(rev new @ dots) ! (length new - Suc k) = new ! k" using k len by (simp add: nth_append rev_nth)
  have d: "4096 * first_page 1 fls k + length (fls ! k) \<le> length img"
    "take (length (fls ! k)) (drop (4096 * first_page 1 fls k) img) = fls ! k" using data k by simp_all
  have off: "nat (bi_offset (new ! k) * 4096) = 4096 * first_page 1 fls k" using at(2)[OF k] by simp
  have "inode_ok v (new ! k)" using at(2,3)[OF k] d(1) img(2) off by (simp add: inode_ok_def v(3))
  moreover have "content v (new ! k) = fls ! k" using at(3)[OF k] d(2) off by (simp add: content_def v(3))
  ultimately show ?thesis using found source k i v by metis
qed

text \<open>
  C5: From the description to the client. A server that starts on the image that \<open>makeboot\<close>
  has built mounts it at \<open>/boot\<close>; a process that connects, opens the name of a section and reads
  gets the bytes of the file that was named in the description, in the messages of the
  protocol.
\<close>

theorem boot_file_session:
  assumes "makeboot fs atoi None ss = Inr img" and "length img < 2147483648" and "atoi_ok atoi" and "names_ok ss"
    and "k < length ss" and "names = boot_path @ ch # sec_name (ss ! k) @ 0 # zs" and "ch \<noteq> 0"
  shows "\<exists>fl b v0 v1 v2 v3. getval (ss ! k) [102, 105, 108, 101] = Some fl \<and> fs fl = Some b \<and>
    vfs_start (vfs_directory img) img = Some v0 \<and>
    serve port \<lparr>vcmd = VFS_OPENCONN, vdata = [a]\<rparr> names jk er pp v0 = Some ([Res (reply_of 0 [0 \<mapsto> pp])], v1) \<and>
    serve port \<lparr>vcmd = VFS_OPEN, vdata = [0, a1, a2, a3]\<rparr> names jk er pp v1 = Some ([Res (reply_of 0 [0 \<mapsto> 0])], v2) \<and>
    serve port \<lparr>vcmd = VFS_READ, vdata = [0, n]\<rparr> names jk er pp v2 =
      Some (Res (reply_of 0 [0 \<mapsto> min n (length b)]) # data_packets (take n b), v3)"
proof -
  obtain v0 "is" j fl b where v0: "vfs_start (vfs_directory img) img = Some v0" "boot_mounted v0 is" "conn_table v0 = hashtable_new (3 / 4)"
    and j: "find_place (\<lambda>i. bi_name i = sec_name (ss ! k)) is = Some j"
    and f: "getval (ss ! k) [102, 105, 108, 101] = Some fl" "fs fl = Some b"
    and i: "inode_ok v0 (is ! j)" "content v0 (is ! j) = b"
    using boot_mount_files[OF assms(1-5)] by blast
  obtain v1 c sz cl where v1: "serve port \<lparr>vcmd = VFS_OPENCONN, vdata = [a]\<rparr> names jk er pp v0 = Some ([Res (reply_of 0 [0 \<mapsto> pp])], v1)"
    "boot_mounted v1 is" "boot_mem v1 = boot_mem v0" "hashtable_lookup (conn_table v1) port = Some (c, sz)"
    "clients v1 c = Some cl" "find_place (\<lambda>f. f = 0) (ofiles cl) = Some 0"
    using openconn_lemma[OF v0(2,3), of port a "[]" names jk er pp] by blast
  have "0 \<notin> set (sec_name (ss ! k))" using assms(4,5) by (simp add: names_ok_def)
  from open_lemma[OF v1(2) assms(6,7) this j v1(4-6)] obtain v2 where
    v2: "serve port \<lparr>vcmd = VFS_OPEN, vdata = [0, a1, a2, a3]\<rparr> names jk er pp v1 = Some ([Res (reply_of 0 [0 \<mapsto> 0])], v2)"
    "open_file v2 port 0 (is ! j) 0" "boot_mem v2 = boot_mem v1" by blast
  have "inode_ok v2 (is ! j)" "content v2 (is ! j) = b"
    using i v1(3) v2(3) by (simp_all add: inode_ok_def content_def)
  with vfs_read_file[OF v2(2), of n names jk er pp] f v0(1) v1(1) v2(1) show ?thesis by (auto simp: min.commute)
qed

section \<open>An image\<close>

text \<open>A bootstrap of 3 bytes, a kernel of 20 whose entry point is at 16, and a file of data.\<close>

definition demo_fs :: "str \<Rightarrow> u8 list option" where
  "demo_fs f = (if f = [98] then Some [1, 2, 3] else if f = [107] then Some (map of_nat [0..<20]) else if f = [100] then Some [7, 8] else None)"

definition demo_atoi :: "str \<Rightarrow> int" where
  "demo_atoi v = (if v = [49, 54] then 16 else 0)"

definition demo_section :: "str \<Rightarrow> str \<Rightarrow> bsection" where
  "demo_section n t = \<lparr>sec_name = n, pairs = [([102, 105, 108, 101], n), ([116, 121, 112, 101], t), ([118, 101, 110, 116, 114, 121], [49, 54])]\<rparr>"

definition demo_ss :: "bsection list" where
  "demo_ss = [demo_section [98] [98, 111, 111, 116], demo_section [107] [99, 111, 100, 101], demo_section [100] [100, 97, 116, 97]]"

definition demo_img :: "u8 list" where
  "demo_img = (case makeboot demo_fs demo_atoi None demo_ss of Inr img \<Rightarrow> img | Inl d \<Rightarrow> [])"

lemma demo_makeboot: "makeboot demo_fs demo_atoi None demo_ss = Inr demo_img" and demo_length: "length demo_img = 16384"
proof -
  let ?e = "\<lambda>n off t sz v. \<lparr>bd_name = name_field n, bd_offset = off, bd_type = t, bd_size = 1, bd_vsize = sz, bd_vaddr = 0, bd_ventr = v\<rparr>"
  let ?es = "[root_entry, ?e [98] 1 2 3 16, ?e [107] 2 3 20 16, ?e [100] 3 4 2 0]"
  have img: "makeboot demo_fs demo_atoi None demo_ss =
      Inr (directory_bytes ?es @ pad_page [1, 2, 3] @ pad_page (map of_nat [0..<20]) @ pad_page [7, 8])"
    by (simp add: makeboot_def demo_ss_def demo_section_def make_entry_def getvaldef_def getval_def demo_fs_def demo_atoi_def
        type_code_def pages_def)
  then show "makeboot demo_fs demo_atoi None demo_ss = Inr demo_img" by (simp add: demo_img_def)
  have "length (directory_bytes ?es) = 4096"
    by (intro directory_bytes_length) (simp_all add: entry_ok_def root_entry_def empty_entry_def)
  then show "length demo_img = 16384"
    unfolding demo_img_def img by (simp only: sum.case length_append pad_page_length) (simp add: pages_def)
qed

lemma demo_ok: "atoi_ok demo_atoi" "names_ok demo_ss"
  by (auto simp: atoi_ok_def demo_atoi_def names_ok_def demo_ss_def demo_section_def bootdir_directory_def)

text \<open>The kernel and the data of the image, by way of the directory and of the server.\<close>

theorem boot_image_files_witness:
  "bd_vsize (read_entry demo_img 2) = 20 \<and> take 2 (drop (4096 * nat (bd_offset (read_entry demo_img 3))) demo_img) = [7, 8] \<and>
   bd_type (read_entry demo_img 4) = 0"
proof -
  have l: "length demo_ss = 3" by (simp add: demo_ss_def)
  have g: "getval (demo_ss ! 1) [102, 105, 108, 101] = Some [107]" "getval (demo_ss ! 2) [102, 105, 108, 101] = Some [100]"
    by (simp_all add: demo_ss_def demo_section_def getval_def)
  have f: "demo_fs [107] = Some (map of_nat [0..<20])" "demo_fs [100] = Some [7, 8]" by (simp_all add: demo_fs_def)
  note files = boot_image_files[OF demo_makeboot _ demo_ok(1), simplified demo_length l]
  have "bd_vsize (read_entry demo_img (1 + 1)) = 20"
    using files[THEN conjunct1, rule_format, of 1] g(1) f(1) by (auto simp: Let_def)
  moreover have "take 2 (drop (4096 * nat (bd_offset (read_entry demo_img (2 + 1)))) demo_img) = [7, 8]"
    using files[THEN conjunct1, rule_format, of 2] g(2) f(2) by (auto simp: Let_def numeral_2_eq_2)
  moreover have "bd_type (read_entry demo_img 4) = 0" using files[THEN conjunct2, rule_format, of 4] by simp
  moreover have "(1 :: nat) + 1 = 2" "(2 :: nat) + 1 = 3" by simp_all
  ultimately show ?thesis by metis
qed

theorem boot_file_session_witness:
  "\<exists>v0 v1 v2 v3. vfs_start (vfs_directory demo_img) demo_img = Some v0 \<and>
    serve 5 \<lparr>vcmd = VFS_OPENCONN, vdata = [0]\<rparr> (boot_path @ [47, 100, 0]) [] False 6 v0 = Some ([Res (reply_of 0 [0 \<mapsto> 6])], v1) \<and>
    serve 5 \<lparr>vcmd = VFS_OPEN, vdata = [0, 0, 0, 0]\<rparr> (boot_path @ [47, 100, 0]) [] False 6 v1 = Some ([Res (reply_of 0 [0 \<mapsto> 0])], v2) \<and>
    serve 5 \<lparr>vcmd = VFS_READ, vdata = [0, 100]\<rparr> (boot_path @ [47, 100, 0]) [] False 6 v2 =
      Some ([Res (reply_of 0 [0 \<mapsto> 2]), Bytes [7, 8]], v3)"
proof -
  have l: "2 < length demo_ss" by (simp add: demo_ss_def)
  have n: "boot_path @ [47, 100, 0] = boot_path @ 47 # sec_name (demo_ss ! 2) @ 0 # []"
    by (simp add: demo_ss_def demo_section_def)
  have g: "getval (demo_ss ! 2) [102, 105, 108, 101] = Some [100]" "demo_fs [100] = Some [7, 8]"
    by (simp_all add: demo_ss_def demo_section_def getval_def demo_fs_def)
  have two: "Suc (Suc 0) = 2" by simp
  have d: "data_packets [7, 8] = [Bytes [7, 8]]" by (simp add: data_packets.simps)
  from boot_file_session[OF demo_makeboot _ demo_ok(1,2) l n, of 5 0 "[]" False 6 0 0 0 100] show ?thesis
    by (auto simp: demo_length g d two)
qed

end
