(* ===== verification/BootstrapProps.thy ===== *)
theory BootstrapProps
  imports BootProps
begin

text \<open>
  Properties of the second stage of the boot: what the processor finds at the addresses of the
  kernel once paging is on.
\<close>

unbundle bit_operations_syntax

section \<open>Entries of page tables\<close>

lemma or_three: "of_nat (4096 * q) OR 3 = (of_nat (4096 * q + 3) :: u32)"
proof -
  have three: "(3 :: u32) = mask 2" by (simp add: mask_eq_exp_minus_1)
  have "(of_nat (4096 * q) :: u32) = push_bit 12 (of_nat q)" by (simp add: push_bit_eq_mult)
  moreover have "push_bit 12 (of_nat q :: u32) AND mask 2 = 0"
    by (simp add: take_bit_push_bit flip: take_bit_eq_mask)
  ultimately have "(of_nat (4096 * q) :: u32) AND 3 = 0" by (simp only: three)
  then show ?thesis by (simp add: disjunctive_add_eq_or [symmetric])
qed

lemma or_three_unat: "4096 * q + 3 < 4294967296 \<Longrightarrow> unat (of_nat (4096 * q) OR 3 :: u32) = 4096 * q + 3"
  by (simp only: or_three) (simp add: unsigned_of_nat take_bit_eq_mod del: of_nat_add of_nat_mult)

text \<open>
  The translation of an address by the i386 in the tables \<open>t\<close> at \<open>cr\<close>, as far as the tables of
  the second level lie in \<open>t\<close> too.
\<close>

definition frame :: "u32 \<Rightarrow> nat" where
  "frame w = 4096 * (unat w div 4096)"

definition mmu :: "u32 list \<Rightarrow> nat \<Rightarrow> nat \<Rightarrow> nat option" where
  "mmu t cr a =
     (let d = t ! (a div 4194304); i = (frame d - cr) div 4 + a div 4096 mod 1024; p = t ! i
      in if even (unat d) \<or> frame d < cr \<or> length t \<le> i \<or> even (unat p) then None
         else Some (frame p + a mod 4096))"

lemma entry_frame:
  assumes "4096 * q + 3 < 4294967296"
  shows "frame (of_nat (4096 * q) OR 3) = 4096 * q" and "odd (unat (of_nat (4096 * q) OR 3 :: u32))"
proof -
  have "odd (4096 * q + 3)" "(4096 * q + 3) div 4096 = q" by simp_all
  then show "frame (of_nat (4096 * q) OR 3) = 4096 * q" "odd (unat (of_nat (4096 * q) OR 3 :: u32))"
    unfolding frame_def or_three_unat[OF assms] by (simp_all only: not_False_eq_True)
qed

section \<open>The tables of the bootstrap\<close>

lemma flat_pages: "12288 \<le> memsize \<Longrightarrow> flat_addr memsize = 4096 * (memsize div 4096 - 3)"
  unfolding flat_addr_def by (simp add: right_diff_distrib')

lemma page_tables_length [simp]: "length (bootstrap_tables memsize sz off) = 3072"
  by (simp add: bootstrap_tables_def page_tables_def Let_def)

lemma tables_dir:
  "bootstrap_tables memsize sz off ! 0 = of_nat (flat_addr memsize + 4096) OR 3"
  "bootstrap_tables memsize sz off ! 512 = of_nat (flat_addr memsize + 8192) OR 3"
  "j < 1024 \<Longrightarrow> j \<noteq> 0 \<Longrightarrow> j \<noteq> 512 \<Longrightarrow> bootstrap_tables memsize sz off ! j = 0"
  by (simp_all add: bootstrap_tables_def page_tables_def Let_def nth_append)

lemma tables_low: "j < 1024 \<Longrightarrow> bootstrap_tables memsize sz off ! (1024 + j) = of_nat (4096 * j) OR 3"
  by (simp add: bootstrap_tables_def page_tables_def Let_def nth_append)

lemma tables_kernel: "j < 1021 \<Longrightarrow> bootstrap_tables memsize sz off ! (2048 + j) = kernel_pte sz off j"
  by (simp add: bootstrap_tables_def page_tables_def Let_def nth_append)

lemma tables_own:
  "j < 3 \<Longrightarrow> bootstrap_tables memsize sz off ! (3069 + j) = of_nat (flat_addr memsize + 4096 * j) OR 3"
proof -
  assume "j < 3"
  then consider "j = 0" | "j = 1" | "j = 2" by linarith
  then show ?thesis
    by cases (simp_all add: bootstrap_tables_def page_tables_def Let_def)
qed

lemma kernel_pte_nat:
  "0 \<le> off \<Longrightarrow> kernel_pte sz off j =
   (if int j > sz then 0 else of_nat (4096 * (nat off + 256 + j)) OR 3)"
  by (simp add: kernel_pte_def algebra_simps)

text \<open>Where the two levels lead, for a page number within a table.\<close>

lemma mmu_table:
  assumes d: "t ! k = of_nat (cr + 4096 * m) OR 3" and cr: "cr = 4096 * c" "cr + 4096 * m + 3 < 4294967296"
    and "m < 3" "length t = 3072" "a < 4194304"
  shows "mmu t cr (4194304 * k + a) =
    (let p = t ! (1024 * m + a div 4096) in if even (unat p) then None else Some (frame p + a mod 4096))"
proof -
  have q: "cr + 4096 * m = 4096 * (c + m)" using cr(1) by simp
  have f: "frame (t ! k) = cr + 4096 * m" "odd (unat (t ! k))"
    using entry_frame[of "c + m"] cr(2) unfolding d q by simp_all
  have k: "(4194304 * k + a) div 4194304 = k" using assms(6) by simp
  have "(4194304 * k + a) div 4096 = 1024 * k + a div 4096" by simp
  moreover have "a div 4096 < 1024" using assms(6) by (simp add: less_mult_imp_div_less)
  ultimately have i: "(4194304 * k + a) div 4096 mod 1024 = a div 4096" by (metis mod_less mod_mult_self4)
  have o: "(4194304 * k + a) mod 4096 = a mod 4096" by (simp add: mod_add_eq[symmetric, of "4194304 * k"])
  have lt: "1024 * m + a div 4096 < 3072" using \<open>m < 3\<close> \<open>a div 4096 < 1024\<close> by linarith
  show ?thesis using lt assms(5) f(2) by (simp add: mmu_def Let_def k i o f(1))
qed

lemma mmu_absent: "t ! k = 0 \<Longrightarrow> a < 4194304 \<Longrightarrow> mmu t cr (4194304 * k + a) = None"
  by (simp add: mmu_def)

text \<open>The whole address space after \<open>bootstrap\<close>, but for the last 12 K of the kernel's 4 M.\<close>

lemma bootstrap_map:
  assumes mem: "16384 \<le> memsize" "memsize < 4294967296"
    and off: "0 \<le> off" "off + sz < 1048576 - 1024" and a: "a < 4194304"
  shows "mmu (bootstrap_tables memsize sz off) (flat_addr memsize) a = Some a"
    and "a < 4096 * 1021 \<Longrightarrow> mmu (bootstrap_tables memsize sz off) (flat_addr memsize) (0x80000000 + a) =
      (if int (a div 4096) \<le> sz then Some (0x100000 + 4096 * nat off + a) else None)"
    and "a < 12288 \<Longrightarrow> mmu (bootstrap_tables memsize sz off) (flat_addr memsize) (0x803FD000 + a) = Some (flat_addr memsize + a)"
    and "k < 1024 \<Longrightarrow> k \<noteq> 0 \<Longrightarrow> k \<noteq> 512 \<Longrightarrow> mmu (bootstrap_tables memsize sz off) (flat_addr memsize) (4194304 * k + a) = None"
proof -
  let ?t = "bootstrap_tables memsize sz off" and ?cr = "flat_addr memsize"
  define c where "c = memsize div 4096 - 3"
  have cr: "?cr = 4096 * c" and hi: "?cr + 12288 \<le> memsize"
    using flat_pages[of memsize] mem(1) div_mult_mod_eq[of memsize 4096] by (simp_all add: c_def)
  have low: "mmu ?t ?cr (4194304 * 0 + a) =
      (let p = ?t ! (1024 * 1 + a div 4096) in if even (unat p) then None else Some (frame p + a mod 4096))"
    using cr hi mem a by (intro mmu_table) (simp_all add: tables_dir)
  have high: "mmu ?t ?cr (4194304 * 512 + b) =
      (let p = ?t ! (1024 * 2 + b div 4096) in if even (unat p) then None else Some (frame p + b mod 4096))" if "b < 4194304" for b
    using cr hi mem that by (intro mmu_table) (simp_all add: tables_dir)
  have p: "a div 4096 < 1024" using a by (simp add: less_mult_imp_div_less)
  then have "4096 * (a div 4096) + 3 < 4294967296" by linarith
  from entry_frame[OF this] tables_low[OF p, of memsize sz off] show "mmu ?t ?cr a = Some a"
    using low by simp
  show "mmu ?t ?cr (4194304 * k + a) = None" if "k < 1024" "k \<noteq> 0" "k \<noteq> 512"
    using that a by (intro mmu_absent tables_dir(3))
  show "mmu ?t ?cr (0x80000000 + a) = (if int (a div 4096) \<le> sz then Some (0x100000 + 4096 * nat off + a) else None)"
    if "a < 4096 * 1021"
  proof -
    have j: "a div 4096 < 1021" using that by (simp add: less_mult_imp_div_less)
    have v: "?t ! (2048 + a div 4096) = kernel_pte sz off (a div 4096)" by (rule tables_kernel[OF j])
    show ?thesis
    proof (cases "int (a div 4096) \<le> sz")
      case True
      obtain m where m: "off = int m" using off(1) by (rule nonneg_int_cases)
      then have "m + a div 4096 < 1047552" using off(2) True by linarith
      then have "4096 * (nat off + 256 + a div 4096) + 3 < 4294967296" using m by simp
      from entry_frame[OF this] v kernel_pte_nat[OF off(1)] True high[OF a] show ?thesis
        by (simp add: algebra_simps)
    next
      case False
      with v kernel_pte_nat[OF off(1)] high[OF a] show ?thesis by simp
    qed
  qed
  show "mmu ?t ?cr (0x803FD000 + a) = Some (?cr + a)" if "a < 12288"
  proof -
    define j where "j = a div 4096"
    have j: "j < 3" using that by (simp add: less_mult_imp_div_less j_def)
    have "(4182016 + a) div 4096 = 1021 + j" "(4182016 + a) mod 4096 = a mod 4096"
      by (simp_all add: j_def mod_add_eq[symmetric, of 4182016])
    then have "mmu ?t ?cr (0x803FD000 + a) =
        (let p = ?t ! (3069 + j) in if even (unat p) then None else Some (frame p + a mod 4096))"
      using high[of "4182016 + a"] that by (simp add: Let_def add.assoc[symmetric])
    moreover have "?t ! (3069 + j) = of_nat (4096 * (c + j)) OR 3"
      using tables_own[OF j, of memsize sz off] by (simp add: cr algebra_simps)
    moreover have "4096 * c + 12288 < 4294967296" using cr hi mem(2) by linarith
    then have "4096 * (c + j) + 3 < 4294967296" using j by (simp only: distrib_left)
    from entry_frame[OF this] have "frame (of_nat (4096 * (c + j)) OR 3) = 4096 * (c + j)"
      "odd (unat (of_nat (4096 * (c + j)) OR 3 :: u32))" .
    ultimately show ?thesis by (simp add: cr j_def algebra_simps)
  qed
qed

section \<open>The memory that the kernel finds\<close>

text \<open>What a program reads at an address, as far as it lies in the image.\<close>

definition vread :: "handoff \<Rightarrow> nat \<Rightarrow> u8 option" where
  "vread h a = (case mmu (tables h) (cr3 h) a of
     Some p \<Rightarrow> if 0x100000 \<le> p \<and> p < 0x100000 + length (phys h) then Some (phys h ! (p - 0x100000)) else None
   | None \<Rightarrow> None)"

lemma put_kinfo_length: "0x2010 \<le> length b \<Longrightarrow> length (put_kinfo m e d p b) = length b"
  by (simp add: put_kinfo_def)

lemma put_kinfo_nth:
  assumes "0x2010 \<le> length b"
  shows "k < 0x2000 \<Longrightarrow> put_kinfo m e d p b ! k = b ! k"
    and "j < 16 \<Longrightarrow> put_kinfo m e d p b ! (0x2000 + j) = (put32 (int m) @ put32 (int e) @ put32 (int d) @ put32 (int p)) ! j"
    and "0x2010 \<le> k \<Longrightarrow> k < length b \<Longrightarrow> put_kinfo m e d p b ! k = b ! k"
  using assms by (auto simp: put_kinfo_def nth_append)

lemma put_kinfo_entry:
  assumes "0x2010 \<le> length b" and "k < 64"
  shows "read_entry (put_kinfo m e d p b) k = read_entry b k"
proof -
  have "take 64 (drop (64 * k) (put_kinfo m e d p b)) = take 64 (drop (64 * k) b)"
    using assms put_kinfo_nth(1)[OF assms(1)] by (intro nth_equalityI) (simp_all add: put_kinfo_length)
  then show ?thesis
    using read_entry_block[of k b] read_entry_block[of k "put_kinfo m e d p b"] assms by (simp add: put_kinfo_length)
qed

lemma put_kinfo_get:
  assumes "0x2010 \<le> length b"
  shows "get32 (put_kinfo m e d p b) 0x2000 = s32 (int m)" and "get32 (put_kinfo m e d p b) 0x2008 = s32 (int d)"
  using assms get32_put32[where a = "take 0x2000 b" and i = "0x2000" and n = "int m" and r = "put32 (int e) @ put32 (int d) @ put32 (int p) @ drop 0x2010 b"]
    get32_put32[where a = "take 0x2000 b @ put32 (int m) @ put32 (int e)" and i = "0x2008" and n = "int d" and r = "put32 (int p) @ drop 0x2010 b"]
  by (simp_all add: put_kinfo_def)

text \<open>An image whose first file fills one page, so that the second one, the kernel, begins at 0x102000.\<close>

lemma kernel_place:
  assumes img: "makeboot fs atoi None ss = Inr img" and small: "length img < 2147483648" and atoi: "atoi_ok atoi"
    and "2 \<le> length ss"
    and f: "getval (ss ! 0) [102, 105, 108, 101] = Some f0" "fs f0 = Some b0" "b0 \<noteq> []" "length b0 \<le> 4096"
    and g: "getval (ss ! 1) [102, 105, 108, 101] = Some f1" "fs f1 = Some b1"
  shows "bd_offset (read_entry img 2) = 2" and "bd_size (read_entry img 2) = int (pages (length b1))"
    and "0x2000 + length b1 \<le> length img" and "take (length b1) (drop 0x2000 img) = b1"
    and "b1 \<noteq> [] \<Longrightarrow> 0x3000 \<le> length img"
proof -
  from makeboot_layout[OF img small atoi] obtain es fls where es: "length es = length ss + 1" "length fls = length ss" "length es < 64"
    and root: "es ! 0 = root_entry" and ok: "\<forall>e \<in> set es. entry_ok e" and layout: "img = directory_bytes es @ concat (map pad_page fls)"
    and entry: "\<forall>k < length ss. make_entry fs atoi (first_page 1 fls k) (ss ! k) = Inr (es ! (k + 1), fls ! k)"
    and data: "\<forall>k < length ss. 4096 * first_page 1 fls k + length (fls ! k) \<le> length img \<and>
      take (length (fls ! k)) (drop (4096 * first_page 1 fls k) img) = fls ! k" .
  have "0 < length ss" "1 < length ss" using assms(4) by auto
  from make_entry_Inr[OF entry[rule_format, OF this(1)]] make_entry_Inr[OF entry[rule_format, OF this(2)]]
  have fls: "fls ! 0 = b0" "fls ! 1 = b1" using f g by auto
  have split: "fls = b0 # b1 # drop 2 fls"
    using es(2) assms(4) fls by (metis Cons_nth_drop_Suc One_nat_def Suc_1 drop0 le_trans less_eq_Suc_le one_le_numeral)
  have one: "pages (length b0) = 1" using f(3,4) by (cases "length b0 = 4096") (auto simp: pages_def)
  have fp: "first_page 1 fls 1 = 2" by (subst split) (simp add: first_page_def one)
  have read: "read_entry img 2 = es ! 2"
    unfolding layout using read_directory[OF ok _, of 2] es(1,3) assms(4) by simp
  have e: "make_entry fs atoi 2 (ss ! 1) = Inr (es ! 2, b1)"
    using entry[rule_format, of 1] assms(4) fp fls(2) by (simp add: numeral_2_eq_2)
  from make_entry_Inr[OF e] read show "bd_offset (read_entry img 2) = 2" "bd_size (read_entry img 2) = int (pages (length b1))" by auto
  show "0x2000 + length b1 \<le> length img" "take (length b1) (drop 0x2000 img) = b1"
    using data[rule_format, of 1] assms(4) fp fls(2) by auto
  show "0x3000 \<le> length img" if "b1 \<noteq> []"
  proof -
    have "length img = 4096 + length (concat (map pad_page fls))"
      unfolding layout using directory_bytes_length[OF ok] es(3) by simp
    moreover have "length (concat (map pad_page fls)) = 4096 * pages (length b0) + 4096 * pages (length b1) + length (concat (map pad_page (drop 2 fls)))"
      by (subst split) (simp add: pad_page_length)
    moreover have "1 \<le> pages (length b1)" using that dvd_imp_le[of 4096 "length b1"] by (auto simp: pages_def Suc_le_eq div_greater_zero_iff mod_eq_0_iff_dvd)
    ultimately show ?thesis using one by simp
  qed
qed

section \<open>What the kernel does with it\<close>

lemma kmain_len_spec:
  assumes "4096 \<le> length d" and "m < 64" and "\<forall>k < m. bd_type (read_entry d k) \<noteq> 0" and "bd_type (read_entry d m) = 0" and "n \<le> m"
  shows "kmain_len d n = Some (sum_list (map (\<lambda>k. bd_size (read_entry d k)) [n..<m]))"
  using assms(5)
proof (induction "m - n" arbitrary: n)
  case 0
  with assms(1,2,4) show ?case by (simp add: kmain_len.simps)
next
  case (Suc k)
  then have "n < m" by simp
  with Suc(1)[of "n + 1"] Suc(2) assms(1-3) show ?case
    by (subst kmain_len.simps) (simp add: upt_conv_Cons)
qed

lemma of_int_s32: "of_int (s32 n) = (of_int n :: u32)"
proof -
  have "s32 n mod 4294967296 = n mod 4294967296" by (simp add: s32_def mod_simps)
  then show ?thesis by (intro word_uint_eqI) (simp add: uint_word_of_int)
qed

text \<open>The number of pages that \<open>kmain\<close> counts is that of the image.\<close>

lemma kmain_len_image:
  assumes img: "makeboot fs atoi None ss = Inr img" and small: "length img < 2147483648" and atoi: "atoi_ok atoi"
    and same: "\<And>k. k < 64 \<Longrightarrow> read_entry d k = read_entry img k" and "4096 \<le> length d"
  shows "\<exists>n. kmain_len d 0 = Some (int n) \<and> length img = 4096 * n"
proof -
  from makeboot_layout[OF img small atoi] obtain es fls where es: "length es = length ss + 1" "length fls = length ss" "length es < 64"
    and root: "es ! 0 = root_entry" and ok: "\<forall>e \<in> set es. entry_ok e" and layout: "img = directory_bytes es @ concat (map pad_page fls)"
    and entry: "\<forall>k < length ss. make_entry fs atoi (first_page 1 fls k) (ss ! k) = Inr (es ! (k + 1), fls ! k)"
    and "\<forall>k < length ss. 4096 * first_page 1 fls k + length (fls ! k) \<le> length img \<and>
      take (length (fls ! k)) (drop (4096 * first_page 1 fls k) img) = fls ! k" .
  have read: "read_entry d k = (if k < length es then es ! k else empty_entry)" if "k < 64" for k
    unfolding same[OF that] layout using es(3) by (intro read_directory[OF ok _ that]) simp
  have e: "bd_type (es ! Suc k) \<noteq> 0 \<and> bd_size (es ! Suc k) = int (pages (length (fls ! k)))" if "k < length ss" for k
    using make_entry_Inr[OF entry[rule_format, OF that]] by auto
  have types: "bd_type (read_entry d k) \<noteq> 0" if "k < length es" for k
    using that es(1,3) e[of "k - 1"] root read[of k] by (cases k) (auto simp: root_entry_def)
  have "kmain_len d 0 = Some (sum_list (map (\<lambda>k. bd_size (read_entry d k)) [0..<length es]))"
    using assms(5) es(3) types read[of "length es"] by (intro kmain_len_spec) (auto simp: empty_entry_def)
  also have "map (\<lambda>k. bd_size (read_entry d k)) [0..<length es] = 1 # map (\<lambda>k. int (pages (length (fls ! k)))) [0..<length ss]"
  proof -
    have "[0..<length es] = 0 # map Suc [0..<length ss]" unfolding es(1) by (simp add: map_Suc_upt upt_conv_Cons del: upt_Suc)
    then show ?thesis using es(1,3) e root read by (simp add: root_entry_def)
  qed
  also have "map (\<lambda>k. int (pages (length (fls ! k)))) [0..<length ss] = map (\<lambda>b. int (pages (length b))) fls"
    using es(2) by (intro nth_equalityI) auto
  also have "sum_list (1 # map (\<lambda>b. int (pages (length b))) fls) = int (1 + sum_list (map (\<lambda>b. pages (length b)) fls))"
    by (induction fls) auto
  finally have "kmain_len d 0 = Some (int (1 + sum_list (map (\<lambda>b. pages (length b)) fls)))" .
  moreover have "length img = 4096 + length (concat (map pad_page fls))"
    unfolding layout using directory_bytes_length[OF ok] es(3) by simp
  moreover have "length (concat (map pad_page fls)) = 4096 * sum_list (map (\<lambda>b. pages (length b)) fls)"
    by (induction fls) (simp_all add: pad_page_length distrib_left)
  ultimately show ?thesis by (intro exI[of _ "1 + sum_list (map (\<lambda>b. pages (length b)) fls)"]) simp
qed

lemma and_plus_and_not: "(w AND m) + (w AND NOT m) = (w :: u32)"
proof -
  have "(w AND m) AND (w AND NOT m) = 0" by (rule bit_eqI) (auto simp: bit_simps)
  then have "(w AND m) + (w AND NOT m) = (w AND m) OR (w AND NOT m)" by (rule disjunctive_add_eq_or)
  also have "\<dots> = w" by (rule bit_eqI) (auto simp: bit_simps)
  finally show ?thesis .
qed

lemma round_1M: "unat (w AND NOT 0xFF :: u32) = 256 * (unat w div 256)"
proof -
  have m: "(0xFF :: u32) = mask 8" by (simp add: mask_eq_exp_minus_1)
  have sum: "(w AND 0xFF) + (w AND NOT 0xFF) = w" by (rule and_plus_and_not)
  have "unat (w AND 0xFF) = unat w mod 256"
    unfolding m by (simp only: take_bit_eq_mask[symmetric] unsigned_take_bit_eq) (simp add: take_bit_eq_mod)
  moreover have "w AND NOT 0xFF = w - (w AND 0xFF)" using sum by (simp add: algebra_simps)
  moreover have "w AND 0xFF \<le> w" by (rule word_and_le2)
  ultimately have "unat (w AND NOT 0xFF) = unat w - unat w mod 256" by (simp add: unat_sub)
  then show ?thesis by (simp add: minus_mod_eq_mult_div)
qed

section \<open>Properties\<close>

text \<open>
  C6: From the description to the running kernel. When the first section is a bootstrap of at
  most a page and the second one the kernel, then the kernel, once paging is on, finds itself at
  0x80000000: every byte of its file from the 16th on is at its place, the first 16 are the
  \<open>kinfo\<close> that the bootstrap leaves for it, and the address that is called is its entry point.
  \<open>phys\<close> is only the image: the tables lie above it.
\<close>

theorem kernel_starts_on_image:
  assumes "makeboot fs atoi None ss = Inr img" and "length img < 2147483648" and "atoi_ok atoi" and "2 \<le> length ss"
    and "getval (ss ! 0) [102, 105, 108, 101] = Some f0" and "fs f0 = Some b0" and "b0 \<noteq> []" and "length b0 \<le> 4096"
    and "getval (ss ! 1) [102, 105, 108, 101] = Some f1" and "fs f1 = Some b1" and "16 \<le> length b1" and "length b1 \<le> 4096 * 1021"
    and "16384 \<le> memsize" and "memsize < 4294967296" and "h = bootstrap 0x100000 memsize ebp p img"
  shows "(\<forall>a. 16 \<le> a \<longrightarrow> a < length b1 \<longrightarrow> vread h (0x80000000 + a) = Some (b1 ! a)) \<and>
    (\<forall>a < 16. vread h (0x80000000 + a) = Some ((put32 (int memsize) @ put32 (int ebp) @ put32 0x100000 @ put32 (int p)) ! a)) \<and>
    k_start h = nat ((0x80000000 + bd_ventr (read_entry img 2)) mod 4294967296)"
proof -
  note place = kernel_place[OF assms(1-10)]
  have "b1 \<noteq> []" using assms(11) by auto
  then have len: "0x3000 \<le> length img" by (rule place(5))
  then have long: "0x2010 \<le> length img" by simp
  have h: "h = \<lparr>phys = put_kinfo memsize ebp 0x100000 p img, tables = bootstrap_tables memsize (int (pages (length b1))) 2,
      cr3 = flat_addr memsize, k_start = nat ((0x80000000 + bd_ventr (read_entry img 2)) mod 4294967296)\<rparr>"
    using assms(15) place(1,2) by (simp add: bootstrap_def put_kinfo_entry[OF long])
  have pg: "a div 4096 \<le> pages (length b1)" "a < 4096 * 1021" "a < 4194304" if "a < length b1" for a
    using that assms(12) div_le_mono[of a "length b1" 4096] by (simp_all add: pages_def)
  have "int (pages (length b1)) \<le> 1022" using assms(12) div_le_mono[of "length b1" "4096 * 1021" 4096] by (simp add: pages_def)
  then have range: "2 + int (pages (length b1)) < 1048576 - 1024" by simp
  have read: "vread h (0x80000000 + a) = Some (put_kinfo memsize ebp 0x100000 p img ! (0x2000 + a))" if a: "a < length b1" for a
    using bootstrap_map(2)[OF assms(13,14) _ range pg(3)[OF a] pg(2)[OF a]] pg(1)[OF a] a place(3) put_kinfo_length[OF long]
    by (simp add: vread_def h)
  have "vread h (0x80000000 + a) = Some (b1 ! a)" if "16 \<le> a" "a < length b1" for a
  proof -
    have "img ! (0x2000 + a) = take (length b1) (drop 0x2000 img) ! a" using that(2) place(3) by simp
    then show ?thesis
      using that place(3,4) read[OF that(2)] put_kinfo_nth(3)[OF long, of "0x2000 + a"] by simp
  qed
  moreover have "vread h (0x80000000 + a) = Some ((put32 (int memsize) @ put32 (int ebp) @ put32 0x100000 @ put32 (int p)) ! a)" if "a < 16" for a
    using that assms(11) read[of a] put_kinfo_nth(2)[OF long that] by simp
  ultimately show ?thesis by (simp add: h)
qed

theorem kernel_starts_on_image_witness:
  "vread (bootstrap 0x100000 0x2000000 0 0 demo_img) 0x80000012 = Some 18 \<and>
   vread (bootstrap 0x100000 0x2000000 0 0 demo_img) 0x80000003 = Some 2"
proof -
  have f: "getval (demo_ss ! 0) [102, 105, 108, 101] = Some [98]" "getval (demo_ss ! 1) [102, 105, 108, 101] = Some [107]"
    by (simp_all add: demo_ss_def demo_section_def getval_def)
  have b: "demo_fs [98] = Some [1, 2, 3]" "demo_fs [107] = Some (map of_nat [0..<20])" by (simp_all add: demo_fs_def)
  have "2 \<le> length demo_ss" by (simp add: demo_ss_def)
  note start = kernel_starts_on_image[OF demo_makeboot _ demo_ok(1) this f(1) b(1) _ _ f(2) b(2) _ _ _ _ refl, of "0x2000000" 0 0]
  show ?thesis
    using start[THEN conjunct1, rule_format, of 18] start[THEN conjunct2, THEN conjunct1, rule_format, of 3]
    by (simp add: demo_length put32_def)
qed



text \<open>
  C39: The address space after the bootstrap: the first 4 M at their own addresses, the pages of
  the kernel from 0x80000000 on and one page more than its size, the tables themselves at
  0x803FD000, and nothing else.
\<close>

theorem bootstrap_address_space:
  assumes "16384 \<le> memsize" and "memsize < 4294967296" and "0 \<le> off" and "off + sz < 1048576 - 1024" and "a < 4194304"
  shows "mmu (bootstrap_tables memsize sz off) (flat_addr memsize) a = Some a \<and>
    (a < 4096 * 1021 \<longrightarrow> mmu (bootstrap_tables memsize sz off) (flat_addr memsize) (0x80000000 + a) =
      (if int (a div 4096) \<le> sz then Some (0x100000 + 4096 * nat off + a) else None)) \<and>
    (a < 12288 \<longrightarrow> mmu (bootstrap_tables memsize sz off) (flat_addr memsize) (0x803FD000 + a) = Some (flat_addr memsize + a)) \<and>
    (\<forall>k < 1024. k \<noteq> 0 \<longrightarrow> k \<noteq> 512 \<longrightarrow> mmu (bootstrap_tables memsize sz off) (flat_addr memsize) (4194304 * k + a) = None)"
  using bootstrap_map[OF assms] by blast

theorem bootstrap_address_space_witness:
  "mmu (bootstrap_tables 0x2000000 1 2) (flat_addr 0x2000000) 0x80001004 = Some 0x103004 \<and>
   mmu (bootstrap_tables 0x2000000 1 2) (flat_addr 0x2000000) 0x80002000 = None"
  using bootstrap_address_space[of "0x2000000" 2 1 "0x1004"] bootstrap_address_space[of "0x2000000" 2 1 "0x2000"] by simp
end
