(* ===== verification/Vt100.thy ===== *)
theory Vt100
  imports Prelude
begin

text \<open>
  The terminal of the console server (\<open>srv/console2/vt100.c\<close>, \<open>vt100.h\<close>): a screen of cells,
  the cursor, the scroll region, the attribute, and the parser of the escape sequences, whose
  state is the function that the next character goes to. \<open>data\<close> is the memory that the
  pointer \<open>data\<close> of the structure points to; an access outside it is \<open>None\<close>. A sum or product
  of \<open>int\<close> that a sequence of characters can drive out of range wraps around (\<open>s32\<close>).
  \<open>move_cursor\<close> belongs to the console: the model keeps the list of its calls in
  \<open>moves\<close>, which \<open>Console\<close> carries out.
\<close>

type_synonym u16 = "16 word"

section \<open>The screen\<close>

datatype char_fn = Std_interpret_char | Std_interpret_ansi | Special_reading_ansi
  | Special_ansi_charset_0 | Special_ansi_charset_1

record virtscreen =
  rows :: int
  columns :: int
  num_bytes :: int
  data :: "u16 list"
  xpos :: int
  ypos :: int
  top_scroll :: int
  bottom_scroll :: int
  attrib :: int
  old_attrib :: int
  old_xpos :: int
  old_ypos :: int
  cur_ansi_number :: int
  ansi_elements :: nat
  ansi_reading_number :: bool
  ansi_element :: "int list"
  next_char_send :: char_fn
  moves :: "(int \<times> int) list"

definition loc_in_virtscreen :: "virtscreen \<Rightarrow> int \<Rightarrow> int \<Rightarrow> int" where
  "loc_in_virtscreen cur y x = y * columns cur + x"

definition store :: "u16 list \<Rightarrow> int \<Rightarrow> u16 \<Rightarrow> u16 list option" where
  "store d i v = (if 0 \<le> i \<and> i < int (length d) then Some (d[nat i := v]) else None)"

definition load_cell :: "u16 list \<Rightarrow> int \<Rightarrow> u16 option" where
  "load_cell d i = (if 0 \<le> i \<and> i < int (length d) then Some (d ! nat i) else None)"

text \<open>The loops \<open>while (p < end) *p++ = v\<close> and \<open>while (q < end) *p++ = *q++\<close>, by their number of turns.\<close>

primrec store_run :: "u16 list \<Rightarrow> int \<Rightarrow> u16 \<Rightarrow> nat \<Rightarrow> u16 list option" where
  "store_run d i v 0 = Some d"
| "store_run d i v (Suc n) = do { d \<leftarrow> store d i v; store_run d (i + 1) v n }"

primrec copy_run :: "u16 list \<Rightarrow> int \<Rightarrow> int \<Rightarrow> nat \<Rightarrow> u16 list option" where
  "copy_run d to from 0 = Some d"
| "copy_run d to from (Suc n) = do {
     v \<leftarrow> load_cell d from;
     d \<leftarrow> store d to v;
     copy_run d (to + 1) (from + 1) n }"

text \<open>\<open>memmove\<close> of the C library on an array of 16-bit cells; the length is in bytes.\<close>

definition memmove :: "u16 list \<Rightarrow> int \<Rightarrow> int \<Rightarrow> int \<Rightarrow> u16 list option" where
  "memmove d to from bytes =
    (let n = nat (bytes div 2) in
     if n = 0 then Some d
     else if 0 \<le> to \<and> 0 \<le> from \<and> to + int n \<le> int (length d) \<and> from + int n \<le> int (length d)
     then Some (take (nat to) d @ take n (drop (nat from) d) @ drop (nat to + n) d)
     else None)"

definition vcell :: "int \<Rightarrow> int \<Rightarrow> u16" where
  "vcell ch atrb = word_of_int (or ch (push_bit 8 atrb))"

definition clear_region :: "virtscreen \<Rightarrow> int \<Rightarrow> int \<Rightarrow> int \<Rightarrow> int \<Rightarrow> int \<Rightarrow> virtscreen option" where
  "clear_region cur y1 x1 y2 x2 atrb =
    (let ch = loc_in_virtscreen cur y1 x1; tr = loc_in_virtscreen cur y2 x2 in
     do { d \<leftarrow> store_run (data cur) ch (vcell 32 atrb) (nat (tr + 1 - ch)); Some (cur\<lparr>data := d\<rparr>) })"

text \<open>\<open>mem\<close> is what \<open>malloc\<close> returns: the contents of the new block, or no block.\<close>

definition init_virtscreen :: "u16 list option \<Rightarrow> int \<Rightarrow> int \<Rightarrow> virtscreen \<Rightarrow> (int \<times> virtscreen) option" where
  "init_virtscreen mem nrows ncolumns cur =
    (let cur = cur\<lparr>num_bytes := 2 * nrows * ncolumns\<rparr> in
     case mem of None \<Rightarrow> Some (-1, cur)
     | Some d \<Rightarrow> do {
         let cur = cur\<lparr>data := d, bottom_scroll := nrows, rows := nrows, columns := ncolumns,
           cur_ansi_number := 0, top_scroll := 0, ansi_elements := 0, ansi_reading_number := False,
           next_char_send := Std_interpret_char, old_attrib := 7, attrib := 7\<rparr>;
         cur \<leftarrow> clear_region cur 0 0 (nrows - 1) (ncolumns - 1) (attrib cur);
         Some (0, cur\<lparr>old_xpos := 0, old_ypos := 0\<rparr>) })"

definition clear_virtscreen :: "virtscreen \<Rightarrow> int \<Rightarrow> virtscreen option" where
  "clear_virtscreen cur mode =
    (if mode = 0 then clear_region cur (ypos cur) (xpos cur) (rows cur - 1) (columns cur - 1) (attrib cur)
     else if mode = 1 then clear_region cur 0 0 (ypos cur) (xpos cur) (attrib cur)
     else do {
       cur \<leftarrow> clear_region cur 0 0 (rows cur - 1) (columns cur - 1) (attrib cur);
       Some (cur\<lparr>xpos := 0, ypos := 0\<rparr>) })"

definition clear_to_eol :: "virtscreen \<Rightarrow> int \<Rightarrow> virtscreen option" where
  "clear_to_eol cur mode =
    (if mode = 0 then clear_region cur (ypos cur) (xpos cur) (ypos cur) (columns cur - 1) (attrib cur)
     else if mode = 1 then clear_region cur (ypos cur) 0 (ypos cur) (xpos cur) (attrib cur)
     else clear_region cur (ypos cur) 0 (ypos cur) (columns cur - 1) (attrib cur))"

definition move_cursor :: "virtscreen \<Rightarrow> virtscreen" where
  "move_cursor cur = cur\<lparr>moves := moves cur @ [(xpos cur, ypos cur)]\<rparr>"

definition position_console :: "virtscreen \<Rightarrow> int \<Rightarrow> int \<Rightarrow> bool \<Rightarrow> virtscreen" where
  "position_console cur y x rel =
    (let cur = (if rel then cur\<lparr>xpos := s32 (xpos cur + x), ypos := s32 (ypos cur + y)\<rparr>
                else cur\<lparr>xpos := x, ypos := y\<rparr>);
         cur = (if xpos cur < 0 then cur\<lparr>xpos := 0\<rparr> else cur);
         cur = (if xpos cur \<ge> columns cur then cur\<lparr>xpos := columns cur - 1\<rparr> else cur);
         cur = (if ypos cur < 0 then cur\<lparr>ypos := 0\<rparr> else cur);
         cur = (if ypos cur \<ge> rows cur then cur\<lparr>ypos := rows cur - 1\<rparr> else cur)
     in move_cursor cur)"

definition delete_chars_in_line :: "virtscreen \<Rightarrow> int \<Rightarrow> virtscreen option" where
  "delete_chars_in_line cur char_move =
    (let clr_with = vcell 32 (attrib cur);
         start_move = loc_in_virtscreen cur (ypos cur) (xpos cur);
         end_move = loc_in_virtscreen cur (ypos cur) (columns cur) in
     if s32 (xpos cur + char_move) < columns cur then do {
       let next_move = loc_in_virtscreen cur (ypos cur) (s32 (xpos cur + char_move));
       let n = nat (end_move - next_move);
       d \<leftarrow> copy_run (data cur) start_move next_move n;
       d \<leftarrow> store_run d (start_move + int n) clr_with (nat (end_move - (start_move + int n)));
       Some (cur\<lparr>data := d\<rparr>) }
     else do {
       d \<leftarrow> store_run (data cur) start_move clr_with (nat (end_move - start_move));
       Some (cur\<lparr>data := d\<rparr>) })"

text \<open>The difference of two pointers to cells, taken as addresses: a number of bytes, unsigned.\<close>

definition byte_distance :: "int \<Rightarrow> int \<Rightarrow> int" where
  "byte_distance p q = (2 * p - 2 * q) mod 4294967296"

definition scroll_virt_up_at_cursor :: "virtscreen \<Rightarrow> bool \<Rightarrow> virtscreen option" where
  "scroll_virt_up_at_cursor cur dir =
    (if ypos cur \<ge> top_scroll cur \<and> ypos cur < bottom_scroll cur then
       let clr_with = vcell 32 (attrib cur);
           beginScr = loc_in_virtscreen cur (ypos cur) 0;
           endofScr = loc_in_virtscreen cur (bottom_scroll cur) 0;
           lastLine = endofScr - columns cur;
           nextLine = beginScr + columns cur;
           real_scroll_length = byte_distance lastLine beginScr in
       if dir then do {
         d \<leftarrow> memmove (data cur) beginScr nextLine real_scroll_length;
         d \<leftarrow> store_run d lastLine clr_with (nat (endofScr - lastLine));
         Some (cur\<lparr>data := d\<rparr>) }
       else do {
         d \<leftarrow> memmove (data cur) nextLine beginScr real_scroll_length;
         d \<leftarrow> store_run d beginScr clr_with (nat (nextLine - beginScr));
         Some (cur\<lparr>data := d\<rparr>) }
     else Some cur)"

definition scroll_virtscreen :: "virtscreen \<Rightarrow> virtscreen option" where
  "scroll_virtscreen cur =
    (let clr_with = vcell 32 (attrib cur);
         beginScr = loc_in_virtscreen cur (top_scroll cur) 0;
         endofScr = loc_in_virtscreen cur (bottom_scroll cur) 0;
         lastLine = endofScr - columns cur;
         nextLine = beginScr + columns cur;
         real_scroll_length = byte_distance lastLine beginScr in do {
       d \<leftarrow> memmove (data cur) beginScr nextLine real_scroll_length;
       d \<leftarrow> store_run d lastLine clr_with (nat (endofScr - lastLine));
       Some (cur\<lparr>data := d\<rparr>) })"

definition set_scroll_region :: "virtscreen \<Rightarrow> int \<Rightarrow> int \<Rightarrow> virtscreen" where
  "set_scroll_region cur low high =
    (let low = s32 (low - 1);
         high = (if high \<ge> rows cur then rows cur else high);
         low = (if low < 0 then 0 else low)
     in cur\<lparr>top_scroll := low, bottom_scroll := high\<rparr>)"

definition change_attribute :: "virtscreen \<Rightarrow> int \<Rightarrow> virtscreen" where
  "change_attribute cur a = cur\<lparr>attrib := a\<rparr>"

definition change_character :: "virtscreen \<Rightarrow> int \<Rightarrow> virtscreen option" where
  "change_character cur ch = do {
     d \<leftarrow> store (data cur) (loc_in_virtscreen cur (ypos cur) (xpos cur)) (vcell ch (attrib cur));
     Some (cur\<lparr>data := d\<rparr>) }"

section \<open>The parser\<close>

definition special_ansi_charset_0 :: "virtscreen \<Rightarrow> char \<Rightarrow> virtscreen option" where
  "special_ansi_charset_0 cur ch = Some (cur\<lparr>next_char_send := Std_interpret_char\<rparr>)"

definition special_ansi_charset_1 :: "virtscreen \<Rightarrow> char \<Rightarrow> virtscreen option" where
  "special_ansi_charset_1 cur ch = Some (cur\<lparr>next_char_send := Std_interpret_char\<rparr>)"

definition line_down :: "virtscreen \<Rightarrow> virtscreen option" where
  "line_down cur =
    (let cur = cur\<lparr>ypos := ypos cur + 1\<rparr> in do {
       cur \<leftarrow> (if ypos cur \<ge> bottom_scroll cur
         then do { cur \<leftarrow> scroll_virtscreen cur; Some (cur\<lparr>ypos := ypos cur - 1\<rparr>) } else Some cur);
       Some (move_cursor cur) })"

definition line_up :: "virtscreen \<Rightarrow> virtscreen option" where
  "line_up cur =
    (let cur = cur\<lparr>ypos := ypos cur - 1\<rparr> in do {
       cur \<leftarrow> (if ypos cur < top_scroll cur
         then scroll_virt_up_at_cursor (cur\<lparr>ypos := ypos cur + 1\<rparr>) False else Some cur);
       Some (move_cursor cur) })"

definition std_interpret_ansi :: "virtscreen \<Rightarrow> char \<Rightarrow> virtscreen option" where
  "std_interpret_ansi cur ch =
    (if ch = CHR ''('' then Some (cur\<lparr>next_char_send := Special_ansi_charset_0\<rparr>)
     else if ch = CHR '')'' then Some (cur\<lparr>next_char_send := Special_ansi_charset_1\<rparr>)
     else if ch = CHR ''['' then Some (cur\<lparr>cur_ansi_number := 0, ansi_elements := 0,
       ansi_reading_number := False, next_char_send := Special_reading_ansi\<rparr>)
     else do {
       cur \<leftarrow> (if ch = CHR ''7'' then Some (cur\<lparr>old_attrib := attrib cur, old_xpos := xpos cur, old_ypos := ypos cur\<rparr>)
         else if ch = CHR ''8'' then Some (position_console (change_attribute cur (old_attrib cur)) (ypos cur) (xpos cur) False)
         else if ch = CHR ''E'' then line_down (cur\<lparr>xpos := 0\<rparr>)
         else if ch = CHR ''D'' then line_down cur
         else if ch = CHR ''M'' then line_up cur
         else Some cur);
       Some (if ch \<noteq> CHR 0x1B then cur\<lparr>next_char_send := Std_interpret_char\<rparr> else cur) })"

definition std_interpret_char :: "virtscreen \<Rightarrow> char \<Rightarrow> virtscreen option" where
  "std_interpret_char cur ch =
    (if ch = CHR 0x1B then Some (cur\<lparr>next_char_send := Std_interpret_ansi\<rparr>)
     else do {
       cur \<leftarrow> (if ch = CHR 0x0C then clear_virtscreen cur 2
         else if ch = CHR 0x0D then Some (cur\<lparr>xpos := 0\<rparr>)
         else if ch = CHR 0x0A then
           let cur = cur\<lparr>ypos := ypos cur + 1\<rparr> in do {
             cur \<leftarrow> (if ypos cur \<ge> bottom_scroll cur then do {
                 cur \<leftarrow> (if ypos cur = bottom_scroll cur then scroll_virtscreen cur else Some cur);
                 Some (cur\<lparr>ypos := ypos cur - 1\<rparr>) }
               else Some cur);
             Some (cur\<lparr>xpos := 0\<rparr>) }
         else if ch = CHR 0x09 then
           Some (position_console cur (ypos cur) (s32 (xpos cur + (8 - xpos cur mod 8))) False)
         else if ch = CHR 0x08 then
           let cur = cur\<lparr>xpos := xpos cur - 1\<rparr> in
           Some (if xpos cur < 0 then
               let cur = cur\<lparr>xpos := columns cur - 1\<rparr> in if ypos cur < 0 then cur\<lparr>ypos := 0\<rparr> else cur
             else cur)
         else if ch = CHR 0x00 then Some cur
         else do {
           cur \<leftarrow> change_character cur (of_char ch);
           let cur = cur\<lparr>xpos := xpos cur + 1\<rparr>;
           Some (if xpos cur \<ge> columns cur then cur\<lparr>xpos := columns cur - 1\<rparr> else cur) });
       Some (move_cursor cur) })"

text \<open>A finished number becomes an element of the sequence; after 16 elements it is dropped.\<close>

definition end_number :: "virtscreen \<Rightarrow> char \<Rightarrow> virtscreen" where
  "end_number cur ch =
    (let cur = (if ansi_reading_number cur \<or> ch = CHR '';'' then
         (if ansi_elements cur < 16
          then cur\<lparr>ansi_element := (ansi_element cur)[ansi_elements cur := cur_ansi_number cur],
                   ansi_elements := ansi_elements cur + 1\<rparr>
          else cur)\<lparr>ansi_reading_number := False\<rparr>
       else cur)
     in cur\<lparr>cur_ansi_number := 0\<rparr>)"

definition element :: "virtscreen \<Rightarrow> nat \<Rightarrow> int \<Rightarrow> int" where
  "element cur i d = (if i < ansi_elements cur then ansi_element cur ! i else d)"

definition sgr :: "int \<Rightarrow> virtscreen \<Rightarrow> virtscreen" where
  "sgr cthing cur =
    (if cthing = 0 \<or> cthing = 27 then change_attribute cur 7
     else if cthing = 1 then change_attribute cur (or (attrib cur) 8)
     else if cthing = 5 then change_attribute cur (or (attrib cur) 128)
     else if cthing = 7 then change_attribute cur 112
     else if cthing = 21 \<or> cthing = 22 then change_attribute cur (and (attrib cur) 247)
     else if cthing = 25 then change_attribute cur (and (attrib cur) 127)
     else if 30 \<le> cthing \<and> cthing \<le> 37 then change_attribute cur (or (and (attrib cur) 248) (cthing - 30))
     else if 40 \<le> cthing \<and> cthing \<le> 47 then change_attribute cur (or (and (attrib cur) 143) (push_bit 4 (cthing - 40)))
     else cur)"

definition sgr_loop :: "virtscreen \<Rightarrow> virtscreen" where
  "sgr_loop cur =
    (let cur' = (if ansi_elements cur = 0 then change_attribute cur 7 else cur)
     in fold sgr (take (ansi_elements cur) (ansi_element cur)) cur')"

primrec scroll_lines :: "nat \<Rightarrow> bool \<Rightarrow> virtscreen \<Rightarrow> virtscreen option" where
  "scroll_lines 0 dir cur = Some cur"
| "scroll_lines (Suc n) dir cur = do { cur \<leftarrow> scroll_virt_up_at_cursor cur dir; scroll_lines n dir cur }"

definition minus_one :: "int \<Rightarrow> int" where
  "minus_one n = (if n \<noteq> 0 then s32 (n - 1) else n)"

definition csi_position :: "virtscreen \<Rightarrow> char \<Rightarrow> virtscreen option" where
  "csi_position cur ch =
    (if ch = CHR ''D'' then Some (position_console cur 0 (if ansi_elements cur \<noteq> 0 then s32 (- (ansi_element cur ! 0)) else - 1) True)
     else if ch = CHR ''a'' \<or> ch = CHR ''C'' then Some (position_console cur 0 (element cur 0 1) True)
     else if ch = CHR ''A'' then Some (position_console cur (if ansi_elements cur \<noteq> 0 then s32 (- (ansi_element cur ! 0)) else - 1) 0 True)
     else if ch = CHR ''e'' \<or> ch = CHR ''B'' then Some (position_console cur (element cur 0 1) 0 True)
     else if ch = CHR 0x60 \<or> ch = CHR ''G'' then Some (position_console cur (ypos cur) (minus_one (element cur 0 1)) False)
     else if ch = CHR ''E'' then Some (position_console cur (s32 (ypos cur + element cur 0 1)) 0 False)
     else if ch = CHR ''F'' then Some (position_console cur (s32 (ypos cur - element cur 0 1)) 0 False)
     else if ch = CHR ''d'' then Some (position_console cur (minus_one (element cur 0 1)) (xpos cur) False)
     else if ch = CHR ''f'' \<or> ch = CHR ''H'' then
       Some (position_console cur (minus_one (element cur 0 1)) (minus_one (element cur 1 1)) False)
     else None)"

definition csi_command :: "virtscreen \<Rightarrow> char \<Rightarrow> virtscreen option" where
  "csi_command cur ch =
    (if ch \<in> set ''DaCAeB`GEFdfH'' then csi_position cur ch
     else if ch = CHR ''J'' then clear_virtscreen cur (element cur 0 0)
     else if ch = CHR ''L'' then scroll_lines (nat (element cur 0 1)) False cur
     else if ch = CHR ''M'' then scroll_lines (nat (element cur 0 1)) True cur
     else if ch = CHR ''P'' then delete_chars_in_line cur (element cur 0 1)
     else if ch = CHR ''K'' then clear_to_eol cur (element cur 0 0)
     else if ch = CHR ''s'' then Some (cur\<lparr>old_xpos := xpos cur, old_ypos := ypos cur\<rparr>)
     else if ch = CHR ''u'' then Some (position_console cur (old_ypos cur) (old_xpos cur) False)
     else if ch = CHR ''r'' then
       (let low = element cur 0 1; high = element cur 1 (rows cur) in
        Some (if low \<le> high then set_scroll_region cur low high else cur))
     else if ch = CHR ''m'' then Some (sgr_loop cur)
     else Some cur)"

definition is_digit :: "char \<Rightarrow> bool" where
  "is_digit ch \<longleftrightarrow> 48 \<le> (of_char ch :: int) \<and> (of_char ch :: int) \<le> 57"

definition special_reading_ansi :: "virtscreen \<Rightarrow> char \<Rightarrow> virtscreen option" where
  "special_reading_ansi cur ch =
    (if is_digit ch then
       Some (cur\<lparr>cur_ansi_number := s32 (cur_ansi_number cur * 10 + (of_char ch - 48)), ansi_reading_number := True\<rparr>)
     else
       let cur = end_number cur ch in
       if ch = CHR ''?'' \<or> ch = CHR '';'' then Some cur
       else do {
         cur \<leftarrow> csi_command cur ch;
         Some (cur\<lparr>next_char_send := Std_interpret_char\<rparr>) })"

definition char_to_virtscreen :: "virtscreen \<Rightarrow> char \<Rightarrow> virtscreen option" where
  "char_to_virtscreen cur ch =
    (case next_char_send cur of
       Std_interpret_char \<Rightarrow> std_interpret_char cur ch
     | Std_interpret_ansi \<Rightarrow> std_interpret_ansi cur ch
     | Special_reading_ansi \<Rightarrow> special_reading_ansi cur ch
     | Special_ansi_charset_0 \<Rightarrow> special_ansi_charset_0 cur ch
     | Special_ansi_charset_1 \<Rightarrow> special_ansi_charset_1 cur ch)"

text \<open>
  A device that takes characters one by one, as its clients use it: they send a string and
  go on. \<open>put\<close> is the operation, \<open>may s c\<close> says that the character is harmless now.
\<close>

primrec feed :: "('s \<Rightarrow> char \<Rightarrow> 's option) \<Rightarrow> 's \<Rightarrow> char list \<Rightarrow> 's option" where
  "feed put s [] = Some s"
| "feed put s (c # cs) = do { s \<leftarrow> put s c; feed put s cs }"

primrec may_feed :: "('s \<Rightarrow> char \<Rightarrow> 's option) \<Rightarrow> ('s \<Rightarrow> char \<Rightarrow> bool) \<Rightarrow> 's \<Rightarrow> char list \<Rightarrow> bool" where
  "may_feed put may s [] \<longleftrightarrow> True"
| "may_feed put may s (c # cs) \<longleftrightarrow> may s c \<and> (case put s c of None \<Rightarrow> True | Some s' \<Rightarrow> may_feed put may s' cs)"

lemma feed_append: "feed put s (as @ bs) = do { s \<leftarrow> feed put s as; feed put s bs }"
  by (induction as arbitrary: s) (auto split: Option.bind_split)

locale char_device =
  fixes put :: "'s \<Rightarrow> char \<Rightarrow> 's option"
    and ok :: "'s \<Rightarrow> bool"
    and may :: "'s \<Rightarrow> char \<Rightarrow> bool"
  assumes put_ok: "ok s \<Longrightarrow> may s c \<Longrightarrow> \<exists>s'. put s c = Some s' \<and> ok s'"
begin

lemma feed_ok: "ok s \<Longrightarrow> may_feed put may s cs \<Longrightarrow> \<exists>s'. feed put s cs = Some s' \<and> ok s'"
proof (induction cs arbitrary: s)
  case (Cons c cs)
  then obtain s' where s': "put s c = Some s'" "ok s'" using put_ok by fastforce
  with Cons show ?case by simp
qed simp

lemma feed_inv: "ok s \<Longrightarrow> may_feed put may s cs \<Longrightarrow> feed put s cs = Some s' \<Longrightarrow> ok s'"
  using feed_ok by fastforce

end

end
