(* ===== verification/Vt100Props.thy ===== *)
theory Vt100Props
  imports Vt100
begin

text \<open>
  The terminal: the loops on cells in closed form, the screen as a list of rows with the
  scrolling operations on it, the invariant of the terminal, and what the parser does.
\<close>

section \<open>Loops on cells\<close>

lemma store_run_eq:
  "i + n \<le> length d \<Longrightarrow> store_run d (int i) v n = Some (take i d @ replicate n v @ drop (i + n) d)"
proof (induction n arbitrary: i d)
  case (Suc n)
  have e: "int i + 1 = int (Suc i)" by simp
  have "take (Suc i) (d[i := v]) = take i d @ [v]" using Suc.prems by (simp add: take_Suc_conv_app_nth)
  with Suc show ?case by (simp add: store_def e del: of_nat_Suc replicate.simps) simp
qed simp

lemma copy_run_eq:
  "to \<le> from \<Longrightarrow> from + n \<le> length d \<Longrightarrow>
   copy_run d (int to) (int from) n = Some (take to d @ take n (drop from d) @ drop (to + n) d)"
proof (induction n arbitrary: to "from" d)
  case (Suc n)
  have e: "int to + 1 = int (Suc to)" "int from + 1 = int (Suc from)" by simp_all
  have 1: "take (Suc to) (d[to := d ! from]) = take to d @ [d ! from]"
    using Suc.prems by (simp add: take_Suc_conv_app_nth)
  have 2: "take (Suc n) (drop from d) = d ! from # take n (drop (Suc from) d)"
    using Suc.prems by (simp add: Cons_nth_drop_Suc[symmetric])
  have 3: "drop (Suc from) (d[to := d ! from]) = drop (Suc from) d" using Suc.prems by simp
  from Suc.prems show ?case
    by (simp add: store_def load_cell_def e Suc.IH 1 2 3 del: of_nat_Suc take_Suc)
qed simp

lemma memmove_eq:
  "to + n \<le> length d \<Longrightarrow> from + n \<le> length d \<Longrightarrow>
   memmove d (int to) (int from) (2 * int n) = Some (take to d @ take n (drop from d) @ drop (to + n) d)"
  by (auto simp: memmove_def Let_def nat_int_add)

section \<open>The screen as rows\<close>

definition screen_rows :: "virtscreen \<Rightarrow> u16 list list" where
  "screen_rows cur = map (\<lambda>y. take (nat (columns cur)) (drop (y * nat (columns cur)) (data cur))) [0..<nat (rows cur)]"

definition blank :: "virtscreen \<Rightarrow> u16 list" where
  "blank cur = replicate (nat (columns cur)) (vcell 32 (attrib cur))"

lemma take_concat: "(\<And>r. r \<in> set rs \<Longrightarrow> length r = c) \<Longrightarrow> take (k * c) (concat rs) = concat (take k rs)"
proof (induction rs arbitrary: k)
  case (Cons r rs)
  then show ?case by (cases k) auto
qed simp

lemma drop_concat: "(\<And>r. r \<in> set rs \<Longrightarrow> length r = c) \<Longrightarrow> drop (k * c) (concat rs) = concat (drop k rs)"
proof (induction rs arbitrary: k)
  case (Cons r rs)
  then show ?case by (cases k) auto
qed simp

lemma length_concat_rows: "(\<And>r. r \<in> set rs \<Longrightarrow> length r = c) \<Longrightarrow> length (concat rs) = length rs * c"
  by (induction rs) auto

lemma concat_blocks:
  "length d = n * c \<Longrightarrow> concat (map (\<lambda>y. take c (drop (y * c) d)) [0..<n]) = d"
proof (induction n arbitrary: d)
  case (Suc n)
  have e: "map (\<lambda>y. take c (drop (y * c) d)) [0..<n] = map (\<lambda>y. take c (drop (y * c) (take (n * c) d))) [0..<n]"
  proof (rule map_cong[OF refl])
    fix y assume "y \<in> set [0..<n]"
    then have "y * c + c \<le> n * c" by (metis atLeastLessThan_iff atLeastLessThan_upt mult_le_mono1 mult_Suc Suc_leI add.commute)
    then show "take c (drop (y * c) d) = take c (drop (y * c) (take (n * c) d))" by (simp add: drop_take)
  qed
  have "concat (map (\<lambda>y. take c (drop (y * c) d)) [0..<n]) = take (n * c) d"
    unfolding e by (rule Suc.IH) (use Suc.prems in simp)
  then show ?case using Suc.prems by simp
qed simp

lemma blocks_concat:
  "(\<And>r. r \<in> set rs \<Longrightarrow> length r = c) \<Longrightarrow>
   map (\<lambda>y. take c (drop (y * c) (concat rs))) [0..<length rs] = rs"
proof (rule nth_equalityI)
  fix i
  assume r: "\<And>r. r \<in> set rs \<Longrightarrow> length r = c"
    and "i < length (map (\<lambda>y. take c (drop (y * c) (concat rs))) [0..<length rs])"
  then have i: "i < length rs" by simp
  then have "take c (concat (drop i rs)) = rs ! i"
    using r by (simp add: Cons_nth_drop_Suc[symmetric])
  with i r show "map (\<lambda>y. take c (drop (y * c) (concat rs))) [0..<length rs] ! i = rs ! i"
    by (simp add: drop_concat)
qed simp

lemma memmove_rows:
  assumes "\<And>r. r \<in> set rs \<Longrightarrow> length r = c" and "to + n \<le> length rs" and "from + n \<le> length rs"
  shows "memmove (concat rs) (int (to * c)) (int (from * c)) (2 * int (n * c)) =
    Some (concat (take to rs @ take n (drop from rs) @ drop (to + n) rs))"
proof -
  have l: "length (concat rs) = length rs * c" using assms(1) by (rule length_concat_rows)
  have m: "to * c + n * c \<le> length rs * c" "from * c + n * c \<le> length rs * c"
    using assms(2,3) by (metis add_mult_distrib mult_le_mono1)+
  have t: "take (n * c) (concat (drop from rs)) = concat (take n (drop from rs))"
    using assms(1) by (intro take_concat) (auto dest: in_set_dropD)
  have "drop (to * c + n * c) (concat rs) = concat (drop (to + n) rs)"
    using drop_concat[of rs c "to + n"] assms(1) by (simp add: add_mult_distrib)
  with m show ?thesis
    by (simp add: memmove_eq l t take_concat[OF assms(1)] drop_concat[OF assms(1)] del: of_nat_mult)
qed

lemma store_row:
  assumes "\<And>r. r \<in> set rs \<Longrightarrow> length r = c" and "k < length rs"
  shows "store_run (concat rs) (int (k * c)) v c = Some (concat (rs[k := replicate c v]))"
proof -
  have l: "length (concat rs) = length rs * c" using assms(1) by (rule length_concat_rows)
  have m: "k * c + c \<le> length rs * c"
    using assms(2) by (metis Suc_leI add.commute mult_Suc mult_le_mono1)
  have "drop (k * c + c) (concat rs) = concat (drop (Suc k) rs)"
    using drop_concat[of rs c "Suc k"] assms(1) by (simp add: add.commute)
  with m show ?thesis
    using assms(2) by (simp add: store_run_eq l take_concat[OF assms(1)] upd_conv_take_nth_drop del: of_nat_mult)
qed

section \<open>The invariant of the terminal\<close>

text \<open>
  The buffer has the size of the screen, the cursor is on the screen, the scroll region is
  not empty and within the screen, the attributes are bytes and the elements of an escape
  sequence fit the array.
\<close>

definition vt_ok :: "virtscreen \<Rightarrow> bool" where
  "vt_ok cur \<longleftrightarrow> 0 < rows cur \<and> rows cur \<le> 32767 \<and> 0 < columns cur \<and> columns cur \<le> 32767 \<and>
     int (length (data cur)) = rows cur * columns cur \<and>
     0 \<le> xpos cur \<and> xpos cur < columns cur \<and> 0 \<le> ypos cur \<and> ypos cur < rows cur \<and>
     0 \<le> top_scroll cur \<and> top_scroll cur < bottom_scroll cur \<and> bottom_scroll cur \<le> rows cur \<and>
     0 \<le> attrib cur \<and> attrib cur < 256 \<and> 0 \<le> old_attrib cur \<and> old_attrib cur < 256 \<and>
     ansi_elements cur \<le> 16 \<and> length (ansi_element cur) = 16"

lemma vt_okD:
  assumes "vt_ok cur"
  shows "0 < rows cur" "rows cur \<le> 32767" "0 < columns cur" "columns cur \<le> 32767"
    "int (length (data cur)) = rows cur * columns cur"
    "0 \<le> xpos cur" "xpos cur < columns cur" "0 \<le> ypos cur" "ypos cur < rows cur"
    "0 \<le> top_scroll cur" "top_scroll cur < bottom_scroll cur" "bottom_scroll cur \<le> rows cur"
    "0 \<le> attrib cur" "attrib cur < 256" "0 \<le> old_attrib cur" "old_attrib cur < 256"
    "ansi_elements cur \<le> 16" "length (ansi_element cur) = 16"
  using assms by (simp_all add: vt_ok_def)

lemma vt_ok_data: "vt_ok cur \<Longrightarrow> length d = length (data cur) \<Longrightarrow> vt_ok (cur\<lparr>data := d\<rparr>)"
  by (simp add: vt_ok_def)

lemma vt_ok_moves [simp]: "vt_ok (cur\<lparr>moves := m\<rparr>) = vt_ok cur"
  by (simp add: vt_ok_def)

lemma vt_ok_next [simp]: "vt_ok (cur\<lparr>next_char_send := f\<rparr>) = vt_ok cur"
  by (simp add: vt_ok_def)

lemma vt_ok_move_cursor [simp]: "vt_ok (move_cursor cur) = vt_ok cur"
  by (simp add: move_cursor_def)

definition same_but_data :: "virtscreen \<Rightarrow> virtscreen \<Rightarrow> bool" where
  "same_but_data cur cur' \<longleftrightarrow> length (data cur') = length (data cur) \<and> cur' = cur\<lparr>data := data cur'\<rparr>"

lemma same_but_data_upd [simp]: "same_but_data cur (cur\<lparr>data := d\<rparr>) \<longleftrightarrow> length d = length (data cur)"
  by (simp add: same_but_data_def)

lemma same_but_data_sel:
  assumes "same_but_data cur cur'"
  shows "xpos cur' = xpos cur" "ypos cur' = ypos cur" "rows cur' = rows cur" "columns cur' = columns cur"
    "attrib cur' = attrib cur" "next_char_send cur' = next_char_send cur"
    "top_scroll cur' = top_scroll cur" "bottom_scroll cur' = bottom_scroll cur"
proof -
  have e: "cur' = cur\<lparr>data := data cur'\<rparr>" using assms by (simp add: same_but_data_def)
  show "xpos cur' = xpos cur" "ypos cur' = ypos cur" "rows cur' = rows cur" "columns cur' = columns cur"
    "attrib cur' = attrib cur" "next_char_send cur' = next_char_send cur"
    "top_scroll cur' = top_scroll cur" "bottom_scroll cur' = bottom_scroll cur"
    by (subst e, simp)+
qed

lemma same_but_data_ok: "same_but_data cur cur' \<Longrightarrow> vt_ok cur \<Longrightarrow> vt_ok cur'"
  by (metis same_but_data_def vt_ok_data)

lemma vt_rows:
  assumes "vt_ok cur"
  shows "concat (screen_rows cur) = data cur" and "length (screen_rows cur) = nat (rows cur)"
    and "r \<in> set (screen_rows cur) \<Longrightarrow> length r = nat (columns cur)"
proof -
  note ok = vt_okD[OF assms]
  have l: "length (data cur) = nat (rows cur) * nat (columns cur)"
    using ok(1,3,5) by (metis nat_int nat_mult_distrib order_less_imp_le)
  then show "concat (screen_rows cur) = data cur" by (simp add: screen_rows_def concat_blocks)
  show "length (screen_rows cur) = nat (rows cur)" by (simp add: screen_rows_def)
  assume "r \<in> set (screen_rows cur)"
  then obtain y where y: "y < nat (rows cur)" "r = take (nat (columns cur)) (drop (y * nat (columns cur)) (data cur))"
    by (auto simp: screen_rows_def)
  have "y * nat (columns cur) + nat (columns cur) \<le> nat (rows cur) * nat (columns cur)"
    using y(1) by (metis Suc_leI add.commute mult_Suc mult_le_mono1)
  then show "length r = nat (columns cur)" by (simp add: y(2) l)
qed

lemma screen_rows_upd:
  assumes "\<And>r. r \<in> set rs \<Longrightarrow> length r = nat (columns cur)" and "length rs = nat (rows cur)"
  shows "screen_rows (cur\<lparr>data := concat rs\<rparr>) = rs"
  using blocks_concat[OF assms(1), of rs] assms(2) by (simp add: screen_rows_def)

section \<open>Scrolling\<close>

lemma byte_distance_eq: "q \<le> p \<Longrightarrow> p - q \<le> 2000000000 \<Longrightarrow> byte_distance p q = 2 * (p - q)"
  by (simp add: byte_distance_def)

lemma region_nat:
  assumes "vt_ok cur" and "0 \<le> t" "t < b" "b \<le> rows cur"
  obtains T k C where "columns cur = int C" "t = int T" "b = int (Suc (T + k))" "Suc (T + k) \<le> nat (rows cur)"
    "t * columns cur = int (T * C)" "t * columns cur + columns cur = int (Suc T * C)"
    "b * columns cur - columns cur = int ((T + k) * C)"
    "byte_distance (b * columns cur - columns cur) (t * columns cur) = 2 * int (k * C)"
proof -
  note okD = vt_okD[OF assms(1)]
  define T k C where "T = nat t" and "k = nat (b - t - 1)" and "C = nat (columns cur)"
  have c: "columns cur = int C" using okD(3) by (simp add: C_def)
  have t: "t = int T" using assms(2) by (simp add: T_def)
  have b: "b = int (Suc (T + k))" using assms(2,3) by (simp add: T_def k_def)
  have n: "Suc (T + k) \<le> nat (rows cur)" using okD(1) assms(4)[unfolded b] by (subst le_nat_iff) auto
  have e: "t * columns cur = int (T * C)" "t * columns cur + columns cur = int (Suc T * C)"
    "b * columns cur - columns cur = int ((T + k) * C)"
    by (simp_all add: c t b algebra_simps)
  have "k \<le> 32767" "C \<le> 32767" using n okD(2,4) by (simp_all add: c)
  then have "k * C \<le> 32767 * 32767" by (rule mult_le_mono)
  then have "int (k * C) \<le> 2000000000" by linarith
  moreover have "int ((T + k) * C) - int (T * C) = int (k * C)" by (simp add: algebra_simps)
  moreover have "int (T * C) \<le> int ((T + k) * C)"
    unfolding of_nat_le_iff by (rule mult_le_mono1) simp
  ultimately have "byte_distance (b * columns cur - columns cur) (t * columns cur) = 2 * int (k * C)"
    unfolding e(1,3) by (simp only: byte_distance_eq)
  with c t b n e show thesis by (rule that)
qed

text \<open>What all scrolling comes down to: rows move by one place, and one row is cleared.\<close>

lemma rows_up:
  assumes ok: "vt_ok cur" and t: "0 \<le> t" "t < b" "b \<le> rows cur"
  shows "\<exists>d. memmove (data cur) (t * columns cur) (t * columns cur + columns cur)
      (byte_distance (b * columns cur - columns cur) (t * columns cur)) = Some d \<and>
    (let rs = screen_rows cur;
         rs' = take (nat t) rs @ take (nat (b - t - 1)) (drop (Suc (nat t)) rs) @ [blank cur] @ drop (nat b) rs in
     store_run d (b * columns cur - columns cur) (vcell 32 (attrib cur)) (nat (columns cur)) = Some (concat rs') \<and>
     length (concat rs') = length (data cur) \<and> screen_rows (cur\<lparr>data := concat rs'\<rparr>) = rs')"
proof -
  obtain T k C where n: "columns cur = int C" "t = int T" "b = int (Suc (T + k))" "Suc (T + k) \<le> nat (rows cur)"
    and e: "t * columns cur = int (T * C)" "t * columns cur + columns cur = int (Suc T * C)"
    "b * columns cur - columns cur = int ((T + k) * C)"
    and bd: "byte_distance (b * columns cur - columns cur) (t * columns cur) = 2 * int (k * C)"
    using assms by (rule region_nat)
  define rs where "rs = screen_rows cur"
  define m where "m = take T rs @ take k (drop (Suc T) rs) @ drop (T + k) rs"
  define rs' where "rs' = take T rs @ take k (drop (Suc T) rs) @ [blank cur] @ drop (Suc (T + k)) rs"
  have k: "Suc (T + k) \<le> length rs" using n(4) vt_rows(2)[OF ok] by (simp add: rs_def)
  have len: "\<And>r. r \<in> set rs \<Longrightarrow> length r = C" using vt_rows(3)[OF ok] n(1) by (simp add: rs_def)
  have dc: "data cur = concat rs" using vt_rows(1)[OF ok] by (simp add: rs_def)
  have mm: "memmove (concat rs) (int (T * C)) (int (Suc T * C)) (2 * int (k * C)) = Some (concat m)"
    unfolding m_def by (rule memmove_rows[OF len]) (use k in auto)
  have lm: "\<And>r. r \<in> set m \<Longrightarrow> length r = C"
    using len by (auto simp: m_def dest: in_set_takeD in_set_dropD)
  have "drop (T + k) rs = rs ! (T + k) # drop (Suc (T + k)) rs" using k by (simp add: Cons_nth_drop_Suc)
  then have upd: "m[T + k := replicate C (vcell 32 (attrib cur))] = rs'"
    using k by (simp add: m_def rs'_def list_update_append blank_def n(1))
  have st: "store_run (concat m) (int ((T + k) * C)) (vcell 32 (attrib cur)) C = Some (concat rs')"
    unfolding upd[symmetric] by (rule store_row[OF lm]) (use k in \<open>auto simp: m_def\<close>)
  have l': "\<And>r. r \<in> set rs' \<Longrightarrow> length r = C"
    using len by (auto simp: rs'_def blank_def n(1) dest: in_set_takeD in_set_dropD)
  have n': "length rs' = length rs" using k by (simp add: rs'_def)
  have "length (concat rs') = length rs' * C" by (rule length_concat_rows) (rule l')
  moreover have "length (concat rs) = length rs * C" by (rule length_concat_rows) (rule len)
  ultimately have "length (concat rs') = length (data cur)" by (simp add: dc n')
  moreover have "screen_rows (cur\<lparr>data := concat rs'\<rparr>) = rs'"
    by (rule screen_rows_upd) (use l' n' n(1) vt_rows(2)[OF ok] in \<open>auto simp: rs_def\<close>)
  moreover have "nat (b - t - 1) = k" "nat t = T" "nat b = Suc (T + k)" "nat (columns cur) = C"
    using n(1-3) by simp_all
  ultimately show ?thesis
    unfolding bd unfolding e(2,3) unfolding e(1) Let_def dc using mm st
    by (simp add: rs'_def rs_def del: of_nat_mult)
qed

lemma rows_down:
  assumes ok: "vt_ok cur" and t: "0 \<le> t" "t < b" "b \<le> rows cur"
  shows "\<exists>d. memmove (data cur) (t * columns cur + columns cur) (t * columns cur)
      (byte_distance (b * columns cur - columns cur) (t * columns cur)) = Some d \<and>
    (let rs = screen_rows cur;
         rs' = take (nat t) rs @ [blank cur] @ take (nat (b - t - 1)) (drop (nat t) rs) @ drop (nat b) rs in
     store_run d (t * columns cur) (vcell 32 (attrib cur)) (nat (columns cur)) = Some (concat rs') \<and>
     length (concat rs') = length (data cur) \<and> screen_rows (cur\<lparr>data := concat rs'\<rparr>) = rs')"
proof -
  obtain T k C where n: "columns cur = int C" "t = int T" "b = int (Suc (T + k))" "Suc (T + k) \<le> nat (rows cur)"
    and e: "t * columns cur = int (T * C)" "t * columns cur + columns cur = int (Suc T * C)"
    "b * columns cur - columns cur = int ((T + k) * C)"
    and bd: "byte_distance (b * columns cur - columns cur) (t * columns cur) = 2 * int (k * C)"
    using assms by (rule region_nat)
  define rs where "rs = screen_rows cur"
  define m where "m = take (Suc T) rs @ take k (drop T rs) @ drop (Suc T + k) rs"
  define rs' where "rs' = take T rs @ [blank cur] @ take k (drop T rs) @ drop (Suc (T + k)) rs"
  have k: "Suc (T + k) \<le> length rs" using n(4) vt_rows(2)[OF ok] by (simp add: rs_def)
  have len: "\<And>r. r \<in> set rs \<Longrightarrow> length r = C" using vt_rows(3)[OF ok] n(1) by (simp add: rs_def)
  have dc: "data cur = concat rs" using vt_rows(1)[OF ok] by (simp add: rs_def)
  have mm: "memmove (concat rs) (int (Suc T * C)) (int (T * C)) (2 * int (k * C)) = Some (concat m)"
    unfolding m_def by (rule memmove_rows[OF len]) (use k in auto)
  have lm: "\<And>r. r \<in> set m \<Longrightarrow> length r = C"
    using len by (auto simp: m_def dest: in_set_takeD in_set_dropD)
  have upd: "m[T := replicate C (vcell 32 (attrib cur))] = rs'"
    using k by (simp add: m_def rs'_def list_update_append take_Suc_conv_app_nth blank_def n(1))
  have st: "store_run (concat m) (int (T * C)) (vcell 32 (attrib cur)) C = Some (concat rs')"
    unfolding upd[symmetric] by (rule store_row[OF lm]) (use k in \<open>auto simp: m_def\<close>)
  have l': "\<And>r. r \<in> set rs' \<Longrightarrow> length r = C"
    using len by (auto simp: rs'_def blank_def n(1) dest: in_set_takeD in_set_dropD)
  have n': "length rs' = length rs" using k by (simp add: rs'_def)
  have "length (concat rs') = length rs' * C" by (rule length_concat_rows) (rule l')
  moreover have "length (concat rs) = length rs * C" by (rule length_concat_rows) (rule len)
  ultimately have "length (concat rs') = length (data cur)" by (simp add: dc n')
  moreover have "screen_rows (cur\<lparr>data := concat rs'\<rparr>) = rs'"
    by (rule screen_rows_upd) (use l' n' n(1) vt_rows(2)[OF ok] in \<open>auto simp: rs_def\<close>)
  moreover have "nat (b - t - 1) = k" "nat t = T" "nat b = Suc (T + k)" "nat (columns cur) = C"
    using n(1-3) by simp_all
  ultimately show ?thesis
    unfolding bd unfolding e(2,3) unfolding e(1) Let_def dc using mm st
    by (simp add: rs'_def rs_def del: of_nat_mult)
qed

text \<open>The two movements on lists of rows, in the region from \<open>t\<close> to before \<open>b\<close>.\<close>

definition delete_row :: "nat \<Rightarrow> nat \<Rightarrow> 'a \<Rightarrow> 'a list \<Rightarrow> 'a list" where
  "delete_row t b r rs = take t rs @ take (b - t - 1) (drop (Suc t) rs) @ [r] @ drop b rs"

definition insert_row :: "nat \<Rightarrow> nat \<Rightarrow> 'a \<Rightarrow> 'a list \<Rightarrow> 'a list" where
  "insert_row t b r rs = take t rs @ [r] @ take (b - t - 1) (drop t rs) @ drop b rs"

lemma nat_region: "0 \<le> t \<Longrightarrow> t < b \<Longrightarrow> nat (b - t - 1) = nat b - nat t - 1"
  by (simp add: nat_diff_distrib)

lemma scroll_virtscreen_lemma:
  assumes "vt_ok cur"
  shows "\<exists>cur'. scroll_virtscreen cur = Some cur' \<and> same_but_data cur cur' \<and>
    screen_rows cur' = delete_row (nat (top_scroll cur)) (nat (bottom_scroll cur)) (blank cur) (screen_rows cur)"
proof -
  note ok = vt_okD[OF assms]
  obtain d where "memmove (data cur) (top_scroll cur * columns cur) (top_scroll cur * columns cur + columns cur)
      (byte_distance (bottom_scroll cur * columns cur - columns cur) (top_scroll cur * columns cur)) = Some d"
    and "let rs = screen_rows cur;
         rs' = take (nat (top_scroll cur)) rs @ take (nat (bottom_scroll cur - top_scroll cur - 1)) (drop (Suc (nat (top_scroll cur))) rs)
           @ [blank cur] @ drop (nat (bottom_scroll cur)) rs in
     store_run d (bottom_scroll cur * columns cur - columns cur) (vcell 32 (attrib cur)) (nat (columns cur)) = Some (concat rs') \<and>
     length (concat rs') = length (data cur) \<and> screen_rows (cur\<lparr>data := concat rs'\<rparr>) = rs'"
    using rows_up[OF assms ok(10-12)] by blast
  then show ?thesis
    by (simp add: scroll_virtscreen_def loc_in_virtscreen_def Let_def delete_row_def nat_region[OF ok(10,11)] del: append.simps)
qed

lemma scroll_virt_up_lemma:
  assumes "vt_ok cur" and "top_scroll cur \<le> ypos cur" and "ypos cur < bottom_scroll cur"
  shows "\<exists>cur'. scroll_virt_up_at_cursor cur dir = Some cur' \<and> same_but_data cur cur' \<and>
    screen_rows cur' = (if dir then delete_row else insert_row) (nat (ypos cur)) (nat (bottom_scroll cur)) (blank cur) (screen_rows cur)"
proof -
  note ok = vt_okD[OF assms(1)]
  let ?m = "\<lambda>to from. memmove (data cur) to from (byte_distance (bottom_scroll cur * columns cur - columns cur) (ypos cur * columns cur))"
  note n = nat_region[OF ok(8) assms(3)]
  show ?thesis
  proof (cases dir)
    case True
    obtain d where "?m (ypos cur * columns cur) (ypos cur * columns cur + columns cur) = Some d"
      and "let rs = screen_rows cur;
         rs' = take (nat (ypos cur)) rs @ take (nat (bottom_scroll cur - ypos cur - 1)) (drop (Suc (nat (ypos cur))) rs)
           @ [blank cur] @ drop (nat (bottom_scroll cur)) rs in
     store_run d (bottom_scroll cur * columns cur - columns cur) (vcell 32 (attrib cur)) (nat (columns cur)) = Some (concat rs') \<and>
     length (concat rs') = length (data cur) \<and> screen_rows (cur\<lparr>data := concat rs'\<rparr>) = rs'"
      using rows_up[OF assms(1) ok(8) assms(3) ok(12)] by blast
    with True assms show ?thesis
      by (simp add: scroll_virt_up_at_cursor_def loc_in_virtscreen_def Let_def delete_row_def n del: append.simps)
  next
    case False
    obtain d where "?m (ypos cur * columns cur + columns cur) (ypos cur * columns cur) = Some d"
      and "let rs = screen_rows cur;
         rs' = take (nat (ypos cur)) rs @ [blank cur] @ take (nat (bottom_scroll cur - ypos cur - 1)) (drop (nat (ypos cur)) rs)
           @ drop (nat (bottom_scroll cur)) rs in
     store_run d (ypos cur * columns cur) (vcell 32 (attrib cur)) (nat (columns cur)) = Some (concat rs') \<and>
     length (concat rs') = length (data cur) \<and> screen_rows (cur\<lparr>data := concat rs'\<rparr>) = rs'"
      using rows_down[OF assms(1) ok(8) assms(3) ok(12)] by blast
    with False assms show ?thesis
      by (simp add: scroll_virt_up_at_cursor_def loc_in_virtscreen_def Let_def insert_row_def n del: append.simps)
  qed
qed

lemma scroll_virtscreen_ypos:
  "scroll_virtscreen (cur\<lparr>ypos := y\<rparr>) = map_option (\<lambda>c. c\<lparr>ypos := y\<rparr>) (scroll_virtscreen cur)"
  by (simp add: scroll_virtscreen_def Let_def loc_in_virtscreen_def split: Option.bind_split)

section \<open>Every operation goes through and keeps the invariant\<close>

definition goes :: "virtscreen option \<Rightarrow> bool" where
  "goes m \<longleftrightarrow> (\<exists>cur. m = Some cur \<and> vt_ok cur)"

lemma goes_Some [simp]: "goes (Some cur) = vt_ok cur"
  by (simp add: goes_def)

lemma goes_bind: "goes m \<Longrightarrow> (\<And>cur. m = Some cur \<Longrightarrow> vt_ok cur \<Longrightarrow> goes (f cur)) \<Longrightarrow> goes (Option.bind m f)"
  by (auto simp: goes_def)

lemma goes_if: "(P \<Longrightarrow> goes a) \<Longrightarrow> (\<not> P \<Longrightarrow> goes b) \<Longrightarrow> goes (if P then a else b)"
  by simp

lemma store_run_ok:
  assumes "0 \<le> i" and "i + int n \<le> int (length d)"
  shows "\<exists>d'. store_run d i v n = Some d' \<and> length d' = length d"
proof -
  from assms(1) obtain k where k: "i = int k" by (metis nonneg_int_cases)
  with assms(2) have "k + n \<le> length d" by linarith
  then show ?thesis by (simp add: k store_run_eq)
qed

lemma loc_ok:
  assumes "vt_ok cur" and "0 \<le> y" "y < rows cur" "0 \<le> x" "x \<le> columns cur"
  shows "0 \<le> loc_in_virtscreen cur y x" and "loc_in_virtscreen cur y x \<le> int (length (data cur))"
    and "x < columns cur \<Longrightarrow> loc_in_virtscreen cur y x < int (length (data cur))"
proof -
  note ok = vt_okD[OF assms(1)]
  have "(y + 1) * columns cur \<le> rows cur * columns cur"
    by (rule mult_right_mono) (use assms ok in auto)
  then have "y * columns cur + columns cur \<le> int (length (data cur))" by (simp add: ok(5) algebra_simps)
  moreover have "0 \<le> y * columns cur" using assms ok by simp
  ultimately show "0 \<le> loc_in_virtscreen cur y x" "loc_in_virtscreen cur y x \<le> int (length (data cur))"
    "x < columns cur \<Longrightarrow> loc_in_virtscreen cur y x < int (length (data cur))"
    using assms(4,5) unfolding loc_in_virtscreen_def by linarith+
qed

lemma clear_region_goes:
  assumes ok: "vt_ok cur" and "0 \<le> y1" "y1 < rows cur" "0 \<le> x1" "x1 < columns cur"
    and "0 \<le> y2" "y2 < rows cur" "0 \<le> x2" "x2 < columns cur"
  shows "goes (clear_region cur y1 x1 y2 x2 a)"
proof -
  let ?a = "loc_in_virtscreen cur y1 x1" and ?b = "loc_in_virtscreen cur y2 x2"
  have "0 \<le> ?a" "?a < int (length (data cur))" "?b < int (length (data cur))"
    using loc_ok[OF ok] assms by simp_all
  moreover from this have "?a + int (nat (?b + 1 - ?a)) \<le> int (length (data cur))" by linarith
  ultimately obtain d where "store_run (data cur) ?a (vcell 32 a) (nat (?b + 1 - ?a)) = Some d" "length d = length (data cur)"
    using store_run_ok[of ?a "nat (?b + 1 - ?a)" "data cur"] by auto
  then show ?thesis by (simp add: clear_region_def Let_def vt_ok_data[OF ok])
qed

lemma vt_ok_cursor:
  "vt_ok cur \<Longrightarrow> 0 \<le> x \<Longrightarrow> x < columns cur \<Longrightarrow> 0 \<le> y \<Longrightarrow> y < rows cur \<Longrightarrow> vt_ok (cur\<lparr>xpos := x, ypos := y\<rparr>)"
  by (simp add: vt_ok_def)

lemma clear_virtscreen_goes: "vt_ok cur \<Longrightarrow> goes (clear_virtscreen cur mode)"
  unfolding clear_virtscreen_def
  by (auto simp: vt_okD vt_ok_cursor intro!: clear_region_goes goes_bind)

lemma clear_to_eol_goes: "vt_ok cur \<Longrightarrow> goes (clear_to_eol cur mode)"
  unfolding clear_to_eol_def by (auto simp: vt_okD intro!: clear_region_goes)

definition clamp :: "int \<Rightarrow> int \<Rightarrow> int" where
  "clamp n v = max 0 (min v (n - 1))"

lemma clamp_range: "0 < n \<Longrightarrow> 0 \<le> clamp n v \<and> clamp n v < n"
  by (simp add: clamp_def)

lemma clamp_id: "0 \<le> v \<Longrightarrow> v < n \<Longrightarrow> clamp n v = v"
  by (simp add: clamp_def)

lemma position_console_eq:
  assumes "vt_ok cur"
  shows "position_console cur y x rel = move_cursor (cur
    \<lparr>xpos := clamp (columns cur) (if rel then s32 (xpos cur + x) else x),
     ypos := clamp (rows cur) (if rel then s32 (ypos cur + y) else y)\<rparr>)"
proof -
  have "0 < columns cur" "0 < rows cur" using assms by (simp_all add: vt_okD)
  then show ?thesis
    by (auto simp: position_console_def Let_def clamp_def min_def max_def
        intro!: arg_cong[where f = move_cursor] virtscreen.equality)
qed

lemma position_console_ok: "vt_ok cur \<Longrightarrow> vt_ok (position_console cur y x rel)"
  by (simp add: position_console_eq vt_ok_cursor vt_okD clamp_range)

lemma change_attribute_ok: "vt_ok cur \<Longrightarrow> 0 \<le> a \<Longrightarrow> a < 256 \<Longrightarrow> vt_ok (change_attribute cur a)"
  by (simp add: change_attribute_def vt_ok_def)

lemma change_character_goes:
  assumes "vt_ok cur"
  shows "goes (change_character cur ch)"
  using loc_ok[OF assms, of "ypos cur" "xpos cur"] vt_okD[OF assms]
  by (simp add: change_character_def store_def vt_ok_data[OF assms])

lemma delete_chars_goes:
  assumes ok: "vt_ok cur" and "0 \<le> m" "m \<le> 2000000000"
  shows "goes (delete_chars_in_line cur m)"
proof -
  note okD = vt_okD[OF ok]
  let ?s = "loc_in_virtscreen cur (ypos cur) (xpos cur)" and ?e = "loc_in_virtscreen cur (ypos cur) (columns cur)"
  let ?k = "xpos cur + m"
  let ?x = "loc_in_virtscreen cur (ypos cur) ?k"
  have e: "?e \<le> int (length (data cur))" "0 \<le> ?s" "?s < ?e"
    using loc_ok[OF ok, of "ypos cur" "columns cur"] loc_ok[OF ok, of "ypos cur" "xpos cur"] okD
    by (simp_all add: loc_in_virtscreen_def)
  have k: "s32 ?k = ?k" using okD(4,6,7) assms(2,3) by (intro s32_id) auto
  show ?thesis
  proof (cases "?k < columns cur")
    case True
    then have x: "?s \<le> ?x" "?x \<le> ?e" using assms(2) by (simp_all add: loc_in_virtscreen_def)
    obtain S where S: "?s = int S" using e(2) by (metis nonneg_int_cases)
    have "0 \<le> ?x" using e(2) x(1) by (rule order_trans)
    then obtain X where X: "?x = int X" by (metis nonneg_int_cases)
    have l: "S \<le> X" "X + nat (?e - ?x) \<le> length (data cur)" using e x S X by linarith+
    have c: "copy_run (data cur) ?s ?x (nat (?e - ?x)) = Some (take S (data cur) @
        take (nat (?e - ?x)) (drop X (data cur)) @ drop (S + nat (?e - ?x)) (data cur))" (is "_ = Some ?d")
      by (fact copy_run_eq[OF l, folded S X])
    have ld: "length ?d = length (data cur)" using l by simp
    have "0 \<le> ?s + int (nat (?e - ?x))" "?s + int (nat (?e - ?x)) + int (nat (?e - (?s + int (nat (?e - ?x))))) \<le> int (length ?d)"
      unfolding ld using e x by linarith+
    then obtain d where "store_run ?d (?s + int (nat (?e - ?x))) (vcell 32 (attrib cur)) (nat (?e - (?s + int (nat (?e - ?x))))) = Some d"
      and "length d = length (data cur)"
      using store_run_ok ld by metis
    then show ?thesis
      using True unfolding delete_chars_in_line_def Let_def k by (simp only: if_True c bind.bind_lunit goes_Some vt_ok_data[OF ok])
  next
    case False
    obtain d where "store_run (data cur) ?s (vcell 32 (attrib cur)) (nat (?e - ?s)) = Some d" "length d = length (data cur)"
      using store_run_ok[of ?s "nat (?e - ?s)" "data cur"] e by auto
    then show ?thesis
      using False unfolding delete_chars_in_line_def Let_def k by (simp add: vt_ok_data[OF ok])
  qed
qed

section \<open>The parser keeps the invariant\<close>

lemma scroll_virt_up_goes: "vt_ok cur \<Longrightarrow> goes (scroll_virt_up_at_cursor cur dir)"
proof (cases "top_scroll cur \<le> ypos cur \<and> ypos cur < bottom_scroll cur")
  case True
  assume "vt_ok cur"
  with True show ?thesis using scroll_virt_up_lemma same_but_data_ok by (metis goes_Some)
next
  case False
  assume "vt_ok cur"
  with False show ?thesis by (auto simp: scroll_virt_up_at_cursor_def)
qed

lemma scroll_lines_goes: "vt_ok cur \<Longrightarrow> goes (scroll_lines n dir cur)"
  by (induction n arbitrary: cur) (auto intro: goes_bind scroll_virt_up_goes)

lemma scroll_keeps_ypos:
  assumes "vt_ok cur" and "scroll_virtscreen (cur\<lparr>ypos := y\<rparr>) = Some c"
  shows "vt_ok (c\<lparr>ypos := ypos cur\<rparr>)" and "ypos c = y"
proof -
  obtain c0 where c0: "scroll_virtscreen cur = Some c0" "same_but_data cur c0"
    using scroll_virtscreen_lemma[OF assms(1)] by blast
  then have c: "c = c0\<lparr>ypos := y\<rparr>" using assms(2) by (simp add: scroll_virtscreen_ypos)
  show "ypos c = y" by (simp add: c)
  have "ypos c0 = ypos cur" by (rule same_but_data_sel[OF c0(2)])
  then have "c\<lparr>ypos := ypos cur\<rparr> = c0" by (simp add: c)
  then show "vt_ok (c\<lparr>ypos := ypos cur\<rparr>)" using same_but_data_ok[OF c0(2) assms(1)] by simp
qed

lemma vt_ok_ypos: "vt_ok cur \<Longrightarrow> 0 \<le> y \<Longrightarrow> y < rows cur \<Longrightarrow> vt_ok (cur\<lparr>ypos := y\<rparr>)"
  by (simp add: vt_ok_def)

lemma line_down_goes:
  assumes "vt_ok cur"
  shows "goes (line_down cur)"
proof (cases "ypos cur + 1 < bottom_scroll cur")
  case True
  then show ?thesis using assms vt_okD[OF assms] by (simp add: line_down_def vt_ok_ypos)
next
  case False
  have "goes (scroll_virtscreen cur)"
    using scroll_virtscreen_lemma[OF assms] same_but_data_ok[OF _ assms] by auto
  then obtain c where c: "scroll_virtscreen (cur\<lparr>ypos := ypos cur + 1\<rparr>) = Some c"
    by (auto simp: scroll_virtscreen_ypos goes_def)
  with scroll_keeps_ypos[OF assms c] False show ?thesis by (simp add: line_down_def Let_def)
qed

lemma line_up_goes:
  assumes "vt_ok cur"
  shows "goes (line_up cur)"
proof (cases "ypos cur - 1 < top_scroll cur")
  case True
  then show ?thesis
    using scroll_virt_up_goes[OF assms, of False] by (auto simp: line_up_def goes_def)
next
  case False
  then show ?thesis using assms vt_okD[OF assms] by (simp add: line_up_def vt_ok_ypos)
qed

lemma vt_ok_xpos: "vt_ok cur \<Longrightarrow> 0 \<le> x \<Longrightarrow> x < columns cur \<Longrightarrow> vt_ok (cur\<lparr>xpos := x\<rparr>)"
  by (simp add: vt_ok_def)

lemma std_interpret_ansi_goes:
  assumes "vt_ok cur"
  shows "goes (std_interpret_ansi cur ch)"
proof -
  note ok = vt_okD[OF assms]
  let ?m = "if ch = CHR ''7'' then Some (cur\<lparr>old_attrib := attrib cur, old_xpos := xpos cur, old_ypos := ypos cur\<rparr>)
         else if ch = CHR ''8'' then Some (position_console (change_attribute cur (old_attrib cur)) (ypos cur) (xpos cur) False)
         else if ch = CHR ''E'' then line_down (cur\<lparr>xpos := 0\<rparr>)
         else if ch = CHR ''D'' then line_down cur
         else if ch = CHR ''M'' then line_up cur
         else Some cur"
  have 7: "vt_ok (cur\<lparr>old_attrib := attrib cur, old_xpos := xpos cur, old_ypos := ypos cur\<rparr>)"
    "vt_ok (cur\<lparr>cur_ansi_number := 0, ansi_elements := 0, ansi_reading_number := False, next_char_send := Special_reading_ansi\<rparr>)"
    using assms by (simp_all add: vt_ok_def)
  have "goes ?m"
    using assms ok 7 by (simp add: line_down_goes line_up_goes position_console_ok change_attribute_ok vt_ok_xpos)
  then show ?thesis
    unfolding std_interpret_ansi_def using assms 7 by (auto intro!: goes_bind)
qed

lemma std_interpret_char_goes:
  assumes "vt_ok cur"
  shows "goes (std_interpret_char cur ch)"
proof -
  note ok = vt_okD[OF assms]
  have nl: "goes (let cur = cur\<lparr>ypos := ypos cur + 1\<rparr> in do {
             cur \<leftarrow> (if ypos cur \<ge> bottom_scroll cur then do {
                 cur \<leftarrow> (if ypos cur = bottom_scroll cur then scroll_virtscreen cur else Some cur);
                 Some (cur\<lparr>ypos := ypos cur - 1\<rparr>) }
               else Some cur);
             Some (cur\<lparr>xpos := 0\<rparr>) })"
  proof (cases "ypos cur + 1 = bottom_scroll cur")
    case True
    have "goes (scroll_virtscreen cur)"
      using scroll_virtscreen_lemma[OF assms] same_but_data_ok[OF _ assms] by auto
    then obtain c where c: "scroll_virtscreen (cur\<lparr>ypos := ypos cur + 1\<rparr>) = Some c"
      by (auto simp: scroll_virtscreen_ypos goes_def)
    with scroll_keeps_ypos[OF assms c] True[symmetric] show ?thesis
      by (auto simp: Let_def intro!: vt_ok_xpos dest: vt_okD(3))
  next
    case False
    then show ?thesis using assms by (simp add: Let_def vt_ok_def)
  qed
  have bs: "goes (let cur = cur\<lparr>xpos := xpos cur - 1\<rparr> in Some (
      if xpos cur < 0 then let cur = cur\<lparr>xpos := columns cur - 1\<rparr> in if ypos cur < 0 then cur\<lparr>ypos := 0\<rparr> else cur else cur))"
    using assms by (simp add: Let_def vt_ok_def)
  have put: "goes (do { cur \<leftarrow> change_character cur (of_char ch); let cur = cur\<lparr>xpos := xpos cur + 1\<rparr>;
      Some (if xpos cur \<ge> columns cur then cur\<lparr>xpos := columns cur - 1\<rparr> else cur) })"
    by (rule goes_bind[OF change_character_goes[OF assms]]) (auto simp: Let_def vt_ok_def)
  show ?thesis
    unfolding std_interpret_char_def
    by (rule goes_if, simp add: assms, rule goes_bind,
        (rule nl bs put clear_virtscreen_goes[OF assms] goes_if | simp add: assms ok position_console_ok vt_ok_xpos)+)
qed

lemma vt_ok_attrib: "vt_ok cur \<Longrightarrow> 0 \<le> a \<Longrightarrow> a < 256 \<Longrightarrow> vt_ok (cur\<lparr>attrib := a\<rparr>)"
  by (simp add: vt_ok_def)

lemma byte_or: "0 \<le> a \<Longrightarrow> a < 256 \<Longrightarrow> 0 \<le> b \<Longrightarrow> b < 256 \<Longrightarrow> 0 \<le> or a b \<and> or a (b::int) < 256"
  using OR_upper[of a 8 b] by simp

lemma byte_and: "0 \<le> a \<Longrightarrow> a < 256 \<Longrightarrow> 0 \<le> and a b \<and> and a (b::int) < 256"
  using AND_upper1[of a b] by simp

lemma sgr_ok: "vt_ok cur \<Longrightarrow> vt_ok (sgr n cur)"
  unfolding sgr_def change_attribute_def
  by (auto simp: push_bit_eq_mult intro!: vt_ok_attrib byte_or[THEN conjunct1] byte_or[THEN conjunct2]
      byte_and[THEN conjunct1] byte_and[THEN conjunct2] dest: vt_okD(13,14))

lemma sgr_loop_ok: "vt_ok cur \<Longrightarrow> vt_ok (sgr_loop cur)"
proof -
  have f: "vt_ok c \<Longrightarrow> vt_ok (fold sgr xs c)" for xs c
    by (induction xs arbitrary: c) (simp_all add: sgr_ok)
  assume "vt_ok cur"
  then show ?thesis by (auto simp: sgr_loop_def intro!: f change_attribute_ok)
qed

lemma end_number_ok: "vt_ok cur \<Longrightarrow> vt_ok (end_number cur ch)"
  by (simp add: end_number_def Let_def vt_ok_def)

text \<open>
  The two escape sequences that need care: \<open>P\<close> with a parameter beyond 2 000 000 000 or below
  0 (after a wrap-around), and \<open>r\<close> with a region that starts below the screen or ends above it.
\<close>

definition careful :: "virtscreen \<Rightarrow> char \<Rightarrow> bool" where
  "careful cur ch \<longleftrightarrow> next_char_send cur = Special_reading_ansi \<longrightarrow>
    (let c = end_number cur ch in
      (ch = CHR ''P'' \<longrightarrow> 0 \<le> element c 0 1 \<and> element c 0 1 \<le> 2000000000) \<and>
      (ch = CHR ''r'' \<longrightarrow> (let low = element c 0 1; high = element c 1 (rows c) in
         low \<le> high \<longrightarrow> - 2147483648 < low \<and> low \<le> rows c \<and> 1 \<le> high)))"

lemma set_scroll_region_ok:
  assumes "vt_ok cur" and "low \<le> high" "- 2147483648 < low" "low \<le> rows cur" "1 \<le> high"
  shows "vt_ok (set_scroll_region cur low high)"
proof -
  note ok = vt_okD[OF assms(1)]
  have "s32 (low - 1) = low - 1" using assms ok by (intro s32_id) auto
  then show ?thesis using assms by (simp add: set_scroll_region_def Let_def vt_ok_def)
qed

lemma csi_position_goes: "ch \<in> set ''DaCAeB`GEFdfH'' \<Longrightarrow> vt_ok cur \<Longrightarrow> goes (csi_position cur ch)"
  by (auto simp: csi_position_def position_console_ok)

lemma csi_command_goes:
  assumes "vt_ok cur"
    and "ch = CHR ''P'' \<Longrightarrow> 0 \<le> element cur 0 1 \<and> element cur 0 1 \<le> 2000000000"
    and "ch = CHR ''r'' \<Longrightarrow> element cur 0 1 \<le> element cur 1 (rows cur) \<Longrightarrow>
      - 2147483648 < element cur 0 1 \<and> element cur 0 1 \<le> rows cur \<and> 1 \<le> element cur 1 (rows cur)"
  shows "goes (csi_command cur ch)"
proof (cases "ch \<in> set ''DaCAeB`GEFdfH''")
  case True
  then have "csi_command cur ch = csi_position cur ch" by (simp add: csi_command_def)
  with csi_position_goes[OF True assms(1)] show ?thesis by simp
next
  case False
  have s: "vt_ok (cur\<lparr>old_xpos := xpos cur, old_ypos := ypos cur\<rparr>)" using assms(1) by (simp add: vt_ok_def)
  show ?thesis
    unfolding csi_command_def if_not_P[OF False, of "csi_position cur ch"]
    using assms s
    by (simp add: Let_def clear_virtscreen_goes clear_to_eol_goes scroll_lines_goes delete_chars_goes position_console_ok
        sgr_loop_ok set_scroll_region_ok)
qed

lemma special_reading_ansi_goes:
  assumes "vt_ok cur" and "next_char_send cur = Special_reading_ansi" and "careful cur ch"
  shows "goes (special_reading_ansi cur ch)"
proof (cases "is_digit ch")
  case True
  then show ?thesis using assms(1) by (simp add: special_reading_ansi_def vt_ok_def)
next
  case False
  have e: "vt_ok (end_number cur ch)" by (rule end_number_ok[OF assms(1)])
  have "goes (csi_command (end_number cur ch) ch)"
    by (rule csi_command_goes[OF e]) (use assms(2,3) in \<open>auto simp: careful_def Let_def\<close>)
  with e False show ?thesis by (auto simp: special_reading_ansi_def Let_def intro!: goes_bind)
qed

lemma char_to_virtscreen_goes:
  "vt_ok cur \<Longrightarrow> careful cur ch \<Longrightarrow> goes (char_to_virtscreen cur ch)"
  by (auto simp: char_to_virtscreen_def std_interpret_char_goes std_interpret_ansi_goes special_reading_ansi_goes
      special_ansi_charset_0_def special_ansi_charset_1_def split: char_fn.split)

interpretation vt: char_device char_to_virtscreen vt_ok careful
  by unfold_locales (use char_to_virtscreen_goes in \<open>auto simp: goes_def\<close>)

section \<open>A small screen\<close>

definition small_screen :: virtscreen where
  "small_screen = \<lparr>rows = 3, columns = 2, num_bytes = 12, data = map (\<lambda>n. vcell n 7) [97, 98, 99, 100, 101, 102],
     xpos = 0, ypos = 2, top_scroll = 0, bottom_scroll = 3, attrib = 7, old_attrib = 7, old_xpos = 0, old_ypos = 0,
     cur_ansi_number = 0, ansi_elements = 0, ansi_reading_number = False, ansi_element = replicate 16 0,
     next_char_send = Std_interpret_char, moves = []\<rparr>"

lemma small_screen_ok: "vt_ok small_screen"
  by (simp add: small_screen_def vt_ok_def)

section \<open>Properties\<close>

text \<open>
  C11: whatever text is sent to the terminal, it never reads or writes outside its buffer and
  keeps its invariant (the cursor stays on the screen, the scroll region within it, the
  attribute a byte), as long as the two sequences that do not check their parameters get
  parameters that make sense (\<open>careful\<close>).
\<close>

theorem vt_text_safe:
  assumes "vt_ok cur" and "may_feed char_to_virtscreen careful cur text"
  shows "\<exists>cur'. feed char_to_virtscreen cur text = Some cur' \<and> vt_ok cur'"
  using assms by (rule vt.feed_ok)

theorem vt_text_safe_witness:
  "\<exists>cur'. feed char_to_virtscreen small_screen (CHR 0x1B # ''[2;3rP'') = Some cur' \<and> vt_ok cur'"
  by (rule vt_text_safe[OF small_screen_ok]) code_simp



lemma scroll_lines_lemma:
  assumes "vt_ok cur" and "top_scroll cur \<le> ypos cur" and "ypos cur < bottom_scroll cur"
  shows "\<exists>cur'. scroll_lines n dir cur = Some cur' \<and> same_but_data cur cur' \<and> screen_rows cur' =
    (((if dir then delete_row else insert_row) (nat (ypos cur)) (nat (bottom_scroll cur)) (blank cur)) ^^ n) (screen_rows cur)"
  using assms
proof (induction n arbitrary: cur)
  case (Suc n)
  obtain c where c: "scroll_virt_up_at_cursor cur dir = Some c" "same_but_data cur c"
    "screen_rows c = (if dir then delete_row else insert_row) (nat (ypos cur)) (nat (bottom_scroll cur)) (blank cur) (screen_rows cur)"
    using scroll_virt_up_lemma[OF Suc.prems] by blast
  note sel = same_but_data_sel[OF c(2)]
  have "vt_ok c" by (rule same_but_data_ok[OF c(2) Suc.prems(1)])
  moreover have "blank c = blank cur" by (simp add: blank_def sel)
  ultimately obtain c' where c': "scroll_lines n dir c = Some c'" "same_but_data c c'" "screen_rows c' =
    (((if dir then delete_row else insert_row) (nat (ypos cur)) (nat (bottom_scroll cur)) (blank cur)) ^^ n) (screen_rows c)"
    using Suc.IH[of c] Suc.prems by (auto simp: sel)
  have "same_but_data cur c'" using c(2) c'(2) unfolding same_but_data_def by (metis virtscreen.update_convs(4) virtscreen.surjective)
  with c c' show ?case by (simp add: funpow_swap1)
qed (simp add: same_but_data_def)

text \<open>
  C33: \<open>ESC [ n L\<close> and \<open>ESC [ n M\<close> with the cursor in the scroll region insert and delete \<open>n\<close>
  rows at the cursor, one after the other, within the region; the cursor does not move.
\<close>

theorem vt_insert_delete_lines:
  assumes "vt_ok cur" and "top_scroll cur \<le> ypos cur" and "ypos cur < bottom_scroll cur" and "ch = CHR ''L'' \<or> ch = CHR ''M''"
  shows "\<exists>cur'. csi_command cur ch = Some cur' \<and> xpos cur' = xpos cur \<and> ypos cur' = ypos cur \<and> screen_rows cur' =
    (((if ch = CHR ''M'' then delete_row else insert_row) (nat (ypos cur)) (nat (bottom_scroll cur)) (blank cur))
      ^^ nat (element cur 0 1)) (screen_rows cur)"
  using scroll_lines_lemma[OF assms(1-3), of "nat (element cur 0 1)" True]
    scroll_lines_lemma[OF assms(1-3), of "nat (element cur 0 1)" False] assms(4) same_but_data_sel(1,2)
  by (fastforce simp: csi_command_def)

theorem vt_insert_delete_lines_witness:
  "\<exists>cur'. csi_command (small_screen\<lparr>ypos := 0\<rparr>) (CHR ''L'') = Some cur' \<and>
    screen_rows cur' = [[vcell 32 7, vcell 32 7], [vcell 97 7, vcell 98 7], [vcell 99 7, vcell 100 7]]"
proof -
  have "vt_ok (small_screen\<lparr>ypos := 0\<rparr>)" by (rule vt_ok_ypos[OF small_screen_ok]) (simp_all add: small_screen_def)
  from vt_insert_delete_lines[OF this, of "CHR ''L''"] obtain cur' where
    "csi_command (small_screen\<lparr>ypos := 0\<rparr>) (CHR ''L'') = Some cur'"
    and r: "screen_rows cur' = insert_row 0 3 (blank small_screen) (screen_rows small_screen)"
    by (auto simp: small_screen_def element_def blank_def screen_rows_def)
  moreover have "screen_rows small_screen = [[vcell 97 7, vcell 98 7], [vcell 99 7, vcell 100 7], [vcell 101 7, vcell 102 7]]"
    by (simp add: small_screen_def screen_rows_def upt_rec numeral_2_eq_2 numeral_3_eq_3)
  moreover have "blank small_screen = [vcell 32 7, vcell 32 7]"
    by (simp add: small_screen_def blank_def numeral_2_eq_2)
  ultimately show ?thesis by (simp add: insert_row_def)
qed

text \<open>
  the terminal accepts a scroll region without lines: after \<open>ESC [ 0 ; 0 r\<close> the next
  \<open>ESC D\<close> scrolls a region of -1 lines, which is a move of almost 4 gigabytes.
\<close>

theorem vt_empty_region_overruns:
  assumes "vt_ok cur" and "next_char_send cur = Std_interpret_char"
  shows "feed char_to_virtscreen cur (CHR 0x1B # ''[0;0r'' @ [CHR 0x1B, CHR ''D'']) = None"
proof -
  note ok = vt_okD[OF assms(1)]
  have n: "(0::int) < rows cur" "\<not> rows cur \<le> 0" using ok(1) by simp_all
  have l: "length (data cur) < 1073741824"
  proof -
    have "rows cur * columns cur \<le> 32767 * 32767" by (rule mult_mono) (use ok in auto)
    then show ?thesis using ok(5) by linarith
  qed
  have bd: "byte_distance (- columns cur) 0 = 4294967296 - 2 * columns cur"
    using ok(3,4) by (simp add: byte_distance_def zmod_zminus1_eq_if)
  have "(4294967296 - 2 * columns cur) div 2 = 2147483648 - columns cur" by simp
  then have m: "memmove (data cur) 0 (columns cur) (4294967296 - 2 * columns cur) = None"
    unfolding memmove_def Let_def using l ok(3,4) by auto
  show ?thesis
    using assms(2) n ok(8,17,18)
    by (simp add: char_to_virtscreen_def std_interpret_char_def std_interpret_ansi_def special_reading_ansi_def is_digit_def
        end_number_def Let_def csi_command_def element_def set_scroll_region_def s32_def move_cursor_def line_down_def
        scroll_virtscreen_def loc_in_virtscreen_def bd m)
qed

theorem vt_empty_region_overruns_witness:
  "feed char_to_virtscreen small_screen (CHR 0x1B # ''[0;0r'' @ [CHR 0x1B, CHR ''D'']) = None"
  by (rule vt_empty_region_overruns[OF small_screen_ok]) (simp add: small_screen_def)

end
