(* ===== verification/LibcFormat.thy ===== *)
theory LibcFormat
  imports Prelude
begin

text \<open>
  Numbers and text in the C library: \<open>va_snprintf\<close> (\<open>lib/libc/snprintf.c\<close>), \<open>atoi\<close>
  (\<open>stdlib.c\<close>) and \<open>isdigit\<close> (\<open>ctype.c\<close>). The model of \<open>va_snprintf\<close> gives the characters
  that it writes to the buffer from its start on, however many; \<open>None\<close> is an argument of the
  wrong type or a format that is read behind its end.
\<close>

section \<open>va_snprintf\<close>

datatype va_arg = Arg_int int | Arg_string string | Arg_char char | Arg_long int

record fstate =
  out :: string
  room :: nat             \<comment> \<open>\<open>l\<close>\<close>
  mod_l :: bool
  mod_ll :: bool
  pvar :: "va_arg list"

definition hexmap :: string where
  "hexmap = ''0123456789abcdef''"

definition unsigned32 :: "int \<Rightarrow> nat" where
  "unsigned32 n = nat (n mod 4294967296)"

definition unsigned64 :: "int \<Rightarrow> nat" where
  "unsigned64 n = nat (n mod 18446744073709551616)"

definition digit :: "nat \<Rightarrow> char" where
  "digit n = char_of (48 + n)"

definition emit :: "string \<Rightarrow> fstate \<Rightarrow> fstate" where
  "emit xs st = st\<lparr>out := out st @ xs, room := room st - length xs\<rparr>"

text \<open>The loop that stores \<open>n\<close> hexadecimal digits from the last place to the first.\<close>

primrec hex_digits :: "nat \<Rightarrow> nat \<Rightarrow> string" where
  "hex_digits 0 u = []"
| "hex_digits (Suc n) u = hex_digits n (u div 16) @ [hexmap ! (u mod 16)]"

text \<open>The loop that fills the array \<open>d\<close> from place \<open>i\<close> down; \<open>ds\<close> holds the places above \<open>i\<close>.\<close>

fun udigits :: "nat \<Rightarrow> nat \<Rightarrow> string \<Rightarrow> string" where
  "udigits i u ds =
    (let ds = digit (u mod 10) # ds; u = u div 10
     in if u \<noteq> 0 \<and> 0 < i then udigits (i - 1) u ds else ds)"

declare udigits.simps [simp del]

definition emit_digits :: "string \<Rightarrow> fstate \<Rightarrow> fstate" where
  "emit_digits ds st = emit (take (room st) ds) st"

definition conv_hex :: "fstate \<Rightarrow> fstate option" where
  "conv_hex st =
    (if \<not> mod_ll st then
       if room st < 8 then Some (st\<lparr>room := 0\<rparr>)
       else (case pvar st of Arg_int n # args \<Rightarrow>
           Some ((emit (hex_digits 8 (unsigned32 n)) (st\<lparr>pvar := args\<rparr>))\<lparr>mod_l := False, mod_ll := False\<rparr>)
         | _ \<Rightarrow> None)
     else
       if room st < 16 then Some (st\<lparr>room := 0\<rparr>)
       else (case pvar st of Arg_long n # args \<Rightarrow>
           Some ((emit (hex_digits 16 (unsigned64 n)) (st\<lparr>pvar := args\<rparr>))\<lparr>mod_l := False, mod_ll := False\<rparr>)
         | _ \<Rightarrow> None))"

definition conv_d :: "fstate \<Rightarrow> fstate option" where
  "conv_d st = (case pvar st of Arg_int n # args \<Rightarrow>
       (let st = st\<lparr>pvar := args\<rparr> in
        if n < 0 then
          (let st = emit ''-'' st in
           if room st = 0 then Some st else Some (emit_digits (udigits 9 (unsigned32 (- n)) []) st))
        else Some (emit_digits (udigits 9 (unsigned32 n) []) st))
     | _ \<Rightarrow> None)"

definition convert :: "char \<Rightarrow> fstate \<Rightarrow> fstate option" where
  "convert f st =
    (if f = CHR ''s'' then
       (case pvar st of Arg_string t # args \<Rightarrow> Some (emit (take (room st) t) (st\<lparr>pvar := args\<rparr>)) | _ \<Rightarrow> None)
     else if f = CHR ''c'' then
       (case pvar st of Arg_char c # args \<Rightarrow> Some (emit [c] (st\<lparr>pvar := args\<rparr>)) | _ \<Rightarrow> None)
     else if f = CHR ''S'' then
       if room st < 4 then Some (st\<lparr>room := 0\<rparr>)
       else (case pvar st of Arg_int n # args \<Rightarrow> Some (emit (hex_digits 4 (unsigned32 n)) (st\<lparr>pvar := args\<rparr>)) | _ \<Rightarrow> None)
     else if f = CHR ''x'' \<or> f = CHR ''p'' then conv_hex st
     else if f = CHR ''d'' then conv_d st
     else if f = CHR ''u'' then
       (case pvar st of Arg_int n # args \<Rightarrow> Some (emit_digits (udigits 9 (unsigned32 n) []) (st\<lparr>pvar := args\<rparr>)) | _ \<Rightarrow> None)
     else if f = CHR ''U'' then
       (case pvar st of Arg_int n # args \<Rightarrow>
          (let ds = udigits 9 (unsigned32 n) [] in
           Some (emit_digits (drop (length ds - 1) (''   '' @ ds)) (st\<lparr>pvar := args\<rparr>)))
        | _ \<Rightarrow> None)
     else if f = CHR ''X'' then
       if room st < 2 then Some (st\<lparr>room := 0\<rparr>)
       else (case pvar st of Arg_int n # args \<Rightarrow>
          Some (emit [hexmap ! nat (n mod 256 div 16), hexmap ! nat (n mod 16)] (st\<lparr>pvar := args\<rparr>)) | _ \<Rightarrow> None)
     else Some (st\<lparr>out := out st @ [f]\<rparr>))"

text \<open>The loop over the format; the flag says that it is at the label \<open>again\<close>, behind a \<open>%\<close>.\<close>

fun va_loop :: "bool \<Rightarrow> string \<Rightarrow> fstate \<Rightarrow> fstate option" where
  "va_loop False [] st = Some st"
| "va_loop False (f # fs) st =
    (if room st = 0 then Some st
     else if f = CHR ''%'' then
       if room st - 1 = 0 then Some (st\<lparr>room := 0\<rparr>) else va_loop True fs (st\<lparr>room := room st - 1\<rparr>)
     else va_loop False fs (emit [f] st))"
| "va_loop True [] st = None"
| "va_loop True (f # fs) st =
    (if f = CHR ''l'' then
       va_loop True fs
         (if \<not> mod_l st then st\<lparr>mod_l := True\<rparr>
          else if \<not> mod_ll st then st\<lparr>mod_l := False, mod_ll := True\<rparr> else st)
     else do { st \<leftarrow> convert f st; va_loop False fs st })"

definition va_snprintf :: "nat \<Rightarrow> string \<Rightarrow> va_arg list \<Rightarrow> string option" where
  "va_snprintf l fmt args =
    (if l < 1 then Some []
     else do {
       st \<leftarrow> va_loop False fmt \<lparr>out = [], room = l, mod_l = False, mod_ll = False, pvar = args\<rparr>;
       Some (out st @ [CHR 0x00]) })"

section \<open>atoi\<close>

text \<open>\<open>x\<close> is one more than in the code. A string is given without its terminator.\<close>

primrec atoi_loop :: "string \<Rightarrow> nat \<Rightarrow> int \<Rightarrow> int \<Rightarrow> int" where
  "atoi_loop a 0 i pw = i"
| "atoi_loop a (Suc x) i pw =
    atoi_loop a x
      (if x = 0 \<and> a ! x = CHR ''-'' then s32 (i * -1) else s32 (i + s32 (pw * (of_char (a ! x) - 48))))
      (s32 (pw * 10))"

definition atoi :: "string \<Rightarrow> int" where
  "atoi a = atoi_loop a (length a) 0 1"

definition isdigit :: "int \<Rightarrow> int" where
  "isdigit c = (if 48 \<le> c \<and> c \<le> 57 then 1 else 0)"

section \<open>Decimal numbers\<close>

definition dval :: "string \<Rightarrow> int" where
  "dval ds = foldl (\<lambda>v c. 10 * v + (of_char c - 48)) 0 ds"

definition digits :: "string \<Rightarrow> bool" where
  "digits ds \<longleftrightarrow> (\<forall>c\<in>set ds. isdigit (of_char c) = 1)"

lemma dval_simps [simp]: "dval [] = 0" "dval (ds @ [c]) = 10 * dval ds + (of_char c - 48)"
  by (simp_all add: dval_def)

lemma dval_append: "dval (as @ bs) = dval as * 10 ^ length bs + dval bs"
  by (induction bs rule: rev_induct) (simp_all add: append_assoc[symmetric] algebra_simps del: append_assoc)

lemma digits_append [simp]: "digits (as @ bs) \<longleftrightarrow> digits as \<and> digits bs"
  by (auto simp: digits_def)

lemma of_char_digit: "n < 10 \<Longrightarrow> (of_char (digit n) :: int) = 48 + int n"
proof -
  assume "n < 10"
  then have "(of_char (char_of (48 + n)) :: nat) = 48 + n" by (simp add: of_char_of)
  then have "int (of_char (digit n) :: nat) = 48 + int n" by (simp add: digit_def)
  then show ?thesis by (simp only: of_nat_of_char)
qed

lemma udigits_correct:
  "u < 10 ^ Suc i \<Longrightarrow> \<exists>ds. udigits i u acc = ds @ acc \<and> digits ds \<and> dval ds = int u \<and> 0 < length ds \<and> length ds \<le> Suc i"
proof (induction i arbitrary: u acc)
  case 0
  then show ?case
    by (intro exI[of _ "[digit u]"]) (simp add: udigits.simps[of 0] Let_def digits_def isdigit_def of_char_digit dval_def)
next
  case (Suc i)
  let ?d = "digit (u mod 10)"
  have d: "(of_char ?d :: int) = 48 + int (u mod 10)" by (rule of_char_digit) simp
  show ?case
  proof (cases "u div 10 = 0")
    case True
    then show ?thesis
      using d by (intro exI[of _ "[?d]"]) (simp add: udigits.simps[of "Suc i"] digits_def isdigit_def dval_def)
  next
    case False
    have "u div 10 < 10 ^ Suc i" using Suc.prems by (simp add: div_less_iff_less_mult)
    from Suc.IH[OF this, of "?d # acc"] obtain ds where ds: "udigits i (u div 10) (?d # acc) = ds @ ?d # acc"
      "digits ds" "dval ds = int (u div 10)" "0 < length ds" "length ds \<le> Suc i" by blast
    have "10 * int (u div 10) + int (u mod 10) = int u" by presburger
    with False ds d show ?thesis
      by (intro exI[of _ "ds @ [?d]"]) (simp add: udigits.simps[of "Suc i"] digits_def isdigit_def)
  qed
qed

lemma s32_mod: "s32 a = s32 b \<longleftrightarrow> a mod 4294967296 = b mod 4294967296"
proof
  assume "s32 a = s32 b"
  then have "(a + 2147483648) mod 4294967296 = (b + 2147483648) mod 4294967296" by (simp add: s32_def)
  then have "(a + 2147483648 - 2147483648) mod 4294967296 = (b + 2147483648 - 2147483648) mod 4294967296"
    by (rule mod_diff_cong) simp
  then show "a mod 4294967296 = b mod 4294967296" by simp
next
  assume "a mod 4294967296 = b mod 4294967296"
  then have "(a + 2147483648) mod 4294967296 = (b + 2147483648) mod 4294967296" by (rule mod_add_cong) simp
  then show "s32 a = s32 b" by (simp add: s32_def)
qed

lemma s32_mod_eq: "s32 a mod 4294967296 = a mod 4294967296"
  by (simp add: s32_def mod_diff_left_eq)

lemma s32_add [simp]: "s32 (s32 a + b) = s32 (a + b)" "s32 (a + s32 b) = s32 (a + b)"
  unfolding s32_mod by (rule mod_add_cong; simp add: s32_mod_eq)+

lemma s32_mult [simp]: "s32 (s32 a * b) = s32 (a * b)" "s32 (a * s32 b) = s32 (a * b)"
  unfolding s32_mod by (rule mod_mult_cong; simp add: s32_mod_eq)+

lemma s32_s32 [simp]: "s32 (s32 a) = s32 a"
  unfolding s32_mod by (simp add: s32_mod_eq)

lemma s32_uminus [simp]: "s32 (- s32 a) = s32 (- a)"
  using s32_mult(1)[of a "-1"] by simp

lemma digit_not_minus: "digits ds \<Longrightarrow> c \<in> set ds \<Longrightarrow> c \<noteq> CHR ''-''"
  by (auto simp: digits_def isdigit_def)

lemma atoi_loop_digits:
  "digits ds \<Longrightarrow> k \<le> length ds \<Longrightarrow>
   atoi_loop (pre @ ds) (length pre + k) (s32 i) (s32 p) =
   atoi_loop (pre @ ds) (length pre) (s32 (i + p * dval (take k ds))) (s32 (p * 10 ^ k))"
proof (induction k arbitrary: i p)
  case (Suc k)
  let ?c = "ds ! k"
  have c: "?c \<noteq> CHR ''-''" using Suc.prems by (intro digit_not_minus[of ds]) auto
  have t: "dval (take (Suc k) ds) = 10 * dval (take k ds) + (of_char ?c - 48)"
    using Suc.prems by (simp add: take_Suc_conv_app_nth)
  have "atoi_loop (pre @ ds) (length pre + Suc k) (s32 i) (s32 p) =
    atoi_loop (pre @ ds) (length pre + k) (s32 (i + p * (of_char ?c - 48))) (s32 (p * 10))"
    using c by (simp add: nth_append)
  also have "\<dots> = atoi_loop (pre @ ds) (length pre)
      (s32 (i + p * (of_char ?c - 48) + p * 10 * dval (take k ds))) (s32 (p * 10 * 10 ^ k))"
    using Suc.prems by (intro Suc.IH) auto
  also have "i + p * (of_char ?c - 48) + p * 10 * dval (take k ds) = i + p * dval (take (Suc k) ds)"
    by (simp add: t algebra_simps)
  finally show ?case by (simp add: mult.assoc)
qed simp

lemma s32_0_1: "s32 0 = 0" "s32 1 = 1"
  by (simp_all add: s32_def)

lemma atoi_digits:
  assumes "digits ds"
  shows "atoi ds = s32 (dval ds)" and "atoi (CHR ''-'' # ds) = s32 (- dval ds)"
proof -
  have "atoi_loop ([] @ ds) (length ([] :: string) + length ds) (s32 0) (s32 1) =
    atoi_loop ([] @ ds) (length ([] :: string)) (s32 (0 + 1 * dval (take (length ds) ds))) (s32 (1 * 10 ^ length ds))"
    using assms by (intro atoi_loop_digits) auto
  then show "atoi ds = s32 (dval ds)" by (simp add: atoi_def s32_0_1)
  have "atoi_loop ([CHR ''-''] @ ds) (length [CHR ''-''] + length ds) (s32 0) (s32 1) =
    atoi_loop ([CHR ''-''] @ ds) (length [CHR ''-'']) (s32 (0 + 1 * dval (take (length ds) ds))) (s32 (1 * 10 ^ length ds))"
    using assms by (intro atoi_loop_digits) auto
  then show "atoi (CHR ''-'' # ds) = s32 (- dval ds)" by (simp add: atoi_def s32_0_1)
qed

lemma unsigned32_bound: "unsigned32 n < 10 ^ Suc 9"
proof -
  have "unsigned32 n < 4294967296" by (simp add: unsigned32_def nat_less_iff)
  also have "\<dots> < 10 ^ Suc 9" by simp
  finally show ?thesis .
qed

lemma emit_digits_fits:
  "length ds \<le> room st \<Longrightarrow> emit_digits ds st = st\<lparr>out := out st @ ds, room := room st - length ds\<rparr>"
  by (simp add: emit_digits_def emit_def)

text \<open>What \<open>%d\<close> prints, when there is room for eleven characters.\<close>

definition decimal :: "int \<Rightarrow> string" where
  "decimal n = (if n < 0 then CHR ''-'' # udigits 9 (unsigned32 (- n)) [] else udigits 9 (unsigned32 n) [])"

lemma decimal_digits:
  assumes "0 \<le> n" and "n < 4294967296"
  shows "digits (decimal n)" and "dval (decimal n) = n" and "decimal n \<noteq> []" and "length (decimal n) \<le> 10"
  using udigits_correct[OF unsigned32_bound, of n "[]"] assms by (auto simp: decimal_def unsigned32_def)

lemma conv_d_decimal:
  assumes "pvar st = Arg_int n # args" and "11 \<le> room st"
  shows "conv_d st = Some (st\<lparr>out := out st @ decimal n, room := room st - length (decimal n), pvar := args\<rparr>)"
proof -
  obtain ds where "udigits 9 (unsigned32 n) [] = ds" "length ds \<le> 10"
    using udigits_correct[OF unsigned32_bound, of n "[]"] by auto
  moreover obtain es where "udigits 9 (unsigned32 (- n)) [] = es" "length es \<le> 10"
    using udigits_correct[OF unsigned32_bound, of "- n" "[]"] by auto
  ultimately show ?thesis
    using assms by (auto simp: conv_d_def decimal_def emit_digits_fits emit_def Let_def intro!: fstate.equality)
qed

lemma atoi_decimal:
  assumes "- 2147483648 \<le> n" and "n < 2147483648"
  shows "atoi (decimal n) = n"
proof (cases "n < 0")
  case True
  obtain ds where ds: "udigits 9 (unsigned32 (- n)) [] = ds" "digits ds" "dval ds = int (unsigned32 (- n))"
    using udigits_correct[OF unsigned32_bound, of "- n" "[]"] by auto
  have "int (unsigned32 (- n)) = - n" using True assms by (simp add: unsigned32_def)
  with ds True show ?thesis by (simp add: decimal_def atoi_digits s32_id assms)
next
  case False
  with assms show ?thesis by (simp add: atoi_digits decimal_digits s32_id)
qed

section \<open>How much is written\<close>

definition fits :: "nat \<Rightarrow> bool \<Rightarrow> fstate \<Rightarrow> bool" where
  "fits l again st \<longleftrightarrow> length (out st) + room st + (if again then 1 else 0) \<le> l \<and> (again \<longrightarrow> 0 < room st)"

lemma length_hex_digits [simp]: "length (hex_digits n u) = n"
  by (induction n arbitrary: u) auto

lemma emit_fits:
  "length xs \<le> room st \<Longrightarrow> length (out (emit xs st)) + room (emit xs st) = length (out st) + room st"
  by (simp add: emit_def)

lemma emit_digits_length:
  "length (out (emit_digits ds st)) + room (emit_digits ds st) = length (out st) + room st"
  by (simp add: emit_digits_def emit_def)

lemma convert_fits:
  assumes "fits l True st" and "convert f st = Some st'"
  shows "fits l False st'"
proof -
  have b: "length (out st) + room st + 1 \<le> l" "0 < room st" using assms(1) by (simp_all add: fits_def)
  have "length (out st') + room st' \<le> length (out st) + room st + 1"
    using assms(2) b(2)
    by (auto simp: convert_def conv_hex_def conv_d_def Let_def emit_fits emit_digits_length
        split: if_splits list.splits va_arg.splits) (simp_all add: emit_def)
  with b show ?thesis by (simp add: fits_def)
qed

lemma va_loop_fits:
  "va_loop again fmt st = Some st' \<Longrightarrow> fits l again st \<Longrightarrow> fits l False st'"
proof (induction again fmt st rule: va_loop.induct)
  case (2 f fs st)
  then show ?case by (auto simp: fits_def emit_fits split: if_splits)
next
  case (4 f fs st)
  then show ?case using convert_fits by (fastforce simp: fits_def elim: bind_SomeE split: if_splits)
qed auto

lemma va_loop_plain:
  "CHR ''%'' \<notin> set fmt \<Longrightarrow> va_loop False fmt st = Some (st\<lparr>out := out st @ take (room st) fmt, room := room st - length fmt\<rparr>)"
proof (induction fmt arbitrary: st)
  case (Cons f fs)
  then show ?case by (cases "room st") (auto simp: emit_def)
qed simp

section \<open>Properties\<close>

text \<open>
  C21: \<open>atoi\<close> reads back what \<open>snprintf\<close> prints with \<open>%d\<close>, for every \<open>int\<close>, the smallest one
  included, if the buffer has 13 bytes.
\<close>

theorem snprintf_atoi_roundtrip:
  assumes "- 2147483648 \<le> n" and "n < 2147483648" and "13 \<le> l"
  shows "\<exists>s. va_snprintf l ''%d'' [Arg_int n] = Some (s @ [CHR 0x00]) \<and> atoi s = n"
  using assms by (simp add: va_snprintf_def convert_def conv_d_decimal atoi_decimal)

theorem snprintf_atoi_roundtrip_witness:
  "\<exists>s. va_snprintf 13 ''%d'' [Arg_int (- 2147483648)] = Some (s @ [CHR 0x00]) \<and> atoi s = - 2147483648"
  by (rule snprintf_atoi_roundtrip) simp_all

text \<open>
  \<open>va_snprintf\<close> with size \<open>l\<close> writes at most \<open>l + 1\<close> bytes, and that many it does write: a
  text of \<open>l\<close> characters or more fills the buffer and the terminator goes behind its end.
\<close>

theorem snprintf_one_too_many:
  assumes "va_snprintf l fmt args = Some written"
  shows "length written \<le> l + 1 \<and> (CHR ''%'' \<notin> set fmt \<longrightarrow> 0 < l \<longrightarrow> l \<le> length fmt \<longrightarrow>
    written = take l fmt @ [CHR 0x00] \<and> length written = l + 1)"
proof (cases "l = 0")
  case True
  with assms show ?thesis by (simp add: va_snprintf_def)
next
  case False
  let ?st = "\<lparr>out = [], room = l, mod_l = False, mod_ll = False, pvar = args\<rparr>"
  obtain st where st: "va_loop False fmt ?st = Some st" "written = out st @ [CHR 0x00]"
    using assms False by (auto simp: va_snprintf_def elim: bind_SomeE)
  have "fits l False st" by (rule va_loop_fits[OF st(1)]) (simp add: fits_def)
  then have "length written \<le> l + 1" by (simp add: fits_def st(2))
  moreover have "written = take l fmt @ [CHR 0x00]" if "CHR ''%'' \<notin> set fmt"
    using st va_loop_plain[OF that, of ?st] by auto
  ultimately show ?thesis by simp
qed

theorem snprintf_one_too_many_witness:
  "va_snprintf 5 ''hello world'' [] = Some (''hello'' @ [CHR 0x00]) \<and> length (''hello'' @ [CHR 0x00]) = 5 + 1"
proof -
  have v: "va_snprintf 5 ''hello world'' [] = Some (''hello'' @ [CHR 0x00])" by code_simp
  show ?thesis using snprintf_one_too_many[OF v] v by simp
qed

end
