(* ===== verification/Console.thy ===== *)
theory Console
  imports Vt100Props LibcFormat
begin

text \<open>
  The console server (\<open>srv/console2/console.c\<close>): ten virtual screens and a status line on the
  terminals of \<open>Vt100\<close>. A screen keeps its cells in its own block of memory (\<open>back_buf\<close>) or in the
  memory of the video card; \<open>data\<close> points to one of the two. The video memory is shared: what
  is written through one pointer is seen through the others. A semaphore per screen makes the
  operations atomic; they are one step each here.
\<close>

datatype data_ptr = Back | Video nat     \<comment> \<open>a position in the video memory, in cells\<close>

record vconsole =
  scr :: virtscreen                      \<comment> \<open>its field \<open>data\<close> is not used here\<close>
  data_ptr :: data_ptr
  back_buf :: "u16 list"

datatype vref = Con nat | Statbar

record console =
  con :: "vconsole list"
  statbar :: vconsole
  active :: nat                          \<comment> \<open>the index of the screen; 10 is NULL\<close>
  video :: "u16 list"
  crt :: int                             \<comment> \<open>the cursor position in the video controller\<close>
  remote_port :: int
  sent :: "(int \<times> char) list"           \<comment> \<open>what went to the remote port\<close>

definition get_vscr :: "vref \<Rightarrow> console \<Rightarrow> vconsole option" where
  "get_vscr r c = (case r of Con i \<Rightarrow> list_get (con c) i | Statbar \<Rightarrow> Some (statbar c))"

definition set_vscr :: "vref \<Rightarrow> vconsole \<Rightarrow> console \<Rightarrow> console" where
  "set_vscr r v c = (case r of Con i \<Rightarrow> c\<lparr>con := (con c)[i := v]\<rparr> | Statbar \<Rightarrow> c\<lparr>statbar := v\<rparr>)"

definition ncells :: "vconsole \<Rightarrow> nat" where
  "ncells v = nat (num_bytes (scr v) div 2)"

definition cells_of :: "vconsole \<Rightarrow> u16 list \<Rightarrow> u16 list" where
  "cells_of v vid = (case data_ptr v of Back \<Rightarrow> back_buf v | Video off \<Rightarrow> take (ncells v) (drop off vid))"

definition put_video :: "nat \<Rightarrow> u16 list \<Rightarrow> u16 list \<Rightarrow> u16 list" where
  "put_video off d vid = take off vid @ d @ drop (off + length d) vid"

definition movecursor :: "int \<Rightarrow> int \<Rightarrow> console \<Rightarrow> console" where
  "movecursor x y c = (let offset = 80 * y + x in c\<lparr>crt := (offset div 256) mod 256 * 256 + offset mod 256\<rparr>)"

text \<open>The calls of \<open>move_cursor\<close> that the terminal has made.\<close>

definition move_cursor_calls :: "vref \<Rightarrow> (int \<times> int) list \<Rightarrow> console \<Rightarrow> console" where
  "move_cursor_calls r ms c = fold (\<lambda>(x, y) c. if r = Con (active c) then movecursor x y c else c) ms c"

definition put_char :: "vref \<Rightarrow> console \<Rightarrow> char \<Rightarrow> console option" where
  "put_char r c ch = do {
     v \<leftarrow> get_vscr r c;
     s \<leftarrow> char_to_virtscreen ((scr v)\<lparr>data := cells_of v (video c), moves := []\<rparr>) ch;
     let c = (case data_ptr v of
         Back \<Rightarrow> set_vscr r (v\<lparr>scr := s, back_buf := data s\<rparr>) c
       | Video off \<Rightarrow> (set_vscr r (v\<lparr>scr := s\<rparr>) c)\<lparr>video := put_video off (data s) (video c)\<rparr>);
     Some (move_cursor_calls r (moves s) c) }"

definition keypress :: "char \<Rightarrow> console \<Rightarrow> console option" where
  "keypress key c = do {
     c \<leftarrow> put_char (Con (active c)) c key;
     Some (if remote_port c > 0 then c\<lparr>sent := sent c @ [(remote_port c, key)]\<rparr> else c) }"

primrec vputs :: "vref \<Rightarrow> string \<Rightarrow> console \<Rightarrow> console option" where
  "vputs r [] c = Some c"
| "vputs r (s # ss) c = do {
     c \<leftarrow> put_char r c s;
     c \<leftarrow> (if s = CHR 0x0A then put_char r c (CHR 0x0D) else Some c);
     vputs r ss c }"

text \<open>
  \<open>line\<close> has 128 bytes; the write of a 129th is outside. The string ends at its first 0, which
  is at place 127 at the latest.
\<close>

definition vprintf :: "vref \<Rightarrow> string \<Rightarrow> va_arg list \<Rightarrow> console \<Rightarrow> console option" where
  "vprintf r fmt args c = do {
     line \<leftarrow> va_snprintf 128 fmt args;
     if 128 < length line then None
     else vputs r (takeWhile (\<lambda>ch. ch \<noteq> CHR 0x00) (take 127 line)) c }"

definition printf :: "string \<Rightarrow> va_arg list \<Rightarrow> console \<Rightarrow> console option" where
  "printf fmt args c = vprintf (Con (active c)) fmt args c"

definition status_format :: string where
  "status_format = CHR 0x1B # ''[37m'' @ CHR 0x1B # ''[41m'' @ CHR 0x1B # ''[2J### OpenBLT Console mkII ### VC %d''"

definition status :: "int \<Rightarrow> console \<Rightarrow> console option" where
  "status n c = vprintf Statbar status_format [Arg_int n] c"

text \<open>\<open>memcpy\<close> of \<open>num_bytes\<close> bytes between the two buffers of a screen.\<close>

definition copy_cells :: "nat \<Rightarrow> u16 list \<Rightarrow> u16 list \<Rightarrow> u16 list option" where
  "copy_cells n to from = (if n \<le> length to \<and> n \<le> length from then Some (take n from @ drop n to) else None)"

definition save_vscr :: "nat \<Rightarrow> console \<Rightarrow> console option" where
  "save_vscr i c = do {
     v \<leftarrow> get_vscr (Con i) c;
     case data_ptr v of
       Back \<Rightarrow> Some c
     | Video off \<Rightarrow> do {
         b \<leftarrow> copy_cells (ncells v) (back_buf v) (drop off (video c));
         Some (set_vscr (Con i) (v\<lparr>back_buf := b, data_ptr := Back\<rparr>) c) } }"

definition load_vscr :: "nat \<Rightarrow> console \<Rightarrow> console option" where
  "load_vscr i c = do {
     v \<leftarrow> get_vscr (Con i) c;
     c \<leftarrow> (if data_ptr v = Back then do {
         vid \<leftarrow> copy_cells (ncells v) (video c) (back_buf v);
         Some ((set_vscr (Con i) (v\<lparr>data_ptr := Video 0\<rparr>) c)\<lparr>video := vid\<rparr>) }
       else Some c);
     let c = movecursor (xpos (scr v)) (ypos (scr v)) (c\<lparr>active := i\<rparr>);
     status (int i) c }"

definition function_key :: "nat \<Rightarrow> console \<Rightarrow> console option" where
  "function_key number c = do {
     c \<leftarrow> save_vscr (active c) c;
     load_vscr number (c\<lparr>active := number\<rparr>) }"

section \<open>The keyboard\<close>

definition ScanTable :: string where
  "ScanTable = '' '' @ [CHR 0x1B] @ ''1234567890-='' @ [CHR 0x08, CHR 0x09] @ ''qwertyuiop[]'' @ [CHR 0x0A] @ '' asdfghjkl;''
     @ [CHR 0x27, CHR 0x60] @ '' '' @ [CHR 0x5C] @ ''zxcvbnm,./     ''"

definition ShiftTable :: string where
  "ShiftTable = '' '' @ [CHR 0x1B] @ ''!@#$%^&*()_+  '' @ ''QWERTYUIOP{}'' @ [CHR 0x0A] @ '' ASDFGHJKL:''
     @ [CHR 0x22] @ ''~ |ZXCVBNM<>?     ''"

record keyboard =
  shift :: bool
  control :: bool
  alt :: bool

text \<open>One turn of \<open>keyboard_irq_thread\<close> with the byte that was read; the debugger does nothing here.\<close>

definition key_irq :: "int \<Rightarrow> keyboard \<times> console \<Rightarrow> (keyboard \<times> console) option" where
  "key_irq key kc = (case kc of (k, c) \<Rightarrow>
    if alt k \<and> key = 1 then do {
      c \<leftarrow> save_vscr (active c) c;
      c \<leftarrow> load_vscr (active c) c;
      Some (k\<lparr>alt := False\<rparr>, c) }
    else if 0x3b \<le> key \<and> key \<le> 0x44 then do { c \<leftarrow> function_key (nat (key - 0x3b)) c; Some (k, c) }
    else if key = 0x38 then Some (k\<lparr>alt := True\<rparr>, c)
    else if key = 0xb8 then Some (k\<lparr>alt := False\<rparr>, c)
    else if key = 0x1d then Some (k\<lparr>control := True\<rparr>, c)
    else if key = 0x9d then Some (k\<lparr>control := False\<rparr>, c)
    else if key = 42 \<or> key = 54 then Some (k\<lparr>shift := True\<rparr>, c)
    else if key = 170 \<or> key = 182 then Some (k\<lparr>shift := False\<rparr>, c)
    else if key \<ge> 128 then Some (k, c)
    else if key < 59 then
      if control k then do {
        ch \<leftarrow> list_get ScanTable (nat key);
        c \<leftarrow> (if 97 \<le> (of_char ch :: nat) \<and> of_char ch \<le> (122 :: nat) then keypress (char_of ((of_char ch :: nat) - 96)) c
             else Some c);
        Some (k, c) }
      else do {
        ch \<leftarrow> list_get (if shift k then ShiftTable else ScanTable) (nat key);
        c \<leftarrow> keypress ch c;
        Some (k, c) }
    else Some (k, c))"

section \<open>The messages and the start\<close>

text \<open>One turn of \<open>console_thread\<close> with the message that was received.\<close>

definition console_message :: "int \<Rightarrow> nat \<Rightarrow> string \<Rightarrow> console \<Rightarrow> console option" where
  "console_message src code bytes c =
    (if code = 0 then Some (c\<lparr>remote_port := src\<rparr>)
     else vputs (Con (active c)) (takeWhile (\<lambda>ch. ch \<noteq> CHR 0x00) bytes) c)"

definition zero_screen :: virtscreen where
  "zero_screen = \<lparr>rows = 0, columns = 0, num_bytes = 0, data = [], xpos = 0, ypos = 0, top_scroll = 0, bottom_scroll = 0,
     attrib = 0, old_attrib = 0, old_xpos = 0, old_ypos = 0, cur_ansi_number = 0, ansi_elements = 0, ansi_reading_number = False,
     ansi_element = replicate 16 0, next_char_send = Std_interpret_char, moves = []\<rparr>"

definition init_vconsole :: "u16 list option \<Rightarrow> int \<Rightarrow> int \<Rightarrow> vconsole option" where
  "init_vconsole mem nrows ncols = do {
     (_, s) \<leftarrow> init_virtscreen mem nrows ncols zero_screen;
     Some \<lparr>scr = s, data_ptr = Back, back_buf = data s\<rparr> }"

primrec init_screens :: "nat \<Rightarrow> (nat \<Rightarrow> u16 list option) \<Rightarrow> console \<Rightarrow> console option" where
  "init_screens 0 mem c = Some c"
| "init_screens (Suc n) mem c = do {
     let i = length (con c);
     v \<leftarrow> init_vconsole (mem i) 24 80;
     c \<leftarrow> vputs (Con i) (CHR 0x1B # ''[2J'') (c\<lparr>con := con c @ [v]\<rparr>);
     init_screens n mem c }"

text \<open>
  \<open>console_main\<close> up to the start of the threads: \<open>mem\<close> is what \<open>malloc\<close> returns for the status
  line (10) and the screens, \<open>vid\<close> the video memory.
\<close>

definition console_start :: "(nat \<Rightarrow> u16 list option) \<Rightarrow> u16 list \<Rightarrow> console option" where
  "console_start mem vid = do {
     sb \<leftarrow> init_vconsole (mem 10) 1 80;
     let c = \<lparr>con = [], statbar = sb\<lparr>data_ptr := Video (80 * 24)\<rparr>, active = 10, video = vid, crt = 0,
       remote_port = -1, sent = []\<rparr>;
     c \<leftarrow> init_screens 10 mem c;
     c \<leftarrow> load_vscr 0 c;
     status 0 c }"

end
