(* ===== verification/ConsoleProps.thy ===== *)
theory ConsoleProps
  imports Console
begin

text \<open>
  The console server: what the terminal leaves alone, the invariant of the ten screens and
  the status line in the shared video memory, and what the console does with them.
\<close>

section \<open>What the terminal leaves alone\<close>

definition keep :: "virtscreen \<Rightarrow> virtscreen \<Rightarrow> bool" where
  "keep cur cur' \<longleftrightarrow> rows cur' = rows cur \<and> columns cur' = columns cur \<and> num_bytes cur' = num_bytes cur \<and>
     next_char_send cur' = next_char_send cur"

lemma keep_refl [simp]: "keep cur cur"
  by (simp add: keep_def)

lemma keep_trans: "keep a b \<Longrightarrow> keep b c \<Longrightarrow> keep a c"
  by (simp add: keep_def)

lemma clear_region_keep: "clear_region cur y1 x1 y2 x2 a = Some cur' \<Longrightarrow> keep cur cur'"
  by (auto simp: clear_region_def Let_def keep_def elim!: bind_SomeE)

lemma clear_virtscreen_keep: "clear_virtscreen cur m = Some cur' \<Longrightarrow> keep cur cur'"
  by (auto simp: clear_virtscreen_def clear_region_keep elim!: bind_SomeE split: if_splits)
    (auto simp: keep_def dest!: clear_region_keep)

lemma clear_to_eol_keep: "clear_to_eol cur m = Some cur' \<Longrightarrow> keep cur cur'"
  by (auto simp: clear_to_eol_def clear_region_keep split: if_splits)

lemma position_console_keep: "keep cur (position_console cur y x rel)"
  by (simp add: position_console_def Let_def keep_def move_cursor_def)

lemma scroll_virtscreen_keep: "scroll_virtscreen cur = Some cur' \<Longrightarrow> keep cur cur'"
  by (auto simp: scroll_virtscreen_def Let_def keep_def elim!: bind_SomeE)

lemma scroll_virt_up_keep: "scroll_virt_up_at_cursor cur dir = Some cur' \<Longrightarrow> keep cur cur'"
  by (auto simp: scroll_virt_up_at_cursor_def Let_def keep_def elim!: bind_SomeE split: if_splits)

lemma scroll_lines_keep: "scroll_lines n dir cur = Some cur' \<Longrightarrow> keep cur cur'"
  by (induction n arbitrary: cur) (auto elim!: bind_SomeE dest: scroll_virt_up_keep intro: keep_trans)

lemma delete_chars_keep: "delete_chars_in_line cur m = Some cur' \<Longrightarrow> keep cur cur'"
  by (auto simp: delete_chars_in_line_def Let_def keep_def elim!: bind_SomeE split: if_splits)

lemma change_character_keep: "change_character cur ch = Some cur' \<Longrightarrow> keep cur cur'"
  by (auto simp: change_character_def keep_def elim!: bind_SomeE)

lemma sgr_keep: "keep cur (sgr n cur)"
  by (simp add: sgr_def change_attribute_def keep_def)

lemma sgr_loop_keep: "keep cur (sgr_loop cur)"
proof -
  have f: "keep c (fold sgr xs c)" for xs c
    by (induction xs arbitrary: c) (auto intro: keep_trans sgr_keep)
  have "keep cur (change_attribute cur 7)" by (simp add: change_attribute_def keep_def)
  then show ?thesis using f by (auto simp: sgr_loop_def intro: keep_trans)
qed

lemma end_number_keep: "keep cur (end_number cur ch)"
  by (simp add: end_number_def Let_def keep_def)

lemma keep_upd [simp]: "keep cur (cur'\<lparr>ypos := y\<rparr>) = keep cur cur'" "keep cur (cur'\<lparr>xpos := y\<rparr>) = keep cur cur'"
  "keep (cur\<lparr>ypos := y\<rparr>) cur' = keep cur cur'" "keep (cur\<lparr>xpos := y\<rparr>) cur' = keep cur cur'"
  "keep cur (move_cursor cur') = keep cur cur'" "keep cur (set_scroll_region cur' lo hi) = keep cur cur'"
  "keep cur (change_attribute cur' a) = keep cur cur'" "keep (change_attribute cur a) cur' = keep cur cur'"
  "keep cur (cur'\<lparr>old_attrib := a, old_xpos := x, old_ypos := y\<rparr>) = keep cur cur'"
  "keep cur (cur'\<lparr>old_xpos := x, old_ypos := y\<rparr>) = keep cur cur'" "keep cur (cur'\<lparr>old_attrib := a\<rparr>) = keep cur cur'"
  by (simp_all add: keep_def move_cursor_def set_scroll_region_def Let_def change_attribute_def)

lemma line_down_keep: "line_down cur = Some cur' \<Longrightarrow> keep cur cur'"
  by (auto simp: line_down_def Let_def elim!: bind_SomeE dest: scroll_virtscreen_keep split: if_splits)

lemma line_up_keep: "line_up cur = Some cur' \<Longrightarrow> keep cur cur'"
  by (auto simp: line_up_def Let_def elim!: bind_SomeE dest: scroll_virt_up_keep split: if_splits)

definition keeps :: "virtscreen \<Rightarrow> virtscreen option \<Rightarrow> bool" where
  "keeps cur m \<longleftrightarrow> (\<forall>c. m = Some c \<longrightarrow> keep cur c)"

lemma keepsI: "(\<And>c. m = Some c \<Longrightarrow> keep cur c) \<Longrightarrow> keeps cur m"
  by (simp add: keeps_def)

lemma keepsD: "keeps cur m \<Longrightarrow> m = Some c \<Longrightarrow> keep cur c"
  by (simp add: keeps_def)

lemma keeps_if: "keeps cur a \<Longrightarrow> keeps cur b \<Longrightarrow> keeps cur (if P then a else b)"
  by simp

lemma keeps_Some: "keep cur c \<Longrightarrow> keeps cur (Some c)"
  by (simp add: keeps_def)

lemma keeps_None: "keeps cur None"
  by (simp add: keeps_def)

lemma keeps_then: "keeps cur m \<Longrightarrow> (\<And>c. keep cur c \<Longrightarrow> keeps cur (f c)) \<Longrightarrow> keeps cur (Option.bind m f)"
  by (auto simp: keeps_def elim!: bind_SomeE)

lemma keep_if: "keep cur a \<Longrightarrow> keep cur b \<Longrightarrow> keep cur (if P then a else b)"
  by simp

lemma keeps_ops:
  "keeps cur (clear_virtscreen cur mode)" "keeps cur (clear_to_eol cur mode)" "keeps cur (scroll_lines n dir cur)"
  "keeps cur (delete_chars_in_line cur m)" "keeps cur (line_up cur)" "keeps cur (line_down cur)"
  "keeps cur (change_character cur a)" "keeps cur (scroll_virtscreen cur)"
  by (rule keepsI, erule clear_virtscreen_keep clear_to_eol_keep scroll_lines_keep delete_chars_keep line_up_keep
      line_down_keep change_character_keep scroll_virtscreen_keep)+

lemma csi_position_keeps: "keeps cur (csi_position cur ch)"
  unfolding csi_position_def
  by (intro keeps_if keeps_Some keeps_None position_console_keep)

lemma csi_command_keeps: "keeps cur (csi_command cur ch)"
  unfolding csi_command_def Let_def
  by (intro keeps_if keeps_Some csi_position_keeps keeps_ops position_console_keep sgr_loop_keep keep_if) simp_all

lemma std_ansi_rest_keeps: "keeps cur (if ch = CHR ''7'' then Some (cur\<lparr>old_attrib := attrib cur, old_xpos := xpos cur, old_ypos := ypos cur\<rparr>)
   else if ch = CHR ''8'' then Some (position_console (change_attribute cur (old_attrib cur)) (ypos cur) (xpos cur) False)
   else if ch = CHR ''E'' then line_down (cur\<lparr>xpos := 0\<rparr>)
   else if ch = CHR ''D'' then line_down cur
   else if ch = CHR ''M'' then line_up cur
   else Some cur)"
proof -
  have "keep cur (position_console (change_attribute cur (old_attrib cur)) (ypos cur) (xpos cur) False)"
    using position_console_keep[of "change_attribute cur (old_attrib cur)"] by simp
  moreover have "keeps cur (line_down (cur\<lparr>xpos := 0\<rparr>))"
    using line_down_keep[of "cur\<lparr>xpos := 0\<rparr>"] by (simp add: keeps_def)
  ultimately show ?thesis by (intro keeps_if keeps_Some keeps_ops) simp_all
qed

lemma scroll_below: "keeps cur (scroll_virtscreen (cur\<lparr>ypos := y\<rparr>))"
  using scroll_virtscreen_keep[of "cur\<lparr>ypos := y\<rparr>"] by (simp add: keeps_def)

text \<open>The size of the screen never changes, and the next character goes where the parser says.\<close>

lemma std_char_keep:
  assumes "std_interpret_char cur ch = Some cur'" and "ch \<noteq> CHR 0x1B"
  shows "keep cur cur'"
proof -
  have "keeps cur (std_interpret_char cur ch)"
    unfolding std_interpret_char_def if_not_P[OF assms(2)] Let_def
    by (intro keeps_then keeps_if keeps_Some keeps_ops keep_if scroll_below) (simp_all add: position_console_keep)
  then show ?thesis using assms(1) by (rule keepsD)
qed

text \<open>The parser alone: where the character after the next one goes.\<close>

fun next_fn :: "char_fn \<Rightarrow> char \<Rightarrow> char_fn" where
  "next_fn Std_interpret_char ch = (if ch = CHR 0x1B then Std_interpret_ansi else Std_interpret_char)"
| "next_fn Std_interpret_ansi ch =
    (if ch = CHR ''('' then Special_ansi_charset_0 else if ch = CHR '')'' then Special_ansi_charset_1
     else if ch = CHR ''['' then Special_reading_ansi else if ch = CHR 0x1B then Std_interpret_ansi
     else Std_interpret_char)"
| "next_fn Special_reading_ansi ch =
    (if is_digit ch \<or> ch = CHR ''?'' \<or> ch = CHR '';'' then Special_reading_ansi else Std_interpret_char)"
| "next_fn _ ch = Std_interpret_char"

definition same_size :: "virtscreen \<Rightarrow> virtscreen \<Rightarrow> bool" where
  "same_size cur cur' \<longleftrightarrow> rows cur' = rows cur \<and> columns cur' = columns cur \<and> num_bytes cur' = num_bytes cur"

lemma keep_frame: "keep cur cur' \<Longrightarrow> same_size cur cur' \<and> next_char_send cur' = next_char_send cur"
  by (simp add: keep_def same_size_def)

lemma same_size_trans: "same_size a b \<Longrightarrow> same_size b c \<Longrightarrow> same_size a c"
  by (simp add: same_size_def)

lemma same_size_next [simp]: "same_size a (b\<lparr>next_char_send := f\<rparr>) = same_size a b"
  by (simp add: same_size_def)

lemma std_char_frame:
  assumes "std_interpret_char cur ch = Some cur'" and "next_char_send cur = Std_interpret_char"
  shows "same_size cur cur' \<and> next_char_send cur' = next_fn Std_interpret_char ch"
proof (cases "ch = CHR 0x1B")
  case True
  with assms show ?thesis by (auto simp: std_interpret_char_def same_size_def)
next
  case False
  from keep_frame[OF std_char_keep[OF assms(1) this]] assms(2) False show ?thesis by simp
qed

lemma std_ansi_frame:
  assumes "std_interpret_ansi cur ch = Some cur'" and "next_char_send cur = Std_interpret_ansi"
  shows "same_size cur cur' \<and> next_char_send cur' = next_fn Std_interpret_ansi ch"
proof (cases "ch = CHR ''('' \<or> ch = CHR '')'' \<or> ch = CHR ''[''")
  case True
  with assms show ?thesis by (auto simp: std_interpret_ansi_def same_size_def)
next
  case False
  then have n: "ch \<noteq> CHR ''(''" "ch \<noteq> CHR '')''" "ch \<noteq> CHR ''[''" by auto
  obtain c where c: "keep cur c" "cur' = (if ch \<noteq> CHR 0x1B then c\<lparr>next_char_send := Std_interpret_char\<rparr> else c)"
    using assms(1) keepsD[OF std_ansi_rest_keeps[of cur ch]]
    unfolding std_interpret_ansi_def if_not_P[OF n(1)] if_not_P[OF n(2)] if_not_P[OF n(3)]
    by (elim bind_SomeE) auto
  with keep_frame[OF c(1)] n assms(2) show ?thesis by auto
qed

lemma special_reading_frame:
  assumes "special_reading_ansi cur ch = Some cur'" and "next_char_send cur = Special_reading_ansi"
  shows "same_size cur cur' \<and> next_char_send cur' = next_fn Special_reading_ansi ch"
proof (cases "is_digit ch \<or> ch = CHR ''?'' \<or> ch = CHR '';''")
  case True
  with assms keep_frame[OF end_number_keep[of cur ch]] show ?thesis
    by (auto simp: special_reading_ansi_def Let_def same_size_def split: if_splits)
next
  case False
  then obtain c where c: "csi_command (end_number cur ch) ch = Some c" "cur' = c\<lparr>next_char_send := Std_interpret_char\<rparr>"
    using assms(1) by (auto simp: special_reading_ansi_def Let_def elim!: bind_SomeE)
  have "keep cur c" by (rule keep_trans[OF end_number_keep keepsD[OF csi_command_keeps c(1)]])
  with c(2) False keep_frame show ?thesis by auto
qed

lemma char_frame:
  assumes "char_to_virtscreen cur ch = Some cur'"
  shows "same_size cur cur'" and "next_char_send cur' = next_fn (next_char_send cur) ch"
proof -
  have "same_size cur cur' \<and> next_char_send cur' = next_fn (next_char_send cur) ch"
  proof (cases "next_char_send cur")
    case Std_interpret_char
    with assms std_char_frame show ?thesis by (simp add: char_to_virtscreen_def)
  next
    case Std_interpret_ansi
    with assms std_ansi_frame show ?thesis by (simp add: char_to_virtscreen_def)
  next
    case Special_reading_ansi
    with assms special_reading_frame show ?thesis by (simp add: char_to_virtscreen_def)
  qed (use assms in \<open>auto simp: char_to_virtscreen_def special_ansi_charset_0_def special_ansi_charset_1_def same_size_def\<close>)
  then show "same_size cur cur'" "next_char_send cur' = next_fn (next_char_send cur) ch" by auto
qed

text \<open>A text in which no sequence ends with \<open>P\<close> or \<open>r\<close>, and where its parser ends.\<close>

primrec tame :: "char_fn \<Rightarrow> string \<Rightarrow> bool" where
  "tame f [] \<longleftrightarrow> True"
| "tame f (c # cs) \<longleftrightarrow> (f = Special_reading_ansi \<longrightarrow> c \<noteq> CHR ''P'' \<and> c \<noteq> CHR ''r'') \<and> tame (next_fn f c) cs"

lemma tame_may_feed: "tame (next_char_send cur) msg \<Longrightarrow> may_feed char_to_virtscreen careful cur msg"
proof (induction msg arbitrary: cur)
  case (Cons c cs)
  then show ?case using char_frame(2)[of cur c] by (auto simp: careful_def Let_def split: option.split)
qed simp

lemma feed_frame:
  "feed char_to_virtscreen cur msg = Some cur' \<Longrightarrow>
   same_size cur cur' \<and> next_char_send cur' = foldl next_fn (next_char_send cur) msg"
proof (induction msg arbitrary: cur)
  case (Cons c cs)
  then obtain c1 where "char_to_virtscreen cur c = Some c1" "feed char_to_virtscreen c1 cs = Some cur'"
    by (auto elim: bind_SomeE)
  with Cons.IH char_frame show ?case by (fastforce intro: same_size_trans)
qed (simp add: same_size_def)

section \<open>The invariant of the console\<close>

text \<open>The screen that a reference stands for, with the cells that its \<open>data\<close> points to.\<close>

definition view :: "vconsole \<Rightarrow> u16 list \<Rightarrow> virtscreen" where
  "view v vid = (scr v)\<lparr>data := cells_of v vid, moves := []\<rparr>"

definition valid :: "vref \<Rightarrow> bool" where
  "valid r \<longleftrightarrow> (case r of Con i \<Rightarrow> i < 10 | Statbar \<Rightarrow> True)"

definition vscr :: "vref \<Rightarrow> console \<Rightarrow> vconsole" where
  "vscr r c = (case r of Con i \<Rightarrow> con c ! i | Statbar \<Rightarrow> statbar c)"

definition look :: "vref \<Rightarrow> console \<Rightarrow> virtscreen" where
  "look r c = view (vscr r c) (video c)"

definition lines_of :: "vref \<Rightarrow> int" where
  "lines_of r = (case r of Con i \<Rightarrow> 24 | Statbar \<Rightarrow> 1)"

definition place :: "vref \<Rightarrow> nat \<Rightarrow> data_ptr" where
  "place r k = (case r of Con i \<Rightarrow> (if i = k then Video 0 else Back) | Statbar \<Rightarrow> Video 1920)"

definition vscr_ok :: "vref \<Rightarrow> nat \<Rightarrow> vconsole \<Rightarrow> bool" where
  "vscr_ok r k v \<longleftrightarrow> rows (scr v) = lines_of r \<and> columns (scr v) = 80 \<and> num_bytes (scr v) = 160 * lines_of r \<and>
     length (back_buf v) = nat (80 * lines_of r) \<and> data_ptr v = place r k"

text \<open>
  The ten screens have 24 lines and the status line one; the active screen, and no other, is
  in the video memory, and the status line is below it.
\<close>

definition console_ok :: "console \<Rightarrow> bool" where
  "console_ok c \<longleftrightarrow> length (con c) = 10 \<and> active c < 10 \<and> length (video c) = 4096 \<and>
     (\<forall>r. valid r \<longrightarrow> vscr_ok r (active c) (vscr r c) \<and> vt_ok (look r c))"

lemma console_okD:
  assumes "console_ok c"
  shows "length (con c) = 10" "active c < 10" "length (video c) = 4096"
    "valid r \<Longrightarrow> vscr_ok r (active c) (vscr r c)" "valid r \<Longrightarrow> vt_ok (look r c)"
  using assms by (auto simp: console_ok_def)

lemma get_vscr_valid: "length (con c) = 10 \<Longrightarrow> valid r \<Longrightarrow> get_vscr r c = Some (vscr r c)"
  by (auto simp: get_vscr_def vscr_def valid_def split: vref.splits)

lemma set_vscr_sel [simp]:
  "active (set_vscr r v c) = active c" "video (set_vscr r v c) = video c" "length (con (set_vscr r v c)) = length (con c)"
  "sent (set_vscr r v c) = sent c" "remote_port (set_vscr r v c) = remote_port c"
  by (simp_all add: set_vscr_def split: vref.splits)

lemma vscr_set: "length (con c) = 10 \<Longrightarrow> valid r \<Longrightarrow> vscr q (set_vscr r v c) = (if q = r then v else vscr q c)"
  by (auto simp: vscr_def set_vscr_def valid_def split: vref.splits)

lemma vscr_upd [simp]: "vscr r (c\<lparr>video := x\<rparr>) = vscr r c" "vscr r (c\<lparr>crt := y\<rparr>) = vscr r c" "vscr r (c\<lparr>active := k\<rparr>) = vscr r c"
  by (simp_all add: vscr_def split: vref.splits)

lemma look_crt [simp]: "look r (c\<lparr>crt := y\<rparr>) = look r c" "look r (c\<lparr>active := k\<rparr>) = look r c"
  by (simp_all add: look_def)

lemma console_ok_crt [simp]: "console_ok (c\<lparr>crt := y\<rparr>) = console_ok c"
  by (simp add: console_ok_def)

lemma move_cursor_calls_crt: "\<exists>x. move_cursor_calls r ms c = c\<lparr>crt := x\<rparr>"
  unfolding move_cursor_calls_def
proof (induction ms arbitrary: c)
  case Nil
  show ?case by (rule exI[of _ "crt c"]) simp
next
  case (Cons m ms)
  have "\<exists>x. (case m of (x, y) \<Rightarrow> \<lambda>c. if r = Con (active c) then movecursor x y c else c) c = c\<lparr>crt := x\<rparr>"
  proof (cases "r = Con (active c)")
    case True
    then show ?thesis by (cases m) (auto simp: movecursor_def Let_def)
  next
    case False
    then show ?thesis by (cases m) (auto intro: exI[of _ "crt c"])
  qed
  then obtain x where "(case m of (x, y) \<Rightarrow> \<lambda>c. if r = Con (active c) then movecursor x y c else c) c = c\<lparr>crt := x\<rparr>" ..
  moreover obtain y where "fold (\<lambda>(x, y) c. if r = Con (active c) then movecursor x y c else c) ms (c\<lparr>crt := x\<rparr>) = c\<lparr>crt := x\<rparr>\<lparr>crt := y\<rparr>"
    using Cons.IH by blast
  ultimately show ?case by auto
qed

lemma put_video_at:
  assumes "off + length d \<le> length vid"
  shows "length (put_video off d vid) = length vid" and "take (length d) (drop off (put_video off d vid)) = d"
    and "a + n \<le> off \<Longrightarrow> take n (drop a (put_video off d vid)) = take n (drop a vid)"
    and "off + length d \<le> a \<Longrightarrow> drop a (put_video off d vid) = drop a vid"
  using assms by (auto simp: put_video_def drop_take min_def)

text \<open>One character, with the calls of \<open>move_cursor\<close> forgotten.\<close>

definition char_step :: "virtscreen \<Rightarrow> char \<Rightarrow> virtscreen option" where
  "char_step cur ch = map_option (\<lambda>s. s\<lparr>moves := []\<rparr>) (char_to_virtscreen cur ch)"

interpretation step: char_device char_step vt_ok careful
  by unfold_locales (use vt.put_ok in \<open>fastforce simp: char_step_def\<close>)

lemma step_frame:
  assumes "char_step cur ch = Some cur'"
  shows "same_size cur cur'" and "next_char_send cur' = next_fn (next_char_send cur) ch" and "moves cur' = []"
  using assms char_frame[of cur ch] by (auto simp: char_step_def same_size_def)

lemma tame_may_step: "tame (next_char_send cur) msg \<Longrightarrow> may_feed char_step careful cur msg"
proof (induction msg arbitrary: cur)
  case (Cons c cs)
  then show ?case using step_frame(2)[of cur c] by (auto simp: careful_def Let_def split: option.split)
qed simp

lemma put_char_lemma:
  assumes ok: "console_ok c" and r: "valid r" and s: "char_step (look r c) ch = Some s" "vt_ok s"
  shows "\<exists>c'. put_char r c ch = Some c' \<and> console_ok c' \<and> active c' = active c \<and> remote_port c' = remote_port c \<and>
    sent c' = sent c \<and> look r c' = s \<and> (\<forall>q. valid q \<longrightarrow> q \<noteq> r \<longrightarrow> look q c' = look q c)"
proof -
  note okD = console_okD[OF ok]
  define v where "v = vscr r c"
  have v: "vscr_ok r (active c) v" "vt_ok (look r c)" using okD(4,5)[OF r] by (simp_all add: v_def)
  obtain s0 where s0: "char_to_virtscreen (view v (video c)) ch = Some s0" "s = s0\<lparr>moves := []\<rparr>"
    using s(1) by (auto simp: char_step_def look_def v_def)
  have size: "rows s0 = lines_of r" "columns s0 = 80" "num_bytes s0 = 160 * lines_of r"
    using char_frame(1)[OF s0(1)] v(1) by (simp_all add: same_size_def vscr_ok_def view_def)
  have n: "ncells v = nat (80 * lines_of r)" using v(1) by (simp add: ncells_def vscr_ok_def)
  have "int (length (data s0)) = 80 * lines_of r" using vt_okD(5)[OF s(2)] size by (simp add: s0(2))
  then have l: "length (data s0) = nat (80 * lines_of r)" by linarith
  obtain c0 where c0: "(case data_ptr v of
         Back \<Rightarrow> set_vscr r (v\<lparr>scr := s0, back_buf := data s0\<rparr>) c
       | Video off \<Rightarrow> (set_vscr r (v\<lparr>scr := s0\<rparr>) c)\<lparr>video := put_video off (data s0) (video c)\<rparr>) = c0"
    by blast
  obtain y where y: "move_cursor_calls r (moves s0) c0 = c0\<lparr>crt := y\<rparr>" using move_cursor_calls_crt by blast
  have put: "put_char r c ch = Some (c0\<lparr>crt := y\<rparr>)"
  proof -
    have "get_vscr r c = Some v" using get_vscr_valid[OF okD(1) r] by (simp add: v_def)
    with s0(1) y show ?thesis by (simp add: put_char_def view_def c0)
  qed
  show ?thesis
  proof (cases "data_ptr v")
    case Back
    then have c0: "c0 = set_vscr r (v\<lparr>scr := s0, back_buf := data s0\<rparr>) c" using c0 by simp
    have lr: "look r c0 = s"
      using Back by (simp add: look_def view_def cells_of_def c0 vscr_set[OF okD(1) r] s0(2))
    have lq: "look q c0 = look q c" if "q \<noteq> r" for q
      using that by (simp add: look_def c0 vscr_set[OF okD(1) r])
    have "console_ok c0"
      unfolding console_ok_def
      using okD lr lq s(2) v(1) size l Back
      by (auto simp: c0 vscr_set[OF okD(1) r] vscr_ok_def)
    with put lr lq c0 show ?thesis by simp
  next
    case (Video off)
    then have c0: "c0 = (set_vscr r (v\<lparr>scr := s0\<rparr>) c)\<lparr>video := put_video off (data s0) (video c)\<rparr>" using c0 by simp
    have off: "r = Con (active c) \<and> off = 0 \<or> r = Statbar \<and> off = 1920"
      using v(1) Video by (auto simp: vscr_ok_def place_def split: vref.splits if_splits)
    then have fit: "off + length (data s0) \<le> length (video c)" using l okD(3) by (auto simp: lines_of_def)
    note pv = put_video_at[OF fit]
    have lr: "look r c0 = s"
      using Video pv(2) l n size by (simp add: look_def view_def cells_of_def c0 vscr_set[OF okD(1) r] s0(2) ncells_def)
    have lq: "look q c0 = look q c" if q: "valid q" "q \<noteq> r" for q
    proof -
      have p: "data_ptr (vscr q c) = place q (active c)" "ncells (vscr q c) = nat (80 * lines_of q)"
        using okD(4)[OF q(1)] by (simp_all add: vscr_ok_def ncells_def)
      have "cells_of (vscr q c) (video c0) = cells_of (vscr q c) (video c)"
        using off q p l pv(3)[of 0 1920] pv(3)[of 1920 80] pv(4)[of 1920]
        by (auto simp: cells_of_def place_def lines_of_def c0 split: vref.splits if_splits)
      with q(2) show ?thesis by (simp add: look_def view_def c0 vscr_set[OF okD(1) r])
    qed
    have "console_ok c0"
      unfolding console_ok_def
    proof (intro conjI allI impI)
      fix q assume q: "valid q"
      show "vscr_ok q (active c0) (vscr q c0)"
        using okD(4)[OF q] v(1) size by (simp add: c0 vscr_set[OF okD(1) r] vscr_ok_def)
      show "vt_ok (look q c0)" using lr lq[OF q] s(2) okD(5)[OF q] by (cases "q = r") simp_all
    qed (use okD pv(1) in \<open>simp_all add: c0\<close>)
    with put lr lq c0 show ?thesis by simp
  qed
qed

section \<open>Text on a screen\<close>

text \<open>\<open>c'\<close> differs from \<open>c\<close> in the screen \<open>r\<close> only (and in the hardware cursor).\<close>

definition only_at :: "vref \<Rightarrow> console \<Rightarrow> console \<Rightarrow> bool" where
  "only_at r c c' \<longleftrightarrow> console_ok c' \<and> active c' = active c \<and> remote_port c' = remote_port c \<and> sent c' = sent c \<and>
     (\<forall>q. valid q \<longrightarrow> q \<noteq> r \<longrightarrow> look q c' = look q c)"

lemma only_at_refl: "console_ok c \<Longrightarrow> only_at r c c"
  by (simp add: only_at_def)

lemma only_at_trans: "only_at r a b \<Longrightarrow> only_at r b c \<Longrightarrow> only_at r a c"
  by (simp add: only_at_def)

text \<open>The characters that \<open>vputs\<close> sends: every line feed is followed by a carriage return.\<close>

primrec crlf :: "string \<Rightarrow> string" where
  "crlf [] = []"
| "crlf (s # ss) = s # (if s = CHR 0x0A then [CHR 0x0D] else []) @ crlf ss"

lemma put_char_only:
  assumes "console_ok c" and "valid r" and "careful (look r c) ch"
  shows "\<exists>c'. put_char r c ch = Some c' \<and> only_at r c c' \<and> char_step (look r c) ch = Some (look r c')"
proof -
  obtain s where s: "char_step (look r c) ch = Some s" "vt_ok s"
    using step.put_ok[OF console_okD(5)[OF assms(1,2)] assms(3)] by blast
  from put_char_lemma[OF assms(1,2) s] s(1) show ?thesis by (auto simp: only_at_def)
qed

lemma vputs_lemma:
  assumes "console_ok c" and "valid r" and "may_feed char_step careful (look r c) (crlf msg)"
  shows "\<exists>c'. vputs r msg c = Some c' \<and> only_at r c c' \<and> feed char_step (look r c) (crlf msg) = Some (look r c')"
  using assms
proof (induction msg arbitrary: c)
  case Nil
  then show ?case by (simp add: only_at_refl)
next
  case (Cons ch msg)
  obtain c1 where c1: "put_char r c ch = Some c1" "only_at r c c1" "char_step (look r c) ch = Some (look r c1)"
    using put_char_only[OF Cons.prems(1,2)] Cons.prems(3) by auto
  have ok1: "console_ok c1" using c1(2) by (simp add: only_at_def)
  show ?case
  proof (cases "ch = CHR 0x0A")
    case True
    with Cons.prems(3) c1(3) have m: "careful (look r c1) (CHR 0x0D)" by simp
    obtain c2 where c2: "put_char r c1 (CHR 0x0D) = Some c2" "only_at r c1 c2" "char_step (look r c1) (CHR 0x0D) = Some (look r c2)"
      using put_char_only[OF ok1 Cons.prems(2) m] by blast
    have "console_ok c2" using c2(2) by (simp add: only_at_def)
    moreover have "may_feed char_step careful (look r c2) (crlf msg)" using Cons.prems(3) True c1(3) c2(3) by simp
    ultimately obtain c3 where "vputs r msg c2 = Some c3" "only_at r c2 c3" "feed char_step (look r c2) (crlf msg) = Some (look r c3)"
      using Cons.IH Cons.prems(2) by blast
    then show ?thesis
      using True c1 c2 by (auto intro: only_at_trans)
  next
    case False
    have "may_feed char_step careful (look r c1) (crlf msg)" using Cons.prems(3) False c1(3) by simp
    then obtain c3 where "vputs r msg c1 = Some c3" "only_at r c1 c3" "feed char_step (look r c1) (crlf msg) = Some (look r c3)"
      using Cons.IH ok1 Cons.prems(2) by blast
    then show ?thesis
      using False c1 by (auto intro: only_at_trans)
  qed
qed

section \<open>The status line and the change of screens\<close>

definition status_text :: "nat \<Rightarrow> string" where
  "status_text n = butlast (butlast status_format) @ [digit n]"

lemma less_10:
  assumes "(n::nat) < 10" and "P 0" "P 1" "P 2" "P 3" "P 4" "P 5" "P 6" "P 7" "P 8" "P 9"
  shows "P n"
proof -
  from assms(1) have "n \<in> {0, 1, 2, 3, 4, 5, 6, 7, 8, 9}" by auto
  with assms(2-) show ?thesis by auto
qed

definition status_good :: "nat \<Rightarrow> bool" where
  "status_good n \<longleftrightarrow> va_snprintf 128 status_format [Arg_int (int n)] = Some (status_text n @ [CHR 0x00]) \<and>
     takeWhile (\<lambda>ch. ch \<noteq> CHR 0x00) (take 127 (status_text n @ [CHR 0x00])) = status_text n \<and> length (status_text n) < 128 \<and>
     tame Std_interpret_char (crlf (status_text n)) \<and> foldl next_fn Std_interpret_char (crlf (status_text n)) = Std_interpret_char"

lemma status_goodness: "n < 10 \<Longrightarrow> status_good n"
  by (erule less_10; code_simp)

lemma feed_step_frame:
  "feed char_step cur msg = Some cur' \<Longrightarrow> same_size cur cur' \<and> next_char_send cur' = foldl next_fn (next_char_send cur) msg"
proof (induction msg arbitrary: cur)
  case (Cons c cs)
  then obtain c1 where "char_step cur c = Some c1" "feed char_step c1 cs = Some cur'" by (auto elim: bind_SomeE)
  with Cons.IH step_frame show ?case by (fastforce intro: same_size_trans)
qed (simp add: same_size_def)

definition idle :: "console \<Rightarrow> bool" where
  "idle c \<longleftrightarrow> next_char_send (look Statbar c) = Std_interpret_char"

lemma status_lemma:
  assumes "console_ok c" and "idle c" and "n < 10"
  shows "\<exists>c'. status (int n) c = Some c' \<and> only_at Statbar c c' \<and> idle c'"
proof -
  have g: "status_good n" by (rule status_goodness[OF assms(3)])
  have "may_feed char_step careful (look Statbar c) (crlf (status_text n))"
    by (rule tame_may_step) (use g assms(2) in \<open>simp add: status_good_def idle_def\<close>)
  from vputs_lemma[OF assms(1) _ this] obtain c' where c': "vputs Statbar (status_text n) c = Some c'" "only_at Statbar c c'"
    "feed char_step (look Statbar c) (crlf (status_text n)) = Some (look Statbar c')"
    by (auto simp: valid_def)
  have "idle c'" using feed_step_frame[OF c'(3)] g assms(2) by (simp add: idle_def status_good_def)
  moreover have "status (int n) c = Some c'"
    using g c'(1) by (simp add: status_def vprintf_def status_good_def del: take_append)
  ultimately show ?thesis using c'(2) by blast
qed

lemma cells_length:
  assumes "console_ok c" and "valid r"
  shows "length (cells_of (vscr r c) (video c)) = nat (80 * lines_of r)" and "ncells (vscr r c) = nat (80 * lines_of r)"
proof -
  have v: "vscr_ok r (active c) (vscr r c)" "vt_ok (look r c)" using console_okD(4,5)[OF assms] by simp_all
  have "int (length (data (look r c))) = 80 * lines_of r"
    using vt_okD(5)[OF v(2)] v(1) by (simp add: look_def view_def vscr_ok_def)
  then show "length (cells_of (vscr r c) (video c)) = nat (80 * lines_of r)" by (simp add: look_def view_def)
  show "ncells (vscr r c) = nat (80 * lines_of r)" using v(1) by (simp add: ncells_def vscr_ok_def)
qed

text \<open>Saving the active screen and loading another, before the status line is written.\<close>

lemma switch_lemma:
  assumes ok: "console_ok c" and k: "k < 10"
  obtains c0 c' where "save_vscr (active c) c = Some c0" and "load_vscr k (c0\<lparr>active := k\<rparr>) = status (int k) c'"
    and "console_ok c'" and "active c' = k" and "\<And>q. valid q \<Longrightarrow> look q c' = look q c"
    and "remote_port c' = remote_port c" and "sent c' = sent c"
proof -
  note okD = console_okD[OF ok]
  let ?a = "active c"
  define va where "va = vscr (Con ?a) c"
  have vA: "valid (Con ?a)" "valid (Con k)" using okD(2) k by (simp_all add: valid_def)
  have va: "data_ptr va = Video 0" "length (back_buf va) = 1920" "ncells va = 1920"
    using okD(4)[OF vA(1)] cells_length(2)[OF ok vA(1)] by (simp_all add: va_def vscr_ok_def place_def lines_of_def)
  define ca where "ca = take 1920 (video c)"
  have la: "length ca = 1920" using okD(3) by (simp add: ca_def)
  define c1 where "c1 = set_vscr (Con ?a) (va\<lparr>back_buf := ca, data_ptr := Back\<rparr>) c"
  have save: "save_vscr ?a c = Some c1"
    using get_vscr_valid[OF okD(1) vA(1)] va okD(3) by (simp add: save_vscr_def va_def[symmetric] copy_cells_def c1_def ca_def)
  have l1: "length (con (c1\<lparr>active := k\<rparr>)) = 10" using okD(1) by (simp add: c1_def)
  define vk where "vk = vscr (Con k) c1"
  have vk: "data_ptr vk = Back" "length (back_buf vk) = 1920" "ncells vk = 1920"
    using okD(4)[OF vA(2)] cells_length(2)[OF ok vA(2)] va la
    by (auto simp: vk_def c1_def vscr_set[OF okD(1) vA(1)] vscr_ok_def place_def lines_of_def ncells_def)
  have bk: "back_buf vk = cells_of (vscr (Con k) c) (video c)"
    using okD(4)[OF vA(2)] va(1,3) by (auto simp: vk_def c1_def vscr_set[OF okD(1) vA(1)] vscr_ok_def place_def cells_of_def ca_def va_def)
  define vid where "vid = back_buf vk @ drop 1920 (video c)"
  define c2 where "c2 = (set_vscr (Con k) (vk\<lparr>data_ptr := Video 0\<rparr>) (c1\<lparr>active := k\<rparr>))\<lparr>video := vid\<rparr>"
  define c3 where "c3 = movecursor (xpos (scr vk)) (ypos (scr vk)) (c2\<lparr>active := k\<rparr>)"
  have load: "load_vscr k (c1\<lparr>active := k\<rparr>) = status (int k) c3"
    using get_vscr_valid[OF l1 vA(2)] vk okD(3)
    by (simp add: load_vscr_def vk_def[symmetric] copy_cells_def c3_def c2_def vid_def) (simp add: c1_def)
  have v2: "vscr q c2 = (if q = Con k then vk\<lparr>data_ptr := Video 0\<rparr>
      else if q = Con ?a then va\<lparr>back_buf := ca, data_ptr := Back\<rparr> else vscr q c)" for q
    using vscr_set[OF l1 vA(2)] by (simp add: c2_def c1_def vscr_set[OF okD(1) vA(1)])
  have sk: "scr vk = scr (vscr (Con k) c)"
    by (auto simp: vk_def c1_def vscr_set[OF okD(1) vA(1)] va_def)
  have vid2: "video c2 = vid" "length vid = 4096" using vk(2) okD(3) by (simp_all add: c2_def vid_def)
  have look2: "look q c2 = look q c" if q: "valid q" for q
  proof (cases q)
    case Statbar
    have "take 80 (drop 1920 vid) = take 80 (drop 1920 (video c))" using vk(2) by (simp add: vid_def)
    with Statbar okD(4)[OF q] show ?thesis
      by (simp add: look_def view_def v2 cells_of_def vid2 vscr_ok_def place_def ncells_def lines_of_def)
  next
    case (Con i)
    show ?thesis
    proof (cases "i = k")
      case True
      with Con vk show ?thesis
        by (simp add: look_def view_def v2 vid2 cells_of_def vid_def bk ncells_def sk)
    next
      case False
      then show ?thesis
        using Con okD(4)[OF q] va by (auto simp: look_def view_def v2 vid2 cells_of_def vscr_ok_def place_def ca_def va_def)
    qed
  qed
  have a2: "active c2 = k" by (simp add: c2_def c1_def)
  have "console_ok c2"
    unfolding console_ok_def
  proof (intro conjI allI impI)
    fix q assume q: "valid q"
    show "vt_ok (look q c2)" using look2[OF q] okD(5)[OF q] by simp
    show "vscr_ok q (active c2) (vscr q c2)"
      using okD(4)[OF q] okD(4)[OF vA(2)] okD(4)[OF vA(1)] la vk(2) sk
      by (auto simp: v2 vscr_ok_def place_def a2 va_def lines_of_def split: vref.splits)
  qed (use okD(1) k vid2 a2 in \<open>simp_all add: c2_def c1_def\<close>)
  moreover obtain y where "c3 = c2\<lparr>crt := y\<rparr>"
  proof (rule that)
    show "c3 = c2\<lparr>crt := crt c3\<rparr>" by (simp add: c3_def movecursor_def Let_def c2_def)
  qed
  ultimately show thesis
    using save load look2 by (intro that[of c1 c3]) (simp_all add: c2_def c1_def)
qed

lemma function_key_lemma:
  assumes "console_ok c" and "idle c" and "k < 10"
  shows "\<exists>c'. function_key k c = Some c' \<and> console_ok c' \<and> idle c' \<and> active c' = k \<and>
    (\<forall>i<10. look (Con i) c' = look (Con i) c)"
proof -
  obtain c0 c1 where sl: "save_vscr (active c) c = Some c0" "load_vscr k (c0\<lparr>active := k\<rparr>) = status (int k) c1"
    and c1: "console_ok c1" "active c1 = k" "\<And>q. valid q \<Longrightarrow> look q c1 = look q c"
    using switch_lemma[OF assms(1,3)] by metis
  have "idle c1" using assms(2) c1(3)[of Statbar] by (simp add: idle_def valid_def)
  from status_lemma[OF c1(1) this assms(3)] obtain c2 where c2: "status (int k) c1 = Some c2" "only_at Statbar c1 c2" "idle c2"
    by blast
  have "function_key k c = Some c2" using sl c2(1) by (simp add: function_key_def)
  moreover have "look (Con i) c2 = look (Con i) c" if "i < 10" for i
    using c2(2) c1(3)[of "Con i"] that by (simp add: only_at_def valid_def)
  ultimately show ?thesis using c2 c1(2) by (auto simp: only_at_def)
qed

section \<open>A console\<close>

definition demo_screen :: "int \<Rightarrow> nat \<Rightarrow> virtscreen" where
  "demo_screen nrows n = small_screen\<lparr>rows := nrows, columns := 80, num_bytes := 160 * nrows, data := replicate n (vcell 32 7),
     xpos := 0, ypos := 0, bottom_scroll := nrows\<rparr>"

definition demo_console :: console where
  "demo_console = \<lparr>con = map (\<lambda>i. \<lparr>scr = demo_screen 24 1920, data_ptr = (if i = 0 then Video 0 else Back),
       back_buf = replicate 1920 (vcell (97 + int i) 7)\<rparr>) [0..<10],
     statbar = \<lparr>scr = demo_screen 1 80, data_ptr = Video 1920, back_buf = replicate 80 (vcell 32 7)\<rparr>,
     active = 0, video = replicate 4096 (vcell 42 7), crt = 0, remote_port = -1, sent = []\<rparr>"

lemma demo_con: "i < 10 \<Longrightarrow> con demo_console ! i = \<lparr>scr = demo_screen 24 1920, data_ptr = (if i = 0 then Video 0 else Back),
    back_buf = replicate 1920 (vcell (97 + int i) 7)\<rparr>"
  by (simp add: demo_console_def del: upt_Suc upt_rec_numeral)

lemma demo_screen_ok: "0 < nrows \<Longrightarrow> nrows \<le> 24 \<Longrightarrow> length d = nat (80 * nrows) \<Longrightarrow> vt_ok (demo_screen nrows n\<lparr>data := d\<rparr>)"
  by (simp add: demo_screen_def small_screen_def vt_ok_def)

lemma demo_screen_bytes: "num_bytes (demo_screen nrows n) = 160 * nrows"
  by (simp add: demo_screen_def)

lemma demo_console_ok: "console_ok demo_console" and demo_idle: "idle demo_console"
proof -
  have v: "active demo_console = 0" "video demo_console = replicate 4096 (vcell 42 7)" "length (con demo_console) = 10"
    by (simp_all add: demo_console_def del: replicate.simps)
  show "console_ok demo_console"
    unfolding console_ok_def
  proof (intro conjI allI impI)
    fix r assume r: "valid r"
    show "vscr_ok r (active demo_console) (vscr r demo_console)"
    proof (cases r)
      case (Con i)
      with r show ?thesis
        by (simp add: valid_def vscr_def vscr_ok_def demo_con v place_def lines_of_def demo_screen_def del: replicate.simps)
    next
      case Statbar
      then show ?thesis
        by (simp add: vscr_def vscr_ok_def v place_def lines_of_def demo_screen_def) (simp add: demo_console_def demo_screen_def del: replicate.simps)
    qed
    show "vt_ok (look r demo_console)"
    proof (cases r)
      case (Con i)
      with r show ?thesis
        by (simp add: valid_def vscr_def look_def view_def cells_of_def demo_con v ncells_def demo_screen_ok demo_screen_bytes del: replicate.simps)
    next
      case Statbar
      have "statbar demo_console = \<lparr>scr = demo_screen 1 80, data_ptr = Video 1920, back_buf = replicate 80 (vcell 32 7)\<rparr>"
        by (simp add: demo_console_def del: replicate.simps)
      with Statbar show ?thesis
        by (simp add: vscr_def look_def view_def cells_of_def v ncells_def demo_screen_ok demo_screen_bytes del: replicate.simps)
    qed
  qed (simp_all add: v del: replicate.simps)
  show "idle demo_console" by (simp add: idle_def look_def view_def vscr_def demo_console_def demo_screen_def small_screen_def del: replicate.simps)
qed

section \<open>Properties\<close>

text \<open>
  C13: a function key shows the screen that it names and loses nothing: the console goes on,
  every one of the ten screens keeps its characters, its cursor and the state of its parser,
  the new screen is the one in the video memory, and the old one is in its own memory again.
\<close>

theorem function_key_keeps_screens:
  assumes "console_ok c" and "idle c" and "k < 10"
  shows "\<exists>c'. function_key k c = Some c' \<and> console_ok c' \<and> active c' = k \<and> data_ptr (con c' ! k) = Video 0 \<and>
    (\<forall>i<10. look (Con i) c' = look (Con i) c \<and> (i \<noteq> k \<longrightarrow> data_ptr (con c' ! i) = Back))"
proof -
  obtain c' where c': "function_key k c = Some c'" "console_ok c'" "active c' = k" "\<forall>i<10. look (Con i) c' = look (Con i) c"
    using function_key_lemma[OF assms] by blast
  have "data_ptr (con c' ! i) = place (Con i) k" if "i < 10" for i
    using console_okD(4)[OF c'(2), of "Con i"] that c'(3) by (simp add: valid_def vscr_ok_def vscr_def)
  with c' assms(3) show ?thesis by (simp add: place_def)
qed

theorem function_key_keeps_screens_witness:
  "\<exists>c'. function_key 3 demo_console = Some c' \<and> active c' = 3 \<and> look (Con 7) c' = look (Con 7) demo_console"
  using function_key_keeps_screens[OF demo_console_ok demo_idle, of 3] by auto

text \<open>
  C26: the control part of the terminal's parser is a finite automaton that does not depend on
  the screen: where the next character goes is determined by where this one went and by the
  character, and no sequence changes the size of the screen or of its buffer.
\<close>

theorem parser_automaton:
  assumes "feed char_to_virtscreen cur msg = Some cur'"
  shows "next_char_send cur' = foldl next_fn (next_char_send cur) msg \<and> rows cur' = rows cur \<and>
    columns cur' = columns cur \<and> num_bytes cur' = num_bytes cur"
  using feed_frame[OF assms] by (simp add: same_size_def)

theorem parser_automaton_witness:
  "next_char_send (small_screen\<lparr>next_char_send := Special_reading_ansi, ansi_elements := 0\<rparr>) = foldl next_fn Std_interpret_char (CHR 0x1B # ''['')"
proof -
  have "feed char_to_virtscreen small_screen (CHR 0x1B # ''['') =
    Some (small_screen\<lparr>next_char_send := Special_reading_ansi, ansi_elements := 0\<rparr>)"
    by (simp add: char_to_virtscreen_def std_interpret_char_def std_interpret_ansi_def small_screen_def)
  from parser_automaton[OF this] show ?thesis by (simp add: small_screen_def)
qed

end
