(* ===== verification/HashProps.thy ===== *)
theory HashProps
  imports HashTable
begin

text \<open>
  The hash table as a map. The sizes are primes, so that the probes of a key reach every slot;
  with a load factor between 1/12 and 5/7 there is always a free slot, which ends the loops.
  The lemmas hold for the tables up to 69031 slots (the first 13 sizes).
\<close>

section \<open>The sizes are primes\<close>

definition no_divisor :: "nat \<Rightarrow> nat \<Rightarrow> bool" where
  "no_divisor p k \<longleftrightarrow> p < k * k \<and> list_all (\<lambda>d. p mod d \<noteq> 0) [2..<k]"

lemma no_divisor_coprime:
  assumes "no_divisor p k" and "0 < c" and "c < p"
  shows "coprime c p"
proof (rule ccontr)
  assume "\<not> coprime c p"
  define g where "g = gcd c p"
  have g: "g dvd p" "g \<noteq> 1" "0 < g" "g \<le> c"
    using \<open>\<not> coprime c p\<close> assms(2) by (simp_all add: g_def coprime_iff_gcd_eq_1)
  define h where "h = p div g"
  have gh: "g * h = p" using g(1) by (simp add: h_def)
  have "h \<noteq> 0" using gh assms(3) by (intro notI) simp
  moreover have "h \<noteq> 1" using gh assms(3) g(4) by auto
  ultimately have ge: "2 \<le> g" "2 \<le> h" using g by auto
  have small: "d \<ge> k" if "2 \<le> d" "d dvd p" for d
    using assms(1) that by (auto simp: no_divisor_def list_all_iff mod_eq_0_iff_dvd not_less[symmetric])
  have "k \<le> g" "k \<le> h" using small ge g(1) gh by (auto simp: dvd_def mult.commute)
  then have "k * k \<le> p" using gh mult_le_mono by blast
  with assms(1) show False by (simp add: no_divisor_def)
qed

lemma sizes_no_divisor: "list_all2 no_divisor (take 13 table_size) [3, 5, 7, 11, 16, 22, 32, 46, 65, 93, 132, 186, 263]"
  by (simp add: table_size_def no_divisor_def upt_rec_numeral)

lemma size_coprime:
  assumes "s \<le> 12" and "0 < c" and "c < table_size ! s"
  shows "coprime c (table_size ! s)"
proof -
  have "s < length (take 13 table_size)" using assms(1) by (simp add: table_size_def)
  with sizes_no_divisor have "no_divisor (take 13 table_size ! s) ([3, 5, 7, 11, 16, 22, 32, 46, 65, 93, 132, 186, 263] ! s)"
    by (rule list_all2_nthD)
  with assms show ?thesis using no_divisor_coprime by auto
qed

lemma size_grow:
  assumes "s \<le> 11"
  shows "7 \<le> table_size ! s \<and> table_size ! s + 12 \<le> table_size ! (s + 1)"
proof -
  from assms have "s = 0 \<or> s = 1 \<or> s = 2 \<or> s = 3 \<or> s = 4 \<or> s = 5 \<or> s = 6 \<or> s = 7 \<or> s = 8 \<or> s = 9 \<or> s = 10 \<or> s = 11"
    by arith
  then show ?thesis by (elim disjE) (simp_all add: table_size_def)
qed

lemma size_7: "s \<le> 12 \<Longrightarrow> 7 \<le> table_size ! s"
  using size_grow[of s] size_grow[of 11] by (cases "s = 12") auto

lemma length_table_size: "length table_size = 26"
  by (simp add: table_size_def)

section \<open>The map in a table\<close>

definition live :: "hashnode \<Rightarrow> bool" where
  "live n \<longleftrightarrow> valid n \<and> \<not> dirty n"

definition entries :: "hashnode list \<Rightarrow> (int \<times> addr \<times> int) list" where
  "entries tab = map (\<lambda>n. (key n, data n, dsize n)) (filter live tab)"

definition keys :: "hashnode list \<Rightarrow> int list" where
  "keys tab = map key (filter live tab)"

definition amap :: "hashtable \<Rightarrow> int \<Rightarrow> (addr \<times> int) option" where
  "amap t = map_of (entries (table t))"

lemma keys_entries: "keys tab = map fst (entries tab)"
  by (simp add: keys_def entries_def comp_def)

lemma entries_split:
  assumes "i < length tab"
  shows "entries (tab[i := n]) = entries (take i tab) @ entries [n] @ entries (drop (Suc i) tab)"
    and "entries tab = entries (take i tab) @ entries [tab ! i] @ entries (drop (Suc i) tab)"
proof -
  show "entries (tab[i := n]) = entries (take i tab) @ entries [n] @ entries (drop (Suc i) tab)"
    using assms by (simp add: entries_def upd_conv_take_nth_drop)
  have "tab = take i tab @ [tab ! i] @ drop (Suc i) tab" using assms by (simp add: Cons_nth_drop_Suc)
  then show "entries tab = entries (take i tab) @ entries [tab ! i] @ entries (drop (Suc i) tab)"
    unfolding entries_def by (metis filter_append map_append)
qed

definition path :: "hashtable \<Rightarrow> int \<Rightarrow> nat \<Rightarrow> nat" where
  "path t k j = (next_slot (table_size ! size_index t) (rehash k (size_index t)) ^^ j) (hash_key k (size_index t))"

text \<open>
  Every live node is found on the path of its key before the first free slot; the keys are
  unique, \<open>used\<close> counts the nodes that are valid, deleted ones among them.
\<close>

definition wf :: "hashtable \<Rightarrow> bool" where
  "wf t \<longleftrightarrow> size_index t \<le> 12 \<and> length (table t) = table_size ! size_index t \<and>
     used t = length (filter valid (table t)) \<and> (\<forall>n\<in>set (table t). dirty n \<longrightarrow> valid n) \<and>
     distinct (keys (table t)) \<and> 1 / 12 \<le> max_load t \<and> max_load t \<le> 5 / 7 \<and>
     (\<forall>i<length (table t). live (table t ! i) \<longrightarrow>
       (\<exists>j. path t (key (table t ! i)) j = i \<and> (\<forall>j'<j. valid (table t ! path t (key (table t ! i)) j'))))"

definition hash_ok :: "hashtable \<Rightarrow> bool" where
  "hash_ok t \<longleftrightarrow> wf t \<and> of_nat (used t) \<le> max_load t * of_nat (table_size ! size_index t) + 1"

lemma wfD:
  assumes "wf t"
  shows "size_index t \<le> 12" "length (table t) = table_size ! size_index t"
    "used t = length (filter valid (table t))" "n \<in> set (table t) \<Longrightarrow> dirty n \<Longrightarrow> valid n"
    "distinct (keys (table t))" "1 / 12 \<le> max_load t" "max_load t \<le> 5 / 7"
    "i < length (table t) \<Longrightarrow> live (table t ! i) \<Longrightarrow>
      \<exists>j. path t (key (table t ! i)) j = i \<and> (\<forall>j'<j. valid (table t ! path t (key (table t ! i)) j'))"
  using assms by (auto simp: wf_def)

lemma rehash_range: "s \<le> 12 \<Longrightarrow> 0 < rehash k s \<and> rehash k s < table_size ! s"
proof -
  assume "s \<le> 12"
  then have "0 < table_size ! s - 2" using size_7[of s] by simp
  then have "nat (k mod 4294967296) mod (table_size ! s - 2) < table_size ! s - 2" by (rule mod_less_divisor)
  then show ?thesis by (simp add: rehash_def)
qed

lemma hash_range: "s \<le> 12 \<Longrightarrow> hash_key k s < table_size ! s"
  using size_7[of s] by (simp add: hash_key_def)

lemma path_range: "wf t \<Longrightarrow> path t k j < length (table t)"
proof (induction j)
  case 0
  then show ?case using wfD[OF 0] by (simp add: path_def hash_range)
next
  case (Suc j)
  have c: "rehash k (size_index t) \<le> table_size ! size_index t" "0 < rehash k (size_index t)"
    using rehash_range[OF wfD(1)[OF Suc.prems], of k] by simp_all
  show ?case
    using next_slot_lt[OF c(1) _ c(2)] Suc wfD(2)[OF Suc.prems] by (simp add: path_def)
qed

lemma path_reaches:
  assumes "wf t" and "i < length (table t)"
  shows "\<exists>j. path t k j = i"
proof -
  note r = rehash_range[OF wfD(1)[OF assms(1)], of k]
  show ?thesis
    unfolding path_def
    by (rule probes_all) (use r size_coprime[OF wfD(1)[OF assms(1)]] hash_range[OF wfD(1)[OF assms(1)], of k] assms(2) wfD(2)[OF assms(1)] in auto)
qed

lemma path_Suc: "path t k (Suc j) = next_slot (table_size ! size_index t) (rehash k (size_index t)) (path t k j)"
  by (simp add: path_def)

lemma free_slot:
  assumes "wf t" and "used t < length (table t)"
  obtains i where "i < length (table t)" and "\<not> valid (table t ! i)"
proof -
  have "filter valid (table t) \<noteq> table t" using assms(2) wfD(3)[OF assms(1)] by auto
  then have "\<exists>n\<in>set (table t). \<not> valid n" by (metis filter_True)
  then show thesis using that by (auto simp: in_set_conv_nth)
qed

lemma load_fits:
  assumes "hash_ok t"
  shows "used t < length (table t)"
proof -
  have w: "wf t" using assms by (simp add: hash_ok_def)
  let ?S = "of_nat (table_size ! size_index t) :: rat"
  have S: "7 \<le> ?S" using size_7[OF wfD(1)[OF w]] by simp
  have "of_nat (used t) \<le> max_load t * ?S + 1" using assms by (simp add: hash_ok_def)
  also have "max_load t * ?S \<le> 5 / 7 * ?S" by (rule mult_right_mono[OF wfD(7)[OF w]]) simp
  also have "5 / 7 * ?S + 1 < ?S" using S by simp
  finally have "of_nat (used t) < ?S" by simp
  then show ?thesis using wfD(2)[OF w] by simp
qed

section \<open>Finding a key\<close>

text \<open>Both loops stop at the first slot of the path with a property that some slot of it has.\<close>

lemma path_first:
  assumes "P (path t k j)"
  obtains m where "P (path t k m)" and "\<And>i. i < m \<Longrightarrow> \<not> P (path t k i)"
  using that[of "LEAST j. P (path t k j)"] LeastI[of "\<lambda>j. P (path t k j)", OF assms] not_less_Least by blast

abbreviation find_at :: "hashtable \<Rightarrow> int \<Rightarrow> nat \<Rightarrow> nat option option" where
  "find_at t k i \<equiv> find_slot (table t) (table_size ! size_index t) (rehash k (size_index t)) k i"

lemma find_slot_skip:
  assumes "wf t" and "\<And>i. i < m \<Longrightarrow> valid (table t ! path t k i) \<and> \<not> (key (table t ! path t k i) = k \<and> \<not> dirty (table t ! path t k i))"
  shows "find_at t k (path t k 0) = find_at t k (path t k m)"
  using assms(2)
proof (induction m)
  case (Suc m)
  have "find_at t k (path t k 0) = find_at t k (path t k m)" by (rule Suc.IH) (use Suc.prems in auto)
  also have "\<dots> = find_at t k (path t k (Suc m))"
    using path_range[OF assms(1), of k m] Suc.prems[of m] by (subst find_slot.simps) (auto simp: path_Suc)
  finally show ?case .
qed simp

lemma live_unique:
  assumes "distinct (keys tab)" and "i < length tab" "j < length tab" and "live (tab ! i)" "live (tab ! j)"
    and "key (tab ! i) = key (tab ! j)"
  shows "i = j"
proof (rule ccontr)
  assume ne: "i \<noteq> j"
  have "\<not> distinct (keys tab)" if "a < b" "b < length tab" "live (tab ! a)" "live (tab ! b)" "key (tab ! a) = key (tab ! b)" for a b
  proof -
    have "tab ! b \<in> set (drop (Suc a) tab)"
      using that(1,2) by (auto simp: in_set_conv_nth intro!: exI[of _ "b - Suc a"])
    then have "key (tab ! a) \<in> set (keys (drop (Suc a) tab))" using that(4,5) by (auto simp: keys_def)
    moreover have "tab = take a tab @ tab ! a # drop (Suc a) tab" using that(1,2) by (simp add: Cons_nth_drop_Suc)
    then have "keys tab = keys (take a tab) @ key (tab ! a) # keys (drop (Suc a) tab)"
      using that(3) unfolding keys_def by (metis filter.simps(2) filter_append list.simps(9) map_append)
    ultimately show ?thesis by simp
  qed
  from this[of i j] this[of j i] ne assms show False by (cases "i < j") auto
qed

lemma find_slot_spec:
  assumes w: "wf t" and room: "used t < length (table t)"
  shows "\<exists>r. find_at t k (hash_key k (size_index t)) = Some r \<and>
    (case r of None \<Rightarrow> (\<forall>n\<in>set (table t). live n \<longrightarrow> key n \<noteq> k)
     | Some i \<Rightarrow> i < length (table t) \<and> live (table t ! i) \<and> key (table t ! i) = k)"
proof -
  let ?hit = "\<lambda>i. key (table t ! i) = k \<and> \<not> dirty (table t ! i)"
  obtain f where f: "f < length (table t)" "\<not> valid (table t ! f)" using free_slot[OF w room] by blast
  obtain jf where "path t k jf = f" using path_reaches[OF w f(1)] by blast
  with f(2) have "\<not> valid (table t ! path t k jf) \<or> ?hit (path t k jf)" by simp
  then obtain m where m: "\<not> valid (table t ! path t k m) \<or> ?hit (path t k m)"
    and before: "\<And>i. i < m \<Longrightarrow> \<not> (\<not> valid (table t ! path t k i) \<or> ?hit (path t k i))"
    using path_first[of "\<lambda>i. \<not> valid (table t ! i) \<or> ?hit i" t k jf] by blast
  have r: "path t k m < length (table t)" by (rule path_range[OF w])
  have s: "find_at t k (hash_key k (size_index t)) = find_at t k (path t k m)"
    using find_slot_skip[OF w, of m k] before by (simp add: path_def)
  show ?thesis
  proof (cases "valid (table t ! path t k m)")
    case True
    with m r show ?thesis unfolding s by (subst find_slot.simps) (auto simp: live_def)
  next
    case False
    have no: "key n \<noteq> k" if n: "n \<in> set (table t)" "live n" for n
    proof
      assume k: "key n = k"
      obtain i where i: "i < length (table t)" "table t ! i = n" using n(1) by (auto simp: in_set_conv_nth)
      obtain j where j: "path t k j = i" "\<forall>j'<j. valid (table t ! path t k j')" using wfD(8)[OF w i(1)] n(2) i(2) k by auto
      have "\<not> m < j" using j(2) False by auto
      moreover have "\<not> j < m" using before[of j] j(1) i(2) n(2) k by (auto simp: live_def)
      ultimately have "j = m" by simp
      with j(1) i(2) n(2) False show False by (auto simp: live_def)
    qed
    show ?thesis unfolding s using False r no by (subst find_slot.simps) auto
  qed
qed

lemma amap_iff:
  assumes "distinct (keys (table t))"
  shows "amap t k = Some v \<longleftrightarrow> (\<exists>n\<in>set (table t). live n \<and> key n = k \<and> v = (data n, dsize n))"
  using assms unfolding amap_def keys_entries by (subst map_of_eq_Some_iff) (auto simp: entries_def)

lemma amap_None: "amap t k = None \<longleftrightarrow> (\<forall>n\<in>set (table t). live n \<longrightarrow> key n \<noteq> k)"
  by (auto simp: amap_def map_of_eq_None_iff entries_def image_iff)

lemma lookup_lemma:
  assumes "hash_ok t"
  shows "hashtable_lookup t k = Some (case amap t k of None \<Rightarrow> (0, 0) | Some v \<Rightarrow> v)"
proof -
  have w: "wf t" using assms by (simp add: hash_ok_def)
  obtain r where r: "find_at t k (hash_key k (size_index t)) = Some r"
    "case r of None \<Rightarrow> (\<forall>n\<in>set (table t). live n \<longrightarrow> key n \<noteq> k)
     | Some i \<Rightarrow> i < length (table t) \<and> live (table t ! i) \<and> key (table t ! i) = k"
    using find_slot_spec[OF w load_fits[OF assms]] by blast
  show ?thesis
  proof (cases r)
    case None
    then have "amap t k = None" using r(2) by (simp add: amap_None)
    then show ?thesis using r(1) None by (simp add: hashtable_lookup_def)
  next
    case (Some i)
    then have "amap t k = Some (data (table t ! i), dsize (table t ! i))"
      using r(2) amap_iff[OF wfD(5)[OF w]] by (auto intro: bexI[of _ "table t ! i"])
    then show ?thesis using r(1) Some by (simp add: hashtable_lookup_def)
  qed
qed

section \<open>Placing a node\<close>

lemma probe_free_run:
  assumes "wf t" and "\<And>i. 0 < i \<Longrightarrow> i < m \<Longrightarrow> live (table t ! path t k i)" and "0 < m" and "\<not> live (table t ! path t k m)"
  shows "probe_free (table t) (table_size ! size_index t) (rehash k (size_index t)) (path t k 0) = Some (path t k m)"
proof -
  let ?p = "probe_free (table t) (table_size ! size_index t) (rehash k (size_index t))"
  have step: "?p (path t k i) = (if live (table t ! path t k (Suc i)) then ?p (path t k (Suc i)) else Some (path t k (Suc i)))" for i
    using path_range[OF assms(1), of k "Suc i"] by (subst probe_free.simps) (simp add: path_Suc Let_def live_def)
  have "?p (path t k 0) = ?p (path t k i)" if "i < m" for i
    using that by (induction i) (simp_all add: step assms(2))
  from this[of "m - 1"] assms(3,4) step[of "m - 1"] show ?thesis by simp
qed

lemma map_of_insert: "k \<notin> fst ` set (as @ bs) \<Longrightarrow> map_of (as @ (k, v) # bs) = (map_of (as @ bs))(k \<mapsto> v)"
  by (induction as) (auto simp: fun_upd_twist)

lemma place_node_lemma:
  assumes w: "wf t" and room: "used t < length (table t)" and new: "amap t k = None"
  shows "\<exists>t'. place_node t k d n = Some t' \<and> wf t' \<and> amap t' = (amap t)(k \<mapsto> (d, n)) \<and>
    size_index t' = size_index t \<and> max_load t' = max_load t \<and> used t' \<le> used t + 1 \<and>
    ((\<forall>x\<in>set (table t). \<not> dirty x) \<longrightarrow> used t' = used t + 1 \<and> (\<forall>x\<in>set (table t'). \<not> dirty x))"
proof -
  let ?tab = "table t" and ?new = "\<lparr>valid = True, dirty = False, key = k, dsize = n, data = d\<rparr>"
  obtain f where f: "f < length ?tab" "\<not> valid (?tab ! f)" using free_slot[OF w room] by blast
  obtain jf where "path t k jf = f" using path_reaches[OF w f(1)] by blast
  with f(2) have jf: "\<not> valid (?tab ! path t k jf)" by simp
  obtain m where m: "\<not> live (?tab ! path t k m)" "\<And>i. i < m \<Longrightarrow> valid (?tab ! path t k i)"
    and at: "(if valid (?tab ! path t k 0) then probe_free ?tab (table_size ! size_index t) (rehash k (size_index t)) (path t k 0)
       else Some (path t k 0)) = Some (path t k m)"
  proof (cases "valid (?tab ! path t k 0)")
    case True
    then have "0 < jf" using jf by (cases jf) auto
    then have "\<exists>m. 0 < m \<and> \<not> live (?tab ! path t k m)" using jf by (auto simp: live_def)
    then obtain m where m: "0 < m \<and> \<not> live (?tab ! path t k m)" "\<And>i. i < m \<Longrightarrow> \<not> (0 < i \<and> \<not> live (?tab ! path t k i))"
      using LeastI_ex[of "\<lambda>m. 0 < m \<and> \<not> live (?tab ! path t k m)"] not_less_Least by blast
    then have l: "live (?tab ! path t k i)" if "0 < i" "i < m" for i using that by blast
    have "valid (?tab ! path t k i)" if "i < m" for i
      using that l True by (cases "i = 0") (auto simp: live_def)
    with that[of m] m l True probe_free_run[OF w, of m k] show thesis by auto
  next
    case False
    then show thesis using that[of 0] by (simp add: live_def)
  qed
  define i where "i = path t k m"
  have i: "i < length ?tab" "\<not> live (?tab ! i)" using path_range[OF w] m(1) by (simp_all add: i_def)
  define t' where "t' = t\<lparr>table := ?tab[i := ?new], used := (if dirty (?tab ! i) then used t else used t + 1)\<rparr>"
  have home: "hash_key k (size_index t) = path t k 0" by (simp add: path_def)
  have p: "place_node t k d n = Some t'"
    using at i(1) path_range[OF w, of k 0] by (simp add: place_node_def home Let_def t'_def i_def)
  have path': "path t' = path t" by (simp add: fun_eq_iff path_def t'_def)
  have valid': "valid (table t' ! x)" if "valid (?tab ! x)" "x < length ?tab" for x
    using that by (cases "x = i") (simp_all add: t'_def)
  have ent: "entries (table t') = entries (take i ?tab) @ [(k, d, n)] @ entries (drop (Suc i) ?tab)"
    "entries ?tab = entries (take i ?tab) @ entries (drop (Suc i) ?tab)"
    using entries_split[OF i(1)] i(2) by (simp_all add: t'_def entries_def live_def)
  have notin: "k \<notin> fst ` set (entries ?tab)" using new by (simp add: amap_def map_of_eq_None_iff)
  then have am: "amap t' = (amap t)(k \<mapsto> (d, n))"
    using map_of_insert[of k "entries (take i ?tab)" "entries (drop (Suc i) ?tab)" "(d, n)"] unfolding amap_def ent by simp
  have dk: "distinct (keys (table t'))"
    using wfD(5)[OF w] notin unfolding keys_entries ent by auto
  have cnt: "used t' = length (filter valid (table t'))"
  proof -
    have "length (filter valid (?tab[i := ?new])) = length (filter valid ?tab) + (if valid (?tab ! i) then 0 else 1)"
      using i(1) by (subst (2) id_take_nth_drop[OF i(1)]) (simp add: upd_conv_take_nth_drop)
    moreover have "valid (?tab ! i) = dirty (?tab ! i)" using i wfD(4)[OF w, of "?tab ! i"] by (auto simp: live_def)
    ultimately show ?thesis using wfD(3)[OF w] by (simp add: t'_def)
  qed
  have way: "\<exists>j. path t' (key (table t' ! x)) j = x \<and> (\<forall>j'<j. valid (table t' ! path t' (key (table t' ! x)) j'))"
    if x: "x < length (table t')" "live (table t' ! x)" for x
  proof (cases "x = i")
    case True
    have "key (table t' ! i) = k" using i(1) by (simp add: t'_def)
    then show ?thesis
      unfolding True path' using m(2) valid' path_range[OF w] by (intro exI[of _ m]) (simp add: i_def)
  next
    case False
    with x have "x < length ?tab" "live (?tab ! x)" and "table t' ! x = ?tab ! x" by (simp_all add: t'_def)
    then obtain j where "path t (key (?tab ! x)) j = x" "\<forall>j'<j. valid (?tab ! path t (key (?tab ! x)) j')"
      using wfD(8)[OF w] by blast
    then show ?thesis
      unfolding path' \<open>table t' ! x = ?tab ! x\<close> using valid' path_range[OF w] by (intro exI[of _ j]) simp
  qed
  have dv: "\<forall>x\<in>set (table t'). dirty x \<longrightarrow> valid x"
    using wfD(4)[OF w] set_update_subset_insert[of ?tab i ?new] by (auto simp: t'_def)
  have "wf t'"
    unfolding wf_def
  proof (intro conjI allI impI)
    show "size_index t' \<le> 12" "length (table t') = table_size ! size_index t'" "1 / 12 \<le> max_load t'" "max_load t' \<le> 5 / 7"
      using wfD(1,2,6,7)[OF w] by (simp_all add: t'_def)
  qed (use cnt dv dk way in \<open>auto simp del: all_simps\<close>)
  moreover have "used t' = used t + 1 \<and> (\<forall>x\<in>set (table t'). \<not> dirty x)" if "\<forall>x\<in>set ?tab. \<not> dirty x"
    using that i(1) set_update_subset_insert[of ?tab i ?new] by (auto simp: t'_def)
  ultimately show ?thesis using p am by (intro exI[of _ t']) (simp add: t'_def)
qed

section \<open>Insertion\<close>

definition clean :: "hashtable \<Rightarrow> bool" where
  "clean t \<longleftrightarrow> (\<forall>n\<in>set (table t). \<not> dirty n)"

lemma over_fits:
  assumes "wf t" and "\<not> over_load t"
  shows "hash_ok t" and "used t < length (table t)"
proof -
  show "hash_ok t" using assms by (simp add: hash_ok_def over_load_def)
  then show "used t < length (table t)" by (rule load_fits)
qed

text \<open>Without a rebuild.\<close>

lemma insert_plain:
  assumes "wf t" and "\<not> over_load t" and "amap t k = None"
  shows "\<exists>t'. insert_depth (Suc m) t k d n = Some t' \<and> hash_ok t' \<and> amap t' = (amap t)(k \<mapsto> (d, n)) \<and>
    size_index t' = size_index t \<and> max_load t' = max_load t \<and> used t' \<le> used t + 1 \<and>
    (clean t \<longrightarrow> used t' = used t + 1 \<and> clean t')"
proof -
  obtain t' where t': "place_node t k d n = Some t'" "wf t'" "amap t' = (amap t)(k \<mapsto> (d, n))"
    "size_index t' = size_index t" "max_load t' = max_load t" "used t' \<le> used t + 1"
    "clean t \<longrightarrow> used t' = used t + 1 \<and> clean t'"
    using place_node_lemma[OF assms(1) over_fits(2)[OF assms(1,2)] assms(3)] unfolding clean_def by blast
  have "hash_ok t'"
    using t'(2,4-6) assms(2) by (simp add: hash_ok_def over_load_def)
  with t' assms(2) show ?thesis by simp
qed

lemma keys_Cons: "keys (n # ns) = (if live n then key n # keys ns else keys ns)"
  by (simp add: keys_def)

lemma entries_Cons: "entries (n # ns) = (if live n then [(key n, data n, dsize n)] else []) @ entries ns"
  by (simp add: entries_def)

lemma reinsert_live: "reinsert ins t (n # ns) =
  (if live n then do { t \<leftarrow> ins t (key n) (data n) (dsize n); reinsert ins t ns } else reinsert ins t ns)"
  by (simp add: live_def)

lemma map_add_entries:
  assumes "distinct (keys (n # ns))" and "live n"
  shows "(m(key n \<mapsto> (data n, dsize n))) ++ map_of (entries ns) = m ++ map_of (entries (n # ns))"
proof -
  have "key n \<notin> set (keys ns)" using assms by (simp add: keys_Cons)
  then have "map_of (entries ns) (key n) = None" by (simp add: keys_entries map_of_eq_None_iff)
  with assms(2) show ?thesis by (auto simp: entries_Cons fun_eq_iff map_add_def split: option.splits)
qed

text \<open>A sequence of insertions into a table that is large enough for all of them.\<close>

lemma reinsert_plain:
  assumes "wf t" and "clean t" and "distinct (keys ns)" and "\<forall>k\<in>set (keys ns). amap t k = None"
    and "of_nat (used t + length (keys ns)) \<le> max_load t * of_nat (table_size ! size_index t) + 1"
  shows "\<exists>t'. reinsert (insert_depth (Suc m)) t ns = Some t' \<and> hash_ok t' \<and> clean t' \<and> amap t' = amap t ++ map_of (entries ns) \<and>
    size_index t' = size_index t \<and> max_load t' = max_load t \<and> used t' = used t + length (keys ns)"
  using assms
proof (induction ns arbitrary: t)
  case Nil
  then show ?case by (simp add: hash_ok_def keys_def entries_def)
next
  case (Cons n ns)
  show ?case
  proof (cases "live n")
    case True
    then have k: "keys (n # ns) = key n # keys ns" by (simp add: keys_Cons)
    have no: "\<not> over_load t" using Cons.prems(5) k by (simp add: over_load_def)
    have "amap t (key n) = None" using Cons.prems(4) k by simp
    then obtain t1 where t1: "insert_depth (Suc m) t (key n) (data n) (dsize n) = Some t1" "hash_ok t1"
      "amap t1 = (amap t)(key n \<mapsto> (data n, dsize n))" "size_index t1 = size_index t" "max_load t1 = max_load t"
      "used t1 = used t + 1" "clean t1"
      using insert_plain[OF Cons.prems(1) no] Cons.prems(2) by blast
    have "wf t1" "distinct (keys ns)" "\<forall>k\<in>set (keys ns). amap t1 k = None"
      "of_nat (used t1 + length (keys ns)) \<le> max_load t1 * of_nat (table_size ! size_index t1) + 1"
      using t1 Cons.prems k by (auto simp: hash_ok_def algebra_simps)
    from Cons.IH[OF this(1) t1(7) this(2-4)] obtain t' where
      "reinsert (insert_depth (Suc m)) t1 ns = Some t'" "hash_ok t'" "clean t'" "amap t' = amap t1 ++ map_of (entries ns)"
      "size_index t' = size_index t1" "max_load t' = max_load t1" "used t' = used t1 + length (keys ns)" by blast
    then show ?thesis
      using t1 True k map_add_entries[OF Cons.prems(3) True, of "amap t"]
      by (intro exI[of _ t']) (simp add: reinsert_live del: reinsert.simps insert_depth.simps)
  next
    case False
    then have "keys (n # ns) = keys ns" "entries (n # ns) = entries ns" by (simp_all add: keys_Cons entries_Cons)
    with Cons False show ?thesis by (simp add: reinsert_live del: reinsert.simps)
  qed
qed

text \<open>A new table, before the old nodes are put into it.\<close>

lemma fresh_lemma:
  assumes "wf t" and "s \<le> 12"
  defines "t0 \<equiv> t\<lparr>size_index := s, used := 0, ndirty := 0, table := fresh_table s\<rparr>"
  shows "wf t0" and "clean t0" and "amap t0 = Map.empty" and "used t0 = 0" "size_index t0 = s" "max_load t0 = max_load t"
proof -
  have f: "filter live (fresh_table s) = []" "filter valid (fresh_table s) = []"
    by (simp_all add: fresh_table_def free_node_def live_def filter_empty_conv)
  show "wf t0"
    using assms(2) wfD(6,7)[OF assms(1)] f
    by (auto simp: wf_def t0_def keys_def) (auto simp: fresh_table_def free_node_def live_def)
  show "clean t0" by (simp add: clean_def t0_def fresh_table_def free_node_def)
  show "amap t0 = Map.empty" by (simp add: amap_def t0_def entries_def f)
qed (simp_all add: t0_def)

lemma keys_used: "wf t \<Longrightarrow> length (keys (table t)) \<le> used t"
proof -
  assume w: "wf t"
  have "length (filter live xs) \<le> length (filter valid xs)" for xs by (induction xs) (auto simp: live_def)
  then show ?thesis using wfD(3)[OF w] by (simp add: keys_def)
qed

lemma keys_used_clean: "wf t \<Longrightarrow> clean t \<Longrightarrow> length (keys (table t)) = used t"
proof -
  assume w: "wf t" and c: "clean t"
  have "filter live (table t) = filter valid (table t)"
    using c by (intro filter_cong) (auto simp: live_def clean_def)
  then show ?thesis using wfD(3)[OF w] by (simp add: keys_def)
qed

text \<open>The next table takes all nodes and is not overloaded then.\<close>

lemma grow_lemma:
  assumes ok: "hash_ok t" and s: "size_index t \<le> 11"
  shows "\<exists>t'. hashtable_rebuild (insert_depth (Suc m)) t 1 = Some t' \<and> hash_ok t' \<and> clean t' \<and> amap t' = amap t \<and>
    \<not> over_load t' \<and> size_index t' = size_index t + 1 \<and> max_load t' = max_load t \<and> used t' = length (keys (table t))"
proof -
  have w: "wf t" using ok by (simp add: hash_ok_def)
  let ?s = "size_index t + 1"
  define t0 where "t0 = t\<lparr>size_index := ?s, used := 0, ndirty := 0, table := fresh_table ?s\<rparr>"
  note f = fresh_lemma[OF w, of ?s, folded t0_def]
  have s': "?s \<le> 12" using s by simp
  have "of_nat (length (keys (table t))) \<le> (of_nat (used t) :: rat)" using keys_used[OF w] by simp
  also have "\<dots> \<le> max_load t * of_nat (table_size ! size_index t) + 1" using ok by (simp add: hash_ok_def)
  also have "\<dots> \<le> max_load t * of_nat (table_size ! size_index t) + max_load t * 12"
    using wfD(6)[OF w] by simp
  also have "\<dots> = max_load t * of_nat (table_size ! size_index t + 12)" by (simp add: algebra_simps)
  also have "\<dots> \<le> max_load t * of_nat (table_size ! ?s)"
    using size_grow[OF s] wfD(6)[OF w] by (intro mult_left_mono) (simp_all del: of_nat_add)
  finally have fit: "of_nat (length (keys (table t))) \<le> max_load t * of_nat (table_size ! ?s)" .
  have "\<exists>t'. reinsert (insert_depth (Suc m)) t0 (table t) = Some t' \<and> hash_ok t' \<and> clean t' \<and> amap t' = amap t0 ++ map_of (entries (table t)) \<and>
    size_index t' = size_index t0 \<and> max_load t' = max_load t0 \<and> used t' = used t0 + length (keys (table t))"
    by (rule reinsert_plain) (use f[OF s'] wfD(5)[OF w] fit in auto)
  then obtain t' where t': "reinsert (insert_depth (Suc m)) t0 (table t) = Some t'" "hash_ok t'" "clean t'"
    "amap t' = amap t" "size_index t' = ?s" "max_load t' = max_load t" "used t' = length (keys (table t))"
    using f[OF s'] by (auto simp: amap_def)
  have "hashtable_rebuild (insert_depth (Suc m)) t 1 = Some t'"
    using t'(1) s by (simp add: hashtable_rebuild_def length_table_size t0_def Let_def)
  moreover have "\<not> over_load t'" using fit t' by (simp add: over_load_def)
  ultimately show ?thesis using t' by blast
qed

lemma insert_lemma:
  assumes ok: "hash_ok t" and new: "amap t k = None" and s: "over_load t \<longrightarrow> size_index t \<le> 11"
  shows "\<exists>t'. insert_depth (Suc (Suc m)) t k d n = Some t' \<and> hash_ok t' \<and> amap t' = (amap t)(k \<mapsto> (d, n)) \<and>
    size_index t' = (if over_load t then size_index t + 1 else size_index t) \<and> max_load t' = max_load t \<and> used t' \<le> used t + 1 \<and>
    (clean t \<longrightarrow> used t' = used t + 1 \<and> clean t')"
proof (cases "over_load t")
  case True
  have w: "wf t" using ok by (simp add: hash_ok_def)
  obtain t1 where t1: "hashtable_rebuild (insert_depth (Suc m)) t 1 = Some t1" "hash_ok t1" "clean t1" "amap t1 = amap t"
    "\<not> over_load t1" "size_index t1 = size_index t + 1" "max_load t1 = max_load t" "used t1 = length (keys (table t))"
    using grow_lemma[OF ok] s True by blast
  have "wf t1" using t1(2) by (simp add: hash_ok_def)
  then obtain t' where t': "insert_depth (Suc m) t1 k d n = Some t'" "hash_ok t'" "amap t' = (amap t1)(k \<mapsto> (d, n))"
    "size_index t' = size_index t1" "max_load t' = max_load t1" "used t' = used t1 + 1" "clean t'"
    using insert_plain[of t1 k m d n] t1(3-5) new by auto
  have "(\<lambda>t k d n. insert_depth (Suc m) t k d n) = insert_depth (Suc m)" by (simp add: fun_eq_iff)
  then have "insert_depth (Suc (Suc m)) t k d n = place_node t1 k d n"
    using True t1(1) by (subst insert_depth.simps(2)) simp
  moreover have "insert_depth (Suc m) t1 k d n = place_node t1 k d n" using t1(5) by simp
  ultimately show ?thesis using t' t1 True keys_used_clean[OF w] keys_used[OF w] by auto
next
  case False
  have "wf t" using ok by (simp add: hash_ok_def)
  from insert_plain[OF this False new, of "Suc m"] False show ?thesis by auto
qed

declare insert_depth.simps [simp del]

section \<open>Removal\<close>

text \<open>
  A table that shrinks may be too small for its nodes: then it grows again in the middle of
  the loop, and the rest goes into the larger table.
\<close>

lemma reinsert_shrunk:
  assumes "hash_ok t" and "clean t" and "size_index t \<le> 11" and "distinct (keys ns)" and "\<forall>k\<in>set (keys ns). amap t k = None"
    and "of_nat (used t + length (keys ns)) \<le> max_load t * of_nat (table_size ! (size_index t + 1)) + 1"
  shows "\<exists>t'. reinsert (insert_depth (Suc (Suc m))) t ns = Some t' \<and> hash_ok t' \<and> amap t' = amap t ++ map_of (entries ns) \<and>
    max_load t' = max_load t \<and> used t' = used t + length (keys ns)"
  using assms
proof (induction ns arbitrary: t)
  case Nil
  then show ?case by (simp add: keys_def entries_def)
next
  case (Cons n ns)
  show ?case
  proof (cases "live n")
    case True
    then have k: "keys (n # ns) = key n # keys ns" by (simp add: keys_Cons)
    have "amap t (key n) = None" using Cons.prems(5) k by simp
    then obtain t1 where t1: "insert_depth (Suc (Suc m)) t (key n) (data n) (dsize n) = Some t1" "hash_ok t1"
      "amap t1 = (amap t)(key n \<mapsto> (data n, dsize n))" "size_index t1 = (if over_load t then size_index t + 1 else size_index t)"
      "max_load t1 = max_load t" "used t1 = used t + 1" "clean t1"
      using insert_lemma[OF Cons.prems(1)] Cons.prems(2,3) by blast
    have r: "distinct (keys ns)" "\<forall>k\<in>set (keys ns). amap t1 k = None"
      using t1(3) Cons.prems(4,5) k by auto
    have l: "of_nat (used t1 + length (keys ns)) \<le> max_load t1 * of_nat (table_size ! (size_index t + 1)) + 1"
      using t1(5,6) Cons.prems(6) k by (simp add: algebra_simps)
    obtain t' where t': "reinsert (insert_depth (Suc (Suc m))) t1 ns = Some t'" "hash_ok t'"
      "amap t' = amap t1 ++ map_of (entries ns)" "max_load t' = max_load t1" "used t' = used t1 + length (keys ns)"
    proof (cases "over_load t")
      case True
      have "wf t1" using t1(2) by (simp add: hash_ok_def)
      from reinsert_plain[OF this t1(7) r, of "Suc m"] l t1(4) True that show thesis by auto
    next
      case False
      from Cons.IH[OF t1(2,7) _ r] l t1(4) Cons.prems(3) False that show thesis by auto
    qed
    then show ?thesis
      using t1 True k map_add_entries[OF Cons.prems(4) True, of "amap t"]
      by (intro exI[of _ t']) (simp add: reinsert_live del: reinsert.simps)
  next
    case False
    then have "keys (n # ns) = keys ns" "entries (n # ns) = entries ns" by (simp_all add: keys_Cons entries_Cons)
    with Cons False show ?thesis by (simp add: reinsert_live del: reinsert.simps)
  qed
qed

lemma shrink_lemma:
  assumes ok: "hash_ok t" and s: "size_index t \<noteq> 0"
  shows "\<exists>t'. hashtable_rebuild (insert_depth (Suc (Suc m))) t (-1) = Some t' \<and> hash_ok t' \<and> amap t' = amap t \<and>
    max_load t' = max_load t \<and> used t' \<le> used t"
proof -
  have w: "wf t" using ok by (simp add: hash_ok_def)
  let ?s = "size_index t - 1"
  define t0 where "t0 = t\<lparr>size_index := ?s, used := 0, ndirty := 0, table := fresh_table ?s\<rparr>"
  have s': "?s \<le> 12" "?s \<le> 11" using wfD(1)[OF w] s by simp_all
  note f = fresh_lemma[OF w s'(1), folded t0_def]
  have "0 \<le> max_load t * of_nat (table_size ! ?s)" using wfD(6)[OF w] by simp
  then have ok0: "hash_ok t0" using f by (simp add: hash_ok_def)
  have "of_nat (length (keys (table t))) \<le> (of_nat (used t) :: rat)" using keys_used[OF w] by simp
  also have "\<dots> \<le> max_load t * of_nat (table_size ! size_index t) + 1" using ok by (simp add: hash_ok_def)
  finally have fit: "of_nat (used t0 + length (keys (table t))) \<le> max_load t0 * of_nat (table_size ! (size_index t0 + 1)) + 1"
    using f s by simp
  obtain t' where t': "reinsert (insert_depth (Suc (Suc m))) t0 (table t) = Some t'" "hash_ok t'"
    "amap t' = amap t0 ++ map_of (entries (table t))" "max_load t' = max_load t0" "used t' = used t0 + length (keys (table t))"
    using reinsert_shrunk[OF ok0 f(2) _ wfD(5)[OF w] _ fit] f s' by auto
  have "hashtable_rebuild (insert_depth (Suc (Suc m))) t (-1) = Some t'"
    using t'(1) s' by (simp add: hashtable_rebuild_def length_table_size t0_def Let_def)
  then show ?thesis using t' f keys_used[OF w] by (auto simp: amap_def)
qed

lemma map_valid_filter: "map valid xs = map valid ys \<Longrightarrow> length (filter valid xs) = length (filter valid ys)"
proof (induction xs arbitrary: ys)
  case (Cons x xs)
  then show ?case by (cases ys) auto
qed simp

lemma mark_lemma:
  assumes ok: "hash_ok t" and i: "i < length (table t)" "live (table t ! i)"
  defines "t1 \<equiv> t\<lparr>table := (table t)[i := (table t ! i)\<lparr>dirty := True\<rparr>], ndirty := ndirty t + 1\<rparr>"
  shows "hash_ok t1" and "amap t1 = (amap t)(key (table t ! i) := None)"
proof -
  have w: "wf t" using ok by (simp add: hash_ok_def)
  let ?n = "table t ! i" and ?tab = "table t"
  have ent: "entries (table t1) = entries (take i ?tab) @ entries (drop (Suc i) ?tab)"
    "entries ?tab = entries (take i ?tab) @ (key ?n, data ?n, dsize ?n) # entries (drop (Suc i) ?tab)"
    using entries_split[OF i(1)] i(2) by (simp_all add: t1_def entries_def live_def)
  have d: "distinct (map fst (entries ?tab))" using wfD(5)[OF w] by (simp add: keys_entries)
  then have nk: "key ?n \<notin> fst ` set (entries (take i ?tab) @ entries (drop (Suc i) ?tab))" unfolding ent by auto
  have "map_of (entries ?tab) = (map_of (entries (table t1)))(key ?n \<mapsto> (data ?n, dsize ?n))"
    unfolding ent by (rule map_of_insert[OF nk])
  moreover have "map_of (entries (table t1)) (key ?n) = None" using nk unfolding ent(1) by (subst map_of_eq_None_iff)
  ultimately show "amap t1 = (amap t)(key ?n := None)" unfolding amap_def by (simp only: fun_upd_upd fun_upd_idem)
  have valid': "valid (table t1 ! x) = valid (?tab ! x)" if "x < length ?tab" for x
    using that i by (cases "x = i") (simp_all add: t1_def live_def)
  have "map valid (table t1) = map valid ?tab" by (rule nth_equalityI) (use valid' in \<open>auto simp: t1_def\<close>)
  then have cnt: "length (filter valid (table t1)) = length (filter valid ?tab)"
    using map_valid_filter by metis
  have path': "path t1 = path t" by (simp add: fun_eq_iff path_def t1_def)
  have "wf t1"
    unfolding wf_def
  proof (intro conjI allI impI)
    show "size_index t1 \<le> 12" "length (table t1) = table_size ! size_index t1" "1 / 12 \<le> max_load t1" "max_load t1 \<le> 5 / 7"
      "used t1 = length (filter valid (table t1))"
      using wfD(1,2,3,6,7)[OF w] cnt by (simp_all add: t1_def)
    show "distinct (keys (table t1))" using d unfolding keys_entries ent by auto
    show "\<forall>n\<in>set (table t1). dirty n \<longrightarrow> valid n"
      using wfD(4)[OF w] i(2) set_update_subset_insert[of ?tab i "?n\<lparr>dirty := True\<rparr>"] by (auto simp: t1_def live_def)
    fix x assume x: "x < length (table t1)" "live (table t1 ! x)"
    then have "x \<noteq> i" by (auto simp: t1_def live_def)
    then have same: "table t1 ! x = ?tab ! x" "x < length ?tab" using x by (simp_all add: t1_def)
    then obtain j where "path t (key (?tab ! x)) j = x" "\<forall>j'<j. valid (?tab ! path t (key (?tab ! x)) j')"
      using wfD(8)[OF w] x by metis
    then show "\<exists>j. path t1 (key (table t1 ! x)) j = x \<and> (\<forall>j'<j. valid (table t1 ! path t1 (key (table t1 ! x)) j'))"
      unfolding path' same(1) using valid' path_range[OF w] by (intro exI[of _ j]) simp
  qed
  then show "hash_ok t1" using ok by (simp add: hash_ok_def t1_def)
qed

lemma remove_lemma:
  assumes ok: "hash_ok t"
  shows "\<exists>t'. hashtable_remove t k = Some (case amap t k of None \<Rightarrow> (0, 0) | Some v \<Rightarrow> v, t') \<and> hash_ok t' \<and>
    amap t' = (amap t)(k := None) \<and> max_load t' = max_load t \<and> used t' \<le> used t"
proof -
  have w: "wf t" using ok by (simp add: hash_ok_def)
  obtain r where r: "find_at t k (hash_key k (size_index t)) = Some r"
    "case r of None \<Rightarrow> (\<forall>n\<in>set (table t). live n \<longrightarrow> key n \<noteq> k)
     | Some i \<Rightarrow> i < length (table t) \<and> live (table t ! i) \<and> key (table t ! i) = k"
    using find_slot_spec[OF w load_fits[OF ok]] by blast
  show ?thesis
  proof (cases r)
    case None
    then have "amap t k = None" using r(2) by (simp add: amap_None)
    then show ?thesis using r(1) None ok by (auto simp: hashtable_remove_def)
  next
    case (Some i)
    then have i: "i < length (table t)" "live (table t ! i)" "key (table t ! i) = k" using r(2) by simp_all
    have am: "amap t k = Some (data (table t ! i), dsize (table t ! i))"
      using i amap_iff[OF wfD(5)[OF w]] by (auto intro: bexI[of _ "table t ! i"])
    define t1 where "t1 = t\<lparr>table := (table t)[i := (table t ! i)\<lparr>dirty := True\<rparr>], ndirty := ndirty t + 1\<rparr>"
    have t1: "hash_ok t1" "amap t1 = (amap t)(k := None)" using mark_lemma[OF ok i(1,2)] i(3) by (simp_all add: t1_def)
    obtain t' where t': "(if (1 - max_load t1) * of_nat (table_size ! size_index t1) < of_nat (ndirty t1) \<and> size_index t1 \<noteq> 0
        then hashtable_rebuild hashtable_insert t1 (-1) else Some t1) = Some t'"
      and t'2: "hash_ok t'" "amap t' = amap t1" "max_load t' = max_load t1" "used t' \<le> used t1"
    proof (cases "size_index t1 \<noteq> 0")
      case True
      have h: "hashtable_insert = insert_depth (Suc (Suc 25))" by (simp add: hashtable_insert_def fun_eq_iff)
      obtain t2 where t2: "hashtable_rebuild hashtable_insert t1 (-1) = Some t2" "hash_ok t2" "amap t2 = amap t1"
        "max_load t2 = max_load t1" "used t2 \<le> used t1"
        using shrink_lemma[OF t1(1) True, of 25] unfolding h by blast
      show thesis
      proof (cases "(1 - max_load t1) * of_nat (table_size ! size_index t1) < of_nat (ndirty t1)")
        case True
        with t2 \<open>size_index t1 \<noteq> 0\<close> that[of t2] show thesis by simp
      next
        case False
        with t1(1) that[of t1] show thesis by simp
      qed
    next
      case False
      with t1(1) that show thesis by simp
    qed
    have "hashtable_remove t k = Some ((data (table t ! i), dsize (table t ! i)), t')"
      unfolding hashtable_remove_def r(1) Some Let_def option.case bind.bind_lunit t1_def[symmetric] t' by (rule refl)
    with am t'2 t1(2) show ?thesis by (auto simp: t1_def)
  qed
qed

section \<open>The table is a map\<close>

lemma small_load:
  assumes "hash_ok t" and "used t \<le> 5752"
  shows "over_load t \<longrightarrow> size_index t \<le> 11"
proof (rule impI, rule ccontr)
  assume o: "over_load t" and "\<not> size_index t \<le> 11"
  have w: "wf t" using assms(1) by (simp add: hash_ok_def)
  with \<open>\<not> size_index t \<le> 11\<close> have "size_index t = 12" using wfD(1)[OF w] by simp
  then have "max_load t * 69031 < of_nat (used t)" using o by (simp add: over_load_def table_size_def)
  moreover have "1 / 12 * 69031 \<le> max_load t * 69031" using wfD(6)[OF w] by (intro mult_right_mono) simp_all
  moreover have "of_nat (used t) \<le> (5752 :: rat)" using assms(2) by (metis of_nat_le_iff of_nat_numeral)
  ultimately show False by simp
qed

interpretation ht: map_table hashtable_lookup "\<lambda>t k (d, n). hashtable_insert t k d n" hashtable_remove amap hash_ok used 5752 answer
proof unfold_locales
  fix t k
  assume "hash_ok t"
  then show "hashtable_lookup t k = Some (answer (amap t k))" by (simp add: lookup_lemma answer_def)
next
  fix t k v
  assume ok: "hash_ok t" and "used t \<le> 5752" and "amap t k = None"
  with insert_lemma[OF ok _ small_load, of k 25 "fst v" "snd v"]
  show "\<exists>t'. (case v of (d, n) \<Rightarrow> hashtable_insert t k d n) = Some t' \<and> hash_ok t' \<and> amap t' = (amap t)(k \<mapsto> v) \<and> used t' \<le> used t + 1"
    by (auto simp: hashtable_insert_def split: prod.split)
next
  fix t k
  assume "hash_ok t"
  from remove_lemma[OF this, of k]
  show "\<exists>t'. hashtable_remove t k = Some (answer (amap t k), t') \<and> hash_ok t' \<and> amap t' = (amap t)(k := None) \<and> used t' \<le> used t"
    by (auto simp: answer_def)
qed

primrec puts :: "hop list \<Rightarrow> nat" where
  "puts [] = 0"
| "puts (p # ps) = (case p of Put k d n \<Rightarrow> 1 | _ \<Rightarrow> 0) + puts ps"

lemma run_lemma:
  assumes "hash_ok t" and "used t + puts ps \<le> 5753" and "new_keys (amap t) ps"
  shows "\<exists>t'. run_table t ps = Some (run_map (amap t) ps, t')"
  using assms
proof (induction ps arbitrary: t)
  case (Cons p ps)
  show ?case
  proof (cases p)
    case (Put k d n)
    then obtain t1 where t1: "hashtable_insert t k d n = Some t1" "hash_ok t1" "amap t1 = (amap t)(k \<mapsto> (d, n))" "used t1 \<le> used t + 1"
      using ht.insert_spec[OF Cons.prems(1), of k "(d, n)"] Cons.prems(2,3) by auto
    have "used t1 + puts ps \<le> 5753" "new_keys (amap t1) ps" using t1 Cons.prems(2,3) Put by simp_all
    from Cons.IH[OF t1(2) this] t1 Put show ?thesis by (auto simp: fun_upd_def)
  next
    case (Del k)
    obtain t1 where t1: "hashtable_remove t k = Some (answer (amap t k), t1)" "hash_ok t1" "amap t1 = (amap t)(k := None)" "used t1 \<le> used t"
      using ht.remove_spec[OF Cons.prems(1)] by blast
    have "used t1 + puts ps \<le> 5753" "new_keys (amap t1) ps" using t1 Cons.prems(2,3) Del by simp_all
    from Cons.IH[OF t1(2) this] t1 Del show ?thesis by (auto simp: fun_upd_def)
  next
    case (Get k)
    from Cons.IH[OF Cons.prems(1)] Cons.prems(2,3) Get show ?thesis by (auto simp: ht.lookup_spec[OF Cons.prems(1)])
  qed
qed simp

lemma new_table_ok:
  assumes "1 / 12 \<le> ml" and "ml \<le> 5 / 7"
  shows "hash_ok (hashtable_new ml)" and "amap (hashtable_new ml) = Map.empty"
proof -
  have f: "filter live (fresh_table 0) = []" "filter valid (fresh_table 0) = []"
    by (simp_all add: fresh_table_def free_node_def live_def filter_empty_conv)
  show "hash_ok (hashtable_new ml)"
    using assms f
    by (auto simp: hash_ok_def wf_def hashtable_new_def keys_def) (auto simp: fresh_table_def free_node_def live_def table_size_def)
  show "amap (hashtable_new ml) = Map.empty" by (simp add: amap_def hashtable_new_def entries_def f)
qed

lemma find_slot_full:
  assumes "find_slot tab sz c k i = Some r"
  shows "\<not> (\<forall>n\<in>set tab. valid n \<and> key n \<noteq> k)"
proof (rule find_slot.raw_induct[where P = "\<lambda>tab sz c k i r. \<not> (\<forall>n\<in>set tab. valid n \<and> key n \<noteq> k)", OF _ assms], goal_cases)
  case (1 find_slot tab sz c k i r)
  show ?case
  proof
    assume a: "\<forall>n\<in>set tab. valid n \<and> key n \<noteq> k"
    have "valid (tab ! i) \<and> key (tab ! i) \<noteq> k" if "i < length tab" for i using a that by simp
    with 1(2) have "find_slot tab sz c k (next_slot sz c i) = Some r" by (auto elim!: bind_SomeE split: if_splits)
    from 1(1)[OF this] a show False by blast
  qed
qed

lemma probe_free_full:
  assumes "probe_free tab sz c i = Some r"
  shows "\<not> (\<forall>n\<in>set tab. live n)"
proof (rule probe_free.raw_induct[where P = "\<lambda>tab sz c i r. \<not> (\<forall>n\<in>set tab. live n)", OF _ assms], goal_cases)
  case (1 probe_free tab sz c i r)
  show ?case
  proof
    assume a: "\<forall>n\<in>set tab. live n"
    have "valid (tab ! i) \<and> \<not> dirty (tab ! i)" if "i < length tab" for i using a that by (simp add: live_def)
    with 1(2) have "probe_free tab sz c (next_slot sz c i) = Some r"
      by (auto simp: Let_def elim!: bind_SomeE split: if_splits)
    from 1(1)[OF this] a show False by blast
  qed
qed

section \<open>Properties\<close>



text \<open>
  nothing keeps the load factor below 1. When every slot of a table holds a node and the
  load factor lets it be, the lookup of a key that is not there and the insertion of a new key
  never return.
\<close>

theorem hashtable_full_loops:
  assumes "\<forall>n\<in>set (table t). live n \<and> key n \<noteq> k" and "\<not> over_load t"
  shows "hashtable_lookup t k = None \<and> hashtable_insert t k d n = None"
proof -
  have "hashtable_lookup t k = None"
    using find_slot_full[of "table t" "table_size ! size_index t" "rehash k (size_index t)" k "hash_key k (size_index t)"] assms(1)
    by (cases "find_at t k (hash_key k (size_index t))") (auto simp: hashtable_lookup_def live_def)
  moreover have "place_node t k d n = None"
  proof (cases "hash_key k (size_index t) < length (table t)")
    case True
    then have "valid (table t ! hash_key k (size_index t))" using assms(1) by (auto simp: live_def)
    moreover have "probe_free (table t) (table_size ! size_index t) (rehash k (size_index t)) (hash_key k (size_index t)) = None"
      using probe_free_full assms(1) by (metis not_Some_eq)
    ultimately show ?thesis using True by (simp add: place_node_def)
  next
    case False
    then have none: "list_get (table t) (hash_key k (size_index t)) = None" by simp
    show ?thesis unfolding place_node_def Let_def none by simp
  qed
  moreover have "27 = Suc 26" by simp
  ultimately show ?thesis using assms(2) by (simp only: hashtable_insert_def insert_depth.simps if_False bind.bind_lunit)
qed

definition full_table :: hashtable where
  "full_table = \<lparr>table = map (\<lambda>i. \<lparr>valid = True, dirty = False, key = int i, dsize = 0, data = 1\<rparr>) [0..<7],
     size_index = 0, used = 7, ndirty = 0, max_load = 1\<rparr>"

theorem hashtable_full_loops_witness: "hashtable_lookup full_table 8 = None \<and> hashtable_insert full_table 8 1 1 = None"
  by (rule hashtable_full_loops) (auto simp: full_table_def live_def over_load_def table_size_def)

end
