(* ===== verification/Fdevent.thy ===== *)
theory Fdevent
  imports Prelude
begin

text \<open>
  The event loop of the host tools (\<open>utils/fdevent.c\<close>, \<open>fdevent.h\<close>): events on file
  descriptors, the table of them, the ring of those that wait for their callback, and what the
  operating system watches. Both versions of the lower part are here, the one on \<open>epoll\<close> and the
  one on \<open>select\<close>; \<open>have_epoll\<close> says which one is compiled. Objects are in a heap, \<open>fdes\<close>; the
  head of the ring is one of them. \<open>FATAL\<close> and \<open>exit\<close> are \<open>None\<close>, and so is an access to a bit
  that a \<open>fd_set\<close> does not have. Pointers have 4 bytes, like an \<open>int\<close>.
\<close>

type_synonym u16 = "16 word"

record fdevent =
  next_fde :: addr
  prev_fde :: addr
  fd :: int
  state :: u16
  events :: u16
  func :: nat                  \<comment> \<open>which callback\<close>
  arg :: nat

type_synonym fd_set = "int \<Rightarrow> bool"

record evloop =
  fdes :: "addr \<Rightarrow> fdevent option"
  fd_table :: "addr list"
  fd_table_max :: int
  header_ok :: bool            \<comment> \<open>whether the allocator's words in front of \<open>fd_table\<close> are intact\<close>
  read_fds :: fd_set
  write_fds :: fd_set
  error_fds :: fd_set
  select_n :: int
  have_epoll :: bool           \<comment> \<open>\<open>HAVE_EPOLL\<close>\<close>
  epoll_fds :: "int \<Rightarrow> (u32 \<times> addr) option"   \<comment> \<open>the descriptors that \<open>epoll_fd\<close> watches\<close>
  closed :: "int list"         \<comment> \<open>the descriptors that were closed\<close>

abbreviation (input) "FDE_READ \<equiv> 1 :: u16"
abbreviation (input) "FDE_WRITE \<equiv> 2 :: u16"
abbreviation (input) "FDE_ERROR \<equiv> 4 :: u16"
abbreviation (input) "FDE_DONT_CLOSE \<equiv> 0x80 :: u16"
abbreviation (input) "FDE_EVENTMASK \<equiv> 0xff :: u16"
abbreviation (input) "FDE_STATEMASK \<equiv> 0xff00 :: u16"
abbreviation (input) "FDE_ACTIVE \<equiv> 0x100 :: u16"
abbreviation (input) "FDE_PENDING \<equiv> 0x200 :: u16"
abbreviation (input) "FDE_CREATED \<equiv> 0x400 :: u16"

abbreviation (input) "list_pending \<equiv> 1 :: addr"

definition empty_fde :: fdevent where
  "empty_fde = \<lparr>next_fde = 0, prev_fde = 0, fd = 0, state = 0, events = 0, func = 0, arg = 0\<rparr>"

definition evloop0 :: "bool \<Rightarrow> evloop" where
  "evloop0 epoll = \<lparr>fdes = [list_pending \<mapsto> empty_fde\<lparr>next_fde := list_pending, prev_fde := list_pending\<rparr>],
     fd_table = [], fd_table_max = -1, header_ok = True, read_fds = (\<lambda>_. False), write_fds = (\<lambda>_. False),
     error_fds = (\<lambda>_. False), select_n = 0,
     have_epoll = epoll, epoll_fds = Map.empty, closed = []\<rparr>"

definition upd_fde :: "addr \<Rightarrow> (fdevent \<Rightarrow> fdevent) \<Rightarrow> evloop \<Rightarrow> evloop option" where
  "upd_fde p f s = do { x \<leftarrow> fdes s p; Some (s\<lparr>fdes := (fdes s)(p \<mapsto> f x)\<rparr>) }"

section \<open>The ring of pending events\<close>

definition plist_enqueue :: "addr \<Rightarrow> evloop \<Rightarrow> evloop option" where
  "plist_enqueue node s = do {
     l \<leftarrow> fdes s list_pending;
     let last = prev_fde l;
     s \<leftarrow> upd_fde node (\<lambda>x. x\<lparr>next_fde := list_pending\<rparr>) s;
     s \<leftarrow> upd_fde node (\<lambda>x. x\<lparr>prev_fde := last\<rparr>) s;
     s \<leftarrow> upd_fde last (\<lambda>x. x\<lparr>next_fde := node\<rparr>) s;
     upd_fde list_pending (\<lambda>x. x\<lparr>prev_fde := node\<rparr>) s }"

definition plist_remove :: "addr \<Rightarrow> evloop \<Rightarrow> evloop option" where
  "plist_remove node s = do {
     n \<leftarrow> fdes s node;
     s \<leftarrow> upd_fde (prev_fde n) (\<lambda>x. x\<lparr>next_fde := next_fde n\<rparr>) s;
     n \<leftarrow> fdes s node;
     s \<leftarrow> upd_fde (next_fde n) (\<lambda>x. x\<lparr>prev_fde := prev_fde n\<rparr>) s;
     upd_fde node (\<lambda>x. x\<lparr>next_fde := 0, prev_fde := 0\<rparr>) s }"

text \<open>The result is the node, or 0.\<close>

definition plist_dequeue :: "evloop \<Rightarrow> (addr \<times> evloop) option" where
  "plist_dequeue s = do {
     l \<leftarrow> fdes s list_pending;
     let node = next_fde l;
     if node = list_pending then Some (0, s)
     else do {
       n \<leftarrow> fdes s node;
       s \<leftarrow> upd_fde list_pending (\<lambda>x. x\<lparr>next_fde := next_fde n\<rparr>) s;
       s \<leftarrow> upd_fde (next_fde n) (\<lambda>x. x\<lparr>prev_fde := list_pending\<rparr>) s;
       s \<leftarrow> upd_fde node (\<lambda>x. x\<lparr>next_fde := 0, prev_fde := 0\<rparr>) s;
       Some (node, s) } }"

section \<open>epoll\<close>

abbreviation (input) "EPOLLIN \<equiv> 1 :: u32"
abbreviation (input) "EPOLLOUT \<equiv> 4 :: u32"
abbreviation (input) "EPOLLERR \<equiv> 8 :: u32"
abbreviation (input) "EPOLLHUP \<equiv> 0x10 :: u32"

text \<open>
  \<open>epoll_ctl\<close> is the operating system's: adding fails for a descriptor that is watched, changing
  and deleting for one that is not.
\<close>

definition epoll_connect :: "addr \<Rightarrow> evloop \<Rightarrow> evloop option" where
  "epoll_connect p s = do {
     e \<leftarrow> fdes s p;
     if epoll_fds s (fd e) \<noteq> None then None else Some (s\<lparr>epoll_fds := (epoll_fds s)(fd e \<mapsto> (0, p))\<rparr>) }"

definition epoll_disconnect :: "addr \<Rightarrow> evloop \<Rightarrow> evloop option" where
  "epoll_disconnect p s = do {
     e \<leftarrow> fdes s p;
     if epoll_fds s (fd e) = None then None else Some (s\<lparr>epoll_fds := (epoll_fds s)(fd e := None)\<rparr>) }"

definition epoll_bits :: "u16 \<Rightarrow> u32" where
  "epoll_bits ev =
     or (or (if and ev FDE_READ \<noteq> 0 then EPOLLIN else 0) (if and ev FDE_WRITE \<noteq> 0 then EPOLLOUT else 0))
        (if and ev FDE_ERROR \<noteq> 0 then or EPOLLERR EPOLLHUP else 0)"

definition epoll_update :: "addr \<Rightarrow> u16 \<Rightarrow> evloop \<Rightarrow> evloop option" where
  "epoll_update p ev s = do {
     s \<leftarrow> upd_fde p (\<lambda>x. x\<lparr>state := or (and (state x) FDE_STATEMASK) ev\<rparr>) s;
     e \<leftarrow> fdes s p;
     if epoll_fds s (fd e) = None then None
     else Some (s\<lparr>epoll_fds := (epoll_fds s)(fd e \<mapsto> (epoll_bits ev, p))\<rparr>) }"

definition posted_bits :: "u32 \<Rightarrow> u16" where
  "posted_bits w =
     or (or (if and w EPOLLIN \<noteq> 0 then FDE_READ else 0) (if and w EPOLLOUT \<noteq> 0 then FDE_WRITE else 0))
        (if and w (or EPOLLERR EPOLLHUP) \<noteq> 0 then FDE_ERROR else 0)"

text \<open>The list is what \<open>epoll_wait\<close> fills in, the first \<open>n\<close> of its 256 events.\<close>

primrec epoll_loop :: "(addr \<times> u32) list \<Rightarrow> evloop \<Rightarrow> evloop option" where
  "epoll_loop [] s = Some s"
| "epoll_loop (ev # evs) s = do {
     let p = fst ev;
     s \<leftarrow> upd_fde p (\<lambda>x. x\<lparr>events := or (events x) (posted_bits (snd ev))\<rparr>) s;
     x \<leftarrow> fdes s p;
     s \<leftarrow> (if events x = 0 \<or> and (state x) FDE_PENDING \<noteq> 0 then Some s
       else do {
         s \<leftarrow> upd_fde p (\<lambda>x. x\<lparr>state := or (state x) FDE_PENDING\<rparr>) s;
         plist_enqueue p s });
     epoll_loop evs s }"

section \<open>select\<close>

definition fd_put :: "int \<Rightarrow> bool \<Rightarrow> fd_set \<Rightarrow> fd_set option" where
  "fd_put i b fds = (if 0 \<le> i \<and> i < 1024 then Some (fds(i := b)) else None)"

definition select_connect :: "addr \<Rightarrow> evloop \<Rightarrow> evloop option" where
  "select_connect p s = do { e \<leftarrow> fdes s p; Some (if fd e \<ge> select_n s then s\<lparr>select_n := fd e + 1\<rparr> else s) }"

text \<open>The loop of \<open>fdevent_disconnect\<close>: the last index below \<open>i\<close> with an entry, or 0.\<close>

primrec last_used :: "addr list \<Rightarrow> nat \<Rightarrow> int option" where
  "last_used tab 0 = Some 0"
| "last_used tab (Suc i) = do {
     n \<leftarrow> last_used tab i;
     e \<leftarrow> list_get tab i;
     Some (if e \<noteq> 0 then int i else n) }"

definition select_disconnect :: "addr \<Rightarrow> evloop \<Rightarrow> evloop option" where
  "select_disconnect p s = do {
     e \<leftarrow> fdes s p;
     r \<leftarrow> fd_put (fd e) False (read_fds s);
     w \<leftarrow> fd_put (fd e) False (write_fds s);
     x \<leftarrow> fd_put (fd e) False (error_fds s);
     n \<leftarrow> last_used (fd_table s) (nat (select_n s));
     Some (s\<lparr>read_fds := r, write_fds := w, error_fds := x, select_n := n + 1\<rparr>) }"

definition select_update :: "addr \<Rightarrow> u16 \<Rightarrow> evloop \<Rightarrow> evloop option" where
  "select_update p ev s = do {
     e \<leftarrow> fdes s p;
     r \<leftarrow> fd_put (fd e) (and ev FDE_READ \<noteq> 0) (read_fds s);
     w \<leftarrow> fd_put (fd e) (and ev FDE_WRITE \<noteq> 0) (write_fds s);
     x \<leftarrow> fd_put (fd e) (and ev FDE_ERROR \<noteq> 0) (error_fds s);
     upd_fde p (\<lambda>x. x\<lparr>state := or (and (state x) FDE_STATEMASK) ev\<rparr>)
       (s\<lparr>read_fds := r, write_fds := w, error_fds := x\<rparr>) }"

text \<open>
  The loop over what \<open>select\<close> leaves in the three sets: over the descriptors from \<open>i\<close> on, \<open>k\<close> of
  them.
\<close>

definition ready_events :: "int \<Rightarrow> fd_set \<Rightarrow> fd_set \<Rightarrow> fd_set \<Rightarrow> u16" where
  "ready_events i rfd wfd efd =
     or (or (if rfd i then FDE_READ else 0) (if wfd i then FDE_WRITE else 0)) (if efd i then FDE_ERROR else 0)"

primrec process_loop :: "nat \<Rightarrow> int \<Rightarrow> int \<Rightarrow> fd_set \<Rightarrow> fd_set \<Rightarrow> fd_set \<Rightarrow> evloop \<Rightarrow> evloop option" where
  "process_loop 0 i n rfd wfd efd s = Some s"
| "process_loop (Suc k) i n rfd wfd efd s =
     (if n \<le> 0 then Some s
      else
        let ev = ready_events i rfd wfd efd in
        if ev = 0 then process_loop k (i + 1) n rfd wfd efd s
        else do {
          p \<leftarrow> list_get (fd_table s) (nat i);
          if p = 0 then None
          else do {
            s \<leftarrow> upd_fde p (\<lambda>x. x\<lparr>events := or (events x) ev\<rparr>) s;
            x \<leftarrow> fdes s p;
            s \<leftarrow> (if and (state x) FDE_PENDING \<noteq> 0 then Some s
              else do {
                s \<leftarrow> upd_fde p (\<lambda>x. x\<lparr>state := or (state x) FDE_PENDING\<rparr>) s;
                plist_enqueue p s });
            process_loop k (i + 1) (n - 1) rfd wfd efd s } })"

section \<open>What the rest calls\<close>

definition fdevent_init :: "evloop \<Rightarrow> evloop" where
  "fdevent_init s =
     (if have_epoll s then s\<lparr>epoll_fds := Map.empty\<rparr>
      else s\<lparr>read_fds := (\<lambda>_. False), write_fds := (\<lambda>_. False), error_fds := (\<lambda>_. False)\<rparr>)"

definition fdevent_connect :: "addr \<Rightarrow> evloop \<Rightarrow> evloop option" where
  "fdevent_connect p s = (if have_epoll s then epoll_connect p s else select_connect p s)"

definition fdevent_disconnect :: "addr \<Rightarrow> evloop \<Rightarrow> evloop option" where
  "fdevent_disconnect p s = (if have_epoll s then epoll_disconnect p s else select_disconnect p s)"

definition fdevent_update :: "addr \<Rightarrow> u16 \<Rightarrow> evloop \<Rightarrow> evloop option" where
  "fdevent_update p ev s = (if have_epoll s then epoll_update p ev s else select_update p ev s)"

text \<open>The answers of \<open>epoll_wait\<close> and \<open>select\<close>, which are the operating system's.\<close>

datatype wait_result = Select_ready int fd_set fd_set fd_set | Epoll_ready "(addr \<times> u32) list" | Wait_eintr | Wait_error

definition fdevent_process :: "wait_result \<Rightarrow> evloop \<Rightarrow> evloop option" where
  "fdevent_process w s =
     (case w of
        Wait_eintr \<Rightarrow> Some s
      | Wait_error \<Rightarrow> None
      | Epoll_ready evs \<Rightarrow> epoll_loop evs s
      | Select_ready n rfd wfd efd \<Rightarrow> process_loop (nat (select_n s)) 0 n rfd wfd efd s)"

section \<open>The table of descriptors\<close>

text \<open>\<open>while(fd_table_max <= fd) fd_table_max *= 2\<close>\<close>

function grow_max :: "int \<Rightarrow> int \<Rightarrow> int" where
  "grow_max m f = (if 0 < m \<and> m \<le> f then grow_max (m * 2) f else m)"
  by pat_completeness auto
termination by (relation "measure (\<lambda>(m, f). nat (f + 1 - m))") auto

declare grow_max.simps [simp del]

text \<open>
  The first time \<open>oldmax\<close> is -1: the \<open>memset\<close> starts one word in front of the block that
  \<open>realloc\<close> returned. A later \<open>realloc\<close> needs that word.
\<close>

definition fdevent_register :: "addr \<Rightarrow> evloop \<Rightarrow> evloop option" where
  "fdevent_register p s = do {
     e \<leftarrow> fdes s p;
     if fd e < 0 then None
     else do {
       s \<leftarrow> (if fd e \<ge> fd_table_max s then
           if fd e > 32000 then None
           else if fd_table_max s \<ge> 0 \<and> \<not> header_ok s then None
           else
             let oldmax = fd_table_max s;
                 s = (if fd_table_max s < 0 then (fdevent_init s)\<lparr>fd_table_max := 256\<rparr> else s);
                 m = grow_max (fd_table_max s) (fd e)
             in Some (s\<lparr>fd_table_max := m, header_ok := (oldmax \<ge> 0),
                  fd_table := fd_table s @ replicate (nat (m - int (length (fd_table s)))) 0\<rparr>)
         else Some s);
       tab \<leftarrow> list_put (fd_table s) (nat (fd e)) p;
       Some (s\<lparr>fd_table := tab\<rparr>) } }"

definition fdevent_unregister :: "addr \<Rightarrow> evloop \<Rightarrow> evloop option" where
  "fdevent_unregister p s = do {
     e \<leftarrow> fdes s p;
     if fd e < 0 \<or> fd e \<ge> fd_table_max s then None
     else do {
       q \<leftarrow> list_get (fd_table s) (nat (fd e));
       if q \<noteq> p then None
       else do {
         tab \<leftarrow> list_put (fd_table s) (nat (fd e)) 0;
         Some (s\<lparr>fd_table := tab, closed := (if and (state e) FDE_DONT_CLOSE = 0 then closed s @ [fd e] else closed s)\<rparr>) } } }"

section \<open>The operations of the users\<close>

definition fdevent_install :: "addr \<Rightarrow> int \<Rightarrow> nat \<Rightarrow> nat \<Rightarrow> evloop \<Rightarrow> evloop option" where
  "fdevent_install p f fn a s = do {
     s \<leftarrow> upd_fde p (\<lambda>_. empty_fde\<lparr>state := FDE_ACTIVE, fd := f, func := fn, arg := a\<rparr>) s;
     s \<leftarrow> fdevent_register p s;
     s \<leftarrow> fdevent_connect p s;
     upd_fde p (\<lambda>x. x\<lparr>state := or (state x) FDE_ACTIVE\<rparr>) s }"

text \<open>\<open>new\<close> is what \<open>malloc\<close> returns.\<close>

definition fdevent_create :: "addr \<Rightarrow> int \<Rightarrow> nat \<Rightarrow> nat \<Rightarrow> evloop \<Rightarrow> (addr \<times> evloop) option" where
  "fdevent_create new f fn a s =
     (if new = 0 then Some (0, s)
      else do {
        s \<leftarrow> fdevent_install new f fn a (s\<lparr>fdes := (fdes s)(new \<mapsto> empty_fde)\<rparr>);
        s \<leftarrow> upd_fde new (\<lambda>x. x\<lparr>state := or (state x) FDE_CREATED\<rparr>) s;
        Some (new, s) })"

definition fdevent_remove :: "addr \<Rightarrow> evloop \<Rightarrow> evloop option" where
  "fdevent_remove p s = do {
     e \<leftarrow> fdes s p;
     s \<leftarrow> (if and (state e) FDE_PENDING \<noteq> 0 then plist_remove p s else Some s);
     s \<leftarrow> (if and (state e) FDE_ACTIVE \<noteq> 0 then do {
         s \<leftarrow> fdevent_disconnect p s;
         fdevent_unregister p s } else Some s);
     upd_fde p (\<lambda>x. x\<lparr>state := 0, events := 0\<rparr>) s }"

definition fdevent_destroy :: "addr \<Rightarrow> evloop \<Rightarrow> evloop option" where
  "fdevent_destroy p s =
     (if p = 0 then Some s
      else do {
        e \<leftarrow> fdes s p;
        if and (state e) FDE_CREATED = 0 then None else fdevent_remove p s })"

definition fdevent_set :: "addr \<Rightarrow> u16 \<Rightarrow> evloop \<Rightarrow> evloop option" where
  "fdevent_set p ev s =
     (let ev = and ev FDE_EVENTMASK in do {
        e \<leftarrow> fdes s p;
        if and (state e) FDE_EVENTMASK = ev then Some s
        else do {
          s \<leftarrow> (if and (state e) FDE_ACTIVE \<noteq> 0 then fdevent_update p ev s else Some s);
          s \<leftarrow> upd_fde p (\<lambda>x. x\<lparr>state := or (and (state x) FDE_STATEMASK) ev\<rparr>) s;
          e \<leftarrow> fdes s p;
          if and (state e) FDE_PENDING \<noteq> 0 then do {
            s \<leftarrow> upd_fde p (\<lambda>x. x\<lparr>events := and (events x) (not ev)\<rparr>) s;
            e \<leftarrow> fdes s p;
            if events e = 0 then do {
              s \<leftarrow> plist_remove p s;
              upd_fde p (\<lambda>x. x\<lparr>state := and (state x) (not FDE_PENDING)\<rparr>) s }
            else Some s }
          else Some s } })"

definition fdevent_add :: "addr \<Rightarrow> u16 \<Rightarrow> evloop \<Rightarrow> evloop option" where
  "fdevent_add p ev s = do {
     e \<leftarrow> fdes s p;
     fdevent_set p (or (and (state e) FDE_EVENTMASK) (and ev FDE_EVENTMASK)) s }"

definition fdevent_del :: "addr \<Rightarrow> u16 \<Rightarrow> evloop \<Rightarrow> evloop option" where
  "fdevent_del p ev s = do {
     e \<leftarrow> fdes s p;
     fdevent_set p (and (and (state e) FDE_EVENTMASK) (not (and ev FDE_EVENTMASK))) s }"

text \<open>
  The inner loop of \<open>fdevent_loop\<close>. A callback is code of the users: \<open>call\<close> gives what it does
  to the event loop. The list of calls is the second result.
\<close>

partial_function (option) drain ::
  "(nat \<Rightarrow> int \<Rightarrow> u16 \<Rightarrow> nat \<Rightarrow> evloop \<Rightarrow> evloop option) \<Rightarrow> evloop \<Rightarrow> (evloop \<times> (int \<times> u16) list) option" where
  "drain call s = do {
     (p, s) \<leftarrow> plist_dequeue s;
     if p = 0 then Some (s, [])
     else do {
       e \<leftarrow> fdes s p;
       s \<leftarrow> upd_fde p (\<lambda>x. x\<lparr>events := 0, state := and (state x) (not FDE_PENDING)\<rparr>) s;
       s \<leftarrow> call (func e) (fd e) (events e) (arg e) s;
       (s, calls) \<leftarrow> drain call s;
       Some (s, (fd e, events e) # calls) } }"

text \<open>One turn of \<open>fdevent_loop\<close>.\<close>

definition loop_turn ::
  "(nat \<Rightarrow> int \<Rightarrow> u16 \<Rightarrow> nat \<Rightarrow> evloop \<Rightarrow> evloop option) \<Rightarrow> wait_result \<Rightarrow> evloop \<Rightarrow> (evloop \<times> (int \<times> u16) list) option" where
  "loop_turn call sel s = do { s \<leftarrow> fdevent_process sel s; drain call s }"

end
