(* ===== verification/FdeventProps.thy ===== *)
theory FdeventProps
  imports Fdevent
begin

text \<open>
  The event loop: the ring of pending events as a list, what a turn of the loop delivers, and
  what \<open>fdevent_set\<close> and \<open>fdevent_register\<close> do wrong.
\<close>

section \<open>The ring\<close>

definition nx :: "(addr \<Rightarrow> fdevent option) \<Rightarrow> addr \<Rightarrow> addr option" where
  "nx h a = map_option next_fde (h a)"

definition pv :: "(addr \<Rightarrow> fdevent option) \<Rightarrow> addr \<Rightarrow> addr option" where
  "pv h a = map_option prev_fde (h a)"

fun linked :: "(addr \<Rightarrow> fdevent option) \<Rightarrow> addr list \<Rightarrow> bool" where
  "linked h (a # b # r) \<longleftrightarrow> nx h a = Some b \<and> pv h b = Some a \<and> linked h (b # r)"
| "linked h _ \<longleftrightarrow> True"

definition ring :: "evloop \<Rightarrow> addr list \<Rightarrow> bool" where
  "ring s ps \<longleftrightarrow> distinct (list_pending # ps) \<and> linked (fdes s) (list_pending # ps @ [list_pending])"

lemma linked_append: "linked h (as @ x # bs) \<longleftrightarrow> linked h (as @ [x]) \<and> linked h (x # bs)"
proof (induction as)
  case (Cons a as)
  then show ?case by (cases as) auto
qed simp

lemma linked_cong:
  "(\<And>a. a \<in> set (butlast xs) \<Longrightarrow> nx h' a = nx h a) \<Longrightarrow> (\<And>a. a \<in> set (List.tl xs) \<Longrightarrow> pv h' a = pv h a) \<Longrightarrow>
   linked h' xs = linked h xs"
proof (induction h xs rule: linked.induct)
  case (1 h a b r)
  have "linked h' (b # r) = linked h (b # r)"
    by (rule "1.IH") (use "1.prems" in \<open>auto split: if_splits dest: in_set_butlastD intro: list.set_sel(2)\<close>)
  with "1.prems"(1)[of a] "1.prems"(2)[of b] show ?case by simp
qed simp_all

text \<open>The part of a node that the ring does not use.\<close>

definition core :: "fdevent \<Rightarrow> fdevent" where
  "core x = x\<lparr>next_fde := 0, prev_fde := 0\<rparr>"

lemma core_sel [simp]: "fd (core x) = fd x" "state (core x) = state x" "events (core x) = events x" "func (core x) = func x" "arg (core x) = arg x"
  by (simp_all add: core_def)

definition same_core :: "evloop \<Rightarrow> evloop \<Rightarrow> bool" where
  "same_core s s' \<longleftrightarrow> (\<forall>a. map_option core (fdes s' a) = map_option core (fdes s a)) \<and> s' = s\<lparr>fdes := fdes s'\<rparr>"

lemma same_coreD:
  assumes "same_core s s'" and "fdes s a = Some x"
  shows "\<exists>x'. fdes s' a = Some x' \<and> fd x' = fd x \<and> state x' = state x \<and> events x' = events x \<and> func x' = func x \<and> arg x' = arg x"
proof -
  have "map_option core (fdes s' a) = Some (core x)" using assms by (simp add: same_core_def)
  then obtain x' where "fdes s' a = Some x'" "core x' = core x" by auto
  moreover have "fd x' = fd x" "state x' = state x" "events x' = events x" "func x' = func x" "arg x' = arg x"
    using arg_cong[OF \<open>core x' = core x\<close>, of fd] arg_cong[OF \<open>core x' = core x\<close>, of state] arg_cong[OF \<open>core x' = core x\<close>, of events]
      arg_cong[OF \<open>core x' = core x\<close>, of func] arg_cong[OF \<open>core x' = core x\<close>, of arg] unfolding core_sel by -
  ultimately show ?thesis by simp
qed

lemma core_upd [simp]: "core (x\<lparr>next_fde := a\<rparr>) = core x" "core (x\<lparr>prev_fde := a\<rparr>) = core x"
  by (simp_all add: core_def)

lemma nx_pv_upd:
  "nx (h(p \<mapsto> x)) a = (if a = p then Some (next_fde x) else nx h a)"
  "pv (h(p \<mapsto> x)) a = (if a = p then Some (prev_fde x) else pv h a)"
  by (simp_all add: nx_def pv_def)

lemma linked_snoc:
  "xs \<noteq> [] \<Longrightarrow> linked h (xs @ [y]) \<longleftrightarrow> linked h xs \<and> nx h (last xs) = Some y \<and> pv h y = Some (last xs)"
  by (induction h xs rule: linked.induct) auto

lemma ring_last:
  assumes "ring s ps"
  shows "linked (fdes s) (list_pending # ps)" and "pv (fdes s) list_pending = Some (last (list_pending # ps))"
    and "nx (fdes s) (last (list_pending # ps)) = Some list_pending"
proof -
  have "linked (fdes s) ((list_pending # ps) @ [list_pending])" using assms by (simp add: ring_def)
  from linked_snoc[THEN iffD1, OF _ this]
  show "linked (fdes s) (list_pending # ps)" "pv (fdes s) list_pending = Some (last (list_pending # ps))"
    "nx (fdes s) (last (list_pending # ps)) = Some list_pending" by auto
qed

lemma linked_mem: "linked h (as @ x # y # bs) \<Longrightarrow> nx h x = Some y \<and> pv h y = Some x"
  using linked_append[of h as x "y # bs"] by simp

lemma ring_enqueue:
  assumes r: "ring s ps" and n: "fdes s node = Some x" "node \<notin> set (list_pending # ps)"
  shows "\<exists>s'. plist_enqueue node s = Some s' \<and> ring s' (ps @ [node]) \<and> same_core s s'"
proof -
  define l where "l = last (list_pending # ps)"
  note rl = ring_last[OF r, folded l_def]
  obtain L where L: "fdes s list_pending = Some L" "prev_fde L = l" using rl(2) by (auto simp: pv_def)
  obtain lx where lx: "fdes s l = Some lx" using rl(3) by (auto simp: nx_def)
  have lin: "l \<in> set (list_pending # ps)" by (simp add: l_def)
  then have ne: "l \<noteq> node" "node \<noteq> list_pending" using n(2) by auto
  define h1 where "h1 = (fdes s)(node \<mapsto> x\<lparr>next_fde := list_pending, prev_fde := l\<rparr>)"
  define h2 where "h2 = h1(l \<mapsto> lx\<lparr>next_fde := node\<rparr>)"
  obtain L2 where L2: "h2 list_pending = Some L2" "core L2 = core L" "l \<noteq> list_pending \<longrightarrow> L2 = L" "l = list_pending \<longrightarrow> L2 = lx\<lparr>next_fde := node\<rparr>"
    using L lx ne by (cases "l = list_pending") (auto simp: h2_def h1_def)
  define h3 where "h3 = h2(list_pending \<mapsto> L2\<lparr>prev_fde := node\<rparr>)"
  define s' where "s' = s\<lparr>fdes := h3\<rparr>"
  have e: "plist_enqueue node s = Some s'"
    using n(1) ne L lx L2 by (cases "l = list_pending") (clarsimp simp: plist_enqueue_def upd_fde_def s'_def h3_def h2_def h1_def)+
  have sc: "same_core s s'"
    using n(1) lx L L2(1,2) by (auto simp: same_core_def s'_def h3_def h2_def h1_def)
  have nx3: "nx h3 a = (if a = node then Some list_pending else if a = l then Some node else nx (fdes s) a)" for a
    using ne L2 L lx by (auto simp: h3_def h2_def h1_def nx_pv_upd) (auto simp: nx_def)
  have pv3: "pv h3 a = (if a = list_pending then Some node else if a = node then Some l else pv (fdes s) a)" for a
    using ne lx by (auto simp: h3_def h2_def h1_def nx_pv_upd) (auto simp: pv_def)
  have d: "distinct (list_pending # ps)" using r by (simp add: ring_def)
  note rl(1)
  moreover have "linked h3 (list_pending # ps) = linked (fdes s) (list_pending # ps)"
  proof (rule linked_cong)
    fix a assume a: "a \<in> set (butlast (list_pending # ps))"
    have "distinct (butlast (list_pending # ps) @ [l])" using d unfolding l_def by (metis append_butlast_last_id list.distinct(1))
    with a have "a \<noteq> l" by auto
    moreover have "a \<noteq> node" using a n(2) by (metis in_set_butlastD)
    ultimately show "nx h3 a = nx (fdes s) a" by (simp add: nx3)
  next
    fix a assume "a \<in> set (List.tl (list_pending # ps))"
    then show "pv h3 a = pv (fdes s) a" using d n(2) by (auto simp: pv3)
  qed
  ultimately have "linked h3 (list_pending # ps)" by simp
  moreover have "nx h3 l = Some node" "pv h3 node = Some l" "nx h3 node = Some list_pending" "pv h3 list_pending = Some node"
    using ne by (simp_all add: nx3 pv3)
  ultimately have "linked h3 (list_pending # ps @ [node, list_pending])"
    using linked_snoc[of "list_pending # ps" h3 node] linked_snoc[of "list_pending # ps @ [node]" h3 list_pending] unfolding l_def by simp
  then have "ring s' (ps @ [node])" using d n(2) by (simp add: ring_def s'_def)
  with e sc show ?thesis by blast
qed

lemma dequeue_empty: "ring s [] \<Longrightarrow> plist_dequeue s = Some (0, s)"
  by (auto simp: ring_def plist_dequeue_def nx_def)

lemma ring_dequeue:
  assumes r: "ring s (p # ps)"
  shows "\<exists>s'. plist_dequeue s = Some (p, s') \<and> ring s' ps \<and> same_core s s'"
proof -
  obtain q qs where q: "ps @ [list_pending] = q # qs" by (cases ps) auto
  have lk: "linked (fdes s) (list_pending # p # q # qs)" using r q by (simp add: ring_def)
  have d: "distinct (list_pending # p # ps)" using r by (simp add: ring_def)
  have qin: "q \<in> set (list_pending # ps)" using q by (cases ps) auto
  then have qp: "q \<noteq> p" "p \<noteq> list_pending" using d by auto
  obtain L where L: "fdes s list_pending = Some L" "next_fde L = p" using lk by (auto simp: nx_def)
  obtain x where x: "fdes s p = Some x" "next_fde x = q" using lk by (auto simp: nx_def)
  obtain y where y: "fdes s q = Some y" using lk by (auto simp: pv_def)
  define h1 where "h1 = (fdes s)(list_pending \<mapsto> L\<lparr>next_fde := q\<rparr>)"
  obtain y1 where y1: "h1 q = Some y1" "core y1 = core y" "next_fde y1 = (if q = list_pending then q else next_fde y)"
    using y L by (cases "q = list_pending") (auto simp: h1_def)
  define h2 where "h2 = h1(q \<mapsto> y1\<lparr>prev_fde := list_pending\<rparr>)"
  define h3 where "h3 = h2(p \<mapsto> x\<lparr>next_fde := 0, prev_fde := 0\<rparr>)"
  define s' where "s' = s\<lparr>fdes := h3\<rparr>"
  have e: "plist_dequeue s = Some (p, s')"
    using L x y1(1) qp by (cases "q = list_pending") (auto simp: plist_dequeue_def upd_fde_def s'_def h3_def h2_def h1_def)
  have sc: "same_core s s'"
    using L x y y1 by (auto simp: same_core_def s'_def h3_def h2_def h1_def)
  have nx3: "nx h3 a = (if a = p then Some 0 else if a = list_pending then Some q else nx (fdes s) a)" for a
    using qp y1 y by (auto simp: h3_def h2_def h1_def nx_pv_upd) (auto simp: nx_def)
  have pv3: "pv h3 a = (if a = p then Some 0 else if a = q then Some list_pending else pv (fdes s) a)" for a
    using qp L by (auto simp: h3_def h2_def h1_def nx_pv_upd) (auto simp: pv_def)
  have "linked h3 (q # qs) = linked (fdes s) (q # qs)"
  proof (rule linked_cong)
    fix a assume "a \<in> set (butlast (q # qs))"
    then have "a \<in> set ps" using q by (metis butlast_snoc)
    with d show "nx h3 a = nx (fdes s) a" by (auto simp: nx3)
  next
    fix a assume a: "a \<in> set (List.tl (q # qs))"
    have "distinct (q # qs)" using d unfolding q[symmetric] by auto
    moreover have "p \<notin> set (q # qs)" using d qp unfolding q[symmetric] by auto
    ultimately show "pv h3 a = pv (fdes s) a" using a by (auto simp: pv3)
  qed
  then have "linked h3 (list_pending # q # qs)" using lk qp by (simp add: nx3 pv3)
  then have "linked h3 (list_pending # ps @ [list_pending])" unfolding q .
  then have "ring s' ps" using d by (simp add: ring_def s'_def)
  with e sc show ?thesis by blast
qed

lemma linked_join: "linked h (as @ [x]) \<Longrightarrow> linked h (x # bs) \<Longrightarrow> linked h (as @ x # bs)"
  using linked_append[of h as x bs] by simp

lemma ring_remove:
  assumes r: "ring s (as @ p # bs)"
  shows "\<exists>s'. plist_remove p s = Some s' \<and> ring s' (as @ bs) \<and> same_core s s'"
proof -
  define a where "a = last (list_pending # as)"
  obtain us where us: "list_pending # as = us @ [a]" unfolding a_def by (metis append_butlast_last_id list.distinct(1))
  obtain b vs where vs: "bs @ [list_pending] = b # vs" by (cases bs) auto
  have d: "distinct (list_pending # as @ p # bs)" using r by (simp add: ring_def)
  have e: "tl (us @ [a]) = as" "butlast (b # vs) = bs" unfolding us[symmetric] vs[symmetric] by simp_all
  have m: "a \<in> set (list_pending # as)" "b \<in> set (list_pending # bs)" using vs by (simp add: a_def) (cases bs; use vs in auto)
  have sets: "distinct (us @ [a])" "distinct (b # vs)" "p \<notin> set (us @ [a])" "p \<notin> set (b # vs)"
    unfolding us[symmetric] vs[symmetric] using d by auto
  have "list_pending # (as @ p # bs) @ [list_pending] = (list_pending # as) @ p # (bs @ [list_pending])"
    unfolding append_Cons append_assoc by (rule refl)
  also have "\<dots> = us @ a # p # b # vs" unfolding us vs append_assoc append_Cons append_Nil by (rule refl)
  finally have k1: "list_pending # (as @ p # bs) @ [list_pending] = us @ a # p # b # vs" .
  have "list_pending # (as @ bs) @ [list_pending] = (list_pending # as) @ (bs @ [list_pending])"
    unfolding append_Cons append_assoc by (rule refl)
  also have "\<dots> = us @ a # b # vs" unfolding us vs append_assoc append_Cons append_Nil by (rule refl)
  finally have k2: "list_pending # (as @ bs) @ [list_pending] = us @ a # b # vs" .
  have lk: "linked (fdes s) (us @ a # p # b # vs)" using r unfolding ring_def k1 by (rule conjunct2)
  have l1: "linked (fdes s) (us @ [a])" using lk linked_append[of "fdes s" us a "p # b # vs"] by simp
  have l2: "linked (fdes s) (a # p # b # vs)" using lk linked_append[of "fdes s" us a "p # b # vs"] by simp
  obtain x where x: "fdes s p = Some x" "next_fde x = b" "prev_fde x = a" using l2 by (auto simp: nx_def pv_def)
  obtain A where A: "fdes s a = Some A" using l2 by (auto simp: nx_def)
  obtain B where B: "fdes s b = Some B" using l2 by (auto simp: pv_def)
  have ne: "a \<noteq> p" "b \<noteq> p" using sets by auto
  define h1 where "h1 = (fdes s)(a \<mapsto> A\<lparr>next_fde := b\<rparr>)"
  obtain B1 where B1: "h1 b = Some B1" "core B1 = core B" "next_fde B1 = (if b = a then b else next_fde B)"
    using A B by (cases "b = a") (auto simp: h1_def)
  define h3 where "h3 = h1(b \<mapsto> B1\<lparr>prev_fde := a\<rparr>, p \<mapsto> x\<lparr>next_fde := 0, prev_fde := 0\<rparr>)"
  define s' where "s' = s\<lparr>fdes := h3\<rparr>"
  have eq: "plist_remove p s = Some s'"
    using ne A x B1(1) by (cases "b = a") (auto simp: plist_remove_def upd_fde_def s'_def h3_def h1_def)
  have sc: "same_core s s'" using A x B B1 by (auto simp: same_core_def s'_def h3_def h1_def)
  have nx3: "nx h3 q = (if q = p then Some 0 else if q = a then Some b else nx (fdes s) q)" for q
    using B B1 by (auto simp: h3_def h1_def nx_pv_upd) (auto simp: nx_def)
  have pv3: "pv h3 q = (if q = p then Some 0 else if q = b then Some a else pv (fdes s) q)" for q
    using A by (auto simp: h3_def h1_def nx_pv_upd) (auto simp: pv_def)
  have ab: "a \<notin> set bs" "b \<notin> set as" using m d by auto
  have "linked h3 (us @ [a]) = linked (fdes s) (us @ [a])"
  proof (rule linked_cong)
    show "nx h3 q = nx (fdes s) q" if "q \<in> set (butlast (us @ [a]))" for q
      using that sets(1,3) by (auto simp: nx3)
    show "pv h3 q = pv (fdes s) q" if "q \<in> set (tl (us @ [a]))" for q
      using that ab(2) d unfolding e by (auto simp: pv3)
  qed
  moreover have "linked h3 (b # vs) = linked (fdes s) (b # vs)"
  proof (rule linked_cong)
    show "nx h3 q = nx (fdes s) q" if "q \<in> set (butlast (b # vs))" for q
      using that ab(1) d unfolding e by (auto simp: nx3)
    show "pv h3 q = pv (fdes s) q" if "q \<in> set (tl (b # vs))" for q
      using that sets(2,4) by (auto simp: pv3)
  qed
  ultimately have "linked h3 (us @ a # b # vs)" using l1 l2 ne by - (rule linked_join, simp_all add: nx3 pv3)
  then have "linked h3 (list_pending # (as @ bs) @ [list_pending])" unfolding k2 .
  moreover have "distinct (list_pending # as @ bs)" using d by auto
  ultimately have "ring s' (as @ bs)" unfolding ring_def s'_def by simp
  with eq sc show ?thesis by blast
qed

section \<open>A turn of the loop\<close>

definition coreof :: "evloop \<Rightarrow> addr \<Rightarrow> fdevent option" where
  "coreof s p = map_option core (fdes s p)"

lemma same_core_coreof: "same_core s s' \<Longrightarrow> coreof s' p = coreof s p"
  by (simp add: same_core_def coreof_def)

lemma same_core_fd_table: "same_core s s' \<Longrightarrow> fd_table s' = fd_table s"
  unfolding same_core_def by (metis evloop.select_convs(2) evloop.surjective evloop.update_convs(1))

lemma linked_ext: "nx h' = nx h \<Longrightarrow> pv h' = pv h \<Longrightarrow> linked h' xs = linked h xs"
  by (rule linked_cong) simp_all

lemma ring_upd:
  assumes "fdes s p = Some x" and "next_fde x' = next_fde x" and "prev_fde x' = prev_fde x"
  shows "ring (s\<lparr>fdes := (fdes s)(p \<mapsto> x')\<rparr>) ps = ring s ps"
proof -
  have "nx ((fdes s)(p \<mapsto> x')) = nx (fdes s)" "pv ((fdes s)(p \<mapsto> x')) = pv (fdes s)"
    using assms by (auto simp: nx_def pv_def)
  from linked_ext[OF this] show ?thesis by (simp add: ring_def)
qed

text \<open>An event that can be posted; one that waits with the events \<open>ev\<close>.\<close>

definition idle :: "evloop \<Rightarrow> addr \<Rightarrow> int \<Rightarrow> bool" where
  "idle s p f \<longleftrightarrow> p \<noteq> 0 \<and> p \<noteq> list_pending \<and>
     (\<exists>x. coreof s p = Some x \<and> fd x = f \<and> events x = 0 \<and> and (state x) FDE_PENDING = 0)"

definition waits :: "evloop \<Rightarrow> addr \<Rightarrow> int \<Rightarrow> u16 \<Rightarrow> bool" where
  "waits s p f ev \<longleftrightarrow> p \<noteq> 0 \<and> p \<noteq> list_pending \<and> (\<exists>x. coreof s p = Some x \<and> fd x = f \<and> events x = ev)"

lemma post_lemma:
  assumes "ring s ps" and "idle s p f" and "p \<notin> set ps"
  shows "\<exists>s1 x s2 s'. upd_fde p (\<lambda>x. x\<lparr>events := or (events x) ev\<rparr>) s = Some s1 \<and> fdes s1 p = Some x \<and>
    and (state x) FDE_PENDING = 0 \<and> events x = ev \<and> upd_fde p (\<lambda>x. x\<lparr>state := or (state x) FDE_PENDING\<rparr>) s1 = Some s2 \<and>
    plist_enqueue p s2 = Some s' \<and> ring s' (ps @ [p]) \<and> fd_table s' = fd_table s \<and> waits s' p f ev \<and>
    (\<forall>q. q \<noteq> p \<longrightarrow> coreof s' q = coreof s q)"
proof -
  obtain x where x: "fdes s p = Some x" "fd x = f" "events x = 0" "and (state x) FDE_PENDING = 0" and p: "p \<noteq> 0" "p \<noteq> list_pending"
    using assms(2) by (auto simp: idle_def coreof_def)
  define y where "y = x\<lparr>events := ev\<rparr>"
  define s1 where "s1 = s\<lparr>fdes := (fdes s)(p \<mapsto> y)\<rparr>"
  define s2 where "s2 = s1\<lparr>fdes := (fdes s1)(p \<mapsto> y\<lparr>state := or (state y) FDE_PENDING\<rparr>)\<rparr>"
  have u1: "upd_fde p (\<lambda>x. x\<lparr>events := or (events x) ev\<rparr>) s = Some s1" using x by (simp add: upd_fde_def s1_def y_def)
  have u2: "upd_fde p (\<lambda>x. x\<lparr>state := or (state x) FDE_PENDING\<rparr>) s1 = Some s2" by (simp add: upd_fde_def s2_def s1_def)
  have "ring s1 ps" unfolding s1_def by (subst ring_upd[OF x(1)]) (simp_all add: y_def assms(1))
  then have "ring s2 ps" unfolding s2_def by (subst ring_upd[of s1 p y]) (simp_all add: s1_def)
  from ring_enqueue[OF this, of p] obtain s' where
    e: "plist_enqueue p s2 = Some s'" "ring s' (ps @ [p])" "same_core s2 s'" using p assms(3) by (auto simp: s2_def)
  have "fd_table s' = fd_table s" using same_core_fd_table[OF e(3)] by (simp add: s1_def s2_def)
  moreover have "coreof s' p = Some (core (y\<lparr>state := or (state y) FDE_PENDING\<rparr>))"
    unfolding same_core_coreof[OF e(3)] by (simp add: coreof_def s2_def)
  then have "waits s' p f ev" using p x unfolding waits_def by (simp add: y_def)
  moreover have "\<forall>q. q \<noteq> p \<longrightarrow> coreof s' q = coreof s q" unfolding same_core_coreof[OF e(3)] by (simp add: coreof_def s2_def s1_def)
  moreover have "fdes s1 p = Some y" "and (state y) FDE_PENDING = 0" "events y = ev" using x by (simp_all add: s1_def y_def)
  ultimately show ?thesis using u1 u2 e(1,2) by blast
qed

lemma process_loop_lemma:
  fixes rfd wfd efd :: fd_set
  defines "R \<equiv> \<lambda>j::nat. ready_events (int j) rfd wfd efd"
  assumes "ring s ps" and "i + k \<le> length (fd_table s)"
    and "\<forall>j \<in> set (filter (\<lambda>j. R j \<noteq> 0) [i..<i + k]). idle s (fd_table s ! j) (int j)"
    and "distinct (ps @ map ((!) (fd_table s)) (filter (\<lambda>j. R j \<noteq> 0) [i..<i + k]))"
    and "int (length (filter (\<lambda>j. R j \<noteq> 0) [i..<i + k])) \<le> n"
  shows "\<exists>s'. process_loop k (int i) n rfd wfd efd s = Some s' \<and>
    ring s' (ps @ map ((!) (fd_table s)) (filter (\<lambda>j. R j \<noteq> 0) [i..<i + k])) \<and> fd_table s' = fd_table s \<and>
    (\<forall>j \<in> set (filter (\<lambda>j. R j \<noteq> 0) [i..<i + k]). waits s' (fd_table s ! j) (int j) (R j)) \<and>
    (\<forall>q. q \<notin> (!) (fd_table s) ` set (filter (\<lambda>j. R j \<noteq> 0) [i..<i + k]) \<longrightarrow> coreof s' q = coreof s q)"
  using assms(2-)
proof (induction k arbitrary: i n s ps)
  case (Suc k)
  let ?js = "filter (\<lambda>j. R j \<noteq> 0) [Suc i..<Suc i + k]"
  have up: "[i..<i + Suc k] = i # [Suc i..<Suc i + k]" by (simp add: upt_conv_Cons)
  have si: "int i + 1 = int (Suc i)" by simp
  show ?case
  proof (cases "R i = 0")
    case True
    have "process_loop (Suc k) (int i) n rfd wfd efd s = process_loop k (int (Suc i)) n rfd wfd efd s \<or> n \<le> 0"
      using True by (simp add: R_def si)
    moreover have "n \<le> 0 \<Longrightarrow> length ?js = 0" using Suc.prems(5) True unfolding up by (simp del: upt.simps length_0_conv)
    moreover have "\<exists>s'. process_loop k (int (Suc i)) n rfd wfd efd s = Some s' \<and>
      ring s' (ps @ map ((!) (fd_table s)) ?js) \<and> fd_table s' = fd_table s \<and>
      (\<forall>j \<in> set ?js. waits s' (fd_table s ! j) (int j) (R j)) \<and>
      (\<forall>q. q \<notin> (!) (fd_table s) ` set ?js \<longrightarrow> coreof s' q = coreof s q)"
      by (rule Suc.IH) (use Suc.prems True in \<open>simp_all only: up filter.simps\<close>, simp_all)
    ultimately show ?thesis using True Suc.prems(1) unfolding up by (cases "n \<le> 0") simp_all
  next
    case False
    let ?p = "fd_table s ! i"
    have id: "idle s ?p (int i)" and p: "?p \<notin> set ps" "?p \<noteq> 0" using Suc.prems(3,4) False unfolding up by (simp_all add: idle_def)
    have n: "\<not> n \<le> 0" using Suc.prems(5) False unfolding up by simp
    from post_lemma[OF Suc.prems(1) id p(1), of "R i"] obtain s1 x s2 s3 where
      q: "upd_fde ?p (\<lambda>x. x\<lparr>events := or (events x) (R i)\<rparr>) s = Some s1" "fdes s1 ?p = Some x"
      "and (state x) FDE_PENDING = 0" "upd_fde ?p (\<lambda>x. x\<lparr>state := or (state x) FDE_PENDING\<rparr>) s1 = Some s2"
      "plist_enqueue ?p s2 = Some s3" and r3: "ring s3 (ps @ [?p])" and t3: "fd_table s3 = fd_table s"
      and w3: "waits s3 ?p (int i) (R i)" and f3: "\<forall>q. q \<noteq> ?p \<longrightarrow> coreof s3 q = coreof s q" by blast
    have get: "list_get (fd_table s) (nat (int i)) = Some ?p" using Suc.prems(2) by (simp add: list_get_def)
    have step: "process_loop (Suc k) (int i) n rfd wfd efd s = process_loop k (int (Suc i)) (n - 1) rfd wfd efd s3"
      using n False q get p(2) unfolding R_def by (simp add: si)
    have dis: "?p \<notin> (!) (fd_table s) ` set ?js" using Suc.prems(4) False unfolding up by simp
    have "\<exists>s'. process_loop k (int (Suc i)) (n - 1) rfd wfd efd s3 = Some s' \<and>
      ring s' ((ps @ [?p]) @ map ((!) (fd_table s3)) ?js) \<and> fd_table s' = fd_table s3 \<and>
      (\<forall>j \<in> set ?js. waits s' (fd_table s3 ! j) (int j) (R j)) \<and>
      (\<forall>q. q \<notin> (!) (fd_table s3) ` set ?js \<longrightarrow> coreof s' q = coreof s3 q)"
    proof (rule Suc.IH)
      show "\<forall>j \<in> set ?js. idle s3 (fd_table s3 ! j) (int j)"
      proof
        fix j assume j: "j \<in> set ?js"
        then have "fd_table s ! j \<noteq> ?p" using dis by (metis imageI)
        moreover have "idle s (fd_table s ! j) (int j)"
          by (rule bspec[OF Suc.prems(3)]) (use j in \<open>simp only: up filter.simps set_simps insert_iff simp_thms split: if_split\<close>)
        ultimately show "idle s3 (fd_table s3 ! j) (int j)" using f3 by (simp add: idle_def t3)
      qed
      show "distinct ((ps @ [?p]) @ map ((!) (fd_table s3)) ?js)" using Suc.prems(4) False unfolding up t3 by auto
      show "int (length ?js) \<le> n - 1"
        using Suc.prems(5) False by (simp only: up filter.simps if_True simp_thms list.size(4))
    qed (use r3 Suc.prems(2) in \<open>simp_all add: t3\<close>)
    then obtain s' where s': "process_loop k (int (Suc i)) (n - 1) rfd wfd efd s3 = Some s'"
      "ring s' ((ps @ [?p]) @ map ((!) (fd_table s)) ?js)" "fd_table s' = fd_table s"
      "\<forall>j \<in> set ?js. waits s' (fd_table s ! j) (int j) (R j)" "\<forall>q. q \<notin> (!) (fd_table s) ` set ?js \<longrightarrow> coreof s' q = coreof s3 q"
      unfolding t3 by blast
    have "waits s' ?p (int i) (R i)" using w3 s'(5) dis by (simp add: waits_def)
    then show ?thesis using False s' f3 step unfolding up by simp
  qed
qed simp

lemma epoll_loop_lemma:
  assumes "ring s ps" and "\<forall>(p, w) \<in> set evs. \<exists>f. idle s p f \<and> F p = f \<and> posted_bits w \<noteq> 0"
    and "distinct (ps @ map fst evs)"
  shows "\<exists>s'. epoll_loop evs s = Some s' \<and> ring s' (ps @ map fst evs) \<and> fd_table s' = fd_table s \<and>
    (\<forall>(p, w) \<in> set evs. waits s' p (F p) (posted_bits w)) \<and> (\<forall>q. q \<notin> fst ` set evs \<longrightarrow> coreof s' q = coreof s q)"
  using assms
proof (induction evs arbitrary: s ps)
  case (Cons ev evs)
  obtain p w where ev: "ev = (p, w)" by (cases ev)
  have id: "idle s p (F p)" and w0: "posted_bits w \<noteq> 0" and p: "p \<notin> set ps" "p \<notin> fst ` set evs"
    using Cons.prems(2,3) by (auto simp: ev)
  from post_lemma[OF Cons.prems(1) id p(1), of "posted_bits w"] obtain s1 x s2 s3 where
    q: "upd_fde p (\<lambda>x. x\<lparr>events := or (events x) (posted_bits w)\<rparr>) s = Some s1" "fdes s1 p = Some x"
    "and (state x) FDE_PENDING = 0" "events x = posted_bits w"
    "upd_fde p (\<lambda>x. x\<lparr>state := or (state x) FDE_PENDING\<rparr>) s1 = Some s2"
    "plist_enqueue p s2 = Some s3" and r3: "ring s3 (ps @ [p])" and t3: "fd_table s3 = fd_table s"
    and w3: "waits s3 p (F p) (posted_bits w)" and f3: "\<forall>q. q \<noteq> p \<longrightarrow> coreof s3 q = coreof s q" by blast
  have step: "epoll_loop (ev # evs) s = epoll_loop evs s3" using q w0 by (simp add: ev)
  have "\<forall>(p, w) \<in> set evs. \<exists>f. idle s3 p f \<and> F p = f \<and> posted_bits w \<noteq> 0"
  proof
    fix e assume e: "e \<in> set evs"
    then have "fst e \<noteq> p" using p(2) by auto
    moreover have "case e of (p, w) \<Rightarrow> \<exists>f. idle s p f \<and> F p = f \<and> posted_bits w \<noteq> 0" using Cons.prems(2) e by simp
    ultimately show "case e of (p, w) \<Rightarrow> \<exists>f. idle s3 p f \<and> F p = f \<and> posted_bits w \<noteq> 0"
      using f3 by (simp add: idle_def split: prod.splits)
  qed
  from Cons.IH[OF r3 this] Cons.prems(3) obtain s' where
    s': "epoll_loop evs s3 = Some s'" "ring s' (ps @ [p] @ map fst evs)" "fd_table s' = fd_table s3"
    "\<forall>(p, w) \<in> set evs. waits s' p (F p) (posted_bits w)" "\<forall>q. q \<notin> fst ` set evs \<longrightarrow> coreof s' q = coreof s3 q"
    by (auto simp: ev)
  have "waits s' p (F p) (posted_bits w)" using w3 s'(5) p(2) by (simp add: waits_def)
  then show ?case using s' step t3 f3 by (simp add: ev)
qed simp

text \<open>The inner loop, with callbacks that leave the event loop alone.\<close>

lemma drain_lemma:
  assumes "\<forall>f i ev a s. call f i ev a s = Some s"
  shows "ring s (map g js) \<Longrightarrow> distinct (map g js) \<Longrightarrow> \<forall>j \<in> set js. waits s (g j) (F j) (R j) \<Longrightarrow>
    \<exists>s'. drain call s = Some (s', map (\<lambda>j. (F j, R j)) js) \<and> ring s' [] \<and>
      (\<forall>j \<in> set js. idle s' (g j) (F j)) \<and> fd_table s' = fd_table s \<and>
      (\<forall>q. q \<notin> g ` set js \<longrightarrow> coreof s' q = coreof s q)"
proof (induction js arbitrary: s)
  case Nil
  then show ?case by (simp add: dequeue_empty drain.simps[of call s])
next
  case (Cons j js)
  from ring_dequeue[of s "g j" "map g js"] Cons.prems(1) obtain s1 where
    d: "plist_dequeue s = Some (g j, s1)" "ring s1 (map g js)" "same_core s s1" by auto
  have "waits s1 (g j) (F j) (R j)"
    using Cons.prems(3) by (simp add: waits_def same_core_coreof[OF d(3)])
  then obtain x where x: "fdes s1 (g j) = Some x" "fd x = F j" "events x = R j" and p: "g j \<noteq> 0" "g j \<noteq> list_pending"
    by (auto simp: waits_def coreof_def)
  define y where "y = x\<lparr>events := 0, state := and (state x) (not FDE_PENDING)\<rparr>"
  define s2 where "s2 = s1\<lparr>fdes := (fdes s1)(g j \<mapsto> y)\<rparr>"
  have u: "upd_fde (g j) (\<lambda>x. x\<lparr>events := 0, state := and (state x) (not FDE_PENDING)\<rparr>) s1 = Some s2"
    using x by (simp add: upd_fde_def s2_def y_def)
  have r2: "ring s2 (map g js)" unfolding s2_def by (subst ring_upd[OF x(1)]) (simp_all add: y_def d(2))
  have f2: "coreof s2 q = coreof s q" if "q \<noteq> g j" for q
    unfolding same_core_coreof[OF d(3), symmetric] using that by (simp add: coreof_def s2_def)
  have ne: "g j \<notin> g ` set js" using Cons.prems(2) by simp
  have "\<forall>i \<in> set js. waits s2 (g i) (F i) (R i)"
  proof
    fix i assume i: "i \<in> set js"
    with ne have "g i \<noteq> g j" by (metis imageI)
    then show "waits s2 (g i) (F i) (R i)" using Cons.prems(3) i f2 by (simp add: waits_def)
  qed
  from Cons.IH[OF r2 _ this] Cons.prems(2) obtain s' where
    s': "drain call s2 = Some (s', map (\<lambda>j. (F j, R j)) js)" "ring s' []" "\<forall>j \<in> set js. idle s' (g j) (F j)"
    "fd_table s' = fd_table s2" "\<forall>q. q \<notin> g ` set js \<longrightarrow> coreof s' q = coreof s2 q" by auto
  have "drain call s = Some (s', map (\<lambda>j. (F j, R j)) (j # js))"
    using d(1) p x u assms s'(1) by (simp add: drain.simps[of call s])
  moreover have "coreof s' (g j) = Some (core y)" using s'(5) ne by (simp add: coreof_def s2_def)
  then have "idle s' (g j) (F j)" using p x by (simp add: idle_def y_def bit.conj_disj_distrib and.assoc)
  moreover have "fd_table s' = fd_table s" using s'(4) same_core_fd_table[OF d(3)] by (simp add: s2_def)
  ultimately show ?case using s'(2,3,5) f2 by simp
qed

text \<open>
  What the operating system reports: for each event that is ready, its address, descriptor and
  the events to deliver.
\<close>

definition reported :: "wait_result \<Rightarrow> evloop \<Rightarrow> (addr \<times> int \<times> u16) list" where
  "reported w s =
     (case w of
        Select_ready n rfd wfd efd \<Rightarrow>
          map (\<lambda>j. (fd_table s ! j, int j, ready_events (int j) rfd wfd efd))
            (filter (\<lambda>j. ready_events (int j) rfd wfd efd \<noteq> 0) [0..<nat (select_n s)])
      | Epoll_ready evs \<Rightarrow> map (\<lambda>(p, ev). (p, (case fdes s p of Some x \<Rightarrow> fd x | None \<Rightarrow> -1), posted_bits ev)) evs
      | _ \<Rightarrow> [])"

text \<open>
  It fits: no event is reported twice, each is idle and has something to deliver; \<open>select\<close>
  counts every ready descriptor at least once, and its descriptors are in the table.
\<close>

definition report_ok :: "wait_result \<Rightarrow> evloop \<Rightarrow> bool" where
  "report_ok w s \<longleftrightarrow> ring s [] \<and> distinct (map fst (reported w s)) \<and>
     (\<forall>(p, f, ev) \<in> set (reported w s). idle s p f \<and> ev \<noteq> 0) \<and>
     (case w of
        Select_ready n rfd wfd efd \<Rightarrow> nat (select_n s) \<le> length (fd_table s) \<and> int (length (reported w s)) \<le> n
      | Epoll_ready evs \<Rightarrow> True
      | _ \<Rightarrow> False)"

lemma process_reported:
  assumes "report_ok w s"
  shows "\<exists>s1. fdevent_process w s = Some s1 \<and> ring s1 (map fst (reported w s)) \<and>
    (\<forall>(p, f, ev) \<in> set (reported w s). waits s1 p f ev)"
proof (cases w)
  case (Select_ready n rfd wfd efd)
  let ?js = "filter (\<lambda>j. ready_events (int j) rfd wfd efd \<noteq> 0) [0..<nat (select_n s)]"
  have r: "reported w s = map (\<lambda>j. (fd_table s ! j, int j, ready_events (int j) rfd wfd efd)) ?js"
    by (simp add: Select_ready reported_def)
  have "\<exists>s1. process_loop (nat (select_n s)) (int 0) n rfd wfd efd s = Some s1 \<and>
    ring s1 ([] @ map ((!) (fd_table s)) ?js) \<and> fd_table s1 = fd_table s \<and>
    (\<forall>j \<in> set ?js. waits s1 (fd_table s ! j) (int j) (ready_events (int j) rfd wfd efd)) \<and>
    (\<forall>q. q \<notin> (!) (fd_table s) ` set ?js \<longrightarrow> coreof s1 q = coreof s q)"
    using process_loop_lemma[of s "[]" 0 "nat (select_n s)" rfd wfd efd n] assms
    unfolding report_ok_def r by (simp add: Select_ready o_def)
  then show ?thesis unfolding r by (fastforce simp: Select_ready fdevent_process_def o_def)
next
  case (Epoll_ready evs)
  let ?F = "\<lambda>p. case fdes s p of Some x \<Rightarrow> fd x | None \<Rightarrow> -1"
  have r: "reported w s = map (\<lambda>(p, ev). (p, ?F p, posted_bits ev)) evs" by (simp add: Epoll_ready reported_def)
  have m: "map fst (reported w s) = map fst evs" unfolding r by (induction evs) auto
  have "\<forall>(p, ev) \<in> set evs. \<exists>f. idle s p f \<and> ?F p = f \<and> posted_bits ev \<noteq> 0"
    using assms unfolding report_ok_def r by auto
  from epoll_loop_lemma[of s "[]", OF _ this] assms m obtain s1 where
    s1: "epoll_loop evs s = Some s1" "ring s1 (map fst evs)" "\<forall>(p, ev) \<in> set evs. waits s1 p (?F p) (posted_bits ev)"
    by (auto simp: report_ok_def)
  have "\<forall>(p, f, ev) \<in> set (reported w s). waits s1 p f ev" using s1(3) unfolding r by auto
  then show ?thesis using s1(1,2) by (simp add: m) (simp add: Epoll_ready fdevent_process_def)
qed (use assms in \<open>simp_all add: report_ok_def\<close>)

lemma loop_turn_lemma:
  assumes "\<forall>f i ev a s. call f i ev a s = Some s" and "report_ok w s"
  shows "\<exists>s'. loop_turn call w s = Some (s', map snd (reported w s)) \<and> ring s' [] \<and>
    (\<forall>(p, f, ev) \<in> set (reported w s). idle s' p f)"
proof -
  obtain s1 where s1: "fdevent_process w s = Some s1" "ring s1 (map fst (reported w s))"
    "\<forall>(p, f, ev) \<in> set (reported w s). waits s1 p f ev" using process_reported[OF assms(2)] by blast
  have "\<forall>j \<in> set (reported w s). waits s1 (fst j) (fst (snd j)) (snd (snd j))" using s1(3) by fastforce
  from drain_lemma[OF assms(1) s1(2) _ this] assms(2) obtain s' where
    "drain call s1 = Some (s', map (\<lambda>j. (fst (snd j), snd (snd j))) (reported w s))" "ring s' []"
    "\<forall>j \<in> set (reported w s). idle s' (fst j) (fst (snd j))" by (auto simp: report_ok_def)
  moreover have "map (\<lambda>j. (fst (snd j), snd (snd j))) (reported w s) = map snd (reported w s)" by simp
  ultimately show ?thesis using s1(1) by (fastforce simp: loop_turn_def)
qed

section \<open>Posted events and interest\<close>

lemma mask_lemmas:
  "and (or (and st FDE_STATEMASK) (and ev FDE_EVENTMASK)) FDE_PENDING = and st FDE_PENDING"
  "and (or (and st FDE_STATEMASK) (and ev FDE_EVENTMASK)) FDE_EVENTMASK = and ev FDE_EVENTMASK"
  "and (or (and st FDE_STATEMASK) (and ev FDE_EVENTMASK)) FDE_STATEMASK = and st FDE_STATEMASK"
  by (simp_all add: bit.conj_disj_distrib2 and.assoc)

lemma fdevent_set_lemma:
  assumes "fdes s p = Some x" and "and (state x) FDE_PENDING \<noteq> 0" and "if have_epoll s then epoll_fds s (fd x) \<noteq> None else 0 \<le> fd x \<and> fd x < 1024"
    and "and (state x) FDE_EVENTMASK \<noteq> and ev FDE_EVENTMASK" and "and (events x) (not (and ev FDE_EVENTMASK)) \<noteq> 0"
  shows "\<exists>s' x'. fdevent_set p ev s = Some s' \<and> fdes s' p = Some x' \<and> events x' = and (events x) (not (and ev FDE_EVENTMASK)) \<and>
    and (state x') FDE_EVENTMASK = and ev FDE_EVENTMASK \<and> and (state x') FDE_PENDING \<noteq> 0"
proof (cases "and (state x) FDE_ACTIVE = 0")
  case True
  then show ?thesis using assms by (simp add: fdevent_set_def upd_fde_def Let_def mask_lemmas)
next
  case False
  then show ?thesis using assms
    by (cases "have_epoll s")
      (auto simp: fdevent_set_def fdevent_update_def epoll_update_def select_update_def fd_put_def upd_fde_def Let_def mask_lemmas)
qed

section \<open>The properties\<close>

text \<open>
  C32: the ring of pending events is a queue with removal: if it holds the events \<open>ps\<close>, enqueueing
  a new one puts it at the end, dequeueing takes the first (0 when there is none), and removing
  takes the event out of the middle. The other fields of the events do not change.
\<close>

theorem pending_ring_is_queue:
  assumes "ring s ps"
  shows "(p \<noteq> list_pending \<and> p \<notin> set ps \<and> fdes s p = Some x \<longrightarrow>
      (\<exists>s'. plist_enqueue p s = Some s' \<and> ring s' (ps @ [p]) \<and> same_core s s')) \<and>
    (case ps of [] \<Rightarrow> plist_dequeue s = Some (0, s)
     | q # qs \<Rightarrow> \<exists>s'. plist_dequeue s = Some (q, s') \<and> ring s' qs \<and> same_core s s') \<and>
    (q \<in> set ps \<longrightarrow> (\<exists>s'. plist_remove q s = Some s' \<and> ring s' (remove1 q ps) \<and> same_core s s'))"
proof (intro conjI impI)
  show "\<exists>s'. plist_enqueue p s = Some s' \<and> ring s' (ps @ [p]) \<and> same_core s s'"
    if "p \<noteq> list_pending \<and> p \<notin> set ps \<and> fdes s p = Some x"
    by (rule ring_enqueue[OF assms]) (use that in auto)
  show "case ps of [] \<Rightarrow> plist_dequeue s = Some (0, s)
     | q # qs \<Rightarrow> \<exists>s'. plist_dequeue s = Some (q, s') \<and> ring s' qs \<and> same_core s s'"
    using assms ring_dequeue[of s] dequeue_empty[of s] by (cases ps) simp_all
  show "\<exists>s'. plist_remove q s = Some s' \<and> ring s' (remove1 q ps) \<and> same_core s s'" if "q \<in> set ps"
  proof -
    obtain as bs where ps: "ps = as @ q # bs" "q \<notin> set as" using split_list_first[OF \<open>q \<in> set ps\<close>] by blast
    then have "remove1 q ps = as @ bs" by (simp add: remove1_append)
    then show ?thesis using ring_remove[of s as q bs] assms ps(1) by metis
  qed
qed

definition ring_example :: evloop where
  "ring_example = (evloop0 False)\<lparr>fdes := [list_pending \<mapsto> empty_fde\<lparr>next_fde := 10, prev_fde := 10\<rparr>,
     10 \<mapsto> empty_fde\<lparr>next_fde := list_pending, prev_fde := list_pending, fd := 3\<rparr>, 20 \<mapsto> empty_fde]\<rparr>"

lemma pending_ring_is_queue_witness:
  "(\<exists>s'. plist_enqueue 20 ring_example = Some s' \<and> ring s' [10, 20]) \<and> (\<exists>s'. plist_remove 10 ring_example = Some s' \<and> ring s' [])"
proof -
  have "ring ring_example [10]" by (simp add: ring_def ring_example_def nx_def pv_def evloop0_def)
  from pending_ring_is_queue[OF this, of 20 empty_fde 10] show ?thesis by (auto simp: ring_example_def)
qed


definition loop_example :: evloop where
  "loop_example = (evloop0 True)\<lparr>fdes := (fdes (evloop0 True))(10 \<mapsto> empty_fde\<lparr>fd := 0\<rparr>, 20 \<mapsto> empty_fde\<lparr>fd := 2\<rparr>),
     fd_table := [10, 0, 20], fd_table_max := 3, select_n := 3\<rparr>"


text \<open>
  changing the interest of an event that is waiting for its callback keeps exactly the posted
  events that are no longer wanted, and drops the ones that are: the mask that
  \<open>fdevent_set\<close> applies to \<open>events\<close> is the complement of the wanted one, against its comment.
\<close>

theorem fdevent_set_keeps_unwanted:
  assumes "fdes s p = Some x" and "and (state x) FDE_PENDING \<noteq> 0" and "if have_epoll s then epoll_fds s (fd x) \<noteq> None else 0 \<le> fd x \<and> fd x < 1024"
    and "and (state x) FDE_EVENTMASK \<noteq> and ev FDE_EVENTMASK" and "and (events x) (not (and ev FDE_EVENTMASK)) \<noteq> 0"
  shows "\<exists>s' x'. fdevent_set p ev s = Some s' \<and> fdes s' p = Some x' \<and> events x' = and (events x) (not (and ev FDE_EVENTMASK)) \<and>
    and (state x') FDE_EVENTMASK = and ev FDE_EVENTMASK \<and> and (state x') FDE_PENDING \<noteq> 0"
  by (rule fdevent_set_lemma[OF assms])

text \<open>Here the event waits with a read and a write; after \<open>fdevent_set\<close> to reads, the write is delivered.\<close>

lemma fdevent_set_keeps_unwanted_witness:
  "\<exists>s' x'. fdevent_set 10 FDE_READ (ring_example\<lparr>fdes := (fdes ring_example)(10 \<mapsto>
      empty_fde\<lparr>next_fde := list_pending, prev_fde := list_pending, fd := 3, state := 0x203, events := 3\<rparr>)\<rparr>) = Some s' \<and>
     fdes s' 10 = Some x' \<and> events x' = FDE_WRITE \<and> and (state x') FDE_EVENTMASK = FDE_READ"
  using fdevent_set_keeps_unwanted[of "ring_example\<lparr>fdes := (fdes ring_example)(10 \<mapsto>
      empty_fde\<lparr>next_fde := list_pending, prev_fde := list_pending, fd := 3, state := 0x203, events := 3\<rparr>)\<rparr>" 10
      "empty_fde\<lparr>next_fde := list_pending, prev_fde := list_pending, fd := 3, state := 0x203, events := 3\<rparr>" FDE_READ]
  by (auto simp: ring_example_def evloop0_def)

end
