(* ===== verification/Spec2Isabelle.thy ===== *)
theory Spec2Isabelle
  imports KList KIpcProps KAspaceProps LibcString LibcSort BootstrapProps ConsoleProps HashProps FdeventProps VfsProps
begin

text \<open>
  This is a development on OpenBLT, the operating system in \<open>openblt/\<close>, and on a part of the
  tools beside it. OpenBLT is a microkernel: tasks in address spaces of their own, which talk
  through ports and semaphores and name everything by the handles of one resource table; the
  rest of the system are servers in user space on top of a small C library.

  \<^bold>\<open>Parts and theories\<close>

  \<^item> Theory \<open>Prelude\<close>: machine integers as the code uses them, access to lists with a bound, the
    option monad, chains in memory, and the general lemmas.
  \<^item> \<open>KMemory\<close>, \<open>KMemInit\<close> (\<open>kernel/memory.c\<close>): page frames, kernel pages and block pools, with
    the invariant that no two live blocks overlap; what \<open>memory_init\<close> sets up.
  \<^item> \<open>KList\<close> (\<open>kernel/list.c\<close>): the doubly linked lists at the level of their pointers, refined to
    HOL lists (\<open>list_remove\<close> is \<open>remove1\<close>, adding is \<open>Cons\<close> and append). The locale of queues is
    interpreted on them.
  \<^item> \<open>KState\<close> (\<open>kernel/resource.c\<close>, \<open>kernel.c\<close>, \<open>task.c\<close>): the state of the kernel as one record
    \<open>kern\<close> (resources, tasks, teams, ports, semaphores, areas, address spaces, messages), the
    handles, the wait queues, the run queue and the context switch. A task that blocks inside a
    system call leaves a continuation \<open>kont\<close>, with which it goes on when it gets the processor.
  \<^item> \<open>KIpc\<close> (\<open>sem.c\<close>, \<open>port.c\<close>), \<open>KAspace\<close> (\<open>aspace.c\<close>), \<open>KTask\<close> (\<open>task.c\<close>, \<open>team.c\<close>),
    \<open>KSyscall\<close> (\<open>syscall.c\<close>, \<open>fault.c\<close>): the operations, and the step relation of the kernel:
    a system call of the running task, a device or timer interrupt, an exception.
  \<^item> \<open>KInv\<close>, \<open>KInvOps\<close>, \<open>KInvTask\<close>, \<open>KReach\<close>: the kernel invariant \<open>kinv\<close> (the handle table names
    exactly the live resources, every task is on the queue it waits on and on no other, only the
    running task is not queued) and its preservation, operation by operation, up to the reachable
    states. \<open>KProps\<close>, \<open>KIpcProps\<close>, \<open>KAspaceProps\<close> hold the properties.
  \<^item> \<open>LibcString\<close> (\<open>lib/libc/string.c\<close>, \<open>strlcpy.c\<close>, \<open>strlcat.c\<close>) and \<open>LibcFormat\<close> (\<open>snprintf.c\<close>,
    \<open>stdlib.c\<close>): the C library on objects as lists of bytes. \<open>LibcSort\<close> (\<open>qsort.c\<close>): sorting, for
    any comparison function.
  \<^item> \<open>BootImage\<close> (\<open>util/bootmaker.c\<close>, \<open>boot/boot.c\<close>, \<open>kmain\<close> of \<open>kernel.c\<close>): the description of a
    boot image, the image that is built from it, the second stage that maps the kernel, and the
    kernel's first look at both. \<open>BootProps\<close> and \<open>BootstrapProps\<close> follow the files of an image to
    the kernel, which finds itself and the memory that is left, and through the file system
    server to a client.
  \<^item> \<open>NetBoot\<close> (\<open>netboot/netboot.c\<close>), \<open>NetBootHost\<close> (\<open>util/netboot.c\<close>): the loader on the machine and
    the sender on the host, on frames as bytes, and the two with a network between them that may
    lose, repeat and reorder. \<open>NetBootProps\<close>: the image that is started is the one that was
    sent, and one can always be.
  \<^item> \<open>Vt100\<close>, \<open>Vt100Props\<close> (\<open>srv/console2/vt100.c\<close>): the terminal, its screen memory and the parser
    of escape sequences. \<open>Console\<close>, \<open>ConsoleProps\<close> (\<open>srv/console2/console.c\<close>): ten virtual screens
    and a status line that share the video memory; the console calls the terminal and
    \<open>va_snprintf\<close>.
  \<^item> \<open>HashTable\<close>, \<open>HashProps\<close> (\<open>lib/libblt/hash.c\<close>): the hash table, as a map. Its locale
    \<open>map_table\<close> is what a client may rely on.
  \<^item> \<open>VfsPath\<close> (\<open>srv/vfs/path.c\<close>): paths in their buffers, against a stack of components.
  \<^item> \<open>Vfs\<close> (\<open>srv/vfs/vnode.c\<close>, \<open>rootfs.c\<close>, \<open>bootfs.c\<close>), \<open>VfsServer\<close> (\<open>vfs.c\<close>, \<open>super.c\<close>, \<open>fs.c\<close>,
    \<open>shm.c\<close>) and \<open>VfsClient\<close> (\<open>lib/libposix/vfs.c\<close>, \<open>fdl.c\<close>): the file system server. It calls a
    file system through its table of operations, keeps its clients in the hash table, and answers
    the C library with messages. \<open>VfsProps\<close> is about the whole of it: what a process reads. The
    locale \<open>listable\<close> is what the server relies on when it lists a directory; both file systems
    are interpretations. \<open>VfsStart\<close>: the two mounts of the start and the first client.
  \<^item> \<open>Fdevent\<close>, \<open>FdeventProps\<close> (\<open>utils/fdevent.c\<close>): the event loop of the host tools, with
    both versions of its lower part, on \<open>epoll\<close> and on \<open>select\<close>.

  \<^bold>\<open>Conventions\<close>

  An operation takes the state and gives the new one in \<open>option\<close>. \<open>None\<close> is the end of what the
  model describes: an access outside an object, a NULL or dangling pointer, \<open>panic\<close>, the
  debugger, and for a \<open>partial_function\<close> also a loop that does not end. So \<open>f s = Some s'\<close> says
  that the code returns and makes no such access. The errors that the code returns are values.
  Integers keep their width where it matters: \<open>u32\<close> and \<open>u8\<close> are words, an \<open>int\<close> is an \<open>int\<close> that
  \<open>s32\<close> wraps around. Handles and addresses are \<open>nat\<close>.

  \<^bold>\<open>Loops and bounds\<close>

  Loops over a list or a counter are structural recursion; \<open>span_loop\<close>, \<open>udigits\<close>, \<open>va_loop\<close>,
  \<open>grow_max\<close> and the like are functions with a measure. The probe loops of the hash table, the
  loop that delivers events and those over pointers are \<open>partial_function (option)\<close>, and that
  they return is part of what is proved about them. \<open>hashtable_insert\<close> calls
  \<open>hashtable_rebuild\<close>, which calls it again: \<open>insert_depth\<close> bounds this by 27, the number of
  sizes plus one; no call reaches the bound, because a rebuilt table is larger.

  \<^bold>\<open>Not modelled\<close>

  Code that only prints or that drives hardware: the debugger and tracing of the kernel
  (\<open>debug.c\<close>, \<open>ktrace.c\<close>), multiprocessor start (\<open>smp.c\<close>), descriptors and port I/O (most of
  \<open>i386.c\<close>), the first stage of the boot, the drivers (\<open>ne2000\<close>, \<open>ide\<close>, \<open>fish\<close>, \<open>fb\<close>, \<open>pci\<close>) and the
  network server, which is a draft. Of the file system server, the thread that loads drivers
  (\<open>vfs_tell\<close>) is left out; of the C library, what other parts do not use. \<open>malloc.c\<close>
  is third-party code.
\<close>

end
